(* ===== verification/Journal_Prelude.thy ===== *)
theory Journal_Prelude
  imports Complex_Main "HOL-Library.Char_ord" "HOL-Library.List_Lexorder" "HOL-Library.Product_Lexorder"
    "HOL-Library.Code_Target_Nat"
begin

text \<open>
  The vocabulary the component theories share: exceptions as the left summand of a result,
  the two ways the journal composes fallible code (\<open>rbind\<close> inside one SQLite transaction,
  \<open>transaction\<close> around it), SQL-like operations on tables held as lists of rows, the few
  operations on Python strings the sources use, and the locale \<open>transition_system\<close> in which
  invariants of reachable states are proved once.

  Text is a list of 8-bit characters, read as the UTF-8 bytes of the Python string; comparison
  of such lists is SQLite's BINARY collation and Python's code point order. \<open>strip\<close> and
  \<open>casefold\<close> follow Python on ASCII text.
\<close>

named_theorems table_simps \<open>rewriting rules for rows of tables\<close>

section \<open>Results\<close>

definition rbind :: "'e + 'a \<Rightarrow> ('a \<Rightarrow> 'e + 'b) \<Rightarrow> 'e + 'b" where
  "rbind m f = (case m of Inl e \<Rightarrow> Inl e | Inr x \<Rightarrow> f x)"

definition guard :: "bool \<Rightarrow> 'e \<Rightarrow> 'e + unit" where
  "guard b e = (if b then Inr () else Inl e)"

text \<open>A \<open>for\<close> loop whose body may raise: the first error leaves the loop.\<close>

fun rfold :: "('a \<Rightarrow> 's \<Rightarrow> 'e + 's) \<Rightarrow> 'a list \<Rightarrow> 's \<Rightarrow> 'e + 's" where
  "rfold f [] s = Inr s"
| "rfold f (x # xs) s = rbind (f x s) (rfold f xs)"

fun rmap :: "('a \<Rightarrow> 'e + 'b) \<Rightarrow> 'a list \<Rightarrow> 'e + 'b list" where
  "rmap f [] = Inr []"
| "rmap f (x # xs) = rbind (f x) (\<lambda>y. rbind (rmap f xs) (\<lambda>ys. Inr (y # ys)))"

lemma rbind_simps [simp]:
  "rbind (Inl e) f = Inl e" "rbind (Inr x) f = f x"
  by (simp_all add: rbind_def)

lemma rbind_Inr_iff: "rbind m f = Inr y \<longleftrightarrow> (\<exists>x. m = Inr x \<and> f x = Inr y)"
  by (cases m) auto

lemma rbind_Inl_iff: "rbind m f = Inl e \<longleftrightarrow> m = Inl e \<or> (\<exists>x. m = Inr x \<and> f x = Inl e)"
  by (cases m) auto

lemma guard_simps [simp]: "guard True e = Inr ()" "guard False e = Inl e"
  by (simp_all add: guard_def)

lemma guard_Inr_iff [simp]: "guard b e = Inr u \<longleftrightarrow> b"
  by (auto simp: guard_def)

lemma guard_Inl_iff [simp]: "guard b e = Inl e' \<longleftrightarrow> \<not> b \<and> e' = e"
  by (auto simp: guard_def)

text \<open>
  Total correctness of a loop whose body preserves an invariant and never raises under it, and
  partial correctness of a loop whose body preserves an invariant when it does not raise.
\<close>

lemma rfold_invariant:
  assumes "rfold f xs s = Inr s'" and "P s"
    and "\<And>x s s'. x \<in> set xs \<Longrightarrow> P s \<Longrightarrow> f x s = Inr s' \<Longrightarrow> P s'"
  shows "P s'"
  using assms
proof (induction xs arbitrary: s)
  case (Cons x xs)
  from Cons.prems(1) obtain t where t: "f x s = Inr t" "rfold f xs t = Inr s'"
    by (auto simp: rbind_Inr_iff)
  have "P t" using Cons.prems(2,3) t(1) by (meson list.set_intros(1))
  with t(2) show ?case using Cons.IH Cons.prems(3) by (meson list.set_intros(2))
qed simp

lemma rmap_Inr_length: "rmap f xs = Inr ys \<Longrightarrow> length ys = length xs"
  by (induction xs arbitrary: ys) (auto simp: rbind_Inr_iff)

text \<open>
  \<open>SQLiteJournal._transaction\<close>: a body that raises is rolled back, so the caller sees the
  state from before \<open>BEGIN IMMEDIATE\<close>; a body that returns (early or not) is committed.
\<close>

definition transaction :: "'s \<Rightarrow> 'e + 'a \<times> 's \<Rightarrow> ('e + 'a) \<times> 's" where
  "transaction s body = (case body of Inl e \<Rightarrow> (Inl e, s) | Inr (a, s') \<Rightarrow> (Inr a, s'))"

lemma transaction_simps [simp]:
  "transaction s (Inl e) = (Inl e, s)"
  "transaction s (Inr (a, s')) = (Inr a, s')"
  by (simp_all add: transaction_def)

lemma transaction_Inr_iff:
  "transaction s body = (Inr a, s') \<longleftrightarrow> body = Inr (a, s')"
  by (auto simp: transaction_def split: sum.splits)

lemma transaction_error_unchanged:
  "fst (transaction s body) = Inl e \<Longrightarrow> snd (transaction s body) = s"
  by (auto simp: transaction_def split: sum.splits)

lemma transaction_cases:
  obtains (rolled_back) e where "body = Inl e" "transaction s body = (Inl e, s)"
  | (committed) a s' where "body = Inr (a, s')" "transaction s body = (Inr a, s')"
  by (cases body) auto

lemma transaction_snd_cases:
  assumes "snd (transaction s body) = t" "P s" "\<And>a s'. body = Inr (a, s') \<Longrightarrow> P s'"
  shows "P t"
  using assms by (cases rule: transaction_cases[of body s]) auto

section \<open>Tables\<close>

text \<open>\<open>UPDATE table SET \<dots> WHERE p\<close>, \<open>DELETE FROM table WHERE p\<close> and the row count of either.\<close>

definition update_where :: "('r \<Rightarrow> bool) \<Rightarrow> ('r \<Rightarrow> 'r) \<Rightarrow> 'r list \<Rightarrow> 'r list" where
  "update_where p f rows = map (\<lambda>r. if p r then f r else r) rows"

definition delete_where :: "('r \<Rightarrow> bool) \<Rightarrow> 'r list \<Rightarrow> 'r list" where
  "delete_where p rows = filter (\<lambda>r. \<not> p r) rows"

definition count_where :: "('r \<Rightarrow> bool) \<Rightarrow> 'r list \<Rightarrow> nat" where
  "count_where p rows = length (filter p rows)"

text \<open>\<open>SELECT \<dots> ORDER BY key LIMIT 1\<close>: the first row with the least key.\<close>

fun first_by :: "('r \<Rightarrow> 'k::linorder) \<Rightarrow> 'r list \<Rightarrow> 'r option" where
  "first_by k [] = None"
| "first_by k (r # rows) =
     (case first_by k rows of
        None \<Rightarrow> Some r
      | Some s \<Rightarrow> Some (if k r \<le> k s then r else s))"

lemma update_where_simps [simp]:
  "update_where p f [] = []"
  "update_where p f (r # rows) = (if p r then f r else r) # update_where p f rows"
  by (simp_all add: update_where_def)

lemma update_where_append [simp]:
  "update_where p f (xs @ ys) = update_where p f xs @ update_where p f ys"
  by (simp add: update_where_def)

lemma set_update_where:
  "set (update_where p f rows) = (\<lambda>r. if p r then f r else r) ` set rows"
  by (simp add: update_where_def)

lemma length_update_where [simp]: "length (update_where p f rows) = length rows"
  by (simp add: update_where_def)

lemma map_update_where_key:
  "(\<And>r. p r \<Longrightarrow> k (f r) = k r) \<Longrightarrow> map k (update_where p f rows) = map k rows"
  by (simp add: update_where_def)

lemma update_where_none: "(\<And>r. r \<in> set rows \<Longrightarrow> \<not> p r) \<Longrightarrow> update_where p f rows = rows"
  by (induction rows) auto

lemma count_where_simps [simp]:
  "count_where p [] = 0"
  "count_where p (r # rows) = (if p r then 1 else 0) + count_where p rows"
  by (simp_all add: count_where_def)

lemma count_where_append [simp]:
  "count_where p (xs @ ys) = count_where p xs + count_where p ys"
  by (simp add: count_where_def)

lemma count_where_0_iff: "count_where p rows = 0 \<longleftrightarrow> (\<forall>r \<in> set rows. \<not> p r)"
  by (auto simp: count_where_def filter_empty_conv)

lemma count_where_mono:
  "(\<And>r. r \<in> set rows \<Longrightarrow> p r \<Longrightarrow> q r) \<Longrightarrow> count_where p rows \<le> count_where q rows"
  by (induction rows) auto

lemma count_where_cong:
  "(\<And>r. r \<in> set rows \<Longrightarrow> p r = q r) \<Longrightarrow> count_where p rows = count_where q rows"
  by (induction rows) auto

lemma count_where_update_where:
  "count_where q (update_where p f rows) = count_where (\<lambda>r. if p r then q (f r) else q r) rows"
  by (induction rows) auto

lemma count_where_conj_le: "count_where (\<lambda>r. p r \<and> q r) rows \<le> count_where q rows"
  by (rule count_where_mono) simp

text \<open>A count that reaches the count of a weaker predicate: the predicates agree on the table.\<close>

lemma count_where_eq_imp_all:
  assumes "count_where p rows = count_where q rows"
    and "\<And>r. r \<in> set rows \<Longrightarrow> p r \<Longrightarrow> q r" and "r \<in> set rows" "q r"
  shows "p r"
  using assms
proof (induction rows)
  case (Cons x xs)
  have "count_where p xs \<le> count_where q xs"
    using Cons.prems(2) by (intro count_where_mono) auto
  with Cons.prems show ?case by (cases "p x"; cases "q x") (auto intro: Cons.IH)
qed simp

text \<open>Exactly one row has a given key in a table with a unique key.\<close>

lemma count_where_unique_key:
  assumes "distinct (map k rows)" "r \<in> set rows" "p r"
    and "\<And>s. s \<in> set rows \<Longrightarrow> p s \<Longrightarrow> k s = k r"
  shows "count_where p rows = 1"
  using assms
proof (induction rows)
  case (Cons x xs)
  show ?case
  proof (cases "x = r")
    case True
    have "count_where p xs = 0"
      unfolding count_where_0_iff using Cons.prems(1,4) True by (auto simp: image_iff)
    with True Cons.prems(3) show ?thesis by simp
  next
    case False
    with Cons.prems have "r \<in> set xs" by simp
    moreover from this have "\<not> p x"
      using Cons.prems(1,4) by (auto simp: image_iff)
    moreover have "count_where p xs = 1"
    proof (rule Cons.IH)
      show "distinct (map k xs)" using Cons.prems(1) by simp
      show "\<And>s. s \<in> set xs \<Longrightarrow> p s \<Longrightarrow> k s = k r"
        using Cons.prems(4) by (meson list.set_intros(2))
    qed (use Cons.prems(3) \<open>r \<in> set xs\<close> in blast)+
    ultimately show ?thesis by simp
  qed
qed simp

lemma set_delete_where [simp]: "set (delete_where p rows) = {r \<in> set rows. \<not> p r}"
  by (auto simp: delete_where_def)

lemma distinct_map_delete_where:
  "distinct (map k rows) \<Longrightarrow> distinct (map k (delete_where p rows))"
  by (simp add: delete_where_def distinct_map_filter)

lemma count_where_delete_where:
  "(\<And>r. r \<in> set rows \<Longrightarrow> q r \<Longrightarrow> \<not> p r) \<Longrightarrow> count_where q (delete_where p rows) = count_where q rows"
  by (induction rows) (auto simp: delete_where_def)

lemma unique_key_eq:
  assumes "distinct (map k rows)" "r \<in> set rows" "s \<in> set rows" "k r = k s"
  shows "r = s"
  using assms by (auto simp: distinct_map inj_on_def)

lemma find_SomeD: "List.find p xs = Some x \<Longrightarrow> x \<in> set xs \<and> p x"
  by (induction xs) (auto split: if_splits)

lemma find_key_Some:
  assumes "distinct (map k rows)" "r \<in> set rows"
  shows "List.find (\<lambda>s. k s = k r) rows = Some r"
  using assms by (induction rows) (auto simp: image_iff)

lemma find_None_iff': "List.find p xs = None \<longleftrightarrow> (\<forall>x \<in> set xs. \<not> p x)"
  by (induction xs) auto

lemma unique_key_length:
  assumes "distinct (map f xs)" "\<And>x y. x \<in> set xs \<Longrightarrow> y \<in> set xs \<Longrightarrow> f x = f y"
  shows "length xs \<le> 1"
proof (cases xs)
  case (Cons x ys)
  note xs = this
  show ?thesis
  proof (cases ys)
    case (Cons y zs)
    then have "f x = f y" by (intro assms(2)) (simp_all add: xs)
    then show ?thesis using assms(1) by (simp add: xs Cons)
  qed (simp add: xs)
qed simp

lemma update_where_map: "update_where p f rows = map (\<lambda>r. if p r then f r else r) rows"
  by (simp add: update_where_def)

lemma find_update_where:
  "(\<And>x. p (f x) = p x) \<Longrightarrow> List.find p (update_where q f xs) = map_option (\<lambda>x. if q x then f x else x) (List.find p xs)"
  by (induction xs) auto

lemma find_append: "List.find p (xs @ ys) = (case List.find p xs of None \<Rightarrow> List.find p ys | Some x \<Rightarrow> Some x)"
  by (induction xs) auto

lemma length_filter_map_if:
  "length (filter p (map (\<lambda>x. if q x then f x else x) xs)) =
     length (filter (\<lambda>x. q x \<and> p (f x)) xs) + length (filter (\<lambda>x. \<not> q x \<and> p x) xs)"
  by (induction xs) auto

lemma first_by_None_iff [simp]: "first_by k rows = None \<longleftrightarrow> rows = []"
  by (cases rows) (auto split: option.splits)

lemma first_by_in: "first_by k rows = Some r \<Longrightarrow> r \<in> set rows"
  by (induction rows arbitrary: r) (auto split: option.splits if_splits)

lemma first_by_least: "first_by k rows = Some r \<Longrightarrow> s \<in> set rows \<Longrightarrow> k r \<le> k s"
proof (induction rows arbitrary: r s)
  case (Cons x xs)
  show ?case
  proof (cases "first_by k xs")
    case None
    then show ?thesis using Cons.prems by auto
  next
    case (Some t)
    then show ?thesis
      using Cons.prems Cons.IH[OF Some] by (auto split: if_splits intro: order_trans)
  qed
qed simp

section \<open>Python strings\<close>

definition char_code :: "char \<Rightarrow> nat" where
  "char_code c = of_char c"

definition chr :: "nat \<Rightarrow> char" where
  "chr n = char_of n"

lemma char_code_Char [simp]:
  "char_code (Char b0 b1 b2 b3 b4 b5 b6 b7) = of_char (Char b0 b1 b2 b3 b4 b5 b6 b7)"
  by (simp add: char_code_def)

lemma char_code_less [simp]: "char_code c < 256"
  by (simp add: char_code_def)

lemma char_code_chr [simp]: "n < 256 \<Longrightarrow> char_code (chr n) = n"
  by (simp add: char_code_def chr_def)

lemma chr_char_code [simp]: "chr (char_code c) = c"
  by (simp add: char_code_def chr_def)

lemma char_eq_iff_code: "c = d \<longleftrightarrow> char_code c = char_code d"
  by (metis chr_char_code)

definition py_isspace :: "char \<Rightarrow> bool" where
  "py_isspace c \<longleftrightarrow> (9 \<le> char_code c \<and> char_code c \<le> 13) \<or> (28 \<le> char_code c \<and> char_code c \<le> 32)"

definition lstrip :: "string \<Rightarrow> string" where
  "lstrip s = dropWhile py_isspace s"

definition rstrip :: "string \<Rightarrow> string" where
  "rstrip s = rev (dropWhile py_isspace (rev s))"

definition strip :: "string \<Rightarrow> string" where
  "strip s = rstrip (lstrip s)"

definition fold_char :: "char \<Rightarrow> char" where
  "fold_char c = (if 65 \<le> char_code c \<and> char_code c \<le> 90 then chr (char_code c + 32) else c)"

definition casefold :: "string \<Rightarrow> string" where
  "casefold s = map fold_char s"

lemma chr_eq_iff: "chr n = c \<longleftrightarrow> n mod 256 = of_char c"
  by (simp add: chr_def char_of_eq_iff take_bit_eq_mod)

text \<open>The character classes on the bits of a character, for evaluation.\<close>

lemma py_isspace_bits [code]:
  "py_isspace (Char b0 b1 b2 b3 b4 b5 b6 b7) \<longleftrightarrow> \<not> b7 \<and> \<not> b6 \<and>
     ((\<not> b5 \<and> b3 \<and> (if b4 then b2 else (if b2 then \<not> b1 else b1 \<or> b0))) \<or> (b5 \<and> \<not> b4 \<and> \<not> b3 \<and> \<not> b2 \<and> \<not> b1 \<and> \<not> b0))"
  by (cases b0; cases b1; cases b2; cases b3; cases b4; cases b5; cases b6; cases b7; simp add: py_isspace_def)

lemma fold_char_bits [code]:
  "fold_char (Char b0 b1 b2 b3 b4 b5 b6 b7) =
     (if \<not> b7 \<and> b6 \<and> \<not> b5 \<and> (b4 \<or> b3 \<or> b2 \<or> b1 \<or> b0) \<and> \<not> (b4 \<and> b3 \<and> (b2 \<or> b1 \<and> b0))
      then Char b0 b1 b2 b3 b4 True b6 b7 else Char b0 b1 b2 b3 b4 b5 b6 b7)"
  by (cases b0; cases b1; cases b2; cases b3; cases b4; cases b5; cases b6; cases b7; simp add: fold_char_def chr_eq_iff)

definition startswith :: "string \<Rightarrow> string \<Rightarrow> bool" where
  "startswith s p \<longleftrightarrow> take (length p) s = p"

definition endswith :: "string \<Rightarrow> string \<Rightarrow> bool" where
  "endswith s p \<longleftrightarrow> length p \<le> length s \<and> drop (length s - length p) s = p"

fun join :: "string \<Rightarrow> string list \<Rightarrow> string" where
  "join sep [] = []"
| "join sep [x] = x"
| "join sep (x # y # ys) = x @ sep @ join sep (y # ys)"

definition digit_char :: "nat \<Rightarrow> char" where
  "digit_char d = chr (48 + d)"

fun show_nat :: "nat \<Rightarrow> string" where
  "show_nat n = (if n < 10 then [digit_char n] else show_nat (n div 10) @ [digit_char (n mod 10)])"

declare show_nat.simps [simp del]

definition show_int :: "int \<Rightarrow> string" where
  "show_int i = (if i < 0 then CHR ''-'' # show_nat (nat (- i)) else show_nat (nat i))"

text \<open>\<open>tuple(sorted(set(xs)))\<close>.\<close>

definition sorted_set :: "string list \<Rightarrow> string list" where
  "sorted_set xs = sort (remdups xs)"

lemma set_sorted_set [simp]: "set (sorted_set xs) = set xs"
  by (simp add: sorted_set_def)

lemma distinct_sorted_set [simp]: "distinct (sorted_set xs)"
  by (simp add: sorted_set_def)

lemma sorted_sorted_set [simp]: "sorted (sorted_set xs)"
  by (simp add: sorted_set_def)

lemma sorted_set_idem [simp]: "sorted_set (sorted_set xs) = sorted_set xs"
  by (simp add: sorted_set_def distinct_remdups_id sorted_sort_id)

section \<open>Transition systems\<close>

text \<open>
  A system given by an initial state and a step relation. The journal is one: its steps are the
  public operations of the store, whatever their arguments, the clock and the environment are.
\<close>

locale transition_system =
  fixes initial :: "'s" and step :: "'s \<Rightarrow> 's \<Rightarrow> bool"
begin

inductive reach :: "'s \<Rightarrow> bool" where
  reach_initial: "reach initial"
| reach_step: "reach s \<Longrightarrow> step s t \<Longrightarrow> reach t"

lemma reach_invariant:
  assumes "reach s" "I initial" "\<And>s t. reach s \<Longrightarrow> I s \<Longrightarrow> step s t \<Longrightarrow> I t"
  shows "I s"
  using assms(1) by (induction rule: reach.induct) (use assms(2,3) in blast)+

lemma reach_rtranclp:
  assumes "step\<^sup>*\<^sup>* s t" "reach s"
  shows "reach t"
  using assms by (induction rule: rtranclp_induct) (auto intro: reach_step)

lemma stable_rtranclp:
  assumes "step\<^sup>*\<^sup>* s t" "reach s" "P s" "\<And>s t. reach s \<Longrightarrow> P s \<Longrightarrow> step s t \<Longrightarrow> P t"
  shows "P t"
  using assms(1)
proof (induction rule: rtranclp_induct)
  case base
  show ?case by (rule assms(3))
next
  case (step y z)
  then show ?case using assms(2,4) reach_rtranclp by blast
qed

end

end
