(* ===== verification/Canonical_Json.thy ===== *)
theory Canonical_Json
  imports Journal_Prelude
begin

text \<open>
  JSON values, the canonical encoder \<open>canonical_json\<close> of \<open>journal/identity.py\<close>
  (\<open>json.dumps\<close> with \<open>ensure_ascii=False, separators=(",", ":"), sort_keys=True\<close>) and a
  model of \<open>json.loads\<close>, with the Python conversions of JSON values the journal uses
  (\<open>str\<close>, truth value, \<open>dict\<close> access). A \<open>float\<close> is held as the text Python's \<open>repr\<close>
  gives it, which is what both directions of the codec exchange.

  The main facts: \<open>json_loads_canonical\<close> (reading back what was encoded gives the value with
  its object keys sorted), and from it \<open>canonical_json_inject\<close>: two values have one encoding
  only if they are equal up to the order of object keys.
\<close>

datatype json =
    JNull
  | JBool bool
  | JInt int
  | JFloat string
  | JStr string
  | JArr "json list"
  | JObj "(string \<times> json) list"

type_synonym dict = "(string \<times> json) list"

section \<open>Dictionaries\<close>

text \<open>\<open>d[k] = v\<close> keeps the position of an existing key; \<open>d.get(k)\<close>; \<open>d.pop(k, None)\<close>.\<close>

fun dict_set :: "string \<Rightarrow> json \<Rightarrow> dict \<Rightarrow> dict" where
  "dict_set k v [] = [(k, v)]"
| "dict_set k v ((k', v') # d) = (if k = k' then (k, v) # d else (k', v') # dict_set k v d)"

definition dict_get :: "dict \<Rightarrow> string \<Rightarrow> json" where
  "dict_get d k = (case map_of d k of None \<Rightarrow> JNull | Some v \<Rightarrow> v)"

definition dict_pop :: "string \<Rightarrow> dict \<Rightarrow> dict" where
  "dict_pop k d = filter (\<lambda>(k', _). k' \<noteq> k) d"

definition dict_of_pairs :: "(string \<times> json) list \<Rightarrow> dict" where
  "dict_of_pairs kvs = foldl (\<lambda>d (k, v). dict_set k v d) [] kvs"

lemma map_of_dict_set [simp]: "map_of (dict_set k v d) = (map_of d)(k \<mapsto> v)"
  by (induction k v d rule: dict_set.induct) auto

lemma dict_set_fresh: "k \<notin> fst ` set d \<Longrightarrow> dict_set k v d = d @ [(k, v)]"
  by (induction k v d rule: dict_set.induct) auto

lemma map_of_dict_pop [simp]: "map_of (dict_pop k d) = (map_of d)(k := None)"
  by (induction d) (auto simp: dict_pop_def)

lemma foldl_dict_set_distinct:
  "distinct (map fst (d @ kvs)) \<Longrightarrow> foldl (\<lambda>d (k, v). dict_set k v d) d kvs = d @ kvs"
proof (induction kvs arbitrary: d)
  case (Cons kv kvs)
  obtain k v where kv: "kv = (k, v)" by fastforce
  have "dict_set k v d = d @ [(k, v)]"
    using Cons.prems kv by (intro dict_set_fresh) auto
  then show ?case using Cons.IH[of "d @ [(k, v)]"] Cons.prems kv by simp
qed simp

lemma dict_of_pairs_distinct: "distinct (map fst kvs) \<Longrightarrow> dict_of_pairs kvs = kvs"
  by (simp add: dict_of_pairs_def foldl_dict_set_distinct)

section \<open>Python conversions\<close>

definition json_truthy :: "json \<Rightarrow> bool" where
  "json_truthy v = (case v of
       JNull \<Rightarrow> False
     | JBool b \<Rightarrow> b
     | JInt i \<Rightarrow> i \<noteq> 0
     | JFloat t \<Rightarrow> t \<noteq> ''0.0'' \<and> t \<noteq> ''-0.0''
     | JStr s \<Rightarrow> s \<noteq> []
     | JArr xs \<Rightarrow> xs \<noteq> []
     | JObj d \<Rightarrow> d \<noteq> [])"

text \<open>\<open>a or b\<close>.\<close>

definition json_or :: "json \<Rightarrow> json \<Rightarrow> json" where
  "json_or a b = (if json_truthy a then a else b)"

definition hex_char :: "nat \<Rightarrow> char" where
  "hex_char n = (if n < 10 then chr (48 + n) else chr (87 + n))"

definition repr_char :: "char \<Rightarrow> char \<Rightarrow> string" where
  "repr_char q c =
     (if c = q \<or> char_code c = 92 then [chr 92, c]
      else if char_code c = 10 then [chr 92, CHR ''n'']
      else if char_code c = 13 then [chr 92, CHR ''r'']
      else if char_code c = 9 then [chr 92, CHR ''t'']
      else if char_code c < 32 \<or> char_code c = 127
        then [chr 92, CHR ''x'', hex_char (char_code c div 16), hex_char (char_code c mod 16)]
      else [c])"

definition repr_string :: "string \<Rightarrow> string" where
  "repr_string s =
     (let q = (if chr 39 \<in> set s \<and> chr 34 \<notin> set s then chr 34 else chr 39)
      in q # concat (map (repr_char q) s) @ [q])"

fun py_repr :: "json \<Rightarrow> string" where
  "py_repr JNull = ''None''"
| "py_repr (JBool b) = (if b then ''True'' else ''False'')"
| "py_repr (JInt i) = show_int i"
| "py_repr (JFloat t) = t"
| "py_repr (JStr s) = repr_string s"
| "py_repr (JArr xs) = ''['' @ join '', '' (map py_repr xs) @ '']''"
| "py_repr (JObj d) =
     ''{'' @ join '', '' (map (\<lambda>(k, v). repr_string k @ '': '' @ py_repr v) d) @ ''}''"

definition py_str :: "json \<Rightarrow> string" where
  "py_str v = (case v of JStr s \<Rightarrow> s | _ \<Rightarrow> py_repr v)"

section \<open>The encoder\<close>

fun sort_keys :: "json \<Rightarrow> json" where
  "sort_keys (JArr xs) = JArr (map sort_keys xs)"
| "sort_keys (JObj d) = JObj (sort_key fst (map (\<lambda>(k, v). (k, sort_keys v)) d))"
| "sort_keys v = v"

definition escape_char :: "char \<Rightarrow> string" where
  "escape_char c =
     (let n = char_code c in
      if n = 34 then [chr 92, chr 34]
      else if n = 92 then [chr 92, chr 92]
      else if n = 10 then [chr 92, CHR ''n'']
      else if n = 13 then [chr 92, CHR ''r'']
      else if n = 9 then [chr 92, CHR ''t'']
      else if n = 8 then [chr 92, CHR ''b'']
      else if n = 12 then [chr 92, CHR ''f'']
      else if n < 32
        then [chr 92, CHR ''u'', CHR ''0'', CHR ''0'', hex_char (n div 16), hex_char (n mod 16)]
      else [c])"

definition quote :: "string \<Rightarrow> string" where
  "quote s = chr 34 # concat (map escape_char s) @ [chr 34]"

fun render :: "json \<Rightarrow> string" where
  "render JNull = ''null''"
| "render (JBool b) = (if b then ''true'' else ''false'')"
| "render (JInt i) = show_int i"
| "render (JFloat t) = t"
| "render (JStr s) = quote s"
| "render (JArr xs) = CHR ''['' # join '','' (map render xs) @ '']''"
| "render (JObj d) =
     CHR ''{'' # join '','' (map (\<lambda>(k, v). quote k @ CHR '':'' # render v) d) @ ''}''"

definition canonical_json :: "json \<Rightarrow> string" where
  "canonical_json v = render (sort_keys v)"

section \<open>The reader\<close>

definition json_ws :: "char \<Rightarrow> bool" where
  "json_ws c \<longleftrightarrow> char_code c \<in> {9, 10, 13, 32}"

definition skip_ws :: "string \<Rightarrow> string" where
  "skip_ws s = dropWhile json_ws s"

definition is_digit :: "char \<Rightarrow> bool" where
  "is_digit c \<longleftrightarrow> 48 \<le> char_code c \<and> char_code c \<le> 57"

lemma is_digit_bits [code]:
  "is_digit (Char b0 b1 b2 b3 b4 b5 b6 b7) \<longleftrightarrow> \<not> b7 \<and> \<not> b6 \<and> b5 \<and> b4 \<and> \<not> (b3 \<and> (b2 \<or> b1))"
  by (cases b0; cases b1; cases b2; cases b3; cases b4; cases b5; cases b6; cases b7; simp add: is_digit_def)

lemma json_ws_bits [code]:
  "json_ws (Char b0 b1 b2 b3 b4 b5 b6 b7) \<longleftrightarrow> \<not> b7 \<and> \<not> b6 \<and> \<not> b4 \<and>
     (if b5 then \<not> b3 \<and> \<not> b2 \<and> \<not> b1 \<and> \<not> b0 else b3 \<and> (if b2 then \<not> b1 \<and> b0 else b1 \<noteq> b0))"
  by (cases b0; cases b1; cases b2; cases b3; cases b4; cases b5; cases b6; cases b7; simp add: json_ws_def)

definition num_char :: "char \<Rightarrow> bool" where
  "num_char c \<longleftrightarrow> is_digit c \<or> c \<in> {CHR ''-'', CHR ''+'', CHR ''.'', CHR ''e'', CHR ''E''}"

definition nat_of_digits :: "string \<Rightarrow> nat" where
  "nat_of_digits s = foldl (\<lambda>a c. 10 * a + (char_code c - 48)) 0 s"

text \<open>\<open>-?(?:0|[1-9]\d*)\<close>, \<open>(\.\d+)?\<close> and \<open>([eE][-+]?\d+)?\<close> of the scanner's number pattern.\<close>

definition is_nat_lit :: "string \<Rightarrow> bool" where
  "is_nat_lit s \<longleftrightarrow> s \<noteq> [] \<and> list_all is_digit s \<and> (s = ''0'' \<or> hd s \<noteq> CHR ''0'')"

definition unsigned :: "string \<Rightarrow> string" where
  "unsigned s = (if s \<noteq> [] \<and> hd s = CHR ''-'' then tl s else s)"

definition is_exp_lit :: "string \<Rightarrow> bool" where
  "is_exp_lit s \<longleftrightarrow> s = [] \<or>
     (hd s \<in> {CHR ''e'', CHR ''E''} \<and>
      (let t = tl s; u = (if t \<noteq> [] \<and> hd t \<in> {CHR ''-'', CHR ''+''} then tl t else t)
       in u \<noteq> [] \<and> list_all is_digit u))"

definition is_frac_lit :: "string \<Rightarrow> bool" where
  "is_frac_lit s \<longleftrightarrow>
     (if s \<noteq> [] \<and> hd s = CHR ''.''
      then takeWhile is_digit (tl s) \<noteq> [] \<and> is_exp_lit (dropWhile is_digit (tl s))
      else is_exp_lit s)"

definition is_float_lit :: "string \<Rightarrow> bool" where
  "is_float_lit s \<longleftrightarrow>
     (let u = unsigned s; i = takeWhile is_digit u; r = dropWhile is_digit u
      in is_nat_lit i \<and> r \<noteq> [] \<and> is_frac_lit r)"

definition p_number :: "string \<Rightarrow> (json \<times> string) option" where
  "p_number s =
     (let tok = takeWhile num_char s; rest = dropWhile num_char s in
      if is_nat_lit (unsigned tok)
        then Some (JInt ((if hd tok = CHR ''-'' then - 1 else 1) * int (nat_of_digits (unsigned tok))), rest)
      else if is_float_lit tok then Some (JFloat tok, rest)
      else None)"

definition unhex :: "char \<Rightarrow> nat option" where
  "unhex c =
     (let n = char_code c in
      if 48 \<le> n \<and> n \<le> 57 then Some (n - 48)
      else if 97 \<le> n \<and> n \<le> 102 then Some (n - 87)
      else if 65 \<le> n \<and> n \<le> 70 then Some (n - 55)
      else None)"

text \<open>\<open>\uXXXX\<close> is read for code points below 128, the only ones the encoder escapes this way.\<close>

definition unhex4 :: "char \<Rightarrow> char \<Rightarrow> char \<Rightarrow> char \<Rightarrow> char option" where
  "unhex4 a b c d =
     (case (unhex a, unhex b, unhex c, unhex d) of
        (Some w, Some x, Some y, Some z) \<Rightarrow>
          let n = ((w * 16 + x) * 16 + y) * 16 + z
          in if n < 128 then Some (chr n) else None
      | _ \<Rightarrow> None)"

definition unescape :: "char \<Rightarrow> char option" where
  "unescape d =
     (let n = char_code d in
      if n = 34 \<or> n = 92 \<or> n = 47 then Some d
      else if d = CHR ''n'' then Some (chr 10)
      else if d = CHR ''r'' then Some (chr 13)
      else if d = CHR ''t'' then Some (chr 9)
      else if d = CHR ''b'' then Some (chr 8)
      else if d = CHR ''f'' then Some (chr 12)
      else None)"

definition push_char :: "char option \<Rightarrow> (string \<times> string) option \<Rightarrow> (string \<times> string) option" where
  "push_char c r = (case (c, r) of (Some c, Some (s, t)) \<Rightarrow> Some (c # s, t) | _ \<Rightarrow> None)"

fun p_chars :: "string \<Rightarrow> (string \<times> string) option" where
  "p_chars [] = None"
| "p_chars (c # cs) =
     (if char_code c = 34 then Some ([], cs)
      else if char_code c = 92 then
        (case cs of
           [] \<Rightarrow> None
         | d # ds \<Rightarrow>
             if d = CHR ''u'' then
               (case ds of
                  h # i # j # k # es \<Rightarrow> push_char (unhex4 h i j k) (p_chars es)
                | _ \<Rightarrow> None)
             else push_char (unescape d) (p_chars ds))
      else if char_code c < 32 then None
      else push_char (Some c) (p_chars cs))"

fun p_value :: "nat \<Rightarrow> string \<Rightarrow> (json \<times> string) option"
and p_elems :: "nat \<Rightarrow> string \<Rightarrow> (json list \<times> string) option"
and p_members :: "nat \<Rightarrow> string \<Rightarrow> ((string \<times> json) list \<times> string) option" where
  "p_value 0 s = None"
| "p_value (Suc n) s =
     (case skip_ws s of
        [] \<Rightarrow> None
      | c # cs \<Rightarrow>
          if c = CHR ''['' then
            (case skip_ws cs of
               [] \<Rightarrow> None
             | d # ds \<Rightarrow>
                 if d = CHR '']'' then Some (JArr [], ds)
                 else map_option (\<lambda>(xs, r). (JArr xs, r)) (p_elems n (d # ds)))
          else if c = CHR ''{'' then
            (case skip_ws cs of
               [] \<Rightarrow> None
             | d # ds \<Rightarrow>
                 if d = CHR ''}'' then Some (JObj [], ds)
                 else map_option (\<lambda>(kvs, r). (JObj (dict_of_pairs kvs), r)) (p_members n (d # ds)))
          else if char_code c = 34 then map_option (\<lambda>(t, r). (JStr t, r)) (p_chars cs)
          else if startswith (c # cs) ''null'' then Some (JNull, drop 4 (c # cs))
          else if startswith (c # cs) ''true'' then Some (JBool True, drop 4 (c # cs))
          else if startswith (c # cs) ''false'' then Some (JBool False, drop 5 (c # cs))
          else p_number (c # cs))"
| "p_elems 0 s = None"
| "p_elems (Suc n) s =
     (case p_value n s of
        None \<Rightarrow> None
      | Some (v, r) \<Rightarrow>
          (case skip_ws r of
             [] \<Rightarrow> None
           | c # cs \<Rightarrow>
               if c = CHR '','' then map_option (\<lambda>(vs, t). (v # vs, t)) (p_elems n cs)
               else if c = CHR '']'' then Some ([v], cs)
               else None))"
| "p_members 0 s = None"
| "p_members (Suc n) s =
     (case skip_ws s of
        [] \<Rightarrow> None
      | q # qs \<Rightarrow>
          if char_code q \<noteq> 34 then None
          else
            (case p_chars qs of
               None \<Rightarrow> None
             | Some (k, r) \<Rightarrow>
                 (case skip_ws r of
                    [] \<Rightarrow> None
                  | c # cs \<Rightarrow>
                      if c \<noteq> CHR '':'' then None
                      else
                        (case p_value n cs of
                           None \<Rightarrow> None
                         | Some (v, r) \<Rightarrow>
                             (case skip_ws r of
                                [] \<Rightarrow> None
                              | c # cs \<Rightarrow>
                                  if c = CHR '','' then
                                    map_option (\<lambda>(kvs, t). ((k, v) # kvs, t)) (p_members n cs)
                                  else if c = CHR ''}'' then Some ([(k, v)], cs)
                                  else None)))))"

text \<open>
  The nesting depth of a text is at most its length, and one level costs at most two units of
  fuel (\<open>json_loads_canonical\<close> shows the fuel is enough for every encoded value).
\<close>

definition json_loads :: "string \<Rightarrow> json option" where
  "json_loads s =
     (case p_value (Suc (2 * length s)) s of
        Some (v, r) \<Rightarrow> if skip_ws r = [] then Some v else None
      | None \<Rightarrow> None)"

section \<open>Reading back what was encoded\<close>

text \<open>
  Values Python can hold: distinct keys in a \<open>dict\<close>, and floats other than NaN and the
  infinities, which \<open>allow_nan=False\<close> refuses.
\<close>

fun wf_json :: "json \<Rightarrow> bool" where
  "wf_json (JFloat t) = is_float_lit t"
| "wf_json (JArr xs) = list_all wf_json xs"
| "wf_json (JObj d) = (distinct (map fst d) \<and> list_all (\<lambda>(k, v). wf_json v) d)"
| "wf_json v = True"

text \<open>Fuel a value needs, and that the text is long enough to provide it.\<close>

fun json_fuel :: "json \<Rightarrow> nat" where
  "json_fuel (JArr xs) = Suc (sum_list (map (\<lambda>x. Suc (json_fuel x)) xs))"
| "json_fuel (JObj d) = Suc (sum_list (map (\<lambda>(k, v). Suc (json_fuel v)) d))"
| "json_fuel v = 1"

definition stops_number :: "string \<Rightarrow> bool" where
  "stops_number rest \<longleftrightarrow> rest = [] \<or> \<not> num_char (hd rest)"

lemma unhex_hex_char: "d < 16 \<Longrightarrow> unhex (hex_char d) = Some d"
  by (auto simp: unhex_def hex_char_def Let_def)

lemma unhex4_hex:
  assumes "n < 32"
  shows "unhex4 CHR ''0'' CHR ''0'' (hex_char (n div 16)) (hex_char (n mod 16)) = Some (chr n)"
proof -
  have "n div 16 < 16" using assms by simp
  moreover have "unhex CHR ''0'' = Some 0" by (simp add: unhex_def)
  ultimately show ?thesis using assms by (simp add: unhex4_def unhex_hex_char)
qed

lemma p_chars_escape: "p_chars (escape_char c @ s) = push_char (Some c) (p_chars s)"
proof -
  obtain n where c: "c = chr n" and n: "n < 256"
    by (metis chr_char_code char_code_less)
  show ?thesis
    using n unhex4_hex[of n]
    by (auto simp: c escape_char_def Let_def unescape_def char_eq_iff_code)
qed

lemma p_chars_quote: "p_chars (concat (map escape_char s) @ chr 34 # rest) = Some (s, rest)"
  by (induction s) (simp_all add: p_chars_escape push_char_def)

lemma is_digit_digit_char [simp]: "d < 10 \<Longrightarrow> is_digit (digit_char d)"
  by (simp add: is_digit_def digit_char_def)

lemma show_nat_digits: "list_all is_digit (show_nat n)"
proof (induction n rule: show_nat.induct)
  case (1 n)
  then show ?case by (cases "n < 10") (simp_all add: show_nat.simps[of n])
qed

lemma show_nat_neq_Nil [simp]: "show_nat n \<noteq> []"
  by (simp add: show_nat.simps[of n])

lemma nat_of_digits_snoc: "nat_of_digits (s @ [c]) = 10 * nat_of_digits s + (char_code c - 48)"
  by (simp add: nat_of_digits_def)

lemma nat_of_digits_show_nat: "nat_of_digits (show_nat n) = n"
proof (induction n rule: show_nat.induct)
  case (1 n)
  show ?case
  proof (cases "n < 10")
    case True
    then show ?thesis by (simp add: show_nat.simps[of n] nat_of_digits_def digit_char_def)
  next
    case False
    with 1 have "nat_of_digits (show_nat (n div 10)) = n div 10" by simp
    then show ?thesis using False
      by (simp add: show_nat.simps[of n] nat_of_digits_snoc digit_char_def)
  qed
qed

lemma show_nat_hd: "0 < n \<Longrightarrow> hd (show_nat n) \<noteq> CHR ''0''"
proof (induction n rule: show_nat.induct)
  case (1 n)
  show ?case
  proof (cases "n < 10")
    case True
    then show ?thesis using 1 by (simp add: show_nat.simps[of n] digit_char_def char_eq_iff_code)
  next
    case False
    with 1 show ?thesis by (simp add: show_nat.simps[of n] hd_append)
  qed
qed

lemma is_nat_lit_show_nat: "is_nat_lit (show_nat n)"
proof (cases "n = 0")
  case True
  then show ?thesis by (simp add: is_nat_lit_def show_nat.simps digit_char_def is_digit_def char_eq_iff_code)
next
  case False
  then show ?thesis by (simp add: is_nat_lit_def show_nat_digits show_nat_hd)
qed

lemma takeWhile_stop: "list_all P xs \<Longrightarrow> rest = [] \<or> \<not> P (hd rest) \<Longrightarrow> takeWhile P (xs @ rest) = xs \<and> dropWhile P (xs @ rest) = rest"
  by (induction xs) (cases rest, auto)+

lemma digits_num_char: "list_all is_digit s \<Longrightarrow> list_all num_char s"
  by (auto simp: list_all_iff num_char_def)

lemma is_exp_lit_num_char: "is_exp_lit s \<Longrightarrow> list_all num_char s"
proof (cases s)
  case (Cons c t)
  assume "is_exp_lit s"
  then show ?thesis using Cons digits_num_char[of t] digits_num_char[of "tl t"]
    by (cases t) (auto simp: is_exp_lit_def Let_def num_char_def split: if_splits)
qed simp

lemma is_frac_lit_num_char:
  assumes "is_frac_lit s"
  shows "list_all num_char s"
proof (cases "s \<noteq> [] \<and> hd s = CHR ''.''")
  case True
  let ?d = "takeWhile is_digit (tl s)" and ?r = "dropWhile is_digit (tl s)"
  have "list_all num_char ?r" using assms True
    by (simp add: is_frac_lit_def is_exp_lit_num_char)
  moreover have "list_all num_char ?d"
    by (rule digits_num_char) (auto simp: list_all_iff dest: set_takeWhileD)
  moreover have "s = CHR ''.'' # ?d @ ?r" using True by (cases s) auto
  moreover have "num_char CHR ''.''" by (simp add: num_char_def)
  ultimately show ?thesis by (metis list_all_append list.pred_inject(2))
next
  case False
  then show ?thesis using assms is_exp_lit_num_char[of s] by (auto simp: is_frac_lit_def)
qed

lemma is_float_lit_num_char:
  assumes "is_float_lit t"
  shows "list_all num_char t"
proof -
  let ?u = "unsigned t"
  have "list_all num_char (takeWhile is_digit ?u @ dropWhile is_digit ?u)"
    using assms digits_num_char is_frac_lit_num_char
    by (auto simp: is_float_lit_def Let_def is_nat_lit_def simp del: takeWhile_dropWhile_id)
  then have "list_all num_char ?u" by simp
  then show ?thesis
    by (cases t) (auto simp: unsigned_def num_char_def split: if_splits)
qed

lemma is_float_lit_hd: "is_float_lit t \<Longrightarrow> t \<noteq> [] \<and> (hd t = CHR ''-'' \<or> is_digit (hd t))"
  by (cases t) (auto simp: is_float_lit_def Let_def is_nat_lit_def unsigned_def split: if_splits)

lemma show_nat_hd_digit: "is_digit (hd (show_nat n))"
  using show_nat_digits[of n] by (cases "show_nat n") auto

lemma p_number_int:
  assumes "stops_number rest"
  shows "p_number (show_int i @ rest) = Some (JInt i, rest)"
proof (cases "i < 0")
  case True
  have "list_all num_char (show_int i)" using True digits_num_char[OF show_nat_digits]
    by (simp add: show_int_def num_char_def)
  then show ?thesis using True takeWhile_stop[of num_char "show_int i" rest] assms is_nat_lit_show_nat
    by (simp add: p_number_def stops_number_def show_int_def unsigned_def nat_of_digits_show_nat Let_def)
next
  case False
  have "list_all num_char (show_int i)" using False digits_num_char[OF show_nat_digits]
    by (simp add: show_int_def)
  moreover have "hd (show_nat (nat i)) \<noteq> CHR ''-''"
    using show_nat_hd_digit[of "nat i"] by (auto simp: is_digit_def)
  ultimately show ?thesis using False takeWhile_stop[of num_char "show_int i" rest] assms is_nat_lit_show_nat
    by (simp add: p_number_def stops_number_def show_int_def unsigned_def nat_of_digits_show_nat Let_def)
qed

lemma p_number_float:
  assumes "is_float_lit t" "stops_number rest"
  shows "p_number (t @ rest) = Some (JFloat t, rest)"
proof -
  have "\<not> is_nat_lit (unsigned t)"
  proof
    assume "is_nat_lit (unsigned t)"
    then have "dropWhile is_digit (unsigned t) = []"
      by (simp add: is_nat_lit_def list_all_iff)
    with assms(1) show False by (simp add: is_float_lit_def Let_def)
  qed
  then show ?thesis
    using assms takeWhile_stop[of num_char t rest] is_float_lit_num_char[of t]
    by (simp add: p_number_def stops_number_def Let_def)
qed

lemma p_value_number:
  assumes "t \<noteq> []" "hd t = CHR ''-'' \<or> is_digit (hd t)"
  shows "p_value (Suc n) (t @ rest) = p_number (t @ rest)"
proof -
  obtain c cs where t: "t = c # cs" using assms(1) by (cases t) auto
  have c: "c = CHR ''-'' \<or> is_digit c" using assms(2) t by simp
  have "\<not> json_ws c" "c \<noteq> CHR ''[''" "c \<noteq> CHR ''{''" "char_code c \<noteq> 34" "c \<noteq> CHR ''n''"
    "c \<noteq> CHR ''t''" "c \<noteq> CHR ''f''"
    using c by (auto simp: json_ws_def is_digit_def)
  then show ?thesis by (simp add: t skip_ws_def startswith_def)
qed

lemma skip_ws_id: "s \<noteq> [] \<Longrightarrow> \<not> json_ws (hd s) \<Longrightarrow> skip_ws s = s"
  by (cases s) (auto simp: skip_ws_def)

lemma render_start:
  assumes "wf_json v"
  shows "render v \<noteq> [] \<and> \<not> json_ws (hd (render v)) \<and> hd (render v) \<notin> {CHR '']'', CHR ''}''}"
proof (cases v)
  case (JInt i)
  then show ?thesis using show_nat_hd_digit[of "nat i"]
    by (auto simp: show_int_def json_ws_def is_digit_def)
next
  case (JFloat t)
  then show ?thesis using is_float_lit_hd[of t] assms by (auto simp: json_ws_def is_digit_def)
qed (auto simp: json_ws_def quote_def char_eq_iff_code)

definition parses :: "json \<Rightarrow> bool" where
  "parses v \<longleftrightarrow> (\<forall>n rest. json_fuel v \<le> n \<longrightarrow> stops_number rest \<longrightarrow> p_value n (render v @ rest) = Some (v, rest))"

lemma parsesD: "parses v \<Longrightarrow> json_fuel v \<le> n \<Longrightarrow> stops_number rest \<Longrightarrow> p_value n (render v @ rest) = Some (v, rest)"
  by (simp add: parses_def)

lemma parsesI:
  assumes "\<And>n rest. p_value (Suc n) (render v @ rest) = Some (v, rest)" "0 < json_fuel v"
  shows "parses v"
  unfolding parses_def using assms by (metis gr0_conv_Suc less_le_trans)

lemma stops_number_Cons: "\<not> num_char c \<Longrightarrow> stops_number (c # rest)"
  by (simp add: stops_number_def)

lemma stops_punct [simp]:
  "stops_number (CHR '','' # rest)" "stops_number (CHR '']'' # rest)" "stops_number (CHR ''}'' # rest)"
  by (simp_all add: stops_number_def num_char_def is_digit_def)

lemma skip_punct [simp]:
  "skip_ws (CHR '','' # rest) = CHR '','' # rest" "skip_ws (CHR '']'' # rest) = CHR '']'' # rest"
  "skip_ws (CHR ''}'' # rest) = CHR ''}'' # rest" "skip_ws (CHR '':'' # rest) = CHR '':'' # rest"
  "skip_ws (chr 34 # rest) = chr 34 # rest"
  by (simp_all add: skip_ws_def json_ws_def)

lemma p_elems_render:
  assumes "xs \<noteq> []" "\<And>x. x \<in> set xs \<Longrightarrow> parses x"
    and "sum_list (map (\<lambda>x. Suc (json_fuel x)) xs) \<le> n"
  shows "p_elems n (join '','' (map render xs) @ CHR '']'' # rest) = Some (xs, rest)"
  using assms
proof (induction xs arbitrary: n)
  case (Cons x xs)
  obtain m where n: "n = Suc m" using Cons.prems(3) by (cases n) auto
  show ?case
  proof (cases xs)
    case Nil
    then show ?thesis using Cons.prems(3) parsesD[OF Cons.prems(2), of x m "CHR '']'' # rest"]
      by (simp add: n)
  next
    case (Cons y ys)
    let ?tl = "join '','' (map render xs) @ CHR '']'' # rest"
    have "join '','' (map render (x # xs)) @ CHR '']'' # rest = render x @ CHR '','' # ?tl"
      using Cons by simp
    moreover have "p_value m (render x @ CHR '','' # ?tl) = Some (x, CHR '','' # ?tl)"
      using Cons.prems n by (intro parsesD) auto
    moreover have "p_elems m ?tl = Some (xs, rest)"
      using Cons.prems n Cons by (intro Cons.IH) auto
    ultimately show ?thesis by (simp add: n)
  qed
qed simp

lemma p_members_render:
  assumes "d \<noteq> []" "\<And>k v. (k, v) \<in> set d \<Longrightarrow> parses v"
    and "sum_list (map (\<lambda>(k, v). Suc (json_fuel v)) d) \<le> n"
  shows "p_members n (join '','' (map (\<lambda>(k, v). quote k @ CHR '':'' # render v) d) @ CHR ''}'' # rest) = Some (d, rest)"
  using assms
proof (induction d arbitrary: n)
  case (Cons kv d)
  obtain k v where kv: "kv = (k, v)" by fastforce
  obtain m where n: "n = Suc m" using Cons.prems(3) kv by (cases n) auto
  have pv: "p_value m (render v @ s) = Some (v, s)" if "stops_number s" for s
    using Cons.prems kv n that by (intro parsesD) auto
  have q: "p_members n (quote k @ CHR '':'' # render v @ s) =
      (case skip_ws s of [] \<Rightarrow> None | c # cs \<Rightarrow>
         if c = CHR '','' then map_option (\<lambda>(kvs, t). ((k, v) # kvs, t)) (p_members m cs)
         else if c = CHR ''}'' then Some ([(k, v)], cs) else None)" if "stops_number s" for s
    using that by (simp add: n quote_def p_chars_quote pv del: append_Cons)
       (simp add: p_chars_quote pv)
  show ?case
  proof (cases d)
    case Nil
    then show ?thesis using q[of "CHR ''}'' # rest"] by (simp add: kv)
  next
    case (Cons e es)
    let ?tl = "join '','' (map (\<lambda>(k, v). quote k @ CHR '':'' # render v) d) @ CHR ''}'' # rest"
    have "join '','' (map (\<lambda>(k, v). quote k @ CHR '':'' # render v) (kv # d)) @ CHR ''}'' # rest
        = quote k @ CHR '':'' # render v @ CHR '','' # ?tl"
      using Cons kv by (cases e) simp
    moreover have "p_members m ?tl = Some (d, rest)"
      using Cons.prems n Cons kv by (intro Cons.IH) auto
    ultimately show ?thesis using q[of "CHR '','' # ?tl"] by (simp add: kv)
  qed
qed simp


lemma join_start:
  assumes "xs \<noteq> []" "hd xs \<noteq> []"
  shows "join sep xs @ rest \<noteq> []" and "hd (join sep xs @ rest) = hd (hd xs)"
  using assms by (cases xs; cases "tl xs"; auto)+

lemma parses_render: "wf_json v \<Longrightarrow> parses v"
proof (induction v)
  case (JArr xs)
  show ?case
    unfolding parses_def
  proof (intro allI impI)
    fix n rest assume n: "json_fuel (JArr xs) \<le> n" and "stops_number rest"
    obtain m where m: "n = Suc m" using n by (cases n) auto
    show "p_value n (render (JArr xs) @ rest) = Some (JArr xs, rest)"
    proof (cases "xs = []")
      case True
      then show ?thesis by (simp add: m skip_ws_def json_ws_def)
    next
      case False
      let ?s = "join '','' (map render xs) @ CHR '']'' # rest"
      have hd: "wf_json (hd xs)" using JArr.prems False by (cases xs) auto
      have "?s \<noteq> []" "hd ?s = hd (render (hd xs))"
        using join_start[of "map render xs" "'',''"] render_start[OF hd] False by (auto simp: hd_map)
      then obtain c cs where c: "?s = c # cs" "skip_ws ?s = ?s" "c \<noteq> CHR '']''"
        using render_start[OF hd] by (metis insertCI list.collapse skip_ws_id)
      moreover have "p_elems m ?s = Some (xs, rest)"
        using JArr n m False by (intro p_elems_render) (auto simp: list_all_iff)
      ultimately have "p_value n (CHR ''['' # ?s) = Some (JArr xs, rest)"
        by (simp add: m skip_ws_def[of "CHR ''['' # _"] json_ws_def)
      then show ?thesis by simp
    qed
  qed
next
  case (JObj d)
  show ?case
    unfolding parses_def
  proof (intro allI impI)
    fix n rest assume n: "json_fuel (JObj d) \<le> n" and "stops_number rest"
    obtain m where m: "n = Suc m" using n by (cases n) auto
    show "p_value n (render (JObj d) @ rest) = Some (JObj d, rest)"
    proof (cases "d = []")
      case True
      then show ?thesis by (simp add: m skip_ws_def json_ws_def)
    next
      case False
      let ?m = "map (\<lambda>(k, v). quote k @ CHR '':'' # render v) d"
      let ?s = "join '','' ?m @ CHR ''}'' # rest"
      obtain k v d' where d: "d = (k, v) # d'" using False by (cases d) auto
      have "?m \<noteq> []" "hd ?m = quote k @ CHR '':'' # render v" by (simp_all add: d)
      then have ne: "?s \<noteq> []" and hd: "hd ?s = chr 34"
        using join_start[of ?m "'',''" "CHR ''}'' # rest"] by (simp_all add: quote_def)
      obtain c cs where c: "?s = c # cs" using ne by (cases ?s) auto
      have "c = chr 34" using hd c by simp
      then have "c \<noteq> CHR ''}''" "skip_ws ?s = ?s"
        using c by (simp_all add: skip_ws_def json_ws_def char_eq_iff_code)
      moreover have "p_members m ?s = Some (d, rest)"
        using JObj n m False by (intro p_members_render) (force simp: list_all_iff)+
      ultimately have "p_value n (CHR ''{'' # ?s) = Some (JObj d, rest)"
        using JObj.prems c
        by (simp add: m skip_ws_def[of "CHR ''{'' # _"] json_ws_def dict_of_pairs_distinct)
      then show ?thesis by simp
    qed
  qed
next
  case (JInt i)
  have "show_int i \<noteq> []" "hd (show_int i) = CHR ''-'' \<or> is_digit (hd (show_int i))"
    using show_nat_hd_digit by (simp_all add: show_int_def)
  then show ?case unfolding parses_def
    by (metis One_nat_def Suc_le_D json_fuel.simps(5) p_number_int p_value_number render.simps(3))
next
  case (JFloat t)
  then show ?case unfolding parses_def
    by (metis One_nat_def Suc_le_D is_float_lit_hd json_fuel.simps(6) p_number_float p_value_number
        render.simps(4) wf_json.simps(1))
next
  case (JStr s)
  have "chr 34 \<noteq> CHR ''[''" "chr 34 \<noteq> CHR ''{''" by (simp_all add: char_eq_iff_code)
  then show ?case by (intro parsesI) (simp_all add: quote_def p_chars_quote)
next
  case JNull
  show ?case by (intro parsesI) (simp_all add: skip_ws_def json_ws_def startswith_def)
next
  case (JBool b)
  show ?case by (cases b; intro parsesI) (simp_all add: skip_ws_def json_ws_def startswith_def)
qed

lemma length_join: "sum_list (map (\<lambda>x. Suc (length (f x))) xs) \<le> Suc (length (join '','' (map f xs)))"
  by (induction xs rule: induct_list012) auto

lemma sum_list_fuel_le:
  "(\<And>x. x \<in> set xs \<Longrightarrow> Suc (f x) \<le> 2 * length (g x)) \<Longrightarrow>
   sum_list (map (\<lambda>x. Suc (f x)) xs) \<le> 2 * sum_list (map (\<lambda>x. Suc (length (g x))) xs)"
  by (induction xs) force+

lemma json_fuel_le: "wf_json v \<Longrightarrow> Suc (json_fuel v) \<le> 2 * length (render v)"
proof (induction v)
  case (JArr xs)
  have "sum_list (map (\<lambda>x. Suc (json_fuel x)) xs) \<le> 2 * sum_list (map (\<lambda>x. Suc (length (render x))) xs)"
    using JArr by (intro sum_list_fuel_le) (auto simp: list_all_iff)
  then show ?case using length_join[of render xs] by simp
next
  case (JObj d)
  let ?g = "\<lambda>(k, v). quote k @ CHR '':'' # render v"
  have "Suc (json_fuel (snd x)) \<le> 2 * length (?g x)" if "x \<in> set d" for x
    using JObj that by (cases x) (fastforce simp: list_all_iff)
  then have "sum_list (map (\<lambda>x. Suc (json_fuel (snd x))) d)
      \<le> 2 * sum_list (map (\<lambda>x. Suc (length (?g x))) d)"
    by (intro sum_list_fuel_le)
  then show ?case using length_join[of ?g d] by (simp add: case_prod_unfold)
next
  case (JInt i)
  have "0 < length (show_int i)" by (simp add: show_int_def)
  then show ?case by (cases "length (show_int i)") simp_all
next
  case (JFloat t)
  then show ?case using is_float_lit_hd[of t] by (cases t) auto
qed (auto simp: quote_def)

lemma wf_sort_keys: "wf_json v \<Longrightarrow> wf_json (sort_keys v)"
proof (induction v)
  case (JObj d)
  let ?d = "map (\<lambda>(k, v). (k, sort_keys v)) d"
  have "map fst ?d = map fst d" by (simp add: case_prod_unfold)
  then have "distinct (map fst ?d)" using JObj.prems by (simp only: wf_json.simps(3))
  then have "distinct (map fst (sort_key fst ?d))" by (simp only: distinct_map distinct_sort set_sort)
  moreover have "wf_json (snd x)" if "x \<in> set ?d" for x
    using that JObj by (fastforce simp: list_all_iff)
  ultimately show ?case by (simp only: sort_keys.simps wf_json.simps list_all_iff set_sort case_prod_unfold) blast
qed (auto simp: list_all_iff)

lemma json_loads_canonical:
  assumes "wf_json v"
  shows "json_loads (canonical_json v) = Some (sort_keys v)"
proof -
  let ?v = "sort_keys v"
  have wf: "wf_json ?v" using assms by (rule wf_sort_keys)
  have "p_value (Suc (2 * length (render ?v))) (render ?v @ []) = Some (?v, [])"
    using json_fuel_le[OF wf] by (intro parsesD parses_render wf) (auto simp: stops_number_def)
  then show ?thesis by (simp add: json_loads_def canonical_json_def skip_ws_def)
qed

lemma canonical_json_inject:
  assumes "wf_json v" "wf_json w" "canonical_json v = canonical_json w"
  shows "sort_keys v = sort_keys w"
  using json_loads_canonical[OF assms(1)] json_loads_canonical[OF assms(2)] assms(3) by simp

text \<open>
  C40. Canonical JSON loses nothing but key order. The reader recovers every JSON value from its
  canonical text up to the order of object keys, and two values have the same canonical text
  exactly when they are equal up to that order.
\<close>

theorem canonical_json_roundtrip:
  assumes "wf_json v" "wf_json w"
  shows "json_loads (canonical_json v) = Some (sort_keys v) \<and>
    (canonical_json v = canonical_json w \<longleftrightarrow> sort_keys v = sort_keys w)"
  using json_loads_canonical[OF assms(1)] canonical_json_inject[OF assms] by (auto simp: canonical_json_def)

theorem canonical_json_roundtrip_witness:
  "json_loads (canonical_json (JObj [(''b'', JNull), (''a'', JInt 7)])) = Some (JObj [(''a'', JInt 7), (''b'', JNull)])"
proof -
  let ?v = "JObj [(''b'', JNull), (''a'', JInt 7)]"
  have "wf_json ?v" by code_simp
  moreover have "sort_keys ?v = JObj [(''a'', JInt 7), (''b'', JNull)]" by code_simp
  ultimately show ?thesis using canonical_json_roundtrip[of ?v ?v] by simp
qed

end
