(* ===== verification/Journal_Models.thy ===== *)
theory Journal_Models
  imports Canonical_Json
begin

text \<open>
  The contracts of \<open>journal/models.py\<close> (enumerations, dataclasses with the checks of their
  \<open>__post_init__\<close>), the content-derived identities of \<open>journal/identity.py\<close> and the retry
  policy of \<open>journal/retry.py\<close>.

  \<open>hashlib.sha256(\<dots>).hexdigest()\<close> is the argument \<open>h\<close> of every definition that uses it; what a
  theorem needs of it (no collision on two given texts) is a hypothesis there. Timestamps are
  integers, microseconds since the epoch: the sources keep UTC ISO-8601 texts of one fixed
  width, which compare as the times they denote.
\<close>

section \<open>Enumerations\<close>

datatype run_status =
  RunOpen | RunDraining | RunDrained | RunBlocked | RunDeadLettered | RunQuarantined | RunFailed

datatype batch_status =
  Pending | Leased | Reconciling | RetryWait | Done | Blocked | DeadLetter

datatype operation_phase = PhaseNodes | PhaseRelationships | PhaseCalls | PhaseCustom

datatype barrier_status = BarrierOpen | BarrierProduced | BarrierDrained

datatype producer_status = ProducerOpen | ProducerComplete

datatype manifest_disposition = StagedUnique | DeclaredDuplicate | Conflict | Rejected

lemma UNIV_manifest_disposition: "(UNIV :: manifest_disposition set) = {StagedUnique, DeclaredDuplicate, Conflict, Rejected}"
  using manifest_disposition.exhaust by blast

lemma all_manifest_disposition: "(\<forall>x. P x) \<longleftrightarrow> P StagedUnique \<and> P DeclaredDuplicate \<and> P Conflict \<and> P Rejected"
  using manifest_disposition.exhaust by metis

lemma ex_manifest_disposition: "(\<exists>x. P x) \<longleftrightarrow> P StagedUnique \<or> P DeclaredDuplicate \<or> P Conflict \<or> P Rejected"
  using manifest_disposition.exhaust by metis

instantiation manifest_disposition :: enum
begin

definition enum_manifest_disposition :: "manifest_disposition list" where
  "enum_manifest_disposition = [StagedUnique, DeclaredDuplicate, Conflict, Rejected]"

definition enum_all_manifest_disposition :: "(manifest_disposition \<Rightarrow> bool) \<Rightarrow> bool" where
  "enum_all_manifest_disposition P \<longleftrightarrow> P StagedUnique \<and> P DeclaredDuplicate \<and> P Conflict \<and> P Rejected"

definition enum_ex_manifest_disposition :: "(manifest_disposition \<Rightarrow> bool) \<Rightarrow> bool" where
  "enum_ex_manifest_disposition P \<longleftrightarrow> P StagedUnique \<or> P DeclaredDuplicate \<or> P Conflict \<or> P Rejected"

instance
  by standard
    (auto simp: enum_manifest_disposition_def enum_all_manifest_disposition_def enum_ex_manifest_disposition_def all_manifest_disposition ex_manifest_disposition UNIV_manifest_disposition)

end

datatype endpoint_audit_status = Sealed

datatype retry_class = Transient | Ambiguous | Integrity | Incompatible | Terminal

datatype terminal_error_code =
    IncompatibleSchema | JournalCorrupt | DiskFull | UnsafePlacement | PermissionDenied
  | ArtifactHashMismatch | AdmissionRejected | InvalidTransition | StaleFence | MaxAttempts
  | InvalidContract

definition phase_value :: "operation_phase \<Rightarrow> string" where
  "phase_value p = (case p of
       PhaseNodes \<Rightarrow> ''nodes''
     | PhaseRelationships \<Rightarrow> ''relationships''
     | PhaseCalls \<Rightarrow> ''calls''
     | PhaseCustom \<Rightarrow> ''custom'')"

text \<open>\<open>OperationPhase(text)\<close>, which raises \<open>ValueError\<close> on any other text.\<close>

definition phase_of_value :: "string \<Rightarrow> operation_phase option" where
  "phase_of_value s = List.find (\<lambda>p. phase_value p = s)
     [PhaseNodes, PhaseRelationships, PhaseCalls, PhaseCustom]"

lemma phase_value_inject [simp]: "phase_value p = phase_value q \<longleftrightarrow> p = q"
  by (cases p; cases q) (simp_all add: phase_value_def)

lemma phase_of_value_phase_value [simp]: "phase_of_value (phase_value p) = Some p"
  by (cases p) (simp_all add: phase_of_value_def phase_value_def)

text \<open>
  Exceptions: the journal's own, with its machine-readable code (\<open>StaleFenceError\<close> is the one
  with code \<open>StaleFence\<close>), and the Python classes the code raises, catches or classifies.
\<close>

datatype exc =
    JournalError terminal_error_code
  | ValueError | TypeError | KeyError | AssertionError | RuntimeError
  | ConnectionError | TimeoutError | OSError | OtherException

section \<open>Dataclasses\<close>

record run_metadata =
  project_id :: string
  scope_id :: string
  source_revision :: string
  source_snapshot :: string
  physical_target :: string
  generation :: string
  parser :: string
  parser_version :: string
  schema_fingerprint :: string
  query_shape_version :: string
  operation_versions :: "(string \<times> int) list"
  contract_version :: int

definition run_metadata_init :: "run_metadata \<Rightarrow> exc + run_metadata" where
  "run_metadata_init m =
     (if list_ex (\<lambda>v. strip v = [])
           [project_id m, scope_id m, source_revision m, source_snapshot m, physical_target m,
            generation m, parser m, parser_version m, schema_fingerprint m, query_shape_version m]
        then Inl ValueError
      else if list_ex (\<lambda>(n, v). strip n = [] \<or> v < 1) (operation_versions m) then Inl ValueError
      else if contract_version m < 1 then Inl ValueError
      else Inr (m\<lparr>operation_versions := sort_key fst (operation_versions m)\<rparr>))"

definition run_metadata_to_dict :: "run_metadata \<Rightarrow> dict" where
  "run_metadata_to_dict m =
     [(''project_id'', JStr (project_id m)),
      (''scope_id'', JStr (scope_id m)),
      (''source_revision'', JStr (source_revision m)),
      (''source_snapshot'', JStr (source_snapshot m)),
      (''physical_target'', JStr (physical_target m)),
      (''generation'', JStr (generation m)),
      (''parser'', JStr (parser m)),
      (''parser_version'', JStr (parser_version m)),
      (''schema_fingerprint'', JStr (schema_fingerprint m)),
      (''query_shape_version'', JStr (query_shape_version m)),
      (''operation_versions'', JObj (map (\<lambda>(n, v). (n, JInt v)) (operation_versions m))),
      (''contract_version'', JInt (contract_version m))]"

record artifact_ref =
  sha256 :: string
  relative_path :: string
  byte_count :: int
  row_count :: int

record batch_spec =
  sp_phase :: operation_phase
  sp_operation_key :: string
  sp_sequence :: int
  sp_artifact :: artifact_ref
  sp_expected_count :: int
  sp_required_barriers :: "string list"
  sp_produced_barriers :: "string list"
  sp_max_attempts :: int
  sp_operation :: dict

definition batch_spec_init :: "batch_spec \<Rightarrow> exc + batch_spec" where
  "batch_spec_init s =
     (if strip (sp_operation_key s) = [] then Inl ValueError
      else if sp_sequence s < 0 then Inl ValueError
      else if sp_expected_count s < 0 then Inl ValueError
      else if sp_max_attempts s < 1 then Inl ValueError
      else
        let required = sorted_set (sp_required_barriers s);
            produced = sorted_set (sp_produced_barriers s)
        in if list_ex (\<lambda>n. strip n = []) (required @ produced) then Inl ValueError
           else if set required \<inter> set produced \<noteq> {} then Inl ValueError
           else Inr (s\<lparr>sp_required_barriers := required, sp_produced_barriers := produced\<rparr>))"

text \<open>
  \<open>RunRecord\<close>, \<open>BatchRecord\<close> and \<open>BarrierRecord\<close> are what the store returns; the rows of the
  store (\<open>Journal_Store\<close>) extend them by the columns only SQL sees, and \<open>truncate\<close> is the
  conversion \<open>_run_from_row\<close> and its siblings.
\<close>

record run_record =
  r_run_id :: string
  r_fingerprint :: string
  r_metadata :: run_metadata
  r_status :: run_status
  r_created_at :: int
  r_updated_at :: int
  r_retention_until :: int
  r_error_code :: "terminal_error_code option"

record batch_record =
  b_job_id :: string
  b_run_id :: string
  b_phase :: operation_phase
  b_operation_key :: string
  b_sequence :: int
  b_artifact :: artifact_ref
  b_expected_count :: int
  b_status :: batch_status
  b_attempt :: int
  b_max_attempts :: int
  b_fencing_token :: "string option"
  b_lease_until :: "int option"
  b_next_attempt_at :: "int option"
  b_required_barriers :: "string list"
  b_produced_barriers :: "string list"
  b_retry_class :: "retry_class option"
  b_error_code :: "terminal_error_code option"
  b_operation :: dict

record barrier_record =
  bar_run_id :: string
  bar_name :: string
  bar_status :: barrier_status
  bar_produced_count :: int
  bar_drained_count :: int
  bar_closed_at :: "int option"

record journal_limits =
  max_batches_per_run :: int
  max_payload_bytes_per_run :: int
  max_artifact_bytes :: int
  max_journal_bytes :: int
  min_free_bytes :: int
  retention_seconds :: int
  busy_timeout_ms :: int
  wal_autocheckpoint_pages :: int

definition default_limits :: journal_limits where
  "default_limits =
     \<lparr>max_batches_per_run = 100000,
      max_payload_bytes_per_run = 4 * 1024 * 1024 * 1024,
      max_artifact_bytes = 256 * 1024 * 1024,
      max_journal_bytes = 512 * 1024 * 1024,
      min_free_bytes = 512 * 1024 * 1024,
      retention_seconds = 7 * 24 * 60 * 60,
      busy_timeout_ms = 5000,
      wal_autocheckpoint_pages = 1000\<rparr>"

definition journal_limits_init :: "journal_limits \<Rightarrow> exc + journal_limits" where
  "journal_limits_init l =
     (if list_ex (\<lambda>v. v \<le> 0)
           [max_batches_per_run l, max_payload_bytes_per_run l, max_artifact_bytes l,
            max_journal_bytes l, min_free_bytes l, retention_seconds l, busy_timeout_ms l,
            wal_autocheckpoint_pages l]
      then Inl ValueError else Inr l)"

section \<open>Identities\<close>

definition run_fingerprint :: "(string \<Rightarrow> string) \<Rightarrow> run_metadata \<Rightarrow> string" where
  "run_fingerprint h m = h (canonical_json (JObj (run_metadata_to_dict m)))"

definition run_id :: "(string \<Rightarrow> string) \<Rightarrow> run_metadata \<Rightarrow> string" where
  "run_id h m = ''run_'' @ run_fingerprint h m"

definition job_identity :: "string \<Rightarrow> operation_phase \<Rightarrow> string \<Rightarrow> int \<Rightarrow> string \<Rightarrow> json" where
  "job_identity fingerprint phase key seq payload =
     JObj [(''run_fingerprint'', JStr fingerprint),
           (''phase'', JStr (phase_value phase)),
           (''operation_key'', JStr key),
           (''sequence'', JInt seq),
           (''payload_sha256'', JStr payload)]"

definition deterministic_job_id ::
  "(string \<Rightarrow> string) \<Rightarrow> string \<Rightarrow> operation_phase \<Rightarrow> string \<Rightarrow> int \<Rightarrow> string \<Rightarrow> string" where
  "deterministic_job_id h fingerprint phase key seq payload =
     ''job_'' @ h (canonical_json (job_identity fingerprint phase key seq payload))"

text \<open>The hash does not confuse two given texts.\<close>

definition no_collision :: "('a \<Rightarrow> 'b) \<Rightarrow> 'a \<Rightarrow> 'a \<Rightarrow> bool" where
  "no_collision h x y \<longleftrightarrow> (h x = h y \<longrightarrow> x = y)"

lemma job_identity_canonical_inject:
  assumes "canonical_json (job_identity f p k s d) = canonical_json (job_identity f' p' k' s' d')"
  shows "f = f' \<and> p = p' \<and> k = k' \<and> s = s' \<and> d = d'"
proof -
  have "wf_json (job_identity f p k s d)" for f p k s d
    by (simp add: job_identity_def)
  then have "sort_keys (job_identity f p k s d) = sort_keys (job_identity f' p' k' s' d')"
    using assms by (intro canonical_json_inject)
  then show ?thesis
    by (simp add: job_identity_def)
qed

section \<open>Retry policy\<close>

definition classify_error :: "exc \<Rightarrow> retry_class" where
  "classify_error e = (case e of
       JournalError c \<Rightarrow>
         if c \<in> {ArtifactHashMismatch, JournalCorrupt} then Integrity
         else if c \<in> {IncompatibleSchema, InvalidContract} then Incompatible
         else Terminal
     | ConnectionError \<Rightarrow> Transient
     | TimeoutError \<Rightarrow> Transient
     | OSError \<Rightarrow> Transient
     | _ \<Rightarrow> Terminal)"

text \<open>
  \<open>retry_at\<close>: bounded exponential backoff, in seconds over exact rationals. The jitter is the
  caller's function of the bounds it is given (\<open>random.uniform\<close> by default). The instant is
  \<open>now\<close> plus this delay.
\<close>

definition base_delay :: "int \<Rightarrow> int \<Rightarrow> int \<Rightarrow> int" where
  "base_delay attempt base_seconds max_seconds =
     min max_seconds (base_seconds * 2 ^ nat (max 0 (attempt - 1)))"

definition retry_delay ::
  "int \<Rightarrow> int \<Rightarrow> int \<Rightarrow> (rat \<Rightarrow> rat \<Rightarrow> rat) \<Rightarrow> exc + rat" where
  "retry_delay attempt base_seconds max_seconds jitter =
     (if base_seconds \<le> 0 \<or> max_seconds \<le> 0 \<or> base_seconds > max_seconds then Inl ValueError
      else
        let base = of_int (base_delay attempt base_seconds max_seconds)
        in Inr (min (of_int max_seconds) (max 0 (base + jitter 0 (base * (1 / 4))))))"

section \<open>Correctness\<close>

subsection \<open>Identities are injective\<close>

lemma map_JInt_inject: "map (\<lambda>(n, v). (n, JInt v)) xs = map (\<lambda>(n, v). (n, JInt v)) ys \<Longrightarrow> xs = ys"
  by (rule map_injective[rotated]) (auto simp: inj_def)


lemma sort_key_sorted: "sorted (map k xs) \<Longrightarrow> sort_key k xs = xs"
  by (induction xs) (auto simp: insort_is_Cons)

text \<open>Metadata as its constructor leaves it: checked, with the versions a sorted mapping.\<close>

definition metadata_ok :: "run_metadata \<Rightarrow> bool" where
  "metadata_ok m \<longleftrightarrow> run_metadata_init m = Inr m \<and> distinct (map fst (operation_versions m))"

lemma metadata_ok_sorted: "metadata_ok m \<Longrightarrow> sorted (map fst (operation_versions m))"
proof -
  assume "metadata_ok m"
  then have "m\<lparr>operation_versions := sort_key fst (operation_versions m)\<rparr> = m"
    by (auto simp: metadata_ok_def run_metadata_init_def split: if_splits)
  then have "sort_key fst (operation_versions m) = operation_versions m"
    by (metis run_metadata.select_convs(11) run_metadata.surjective run_metadata.update_convs(11))
  then show ?thesis by (metis sorted_sort_key)
qed


lemma fst_comp_map_snd [simp]: "fst \<circ> (\<lambda>(n, v). (n, g v)) = fst"
  by auto

definition versions_json :: "(string \<times> int) list \<Rightarrow> json" where
  "versions_json vs = JObj (map (\<lambda>(n, v). (n, JInt v)) vs)"

lemma sort_keys_versions: "sorted (map fst vs) \<Longrightarrow> sort_keys (versions_json vs) = versions_json vs"
  by (simp add: versions_json_def comp_def case_prod_beta' sort_key_sorted)

lemma wf_versions: "distinct (map fst vs) \<Longrightarrow> wf_json (versions_json vs)"
  by (auto simp: versions_json_def list_all_iff)

lemma versions_json_inject: "versions_json vs = versions_json vs' \<longleftrightarrow> vs = vs'"
  using map_JInt_inject by (auto simp: versions_json_def)

lemma run_metadata_to_dict_versions:
  "run_metadata_to_dict m =
     [(''project_id'', JStr (project_id m)), (''scope_id'', JStr (scope_id m)),
      (''source_revision'', JStr (source_revision m)), (''source_snapshot'', JStr (source_snapshot m)),
      (''physical_target'', JStr (physical_target m)), (''generation'', JStr (generation m)),
      (''parser'', JStr (parser m)), (''parser_version'', JStr (parser_version m)),
      (''schema_fingerprint'', JStr (schema_fingerprint m)),
      (''query_shape_version'', JStr (query_shape_version m)),
      (''operation_versions'', versions_json (operation_versions m)),
      (''contract_version'', JInt (contract_version m))]"
  by (simp add: run_metadata_to_dict_def versions_json_def)

lemma run_metadata_canonical_inject:
  assumes "metadata_ok m" "metadata_ok m'"
    and "canonical_json (JObj (run_metadata_to_dict m)) = canonical_json (JObj (run_metadata_to_dict m'))"
  shows "m = m'"
proof -
  have wf: "wf_json (JObj (run_metadata_to_dict x))" if "metadata_ok x" for x
    using that by (simp add: run_metadata_to_dict_versions metadata_ok_def wf_versions)
  have "sort_keys (JObj (run_metadata_to_dict m)) = sort_keys (JObj (run_metadata_to_dict m'))"
    using assms wf by (intro canonical_json_inject) auto
  then show ?thesis
    using sort_keys_versions[OF metadata_ok_sorted[OF assms(1)]]
      sort_keys_versions[OF metadata_ok_sorted[OF assms(2)]]
    by (simp add: run_metadata_to_dict_versions versions_json_inject)
qed

text \<open>
  Run identity. Two checked metadata records get the same run id exactly when they agree in
  every compatibility input (the ids, revision, snapshot, target, generation, parser, schema,
  query shape, operation versions and contract version), as long as the hash does not collide on
  their two canonical texts.
\<close>

theorem run_id_inject:
  assumes "metadata_ok m" "metadata_ok m'"
    and "no_collision h (canonical_json (JObj (run_metadata_to_dict m)))
           (canonical_json (JObj (run_metadata_to_dict m')))"
  shows "run_id h m = run_id h m' \<longleftrightarrow> m = m'"
  using assms run_metadata_canonical_inject[of m m']
  by (auto simp: run_id_def run_fingerprint_def no_collision_def)

definition sample_metadata :: run_metadata where
  "sample_metadata =
     \<lparr>project_id = ''p'', scope_id = ''s'', source_revision = ''r'', source_snapshot = ''n'',
      physical_target = ''t'', generation = ''g'', parser = ''x'', parser_version = ''1'',
      schema_fingerprint = ''f'', query_shape_version = ''q'', operation_versions = [(''w'', 1)],
      contract_version = 1\<rparr>"

lemmas strip_simps = strip_def lstrip_def rstrip_def py_isspace_def

lemma metadata_ok_sample:
  "metadata_ok sample_metadata" "metadata_ok (sample_metadata\<lparr>operation_versions := [(''w'', 2)]\<rparr>)"
  by (simp_all add: metadata_ok_def sample_metadata_def run_metadata_init_def strip_simps)

theorem run_id_inject_witness:
  "run_id id sample_metadata \<noteq> run_id id (sample_metadata\<lparr>operation_versions := [(''w'', 2)]\<rparr>)"
  using run_id_inject[OF metadata_ok_sample, of id]
  by (simp add: no_collision_def sample_metadata_def)

text \<open>
  Job identity. The deterministic job id determines the run fingerprint, phase, operation
  key, sequence number and payload digest it was computed from, as long as the hash does not
  collide on the two canonical texts: a retried producer finds its own batch and no other.
\<close>

theorem job_id_inject:
  assumes "no_collision h (canonical_json (job_identity f p k s d))
             (canonical_json (job_identity f' p' k' s' d'))"
  shows "deterministic_job_id h f p k s d = deterministic_job_id h f' p' k' s' d' \<longleftrightarrow>
           f = f' \<and> p = p' \<and> k = k' \<and> s = s' \<and> d = d'"
  using assms job_identity_canonical_inject[of f p k s d f' p' k' s' d']
  by (auto simp: deterministic_job_id_def no_collision_def)

theorem job_id_inject_witness:
  "deterministic_job_id id ''f'' PhaseNodes ''k'' 1 ''d'' \<noteq> deterministic_job_id id ''f'' PhaseNodes ''k'' 11 ''d''"
  using job_id_inject[of id "''f''" PhaseNodes "''k''" 1 "''d''" "''f''" PhaseNodes "''k''" 11 "''d''"]
  by (simp add: no_collision_def)

subsection \<open>Backoff is bounded\<close>

lemma base_delay_bounds:
  assumes "0 < b" "b \<le> m"
  shows "b \<le> base_delay a b m" "base_delay a b m \<le> m"
proof -
  have "b * 1 \<le> b * 2 ^ nat (max 0 (a - 1))"
    using assms(1) by (intro mult_left_mono) (auto simp: one_le_power)
  then show "b \<le> base_delay a b m" using assms by (simp add: base_delay_def)
qed (simp add: base_delay_def)

lemma base_delay_mono: "0 < b \<Longrightarrow> a \<le> a' \<Longrightarrow> base_delay a b m \<le> base_delay a' b m"
proof -
  assume "0 < b" "a \<le> a'"
  then have "b * 2 ^ nat (max 0 (a - 1)) \<le> b * 2 ^ nat (max 0 (a' - 1))"
    by (intro mult_left_mono power_increasing) auto
  then show ?thesis by (auto simp: base_delay_def min_def)
qed

text \<open>
  Backoff. For ordered positive bounds and a jitter that is never negative (as
  \<open>random.uniform(0, hi)\<close> is), \<open>retry_at\<close> returns a delay for every attempt number; it is at
  least the exponential base delay, which is at least the base and grows with the attempt, and
  never above the maximum.
\<close>

theorem retry_delay_bounds:
  assumes "0 < b" "b \<le> m" and "\<And>hi. 0 \<le> hi \<Longrightarrow> 0 \<le> jitter 0 hi"
  shows "\<exists>d. retry_delay a b m jitter = Inr d \<and> of_int (base_delay a b m) \<le> d \<and> d \<le> of_int m \<and>
           b \<le> base_delay a b m \<and> base_delay a b m \<le> base_delay (a + 1) b m"
proof -
  have bd: "b \<le> base_delay a b m" "base_delay a b m \<le> m"
    using base_delay_bounds assms(1,2) by auto
  then have nonneg: "(0::rat) \<le> of_int (base_delay a b m) * (1 / 4)"
    using assms(1) by auto
  have "(of_int b::rat) \<le> of_int (base_delay a b m)" "(of_int (base_delay a b m)::rat) \<le> of_int m"
    using bd by simp_all
  then show ?thesis
    using assms(1,2) assms(3)[OF nonneg] bd base_delay_mono[of b a "a + 1" m]
    by (auto simp: retry_delay_def Let_def)
qed

theorem retry_delay_bounds_witness:
  "\<exists>d. retry_delay 3 1 60 (\<lambda>lo hi. hi / 2) = Inr d \<and> of_int (base_delay 3 1 60) \<le> d \<and> d \<le> of_int 60 \<and>
     1 \<le> base_delay 3 1 60 \<and> base_delay 3 1 60 \<le> base_delay (3 + 1) 1 60"
  by (rule retry_delay_bounds) auto

end
