(* ===== verification/Journal_Operation.thy ===== *)
theory Journal_Operation
  imports Journal_Models
begin

text \<open>
  The replay descriptors of \<open>journal/operation.py\<close>: \<open>GraphWriteOperation\<close>, the constructors
  that choose a reconciliation contract from a label or from source Cypher, and its
  serialisation. A descriptor is what the journal persists instead of executable text.
\<close>

record graph_write_operation =
  label :: string
  op_phase :: operation_phase
  version :: int
  idempotent :: bool
  reconciliation :: string
  node_label :: "string option"
  identity_property :: "string option"
  row_identity_property :: string
  row_properties_property :: "string option"
  mutation_kind :: string
  query_fingerprint :: "string option"

definition gwo_default :: "string \<Rightarrow> operation_phase \<Rightarrow> graph_write_operation" where
  "gwo_default l p =
     \<lparr>label = l, op_phase = p, version = 1, idempotent = True, reconciliation = ''unsupported'',
      node_label = None, identity_property = None, row_identity_property = ''id'',
      row_properties_property = None, mutation_kind = ''merge'', query_fingerprint = None\<rparr>"

definition gwo_init :: "graph_write_operation \<Rightarrow> exc + graph_write_operation" where
  "gwo_init g =
     (if strip (label g) = [] then Inl ValueError
      else if version g < 1 then Inl ValueError
      else if \<not> idempotent g then Inl ValueError
      else if mutation_kind g \<notin> {''merge'', ''match''} then Inl ValueError
      else Inr g)"

definition operation_key :: "graph_write_operation \<Rightarrow> string" where
  "operation_key g =
     ''graph-write/v'' @ show_int (version g) @ ''/'' @ phase_value (op_phase g) @ ''/'' @ label g @
     (case query_fingerprint g of
        None \<Rightarrow> []
      | Some q \<Rightarrow> if q = [] then [] else CHR ''/'' # q)"

section \<open>Labels\<close>

definition node_labels :: "string list" where
  "node_labels =
     [''aliases'', ''classes'', ''fields'', ''files'', ''function_types'', ''functions'',
      ''namespaces'', ''packages'', ''projects'', ''templates'', ''types'', ''variables'']"

text \<open>\<open>_NODE_CONTRACTS\<close>: node label, identity property, and where the row keeps both.\<close>

definition node_contracts :: "(string \<times> string \<times> string \<times> string \<times> string option) list" where
  "node_contracts =
     [(''aliases'', ''Alias'', ''id'', ''id'', None),
      (''classes'', ''Class'', ''id'', ''id'', None),
      (''fields'', ''Field'', ''id'', ''id'', None),
      (''files'', ''File'', ''id'', ''id'', None),
      (''function_types'', ''FunctionType'', ''id'', ''id'', None),
      (''functions'', ''Function'', ''id'', ''id'', None),
      (''namespaces'', ''Namespace'', ''id'', ''id'', None),
      (''packages'', ''Package'', ''id'', ''id'', None),
      (''projects'', ''Project'', ''project_id'', ''id'', None),
      (''templates'', ''Template'', ''id'', ''id'', None),
      (''types'', ''Type'', ''id'', ''id'', None),
      (''variables'', ''Variable'', ''id'', ''id'', None),
      (''properties'', ''Property'', ''id'', ''id'', None),
      (''events'', ''Event'', ''id'', ''id'', None),
      (''interfaces'', ''Interface'', ''id'', ''id'', None),
      (''enums'', ''Enum'', ''id'', ''id'', None),
      (''constants'', ''Constant'', ''id'', ''id'', None),
      (''navigators'', ''Navigator'', ''id'', ''id'', None),
      (''param_lists'', ''ParamList'', ''id'', ''id'', None),
      (''workflows'', ''Workflow'', ''id'', ''id'', None),
      (''workflow_steps'', ''WorkflowStep'', ''id'', ''id'', None),
      (''call_evidence:sites'', ''CallSite'', ''site_id'', ''site_id'', Some ''props''),
      (''call_evidence:configurations'', ''BuildConfiguration'', ''config_fingerprint'',
       ''config_fingerprint'', Some ''props''),
      (''call_evidence:coverage'', ''SemanticCoverage'', ''fingerprint'', ''fingerprint'',
       Some ''props'')]"

definition phase_for_label :: "string \<Rightarrow> operation_phase" where
  "phase_for_label l =
     (let normalized = casefold (strip l) in
      if normalized = ''calls'' \<or> startswith normalized ''calls:'' then PhaseCalls
      else if normalized \<in> set node_labels then PhaseNodes
      else if endswith normalized ''_edges'' \<or> startswith normalized ''relations:'' \<or>
              normalized \<in> {''relations'', ''relationships''} then PhaseRelationships
      else PhaseCustom)"

definition for_label :: "string \<Rightarrow> exc + graph_write_operation" where
  "for_label l =
     (let normalized = casefold (strip l) in
      case map_of node_contracts normalized of
        Some (nl, ip, rip, rpp) \<Rightarrow>
          gwo_init ((gwo_default l PhaseNodes)
            \<lparr>reconciliation := ''node_identity'', node_label := Some nl, identity_property := Some ip,
             row_identity_property := rip, row_properties_property := rpp\<rparr>)
      | None \<Rightarrow>
          if startswith normalized ''relations:'' then
            gwo_init ((gwo_default l PhaseRelationships)\<lparr>reconciliation := ''typed_relationship''\<rparr>)
          else if normalized = ''call_evidence:edges'' \<or> startswith normalized ''call_evidence:edges:'' then
            gwo_init ((gwo_default l PhaseRelationships)\<lparr>reconciliation := ''evidence_edge''\<rparr>)
          else if normalized = ''repo_file_edges'' then
            gwo_init ((gwo_default l PhaseRelationships)\<lparr>reconciliation := ''repository_file''\<rparr>)
          else if normalized = ''calls'' then
            gwo_init ((gwo_default l PhaseCalls)\<lparr>reconciliation := ''call_edge''\<rparr>)
          else if normalized = ''calls:site'' then
            gwo_init ((gwo_default l PhaseCalls)\<lparr>reconciliation := ''call_site''\<rparr>)
          else if normalized = ''possible_calls:site'' then
            gwo_init ((gwo_default l PhaseCalls)\<lparr>reconciliation := ''possible_call_site''\<rparr>)
          else gwo_init (gwo_default l (phase_for_label l)))"

definition for_node_contract ::
  "string \<Rightarrow> string \<Rightarrow> string \<Rightarrow> string \<Rightarrow> string option \<Rightarrow> exc + graph_write_operation" where
  "for_node_contract l nl ip rip rpp =
     gwo_init ((gwo_default l PhaseNodes)
       \<lparr>reconciliation := ''node_identity'', node_label := Some nl, identity_property := Some ip,
        row_identity_property := rip, row_properties_property := rpp\<rparr>)"

definition for_incremental_cleanup ::
  "string \<Rightarrow> string \<Rightarrow> string option \<Rightarrow> exc + graph_write_operation" where
  "for_incremental_cleanup l rec nl =
     (if rec \<notin> {''file_cleanup'', ''orphan_unknown_cleanup''} then Inl ValueError
      else gwo_init ((gwo_default l PhaseNodes)
        \<lparr>version := 2, reconciliation := rec, node_label := nl, mutation_kind := ''match''\<rparr>))"

section \<open>Serialisation\<close>

definition json_opt :: "string option \<Rightarrow> json" where
  "json_opt o' = (case o' of None \<Rightarrow> JNull | Some s \<Rightarrow> JStr s)"

definition gwo_to_dict :: "graph_write_operation \<Rightarrow> dict" where
  "gwo_to_dict g =
     [(''label'', JStr (label g)),
      (''phase'', JStr (phase_value (op_phase g))),
      (''version'', JInt (version g)),
      (''idempotent'', JBool (idempotent g)),
      (''operation_key'', JStr (operation_key g)),
      (''reconciliation'', JStr (reconciliation g)),
      (''node_label'', json_opt (node_label g)),
      (''identity_property'', json_opt (identity_property g)),
      (''row_identity_property'', JStr (row_identity_property g)),
      (''row_properties_property'', json_opt (row_properties_property g)),
      (''mutation_kind'', JStr (mutation_kind g)),
      (''query_fingerprint'', json_opt (query_fingerprint g))]"

text \<open>
  \<open>int(value)\<close> of a JSON value. A float is truncated from its decimal text; texts in exponent
  notation are outside the model. A string is a decimal literal with optional sign, surrounded
  by blanks.
\<close>

definition signed_int :: "string \<Rightarrow> exc + int" where
  "signed_int s =
     (let neg = s \<noteq> [] \<and> hd s = CHR ''-'';
          u = (if s \<noteq> [] \<and> hd s \<in> {CHR ''-'', CHR ''+''} then tl s else s)
      in if u \<noteq> [] \<and> list_all is_digit u
         then Inr ((if neg then - 1 else 1) * int (nat_of_digits u)) else Inl ValueError)"

definition py_int :: "json \<Rightarrow> exc + int" where
  "py_int v = (case v of
       JInt i \<Rightarrow> Inr i
     | JBool b \<Rightarrow> Inr (if b then 1 else 0)
     | JFloat t \<Rightarrow> signed_int (takeWhile (\<lambda>c. c \<noteq> CHR ''.'') t)
     | JStr s \<Rightarrow> signed_int (strip s)
     | _ \<Rightarrow> Inl TypeError)"

definition dict_get_default :: "dict \<Rightarrow> string \<Rightarrow> json \<Rightarrow> json" where
  "dict_get_default d k v = (case map_of d k of None \<Rightarrow> v | Some w \<Rightarrow> w)"

definition dict_item :: "dict \<Rightarrow> string \<Rightarrow> exc + json" where
  "dict_item d k = (case map_of d k of None \<Rightarrow> Inl KeyError | Some v \<Rightarrow> Inr v)"

definition str_if_truthy :: "dict \<Rightarrow> string \<Rightarrow> string option" where
  "str_if_truthy d k = (if json_truthy (dict_get d k) then Some (py_str (dict_get d k)) else None)"

definition gwo_from_dict :: "dict \<Rightarrow> exc + graph_write_operation" where
  "gwo_from_dict d =
     rbind (dict_item d ''label'') (\<lambda>l.
     rbind (dict_item d ''phase'') (\<lambda>p.
     case phase_of_value (py_str p) of
       None \<Rightarrow> Inl ValueError
     | Some phase \<Rightarrow>
     rbind (py_int (dict_get_default d ''version'' (JInt 1))) (\<lambda>ver.
     rbind (gwo_init
       \<lparr>label = py_str l, op_phase = phase, version = ver,
        idempotent = json_truthy (dict_get_default d ''idempotent'' (JBool True)),
        reconciliation = py_str (dict_get_default d ''reconciliation'' (JStr ''unsupported'')),
        node_label = str_if_truthy d ''node_label'',
        identity_property = str_if_truthy d ''identity_property'',
        row_identity_property = py_str (dict_get_default d ''row_identity_property'' (JStr ''id'')),
        row_properties_property = str_if_truthy d ''row_properties_property'',
        mutation_kind = py_str (dict_get_default d ''mutation_kind'' (JStr ''merge'')),
        query_fingerprint = str_if_truthy d ''query_fingerprint''\<rparr>) (\<lambda>g.
     case dict_get d ''operation_key'' of
       JNull \<Rightarrow> Inr g
     | JStr k \<Rightarrow> if k = operation_key g then Inr g else Inl ValueError
     | JArr _ \<Rightarrow> Inl TypeError
     | JObj _ \<Rightarrow> Inl TypeError
     | _ \<Rightarrow> Inl ValueError))))"

section \<open>Operations derived from source Cypher\<close>

text \<open>
  \<open>_SAFE_NODE_QUERY_PATTERN\<close> as a sequence of items read from the left. Every identifier of the
  pattern is followed by an item that starts with a non-word character and every run of blanks
  by one that starts with a non-blank, so reading greedily, without backtracking, is what the
  regular expression does. \<open>RE_back\<close> compares without case, as \<open>IGNORECASE\<close> makes a
  backreference do.
\<close>

datatype re_item =
    RE_lit string
  | RE_ws0
  | RE_ws1
  | RE_word nat
  | RE_back nat

definition word_start :: "char \<Rightarrow> bool" where
  "word_start c \<longleftrightarrow> (let n = char_code c in (65 \<le> n \<and> n \<le> 90) \<or> (97 \<le> n \<and> n \<le> 122) \<or> n = 95)"

definition word_char :: "char \<Rightarrow> bool" where
  "word_char c \<longleftrightarrow> word_start c \<or> is_digit c"

lemma word_start_bits [code]:
  "word_start (Char b0 b1 b2 b3 b4 b5 b6 b7) \<longleftrightarrow> \<not> b7 \<and> b6 \<and>
     (((b4 \<or> b3 \<or> b2 \<or> b1 \<or> b0) \<and> \<not> (b4 \<and> b3 \<and> (b2 \<or> b1 \<and> b0))) \<or> (\<not> b5 \<and> b4 \<and> b3 \<and> b2 \<and> b1 \<and> b0))"
  by (cases b0; cases b1; cases b2; cases b3; cases b4; cases b5; cases b6; cases b7; simp add: word_start_def)

lemma word_char_bits:
  "word_char (Char b0 b1 b2 b3 b4 b5 b6 b7) \<longleftrightarrow>
     word_start (Char b0 b1 b2 b3 b4 b5 b6 b7) \<or> is_digit (Char b0 b1 b2 b3 b4 b5 b6 b7)"
  by (simp add: word_char_def)

lemmas word_class_bits = word_char_bits word_start_bits is_digit_bits

fun re_match :: "re_item list \<Rightarrow> (nat \<rightharpoonup> string) \<Rightarrow> string \<Rightarrow> ((nat \<rightharpoonup> string) \<times> string) option" where
  "re_match [] caps s = Some (caps, s)"
| "re_match (RE_lit l # items) caps s =
     (if startswith (casefold s) (casefold l) then re_match items caps (drop (length l) s) else None)"
| "re_match (RE_ws0 # items) caps s = re_match items caps (lstrip s)"
| "re_match (RE_ws1 # items) caps s =
     (if s \<noteq> [] \<and> py_isspace (hd s) then re_match items caps (lstrip s) else None)"
| "re_match (RE_word n # items) caps s =
     (if s \<noteq> [] \<and> word_start (hd s)
      then re_match items (caps(n \<mapsto> takeWhile word_char s)) (dropWhile word_char s) else None)"
| "re_match (RE_back n # items) caps s =
     (case caps n of
        None \<Rightarrow> None
      | Some w \<Rightarrow>
          if startswith (casefold s) (casefold w) then re_match items caps (drop (length w) s) else None)"

text \<open>Captures: 0 variable, 1 label, 2 identity, 3 row identity, 4 properties.\<close>

definition safe_node_head :: "string \<Rightarrow> re_item list" where
  "safe_node_head verb =
     [RE_ws0, RE_lit ''UNWIND'', RE_ws1, RE_lit ''$rows'', RE_ws1, RE_lit ''AS'', RE_ws1, RE_lit ''row'',
      RE_ws1, RE_lit verb, RE_ws0, RE_lit ''('', RE_ws0, RE_word 0, RE_ws0, RE_lit '':'', RE_word 1,
      RE_ws0, RE_lit ''{'', RE_ws0, RE_word 2, RE_ws0, RE_lit '':'', RE_ws0, RE_lit ''row.'', RE_word 3,
      RE_ws0, RE_lit ''}'', RE_ws0, RE_lit '')'', RE_ws1, RE_lit ''SET'', RE_ws1, RE_back 0, RE_ws0,
      RE_lit ''+='', RE_ws0, RE_lit ''row'']"

definition safe_node_tail :: "re_item list" where
  "safe_node_tail =
     [RE_lit ''RETURN'', RE_ws1, RE_lit ''count('', RE_back 0, RE_lit '')'', RE_ws1, RE_lit ''AS'', RE_ws1,
      RE_lit ''count'', RE_ws0]"

definition match_safe_node :: "string \<Rightarrow> string \<Rightarrow> (nat \<rightharpoonup> string) option" where
  "match_safe_node verb s =
     (case re_match (safe_node_head verb) Map.empty s of
        None \<Rightarrow> None
      | Some (caps, r) \<Rightarrow>
          let (caps', r') =
            (case re_match [RE_lit ''.'', RE_word 4] caps r of None \<Rightarrow> (caps, r) | Some x \<Rightarrow> x)
          in case re_match (RE_ws0 # safe_node_tail) caps' r' of
               Some (caps'', []) \<Rightarrow> Some caps''
             | _ \<Rightarrow> if lstrip r' = [] then Some caps' else None)"

text \<open>\<open>" ".join(cypher.split())\<close>.\<close>

fun blank_words :: "string \<Rightarrow> string \<Rightarrow> string list" where
  "blank_words w [] = (if w = [] then [] else [rev w])"
| "blank_words w (c # s) =
     (if py_isspace c then (if w = [] then blank_words [] s else rev w # blank_words [] s)
      else blank_words (c # w) s)"

definition operation_for_custom_query ::
  "(string \<Rightarrow> string) \<Rightarrow> string \<Rightarrow> string \<Rightarrow> exc + graph_write_operation" where
  "operation_for_custom_query h l cypher =
     (let qf = Some (take 16 (h (join '' '' (blank_words [] cypher))));
          node = (\<lambda>kind caps. gwo_init ((gwo_default l PhaseNodes)
            \<lparr>reconciliation := ''node_identity'', node_label := caps 1, identity_property := caps 2,
             row_identity_property := (case caps 3 of Some r \<Rightarrow> r | None \<Rightarrow> ''id''), row_properties_property := caps 4,
             mutation_kind := kind, query_fingerprint := qf\<rparr>))
      in case match_safe_node ''MERGE'' cypher of
           Some caps \<Rightarrow> node ''merge'' caps
         | None \<Rightarrow>
             (case match_safe_node ''MATCH'' cypher of
                Some caps \<Rightarrow> node ''match'' caps
              | None \<Rightarrow> gwo_init ((gwo_default l (phase_for_label l))\<lparr>query_fingerprint := qf\<rparr>)))"

section \<open>Round trip of descriptors\<close>

definition nonempty :: "string option \<Rightarrow> string option" where
  "nonempty o' = (case o' of None \<Rightarrow> None | Some s \<Rightarrow> if s = [] then None else Some s)"

lemma str_if_truthy_json_opt: "map_of d k = Some (json_opt v) \<Longrightarrow> str_if_truthy d k = nonempty v"
  by (cases v) (simp_all add: str_if_truthy_def dict_get_def json_opt_def nonempty_def json_truthy_def py_str_def)

lemma sort_key_map_of:
  fixes d :: "(string \<times> 'b) list"
  assumes "distinct (map fst d)"
  shows "map_of (sort_key fst d) = map_of d"
proof -
  have "distinct (map fst (sort_key fst d))" using assms by (simp only: distinct_map distinct_sort set_sort)
  then show ?thesis using assms by (intro map_of_inject_set[THEN iffD2]) simp_all
qed

lemma gwo_from_dict_cong:
  assumes "map_of d = map_of d'"
  shows "gwo_from_dict d = gwo_from_dict d'"
proof -
  have eqs: "dict_item d = dict_item d'" "dict_get_default d = dict_get_default d'" "dict_get d = dict_get d'"
    by (simp_all add: dict_item_def dict_get_default_def dict_get_def assms fun_eq_iff)
  then have truthy: "str_if_truthy d = str_if_truthy d'" by (simp add: str_if_truthy_def fun_eq_iff)
  show ?thesis unfolding gwo_from_dict_def eqs truthy ..
qed

lemma distinct_gwo_keys: "distinct (map fst (gwo_to_dict g))"
  by (simp add: gwo_to_dict_def)

lemma gwo_to_dict_lookup:
  "map_of (gwo_to_dict g) ''node_label'' = Some (json_opt (node_label g))"
  "map_of (gwo_to_dict g) ''identity_property'' = Some (json_opt (identity_property g))"
  "map_of (gwo_to_dict g) ''row_properties_property'' = Some (json_opt (row_properties_property g))"
  "map_of (gwo_to_dict g) ''query_fingerprint'' = Some (json_opt (query_fingerprint g))"
  "map_of (gwo_to_dict g) ''label'' = Some (JStr (label g))"
  "map_of (gwo_to_dict g) ''phase'' = Some (JStr (phase_value (op_phase g)))"
  "map_of (gwo_to_dict g) ''version'' = Some (JInt (version g))"
  "map_of (gwo_to_dict g) ''idempotent'' = Some (JBool (idempotent g))"
  "map_of (gwo_to_dict g) ''reconciliation'' = Some (JStr (reconciliation g))"
  "map_of (gwo_to_dict g) ''row_identity_property'' = Some (JStr (row_identity_property g))"
  "map_of (gwo_to_dict g) ''mutation_kind'' = Some (JStr (mutation_kind g))"
  "map_of (gwo_to_dict g) ''operation_key'' = Some (JStr (operation_key g))"
  by (simp_all add: gwo_to_dict_def)

definition gwo_normal :: "graph_write_operation \<Rightarrow> graph_write_operation" where
  "gwo_normal g = g\<lparr>node_label := nonempty (node_label g), identity_property := nonempty (identity_property g),
     row_properties_property := nonempty (row_properties_property g), query_fingerprint := nonempty (query_fingerprint g)\<rparr>"

lemma operation_key_normal [simp]: "operation_key (gwo_normal g) = operation_key g"
  by (simp add: operation_key_def gwo_normal_def nonempty_def split: option.splits)

lemma gwo_from_to_dict:
  assumes "gwo_init g = Inr g"
  shows "gwo_from_dict (gwo_to_dict g) = Inr (gwo_normal g)"
proof -
  have "gwo_init (gwo_normal g) = Inr (gwo_normal g)"
    using assms by (simp add: gwo_init_def gwo_normal_def split: if_splits)
  moreover have "\<lparr>label = label g, op_phase = op_phase g, version = version g, idempotent = idempotent g,
      reconciliation = reconciliation g, node_label = nonempty (node_label g),
      identity_property = nonempty (identity_property g), row_identity_property = row_identity_property g,
      row_properties_property = nonempty (row_properties_property g), mutation_kind = mutation_kind g,
      query_fingerprint = nonempty (query_fingerprint g)\<rparr> = gwo_normal g"
    by (simp add: gwo_normal_def)
  ultimately show ?thesis
    by (simp add: gwo_from_dict_def dict_item_def dict_get_default_def dict_get_def gwo_to_dict_lookup
        str_if_truthy_json_opt py_str_def py_int_def json_truthy_def)
qed

lemma wf_gwo_dict: "wf_json (JObj (gwo_to_dict g))"
  using distinct_gwo_keys[of g] by (simp add: gwo_to_dict_def json_opt_def split: option.splits)

text \<open>
  Persisted descriptors replay as written. A checked descriptor that is stored as canonical
  JSON and read back is the same descriptor, with empty optional strings read as absent, and it
  keeps its operation key.
\<close>

theorem descriptor_roundtrip:
  assumes "gwo_init g = Inr g"
  shows "\<exists>d. json_loads (canonical_json (JObj (gwo_to_dict g))) = Some (JObj d) \<and> gwo_from_dict d = Inr (gwo_normal g) \<and>
    operation_key (gwo_normal g) = operation_key g"
proof -
  let ?d = "sort_key fst (map (\<lambda>(k, v). (k, sort_keys v)) (gwo_to_dict g))"
  have "map (\<lambda>(k, v). (k, sort_keys v)) (gwo_to_dict g) = gwo_to_dict g"
    by (simp add: gwo_to_dict_def json_opt_def split: option.splits)
  then have "map_of ?d = map_of (gwo_to_dict g)" by (simp add: sort_key_map_of[OF distinct_gwo_keys])
  then have "gwo_from_dict ?d = gwo_from_dict (gwo_to_dict g)" by (rule gwo_from_dict_cong)
  then show ?thesis
    using json_loads_canonical[OF wf_gwo_dict, of g] gwo_from_to_dict[OF assms] by simp
qed

theorem descriptor_roundtrip_witness:
  "\<exists>g d. for_label ''functions'' = Inr g \<and> json_loads (canonical_json (JObj (gwo_to_dict g))) = Some (JObj d) \<and>
     gwo_from_dict d = Inr g"
proof -
  let ?g = "(gwo_default ''functions'' PhaseNodes)\<lparr>reconciliation := ''node_identity'', node_label := Some ''Function'',
      identity_property := Some ''id''\<rparr>"
  have g: "for_label ''functions'' = Inr ?g" "gwo_init ?g = Inr ?g" by code_simp+
  have "gwo_normal ?g = ?g" by (simp add: gwo_normal_def nonempty_def gwo_default_def)
  then show ?thesis using descriptor_roundtrip[OF g(2)] g(1) by auto
qed

end
