(* ===== verification/Journal_Manifest.thy ===== *)
theory Journal_Manifest
  imports Journal_Operation
begin

text \<open>
  The payload-free manifests of \<open>journal/sqlite_store.py\<close>: \<open>_typed_identity\<close> and
  \<open>_manifest_candidates\<close>, which derive from a persisted operation and its rows one candidate
  per graph node or edge, before anything is written.
\<close>

datatype manifest_kind = NodeKind | EdgeKind

lemma UNIV_manifest_kind: "(UNIV :: manifest_kind set) = {NodeKind, EdgeKind}"
  using manifest_kind.exhaust by blast

lemma all_manifest_kind: "(\<forall>x. P x) \<longleftrightarrow> P NodeKind \<and> P EdgeKind"
  using manifest_kind.exhaust by metis

lemma ex_manifest_kind: "(\<exists>x. P x) \<longleftrightarrow> P NodeKind \<or> P EdgeKind"
  using manifest_kind.exhaust by metis

instantiation manifest_kind :: enum
begin

definition enum_manifest_kind :: "manifest_kind list" where
  "enum_manifest_kind = [NodeKind, EdgeKind]"

definition enum_all_manifest_kind :: "(manifest_kind \<Rightarrow> bool) \<Rightarrow> bool" where
  "enum_all_manifest_kind P \<longleftrightarrow> P NodeKind \<and> P EdgeKind"

definition enum_ex_manifest_kind :: "(manifest_kind \<Rightarrow> bool) \<Rightarrow> bool" where
  "enum_ex_manifest_kind P \<longleftrightarrow> P NodeKind \<or> P EdgeKind"

instance
  by standard
    (auto simp: enum_manifest_kind_def enum_all_manifest_kind_def enum_ex_manifest_kind_def all_manifest_kind ex_manifest_kind UNIV_manifest_kind)

end

record candidate =
  c_kind :: manifest_kind
  c_manifest_id :: string
  c_producer_id :: string
  c_row_ordinal :: int
  c_payload_digest :: string
  c_disposition :: manifest_disposition
  c_endpoints :: "(string \<times> string \<times> string \<times> string \<times> string) list"
  c_scope :: string
  c_shape :: string \<comment> \<open>\<open>node_label\<close> of a node, \<open>relationship_type\<close> of an edge\<close>
  c_identity_property :: string \<comment> \<open>nodes only\<close>
  c_identity_type :: string
  c_identity_json :: string

definition typed_identity :: "json \<Rightarrow> exc + string \<times> string" where
  "typed_identity v = (case v of
       JNull \<Rightarrow> Inl ValueError
     | JObj _ \<Rightarrow> Inl ValueError
     | JArr _ \<Rightarrow> Inl ValueError
     | JBool _ \<Rightarrow> Inr (''boolean'', canonical_json v)
     | JInt _ \<Rightarrow> Inr (''integer'', canonical_json v)
     | JFloat _ \<Rightarrow> Inr (''number'', canonical_json v)
     | JStr _ \<Rightarrow> Inr (''string'', canonical_json v))"

definition kind_value :: "manifest_kind \<Rightarrow> string" where
  "kind_value k = (case k of NodeKind \<Rightarrow> ''node'' | EdgeKind \<Rightarrow> ''edge'')"

text \<open>The local function \<open>base\<close>: internal \<open>_contract_\<close> keys do not count as payload.\<close>

definition digest_row :: "json \<Rightarrow> json" where
  "digest_row raw = (case raw of
       JObj d \<Rightarrow> JObj (filter (\<lambda>(k, v). \<not> startswith k ''_contract_'') d)
     | _ \<Rightarrow> raw)"

definition manifest_id :: "(string \<Rightarrow> string) \<Rightarrow> string \<Rightarrow> manifest_kind \<Rightarrow> int \<Rightarrow> string" where
  "manifest_id h job kind ordinal =
     h (canonical_json (JObj [(''job_id'', JStr job), (''kind'', JStr (kind_value kind)), (''row'', JInt ordinal)]))"

definition candidate_base ::
  "(string \<Rightarrow> string) \<Rightarrow> string \<Rightarrow> string \<Rightarrow> json \<Rightarrow> int \<Rightarrow> manifest_kind \<Rightarrow> candidate" where
  "candidate_base h job producer raw ordinal kind =
     \<lparr>c_kind = kind, c_manifest_id = manifest_id h job kind ordinal, c_producer_id = producer,
      c_row_ordinal = ordinal, c_payload_digest = h (canonical_json (digest_row raw)),
      c_disposition = StagedUnique, c_endpoints = [], c_scope = [], c_shape = [],
      c_identity_property = [], c_identity_type = [], c_identity_json = []\<rparr>"

definition row_dict :: "json \<Rightarrow> dict" where
  "row_dict raw = (case raw of JObj d \<Rightarrow> d | _ \<Rightarrow> [])"

definition row_scope :: "string \<Rightarrow> dict \<Rightarrow> string" where
  "row_scope scope_default row =
     py_str (json_or (dict_get row ''project_id_normalized'')
              (json_or (dict_get row ''project_id'') (JStr scope_default)))"

text \<open>\<open>str(x or default)\<close>.\<close>

definition str_or :: "json \<Rightarrow> string \<Rightarrow> string" where
  "str_or v dflt = py_str (json_or v (JStr dflt))"

text \<open>
  A node row. An external \<open>Type\<close> is observed once per referring file, so its file path is
  not part of what makes two observations conflict.
\<close>

definition node_identity_of :: "dict \<Rightarrow> dict \<Rightarrow> exc + string \<times> string" where
  "node_identity_of operation row =
     rbind (dict_item row (str_or (dict_get operation ''row_identity_property'') ''id'')) (\<lambda>v.
     rbind (typed_identity v) (\<lambda>idn.
     if str_or (dict_get operation ''node_label'') [] = [] \<or>
        str_or (dict_get operation ''identity_property'') [] = []
     then Inl ValueError else Inr idn))"

definition node_candidate ::
  "(string \<Rightarrow> string) \<Rightarrow> string \<Rightarrow> string \<Rightarrow> string \<Rightarrow> dict \<Rightarrow> json \<Rightarrow> int \<Rightarrow> candidate" where
  "node_candidate h job producer scope_default operation raw ordinal =
     (let row = row_dict raw;
          nl = str_or (dict_get operation ''node_label'') [];
          base = (candidate_base h job producer raw ordinal NodeKind)
            \<lparr>c_scope := row_scope scope_default row, c_shape := nl,
             c_identity_property := str_or (dict_get operation ''identity_property'') []\<rparr>
      in case node_identity_of operation row of
           Inl _ \<Rightarrow> base\<lparr>c_identity_type := ''invalid'', c_identity_json := ''null'',
                        c_disposition := Rejected\<rparr>
         | Inr (ty, js) \<Rightarrow>
             let c = base\<lparr>c_identity_type := ty, c_identity_json := js\<rparr>
             in if nl = ''Type'' \<and> casefold (str_or (dict_get row ''kind'') []) = ''external''
                then c\<lparr>c_payload_digest := h (canonical_json (JObj (dict_pop ''file_path'' row)))\<rparr>
                else c)"

text \<open>The endpoints, relationship type and optional edge key of an edge row.\<close>

definition keyed_edge_value :: "string \<Rightarrow> json \<Rightarrow> exc + json option" where
  "keyed_edge_value edge_property v =
     (if edge_property = [] then Inr None
      else case v of
        JNull \<Rightarrow> Inl ValueError
      | JArr _ \<Rightarrow> Inl TypeError
      | JObj _ \<Rightarrow> Inl TypeError
      | JStr s \<Rightarrow> if s = [] then Inl ValueError else Inr (Some v)
      | _ \<Rightarrow> Inr (Some v))"

record edge_descriptor =
  e_source :: "string \<times> string \<times> json"
  e_target :: "string \<times> string \<times> json"
  e_relationship :: string
  e_property :: string
  e_value :: "json option"

definition edge_descriptor_of :: "string \<Rightarrow> dict \<Rightarrow> exc + edge_descriptor" where
  "edge_descriptor_of rec row =
     (if rec = ''typed_relationship'' \<or> rec = ''evidence_edge'' then
        rbind (dict_item row ''source_label'') (\<lambda>sl.
        rbind (dict_item row ''target_label'') (\<lambda>tl.
        rbind (dict_item row ''source_id'') (\<lambda>sv.
        rbind (dict_item row ''target_id'') (\<lambda>tv.
        rbind (dict_item row ''rel_type'') (\<lambda>rt.
        let ep = str_or (dict_get row ''edge_property'') [] in
        rbind (keyed_edge_value ep (dict_get row ''edge_id'')) (\<lambda>ev.
        Inr \<lparr>e_source = (py_str sl, str_or (dict_get row ''source_property'') ''id'', sv),
             e_target = (py_str tl, str_or (dict_get row ''target_property'') ''id'', tv),
             e_relationship = py_str rt, e_property = ep, e_value = ev\<rparr>))))))
      else if rec = ''repository_file'' then
        rbind (dict_item row ''repo'') (\<lambda>sv.
        rbind (dict_item row ''id'') (\<lambda>tv.
        Inr \<lparr>e_source = (''Repository'', ''name'', sv), e_target = (''File'', ''id'', tv),
             e_relationship = ''HAS_FILE'', e_property = [], e_value = None\<rparr>))
      else if rec = ''call_edge'' \<or> rec = ''call_site'' \<or> rec = ''possible_call_site'' then
        rbind (dict_item row ''caller_id'') (\<lambda>sv.
        rbind (dict_item row ''callee_id'') (\<lambda>tv.
        let ep = (if rec \<noteq> ''call_edge'' then ''site_id'' else []) in
        rbind (keyed_edge_value ep (dict_get row ''site_id'')) (\<lambda>ev.
        Inr \<lparr>e_source = (''Function'', ''id'', sv), e_target = (''Function'', ''id'', tv),
             e_relationship = (if rec = ''possible_call_site'' then ''POSSIBLE_CALLS'' else ''CALLS''),
             e_property = ep, e_value = ev\<rparr>)))
      else Inl ValueError)"

definition edge_key ::
  "string \<times> string \<times> string \<times> string \<Rightarrow> string \<Rightarrow> string \<times> string \<times> string \<times> string \<Rightarrow>
   (string \<times> string \<times> string) option \<Rightarrow> json" where
  "edge_key src rel tgt edge =
     (let strs = (\<lambda>(a, b, c, d). JArr [JStr a, JStr b, JStr c, JStr d]) in
      JObj ([(''source'', strs src), (''relationship'', JStr rel), (''target'', strs tgt)] @
        (case edge of
           None \<Rightarrow> []
         | Some (p, t, j) \<Rightarrow> [(''edge'', JArr [JStr p, JStr t, JStr j])])))"

definition edge_identity_of ::
  "string \<Rightarrow> dict \<Rightarrow> exc + string \<times> string \<times> (string \<times> string \<times> string \<times> string \<times> string) list" where
  "edge_identity_of rec row =
     rbind (edge_descriptor_of rec row) (\<lambda>e.
     let (sl, sp, sv) = e_source e; (tl, tp, tv) = e_target e in
     if sl = [] \<or> tl = [] \<or> e_relationship e = [] then Inl ValueError
     else
       rbind (typed_identity sv) (\<lambda>(st, sj).
       rbind (typed_identity tv) (\<lambda>(tt, tj).
       rbind (case e_value e of
                None \<Rightarrow> Inr None
              | Some v \<Rightarrow> rbind (typed_identity v) (\<lambda>(et, ej). Inr (Some (e_property e, et, ej)))) (\<lambda>edge.
       Inr (e_relationship e,
            canonical_json (edge_key (sl, sp, st, sj) (e_relationship e) (tl, tp, tt, tj) edge),
            [(''source'', sl, sp, st, sj), (''target'', tl, tp, tt, tj)])))))"

definition edge_candidate ::
  "(string \<Rightarrow> string) \<Rightarrow> string \<Rightarrow> string \<Rightarrow> string \<Rightarrow> string \<Rightarrow> json \<Rightarrow> int \<Rightarrow> candidate" where
  "edge_candidate h job producer scope_default rec raw ordinal =
     (let row = row_dict raw;
          base = (candidate_base h job producer raw ordinal EdgeKind)
            \<lparr>c_scope := row_scope scope_default row\<rparr>
      in case edge_identity_of rec row of
           Inl _ \<Rightarrow> base\<lparr>c_shape := str_or (dict_get row ''rel_type'') ''invalid'',
                        c_identity_type := ''invalid'', c_identity_json := ''null'',
                        c_disposition := Rejected\<rparr>
         | Inr (rel, key, ends) \<Rightarrow>
             base\<lparr>c_shape := rel, c_identity_type := ''edge_key'', c_identity_json := key,
                  c_endpoints := ends\<rparr>)"

definition row_candidate ::
  "(string \<Rightarrow> string) \<Rightarrow> string \<Rightarrow> string \<Rightarrow> string \<Rightarrow> dict \<Rightarrow> json \<Rightarrow> int \<Rightarrow> candidate option" where
  "row_candidate h job producer scope_default operation raw ordinal =
     (let rec = str_or (dict_get operation ''reconciliation'') ''unsupported'' in
      if rec = ''node_identity'' \<and>
         dict_get_default operation ''mutation_kind'' (JStr ''merge'') = JStr ''merge''
        then Some (node_candidate h job producer scope_default operation raw ordinal)
      else if rec = ''file_cleanup'' \<or> rec = ''orphan_unknown_cleanup'' then None
      else Some (edge_candidate h job producer scope_default rec raw ordinal))"

fun enumerate_from :: "int \<Rightarrow> 'a list \<Rightarrow> (int \<times> 'a) list" where
  "enumerate_from n [] = []"
| "enumerate_from n (x # xs) = (n, x) # enumerate_from (n + 1) xs"

text \<open>
  \<open>_manifest_candidates\<close>: no descriptor, no manifest claim; otherwise the producer and one
  candidate per row (cleanups have none).
\<close>

definition manifest_candidates ::
  "(string \<Rightarrow> string) \<Rightarrow> run_record \<Rightarrow> batch_spec \<Rightarrow> json list \<Rightarrow> string \<Rightarrow>
   (string \<times> candidate list) option" where
  "manifest_candidates h run spec rows job =
     (let operation = sp_operation spec in
      if operation = [] then None
      else
        let producer = py_str (json_or (dict_get operation ''producer_id'')
                                (json_or (dict_get operation ''label'') (JStr (sp_operation_key spec))))
        in Some (producer, List.map_filter
             (\<lambda>(i, raw). row_candidate h job producer (project_id (r_metadata run)) operation raw i)
             (enumerate_from 0 rows)))"

lemma enumerate_from_ge: "(i, x) \<in> set (enumerate_from n xs) \<Longrightarrow> n \<le> i"
  by (induction n xs rule: enumerate_from.induct) force+

lemma distinct_enumerate_from: "distinct (map fst (enumerate_from n xs))"
proof (induction n xs rule: enumerate_from.induct)
  case (2 n x xs)
  have "n \<notin> fst ` set (enumerate_from (n + 1) xs)"
    using enumerate_from_ge by fastforce
  with 2 show ?case by simp
qed simp

lemma node_candidate_ordinal [simp]:
  "c_row_ordinal (node_candidate h job p s operation raw i) = i"
  "c_kind (node_candidate h job p s operation raw i) = NodeKind"
  "c_manifest_id (node_candidate h job p s operation raw i) = manifest_id h job NodeKind i"
  by (auto simp: node_candidate_def candidate_base_def Let_def split: sum.splits)

lemma edge_candidate_ordinal [simp]:
  "c_row_ordinal (edge_candidate h job p s rec raw i) = i"
  "c_kind (edge_candidate h job p s rec raw i) = EdgeKind"
  "c_manifest_id (edge_candidate h job p s rec raw i) = manifest_id h job EdgeKind i"
  by (auto simp: edge_candidate_def candidate_base_def Let_def split: sum.splits)

lemma edge_candidate_unsupported:
  assumes "rec \<notin> {''typed_relationship'', ''evidence_edge'', ''repository_file'', ''call_edge'', ''call_site'', ''possible_call_site''}"
  shows "c_disposition (edge_candidate h job p s rec raw i) = Rejected"
  using assms by (auto simp: edge_candidate_def edge_identity_of_def edge_descriptor_of_def Let_def)

text \<open>
  A node update recognised from source Cypher cannot be journalled. \<open>operation_for_custom_query\<close>
  builds descriptors with reconciliation \<open>node_identity\<close> and mutation kind \<open>match\<close>, and the executor
  compiles them; the manifest of such a batch, however, has one rejected candidate per row, so that
  every non-empty batch is refused.
\<close>

theorem match_descriptor_rejected:
  assumes "reconciliation g = ''node_identity''" "mutation_kind g = ''match''" "sp_operation spec = gwo_to_dict g"
  shows "\<exists>producer cs. manifest_candidates h run spec rows job = Some (producer, cs) \<and> length cs = length rows \<and>
    (\<forall>c \<in> set cs. c_disposition c = Rejected)"
proof -
  let ?d = "gwo_to_dict g"
  let ?p = "py_str (json_or (dict_get ?d ''producer_id'') (json_or (dict_get ?d ''label'') (JStr (sp_operation_key spec))))"
  have row: "row_candidate h job ?p s ?d raw i = Some (edge_candidate h job ?p s ''node_identity'' raw i)" for s raw i
    using assms(1,2)
    by (simp add: row_candidate_def str_or_def dict_get_def dict_get_default_def gwo_to_dict_def json_or_def json_truthy_def
        py_str_def Let_def)
  have "List.map_filter (\<lambda>(i, raw). row_candidate h job ?p s ?d raw i) xs =
      map (\<lambda>(i, raw). edge_candidate h job ?p s ''node_identity'' raw i) xs" for s xs
    by (induction xs) (auto simp: List.map_filter_def row)
  moreover have "length (enumerate_from n rows) = length rows" for n
    by (induction n rows rule: enumerate_from.induct) auto
  moreover have "?d \<noteq> []" by (simp add: gwo_to_dict_def)
  ultimately show ?thesis
    using edge_candidate_unsupported[of "''node_identity''"]
    by (auto simp: manifest_candidates_def Let_def assms(3) case_prod_unfold)
qed

definition match_query :: string where
  "match_query = ''UNWIND $rows AS row MATCH (f:Function {id: row.id}) SET f += row.props''"

definition descriptor_spec :: "graph_write_operation \<Rightarrow> batch_spec" where
  "descriptor_spec g =
     \<lparr>sp_phase = op_phase g, sp_operation_key = operation_key g, sp_sequence = 0,
      sp_artifact = \<lparr>sha256 = ''0'', relative_path = ''0'', byte_count = 0, row_count = 1\<rparr>, sp_expected_count = 1,
      sp_required_barriers = [], sp_produced_barriers = [], sp_max_attempts = 1, sp_operation = gwo_to_dict g\<rparr>"

theorem match_descriptor_rejected_witness:
  "\<exists>g. operation_for_custom_query (\<lambda>s. ''0'') ''update'' match_query = Inr g \<and>
     (\<forall>h run. \<exists>producer c. manifest_candidates h run (descriptor_spec g) [JObj [(''id'', JStr ''a'')]] ''job'' = Some (producer, [c]) \<and>
        c_disposition c = Rejected)"
proof -
  have "case operation_for_custom_query (\<lambda>s. ''0'') ''update'' match_query of Inl _ \<Rightarrow> False
      | Inr g \<Rightarrow> reconciliation g = ''node_identity'' \<and> mutation_kind g = ''match''" by code_simp
  then obtain g where g: "operation_for_custom_query (\<lambda>s. ''0'') ''update'' match_query = Inr g"
    "reconciliation g = ''node_identity''" "mutation_kind g = ''match''" by (auto split: sum.splits)
  have "\<exists>producer c. manifest_candidates h run (descriptor_spec g) [JObj [(''id'', JStr ''a'')]] ''job'' = Some (producer, [c]) \<and>
        c_disposition c = Rejected" for h run
    using match_descriptor_rejected[OF g(2,3), of "descriptor_spec g" h run "[JObj [(''id'', JStr ''a'')]]" "''job''"]
    by (auto simp: descriptor_spec_def length_Suc_conv)
  then show ?thesis using g(1) by blast
qed

end
