(* ===== verification/Journal_Artifacts.thy ===== *)
theory Journal_Artifacts
  imports Journal_Models
begin

text \<open>
  The immutable, content-addressed payload files of \<open>journal/artifacts.py\<close>. A file system is a
  map from absolute paths, as lists of components, to bytes. Placement checks that only query
  the operating system (mount type, owner, symbolic links, file modes) and injected I/O failures
  are not modelled; free disk space is an argument.
\<close>

record artifact_store =
  st_root :: "string list"
  st_files :: "string list \<rightharpoonup> string"
  st_max_artifact_bytes :: int
  st_min_free_bytes :: int

section \<open>Paths\<close>

fun split_on :: "(char \<Rightarrow> bool) \<Rightarrow> string \<Rightarrow> string \<Rightarrow> string list" where
  "split_on p w [] = [rev w]"
| "split_on p w (c # s) = (if p c then rev w # split_on p [] s else split_on p (c # w) s)"

definition path_components :: "string \<Rightarrow> string list" where
  "path_components s = filter (\<lambda>c. c \<noteq> [] \<and> c \<noteq> ''.'') (split_on (\<lambda>c. c = CHR ''/'') [] s)"

text \<open>\<open>PurePosixPath(s).parts\<close>.\<close>

definition pure_posix_parts :: "string \<Rightarrow> string list" where
  "pure_posix_parts s =
     (if startswith s ''//'' \<and> \<not> startswith s ''///'' then [''//'']
      else if startswith s ''/'' then [''/''] else []) @ path_components s"

fun resolve_from :: "string list \<Rightarrow> string list \<Rightarrow> string list" where
  "resolve_from acc [] = acc"
| "resolve_from acc (c # cs) = resolve_from (if c = ''..'' then butlast acc else acc @ [c]) cs"

definition path_for :: "artifact_store \<Rightarrow> artifact_ref \<Rightarrow> exc + string list" where
  "path_for st ref =
     (let path = resolve_from (if startswith (relative_path ref) ''/'' then [] else st_root st)
                   (path_components (relative_path ref))
      in if take (length (st_root st)) path = st_root st then Inr path
         else Inl (JournalError UnsafePlacement))"

definition safe_run_component :: "string \<Rightarrow> bool" where
  "safe_run_component r \<longleftrightarrow> r \<noteq> [] \<and> CHR ''/'' \<notin> set r \<and> r \<noteq> ''.'' \<and> r \<noteq> ''..''"

section \<open>Operations\<close>

definition artifact_admit :: "artifact_store \<Rightarrow> int \<Rightarrow> int \<Rightarrow> exc + unit" where
  "artifact_admit st free n =
     (if n > st_max_artifact_bytes st then Inl (JournalError AdmissionRejected)
      else if free - n < st_min_free_bytes st then Inl (JournalError DiskFull)
      else Inr ())"

definition artifact_verify ::
  "(string \<Rightarrow> string) \<Rightarrow> artifact_store \<Rightarrow> artifact_ref \<Rightarrow> exc + string list" where
  "artifact_verify h st ref =
     rbind (path_for st ref) (\<lambda>path.
     case st_files st path of
       None \<Rightarrow> Inl (JournalError InvalidContract)
     | Some payload \<Rightarrow>
         if int (length payload) \<noteq> byte_count ref \<or> h payload \<noteq> sha256 ref
         then Inl (JournalError ArtifactHashMismatch) else Inr path)"

definition artifact_name :: "string \<Rightarrow> string" where
  "artifact_name digest = digest @ ''.jsonl''"

text \<open>\<open>write_bytes\<close> and \<open>write_jsonl\<close>: the file is published under its digest, or already there.\<close>

definition publish ::
  "(string \<Rightarrow> string) \<Rightarrow> artifact_store \<Rightarrow> string \<Rightarrow> string \<Rightarrow> int \<Rightarrow> exc + artifact_ref \<times> artifact_store" where
  "publish h st run payload rows =
     (let name = artifact_name (h payload);
          path = st_root st @ [run, name];
          ref = \<lparr>sha256 = h payload, relative_path = run @ ''/'' @ name,
                 byte_count = int (length payload), row_count = rows\<rparr>
      in case st_files st path of
           Some _ \<Rightarrow> rbind (artifact_verify h st ref) (\<lambda>_. Inr (ref, st))
         | None \<Rightarrow> Inr (ref, st\<lparr>st_files := (st_files st)(path \<mapsto> payload)\<rparr>))"

definition write_bytes ::
  "(string \<Rightarrow> string) \<Rightarrow> artifact_store \<Rightarrow> int \<Rightarrow> string \<Rightarrow> string \<Rightarrow> int \<Rightarrow>
   exc + artifact_ref \<times> artifact_store" where
  "write_bytes h st free run payload rows =
     (if rows < 0 then Inl ValueError
      else rbind (artifact_admit st free (int (length payload))) (\<lambda>_.
        if safe_run_component run then publish h st run payload rows
        else Inl (JournalError UnsafePlacement)))"

definition encode_row :: "json \<Rightarrow> string" where
  "encode_row row = canonical_json row @ [chr 10]"

text \<open>The streaming loop: each row is counted against the limit before it is written.\<close>

fun encode_rows :: "int \<Rightarrow> int \<Rightarrow> json list \<Rightarrow> string \<Rightarrow> exc + string" where
  "encode_rows byte_limit max_bytes [] acc = Inr acc"
| "encode_rows byte_limit max_bytes (row # rows) acc =
     (let out = acc @ encode_row row in
      if int (length out) > byte_limit
      then Inl (JournalError (if int (length out) > max_bytes then AdmissionRejected else DiskFull))
      else encode_rows byte_limit max_bytes rows out)"

definition write_jsonl ::
  "(string \<Rightarrow> string) \<Rightarrow> artifact_store \<Rightarrow> int \<Rightarrow> string \<Rightarrow> json list \<Rightarrow>
   exc + artifact_ref \<times> artifact_store" where
  "write_jsonl h st free run rows =
     (if \<not> safe_run_component run then Inl (JournalError UnsafePlacement)
      else if free < st_min_free_bytes st then Inl (JournalError DiskFull)
      else
        let available = max 0 (free - st_min_free_bytes st);
            byte_limit = min (st_max_artifact_bytes st) available
        in rbind (encode_rows byte_limit (st_max_artifact_bytes st) rows []) (\<lambda>payload.
           publish h st run payload (int (length rows))))"

text \<open>Text mode ends a line at \<open>\n\<close>, \<open>\r\<close> or both; blank lines are skipped.\<close>

definition jsonl_lines :: "string \<Rightarrow> string list" where
  "jsonl_lines s =
     filter (\<lambda>l. strip l \<noteq> []) (split_on (\<lambda>c. char_code c = 10 \<or> char_code c = 13) [] s)"

definition read_jsonl ::
  "(string \<Rightarrow> string) \<Rightarrow> artifact_store \<Rightarrow> artifact_ref \<Rightarrow> exc + json list" where
  "read_jsonl h st ref =
     rbind (artifact_verify h st ref) (\<lambda>path.
     case st_files st path of
       None \<Rightarrow> Inl (JournalError ArtifactHashMismatch)
     | Some payload \<Rightarrow>
         rbind (rmap (\<lambda>l. case json_loads l of
                            None \<Rightarrow> Inl (JournalError ArtifactHashMismatch)
                          | Some v \<Rightarrow> Inr v) (jsonl_lines payload)) (\<lambda>rows.
         if int (length rows) \<noteq> row_count ref then Inl (JournalError ArtifactHashMismatch)
         else Inr rows))"

definition artifact_remove :: "artifact_store \<Rightarrow> artifact_ref \<Rightarrow> exc + artifact_store" where
  "artifact_remove st ref =
     rbind (path_for st ref) (\<lambda>path. Inr (st\<lparr>st_files := (st_files st)(path := None)\<rparr>))"

section \<open>Round trip of payloads\<close>

definition line_char :: "char \<Rightarrow> bool" where
  "line_char c \<longleftrightarrow> char_code c \<noteq> 10 \<and> char_code c \<noteq> 13"

lemma line_char_ascii [simp]: "char_code c \<ge> 32 \<Longrightarrow> line_char c"
  by (simp add: line_char_def)

lemma line_char_chr: "n < 256 \<Longrightarrow> n \<ge> 32 \<Longrightarrow> line_char (chr n)"
  by simp

lemma escape_char_line: "list_all line_char (escape_char c)"
  by (auto simp: escape_char_def Let_def line_char_def hex_char_def)

lemma quote_line: "list_all line_char (quote s)"
  using escape_char_line by (auto simp: quote_def list_all_iff line_char_def)

lemma num_char_line: "num_char c \<Longrightarrow> line_char c"
  by (auto simp: num_char_def is_digit_def line_char_def)

lemma join_line: "list_all line_char sep \<Longrightarrow> (\<And>x. x \<in> set xs \<Longrightarrow> list_all line_char x) \<Longrightarrow> list_all line_char (join sep xs)"
  by (induction sep xs rule: join.induct) auto

lemma render_line: "wf_json v \<Longrightarrow> list_all line_char (render v)"
proof (induction v)
  case (JInt i)
  have "list_all line_char (show_nat n)" for n
    using show_nat_digits[of n] by (auto simp: list_all_iff is_digit_def line_char_def)
  then show ?case by (simp add: show_int_def)
next
  case (JFloat t)
  then have "list_all num_char t" using is_float_lit_num_char by simp
  then show ?case using num_char_line by (auto simp: list_all_iff)
next
  case (JStr s)
  show ?case by (simp add: quote_line)
next
  case (JArr xs)
  have "list_all line_char x" if x: "x \<in> set (map render xs)" for x
    using x JArr by (auto simp: list_all_iff)
  then show ?case using join_line[of "'',''" "map render xs"] by simp
next
  case (JObj d)
  have "list_all line_char x" if x: "x \<in> set (map (\<lambda>(k, v). quote k @ CHR '':'' # render v) d)" for x
  proof -
    obtain k v where kv: "(k, v) \<in> set d" "x = quote k @ CHR '':'' # render v" using x by auto
    have "wf_json v" using JObj.prems kv(1) by (auto simp: list_all_iff)
    then have "list_all line_char (render v)" using JObj.IH[OF kv(1)] by simp
    then show ?thesis using quote_line by (simp add: kv(2))
  qed
  then show ?case using join_line[of "'',''" "map (\<lambda>(k, v). quote k @ CHR '':'' # render v) d"] by simp
qed simp_all

lemma split_on_line: "list_all (\<lambda>c. \<not> p c) w \<Longrightarrow> p c \<Longrightarrow> split_on p acc (w @ c # s) = (rev acc @ w) # split_on p [] s"
  by (induction w arbitrary: acc) auto

lemma encode_rows_Inr: "encode_rows n m rows acc = Inr out \<Longrightarrow> out = acc @ concat (map encode_row rows)"
  by (induction n m rows acc rule: encode_rows.induct) (auto simp: Let_def split: if_splits)

lemma strip_neq_Nil: "s \<noteq> [] \<Longrightarrow> \<not> py_isspace (hd s) \<Longrightarrow> strip s \<noteq> []"
  by (cases s) (auto simp: strip_def lstrip_def rstrip_def)

lemma render_not_blank:
  assumes "wf_json v"
  shows "strip (render v) \<noteq> []"
proof (rule strip_neq_Nil)
  show "render v \<noteq> []" using render_start[OF assms] by simp
  show "\<not> py_isspace (hd (render v))"
  proof (cases v)
    case (JInt i)
    then show ?thesis using show_nat_hd_digit[of "nat i"]
      by (auto simp: show_int_def py_isspace_def is_digit_def)
  next
    case (JFloat t)
    then show ?thesis using is_float_lit_hd[of t] assms by (auto simp: py_isspace_def is_digit_def)
  qed (auto simp: py_isspace_def quote_def)
qed

lemma jsonl_lines_encode:
  assumes "\<And>row. row \<in> set rows \<Longrightarrow> wf_json row"
  shows "jsonl_lines (concat (map encode_row rows)) = map canonical_json rows"
  using assms
proof (induction rows)
  case Nil
  show ?case by (simp add: jsonl_lines_def strip_def lstrip_def rstrip_def)
next
  case (Cons row rows)
  let ?p = "\<lambda>c. char_code c = 10 \<or> char_code c = 13"
  have wf: "wf_json (sort_keys row)" using Cons.prems wf_sort_keys by simp
  have "list_all (\<lambda>c. \<not> ?p c) (canonical_json row)"
    using render_line[OF wf] by (simp add: canonical_json_def line_char_def list_all_iff)
  from split_on_line[where p = ?p and acc = "[]", OF this, of "chr 10" "concat (map encode_row rows)"]
  have "split_on ?p [] (concat (map encode_row (row # rows))) =
      canonical_json row # split_on ?p [] (concat (map encode_row rows))"
    by (simp add: encode_row_def)
  then show ?case
    using Cons render_not_blank[OF wf] by (simp add: jsonl_lines_def canonical_json_def)
qed

lemma read_back_rows:
  assumes "\<And>row. row \<in> set rows \<Longrightarrow> wf_json row"
  shows "rmap (\<lambda>l. case json_loads l of None \<Rightarrow> Inl (JournalError ArtifactHashMismatch) | Some v \<Rightarrow> Inr v)
    (map canonical_json rows) = Inr (map sort_keys rows)"
  using assms by (induction rows) (auto simp: json_loads_canonical)

lemma split_on_word: "list_all (\<lambda>c. \<not> p c) w \<Longrightarrow> split_on p acc w = [rev acc @ w]"
  by (induction w arbitrary: acc) auto

lemma path_for_published:
  assumes "safe_run_component run" "CHR ''/'' \<notin> set (h payload)"
    "relative_path ref = run @ ''/'' @ artifact_name (h payload)"
  shows "path_for st ref = Inr (st_root st @ [run, artifact_name (h payload)])"
proof -
  let ?name = "artifact_name (h payload)"
  have run: "list_all (\<lambda>c. c \<noteq> CHR ''/'') run" "run \<noteq> []" "run \<noteq> ''.''" "run \<noteq> ''..''"
    using assms(1) by (auto simp: safe_run_component_def list_all_iff)
  have name: "list_all (\<lambda>c. c \<noteq> CHR ''/'') ?name" "?name \<noteq> []" "?name \<noteq> ''.''" "?name \<noteq> ''..''"
    using assms(2) by (auto simp: artifact_name_def list_all_iff Cons_eq_append_conv append_eq_Cons_conv)
  have "split_on (\<lambda>c. c = CHR ''/'') [] (relative_path ref) = [run, ?name]"
    using split_on_line[where p = "\<lambda>c. c = CHR ''/''" and w = run and acc = "[]" and c = "CHR ''/''"] run(1)
      split_on_word[OF name(1), of "[]"] by (simp add: assms(3))
  then have "path_components (relative_path ref) = [run, ?name]"
    using run name by (simp add: path_components_def)
  moreover have "\<not> startswith (relative_path ref) ''/''"
    using run by (cases run) (auto simp: assms(3) startswith_def)
  ultimately show ?thesis using run name by (simp add: path_for_def)
qed

text \<open>
  Payloads survive. Rows that \<open>write_jsonl\<close> accepts are read back by \<open>read_jsonl\<close> from the
  returned reference, in order and equal up to the order of object keys, provided the digest is a
  file name and no file of the store collides with the new payload.
\<close>

theorem payload_roundtrip:
  assumes "write_jsonl h st free run rows = Inr (ref, st')" "\<forall>row \<in> set rows. wf_json row"
    "\<forall>s. CHR ''/'' \<notin> set (h s)"
    "\<forall>s \<in> ran (st_files st). h s = h (concat (map encode_row rows)) \<longrightarrow> s = concat (map encode_row rows)"
  shows "read_jsonl h st' ref = Inr (map sort_keys rows)"
proof -
  let ?p = "concat (map encode_row rows)"
  let ?path = "st_root st @ [run, artifact_name (h ?p)]"
  have pub: "publish h st run ?p (int (length rows)) = Inr (ref, st')" "safe_run_component run"
    using assms(1) encode_rows_Inr[where acc = "[]" and rows = rows]
    by (auto simp: write_jsonl_def Let_def rbind_Inr_iff split: if_splits)
  have ref: "ref = \<lparr>sha256 = h ?p, relative_path = run @ ''/'' @ artifact_name (h ?p),
      byte_count = int (length ?p), row_count = int (length rows)\<rparr>"
    using pub(1) by (auto simp: publish_def Let_def rbind_Inr_iff split: option.splits)
  have path: "path_for s ref = Inr (st_root s @ [run, artifact_name (h ?p)])" for s
    by (rule path_for_published[OF pub(2)]) (use assms(3) ref in auto)
  have root: "st_root st' = st_root st"
    using pub(1) by (auto simp: publish_def Let_def rbind_Inr_iff split: option.splits)
  have stored: "st_files st' ?path = Some ?p"
  proof (cases "st_files st ?path")
    case None
    then show ?thesis using pub(1) by (auto simp: publish_def Let_def)
  next
    case (Some s)
    then have "st' = st" "artifact_verify h st ref = Inr ?path"
      using pub(1) path[of st] by (auto simp: publish_def Let_def rbind_Inr_iff artifact_verify_def ref split: if_splits option.splits)
    then have "h s = h ?p" using Some path[of st] by (auto simp: artifact_verify_def ref split: if_splits)
    then show ?thesis using assms(4) Some \<open>st' = st\<close> by (auto intro: ranI)
  qed
  then have "artifact_verify h st' ref = Inr ?path"
    using path[of st'] root by (simp add: artifact_verify_def ref)
  then show ?thesis
    using stored assms(2) by (simp add: read_jsonl_def jsonl_lines_encode read_back_rows ref)
qed

theorem payload_roundtrip_witness:
  "\<exists>ref st'. write_jsonl (\<lambda>s. ''d'') \<lparr>st_root = [''r''], st_files = Map.empty, st_max_artifact_bytes = 1000, st_min_free_bytes = 10\<rparr>
      1000 ''run'' [JObj [(''b'', JInt 2), (''a'', JStr [chr 10])]] = Inr (ref, st') \<and>
    read_jsonl (\<lambda>s. ''d'') st' ref = Inr [JObj [(''a'', JStr [chr 10]), (''b'', JInt 2)]]"
proof -
  let ?st = "\<lparr>st_root = [''r''], st_files = Map.empty, st_max_artifact_bytes = 1000, st_min_free_bytes = 10\<rparr> :: artifact_store"
  let ?rows = "[JObj [(''b'', JInt 2), (''a'', JStr [chr 10])]]"
  have "case write_jsonl (\<lambda>s. ''d'') ?st 1000 ''run'' ?rows of Inr _ \<Rightarrow> True | Inl _ \<Rightarrow> False" by code_simp
  then obtain ref st' where w: "write_jsonl (\<lambda>s. ''d'') ?st 1000 ''run'' ?rows = Inr (ref, st')"
    by (auto split: sum.splits)
  have "map sort_keys ?rows = [JObj [(''a'', JStr [chr 10]), (''b'', JInt 2)]]" by code_simp
  moreover have "list_all wf_json ?rows" by code_simp
  ultimately show ?thesis using payload_roundtrip[OF w] w by (auto simp: list_all_iff)
qed

end
