(* ===== verification/Journal_Store.thy ===== *)
theory Journal_Store
  imports Journal_Manifest Journal_Artifacts
begin

text \<open>
  The state of \<open>SQLiteJournal\<close> (\<open>journal/sqlite_store.py\<close>) as the tables of its schema, and the
  operations that produce work: opening and superseding runs, enqueueing batches with their
  manifests, opening and closing barriers. Every public method is one function from the state to
  a result and a new state; its SQLite transaction is \<open>transaction\<close> of a body that either
  raises or returns a value and the state to commit.

  Tables are lists of rows in insertion order. The tables \<open>node_manifest\<close> and \<open>edge_manifest\<close>
  are the rows of \<open>manifests\<close> of either kind. Columns that no statement reads back
  (\<open>error_detail\<close> and the \<open>updated_at\<close> of tables other than \<open>runs\<close>) are left out. A violated
  UNIQUE or CHECK constraint surfaces as \<open>_translate_sqlite_error\<close> maps it, to
  \<open>InvalidContract\<close>.
\<close>

section \<open>State\<close>

datatype event_type =
    EvRunOpened | EvRunResumed | EvRunQuarantined | EvRunPurgeStarted
  | EvBatchEnqueued | EvBatchManifestRejected | EvBarrierReached
  | EvBatchLeased | EvBatchReconciliationLeased | EvBatchAcked | EvBatchReconciling
  | EvRetryScheduled | EvReconciliationRetryScheduled | EvBatchDeadLettered | EvBatchBlocked
  | EvProducersCompleted | EvQueueDrained
  | EvLeaseRecoveredAsAmbiguous | EvReconciliationRecovered | EvReconciliationOwnershipRecovered

record batch_row = batch_record +
  b_created_at :: int

record artifact_row =
  a_run_id :: string
  a_ref :: artifact_ref
  a_ref_count :: int

record event_row =
  ev_id :: int
  ev_run_id :: string
  ev_job_id :: "string option"
  ev_type :: event_type
  ev_counters :: "(string \<times> int) list"
  ev_attempt :: "int option"
  ev_elapsed_ms :: "int option"
  ev_error_code :: "terminal_error_code option"
  ev_created_at :: int

record producer_row =
  p_run_id :: string
  p_producer_id :: string
  p_status :: producer_status
  p_emitted :: "manifest_kind \<Rightarrow> int"
  p_count :: "manifest_kind \<Rightarrow> manifest_disposition \<Rightarrow> int"

record manifest_row =
  m_kind :: manifest_kind
  m_run_id :: string
  m_manifest_id :: string
  m_job_id :: string
  m_producer_id :: string
  m_row_ordinal :: int
  m_scope :: string
  m_shape :: string
  m_identity_property :: string
  m_identity_type :: string
  m_identity_json :: string
  m_payload_digest :: string
  m_disposition :: manifest_disposition
  m_acked :: bool
  m_graph_verified :: bool

record endpoint_row =
  en_run_id :: string
  en_edge_manifest_id :: string
  en_role :: string
  en_scope :: string
  en_node_label :: string
  en_identity_property :: string
  en_identity_type :: string
  en_identity_json :: string

record audit_row =
  au_run_id :: string
  au_status :: endpoint_audit_status
  au_manifest_digest :: string
  au_receipt_count :: int

record journal =
  runs :: "run_record list"
  artifacts :: "artifact_row list"
  batches :: "batch_row list"
  barriers :: "barrier_record list"
  events :: "event_row list"
  event_seq :: int
  producers :: "producer_row list"
  manifests :: "manifest_row list"
  endpoints :: "endpoint_row list"
  audits :: "audit_row list"

definition empty_journal :: journal where
  "empty_journal =
     \<lparr>runs = [], artifacts = [], batches = [], barriers = [], events = [], event_seq = 0,
      producers = [], manifests = [], endpoints = [], audits = []\<rparr>"

text \<open>
  What one call observes outside the database: the clock (microseconds), free disk space, the
  configured limits, the hash and the token \<open>secrets.token_hex\<close> hands out.
\<close>

record env =
  e_now :: int
  e_free :: int
  e_limits :: journal_limits
  e_sha :: "string \<Rightarrow> string"
  e_token :: string

definition retention_until :: "env \<Rightarrow> int" where
  "retention_until e = e_now e + retention_seconds (e_limits e) * 1000000"

section \<open>Rows by key\<close>

definition find_run :: "string \<Rightarrow> journal \<Rightarrow> run_record option" where
  "find_run rid j = List.find (\<lambda>r. r_run_id r = rid) (runs j)"

definition find_batch :: "string \<Rightarrow> journal \<Rightarrow> batch_row option" where
  "find_batch job j = List.find (\<lambda>b. b_job_id b = job) (batches j)"

definition find_barrier :: "string \<Rightarrow> string \<Rightarrow> journal \<Rightarrow> barrier_record option" where
  "find_barrier rid name j = List.find (\<lambda>b. bar_run_id b = rid \<and> bar_name b = name) (barriers j)"

definition find_producer :: "string \<Rightarrow> string \<Rightarrow> journal \<Rightarrow> producer_row option" where
  "find_producer rid pid j = List.find (\<lambda>p. p_run_id p = rid \<and> p_producer_id p = pid) (producers j)"

definition get_run :: "string \<Rightarrow> journal \<Rightarrow> run_record option" where
  "get_run rid j = find_run rid j"

definition get_batch :: "string \<Rightarrow> journal \<Rightarrow> batch_record option" where
  "get_batch job j = map_option batch_record.truncate (find_batch job j)"

definition get_barrier :: "string \<Rightarrow> string \<Rightarrow> journal \<Rightarrow> barrier_record option" where
  "get_barrier rid name j = find_barrier rid name j"

definition run_active :: "run_record \<Rightarrow> bool" where
  "run_active r \<longleftrightarrow> r_status r = RunOpen \<or> r_status r = RunDraining"

definition run_is_active :: "string \<Rightarrow> journal \<Rightarrow> bool" where
  "run_is_active rid j = (case find_run rid j of None \<Rightarrow> False | Some r \<Rightarrow> run_active r)"

definition run_is_open :: "string \<Rightarrow> journal \<Rightarrow> bool" where
  "run_is_open rid j = (case find_run rid j of None \<Rightarrow> False | Some r \<Rightarrow> r_status r = RunOpen)"

section \<open>Statements\<close>

definition update_runs :: "(run_record \<Rightarrow> bool) \<Rightarrow> (run_record \<Rightarrow> run_record) \<Rightarrow> journal \<Rightarrow> journal" where
  "update_runs p f j = j\<lparr>runs := update_where p f (runs j)\<rparr>"

definition update_batches :: "(batch_row \<Rightarrow> bool) \<Rightarrow> (batch_row \<Rightarrow> batch_row) \<Rightarrow> journal \<Rightarrow> journal" where
  "update_batches p f j = j\<lparr>batches := update_where p f (batches j)\<rparr>"

definition update_barriers ::
  "(barrier_record \<Rightarrow> bool) \<Rightarrow> (barrier_record \<Rightarrow> barrier_record) \<Rightarrow> journal \<Rightarrow> journal" where
  "update_barriers p f j = j\<lparr>barriers := update_where p f (barriers j)\<rparr>"

definition update_manifests ::
  "(manifest_row \<Rightarrow> bool) \<Rightarrow> (manifest_row \<Rightarrow> manifest_row) \<Rightarrow> journal \<Rightarrow> journal" where
  "update_manifests p f j = j\<lparr>manifests := update_where p f (manifests j)\<rparr>"

definition update_producers ::
  "(producer_row \<Rightarrow> bool) \<Rightarrow> (producer_row \<Rightarrow> producer_row) \<Rightarrow> journal \<Rightarrow> journal" where
  "update_producers p f j = j\<lparr>producers := update_where p f (producers j)\<rparr>"

text \<open>\<open>SELECT COUNT(*) FROM batches WHERE run_id = ? AND status != 'done'\<close>.\<close>

definition unfinished_count :: "string \<Rightarrow> journal \<Rightarrow> nat" where
  "unfinished_count rid j = count_where (\<lambda>b. b_run_id b = rid \<and> b_status b \<noteq> Done) (batches j)"

definition add_event ::
  "string \<Rightarrow> event_type \<Rightarrow> string option \<Rightarrow> (string \<times> int) list \<Rightarrow> int option \<Rightarrow> int option \<Rightarrow>
   terminal_error_code option \<Rightarrow> int \<Rightarrow> journal \<Rightarrow> journal" where
  "add_event rid ty job counters attempt elapsed err now j =
     (let counters' = (if ''pending'' \<in> fst ` set counters then counters
                       else counters @ [(''pending'', int (unfinished_count rid j))])
      in j\<lparr>event_seq := event_seq j + 1,
           events := events j @ [\<lparr>ev_id = event_seq j + 1, ev_run_id = rid, ev_job_id = job,
             ev_type = ty, ev_counters = counters', ev_attempt = attempt, ev_elapsed_ms = elapsed,
             ev_error_code = err, ev_created_at = now\<rparr>]\<rparr>)"

definition set_run_error ::
  "env \<Rightarrow> string \<Rightarrow> run_status \<Rightarrow> terminal_error_code \<Rightarrow> journal \<Rightarrow> journal" where
  "set_run_error e rid st code j =
     update_runs (\<lambda>r. r_run_id r = rid)
       (\<lambda>r. r\<lparr>r_status := st, r_error_code := Some code, r_updated_at := e_now e,
             r_retention_until := retention_until e\<rparr>) j"

definition admit :: "env \<Rightarrow> int \<Rightarrow> int \<Rightarrow> exc + unit" where
  "admit e expected_items expected_bytes =
     (if expected_items < 0 \<or> expected_bytes < 0 then Inl ValueError
      else if expected_items > max_batches_per_run (e_limits e) then Inl (JournalError AdmissionRejected)
      else if expected_bytes > max_payload_bytes_per_run (e_limits e)
        then Inl (JournalError AdmissionRejected)
      else if e_free e - expected_bytes < min_free_bytes (e_limits e) then Inl (JournalError DiskFull)
      else Inr ())"

section \<open>Runs\<close>

text \<open>
  The statements \<open>open_run\<close> and \<open>quarantine_legacy_targets\<close> share: the run is quarantined and
  every batch of it that is not done is blocked and loses its fence.
\<close>

definition quarantine_run :: "env \<Rightarrow> string \<Rightarrow> journal \<Rightarrow> journal" where
  "quarantine_run e rid j =
     (let j1 = set_run_error e rid RunQuarantined IncompatibleSchema j;
          j2 = add_event rid EvRunQuarantined None [] None None (Some IncompatibleSchema) (e_now e) j1
      in update_batches (\<lambda>b. b_run_id b = rid \<and> b_status b \<noteq> Done)
           (\<lambda>b. b\<lparr>b_status := Blocked, b_fencing_token := None, b_lease_until := None,
                 b_retry_class := Some Incompatible, b_error_code := Some IncompatibleSchema\<rparr>) j2)"

definition quarantine_runs :: "env \<Rightarrow> string list \<Rightarrow> journal \<Rightarrow> journal" where
  "quarantine_runs e rids j = foldl (\<lambda>j rid. quarantine_run e rid j) j rids"

definition same_scope :: "run_metadata \<Rightarrow> run_metadata \<Rightarrow> bool" where
  "same_scope m n \<longleftrightarrow> project_id m = project_id n \<and> scope_id m = scope_id n \<and>
     physical_target m = physical_target n \<and> parser m = parser n"

definition metadata_json :: "run_metadata \<Rightarrow> string" where
  "metadata_json m = canonical_json (JObj (run_metadata_to_dict m))"

definition new_run :: "env \<Rightarrow> run_metadata \<Rightarrow> run_record" where
  "new_run e m =
     \<lparr>r_run_id = run_id (e_sha e) m, r_fingerprint = run_fingerprint (e_sha e) m, r_metadata = m,
      r_status = RunOpen, r_created_at = e_now e, r_updated_at = e_now e,
      r_retention_until = retention_until e, r_error_code = None\<rparr>"

definition open_run_body :: "env \<Rightarrow> run_metadata \<Rightarrow> journal \<Rightarrow> exc + run_record \<times> journal" where
  "open_run_body e m j =
     (let rid = run_id (e_sha e) m in
      case find_run rid j of
        Some existing \<Rightarrow>
          if metadata_json (r_metadata existing) \<noteq> metadata_json m
            then Inl (JournalError IncompatibleSchema)
          else if r_status existing = RunQuarantined \<and> r_error_code existing = Some IncompatibleSchema
            then Inl (JournalError IncompatibleSchema)
          else Inr (existing, add_event rid EvRunResumed None [] None None None (e_now e) j)
      | None \<Rightarrow>
          let superseded = map r_run_id (filter (\<lambda>r. same_scope (r_metadata r) m \<and> run_active r) (runs j));
              j1 = quarantine_runs e superseded j
          in if \<exists>r \<in> set (runs j1). r_fingerprint r = run_fingerprint (e_sha e) m
             then Inl (JournalError InvalidContract)
             else
               let j2 = j1\<lparr>runs := runs j1 @ [new_run e m]\<rparr>
               in Inr (new_run e m, add_event rid EvRunOpened None [] None None None (e_now e) j2))"

definition open_run :: "env \<Rightarrow> run_metadata \<Rightarrow> int \<Rightarrow> int \<Rightarrow> journal \<Rightarrow> (exc + run_record) \<times> journal" where
  "open_run e m expected_items expected_bytes j =
     (case admit e expected_items expected_bytes of
        Inl x \<Rightarrow> (Inl x, j)
      | Inr _ \<Rightarrow> transaction j (open_run_body e m j))"

definition list_runs :: "journal \<Rightarrow> run_record list" where
  "list_runs j = sort_key (\<lambda>r. (- r_updated_at r, r_run_id r)) (runs j)"

definition find_resumable_run :: "run_metadata \<Rightarrow> journal \<Rightarrow> run_record option" where
  "find_resumable_run m j =
     List.find (\<lambda>r. (r_metadata r)\<lparr>generation := []\<rparr> = m\<lparr>generation := []\<rparr>)
       (sort_key (\<lambda>r. - r_created_at r)
         (filter (\<lambda>r. same_scope (r_metadata r) m \<and> run_active r) (runs j)))"

definition legacy_targets :: "run_metadata \<Rightarrow> string list \<Rightarrow> string list" where
  "legacy_targets m targets =
     sorted_set (filter (\<lambda>t. t \<noteq> [] \<and> t \<noteq> physical_target m) (map strip targets))"

definition quarantine_legacy_targets ::
  "env \<Rightarrow> run_metadata \<Rightarrow> string list \<Rightarrow> journal \<Rightarrow> (exc + nat) \<times> journal" where
  "quarantine_legacy_targets e m physical_targets j =
     (let targets = legacy_targets m physical_targets in
      if targets = [] then (Inr 0, j)
      else
        let rids = map r_run_id (filter (\<lambda>r. project_id (r_metadata r) = project_id m \<and>
              scope_id (r_metadata r) = scope_id m \<and> parser (r_metadata r) = parser m \<and>
              physical_target (r_metadata r) \<in> set targets \<and> run_active r) (runs j))
        in transaction j (Inr (length rids, quarantine_runs e rids j)))"

text \<open>
  \<open>create_artifact\<close>: a run that is draining or drained may still rebuild a payload, to find
  out that its batch is already there.
\<close>

definition create_artifact ::
  "env \<Rightarrow> artifact_store \<Rightarrow> string \<Rightarrow> json list \<Rightarrow> journal \<Rightarrow> exc + artifact_ref \<times> artifact_store" where
  "create_artifact e st rid rows j =
     (case get_run rid j of
        None \<Rightarrow> Inl (JournalError InvalidTransition)
      | Some r \<Rightarrow>
          if r_status r \<in> {RunOpen, RunDraining, RunDrained}
          then write_jsonl (e_sha e) st (e_free e) rid rows
          else Inl (JournalError InvalidTransition))"

section \<open>Manifests\<close>

definition producers_complete_id :: string where
  "producers_complete_id = ''__journal_all_producers_complete__''"

definition production_complete :: "string \<Rightarrow> journal \<Rightarrow> bool" where
  "production_complete rid j =
     (case find_producer rid producers_complete_id j of
        None \<Rightarrow> False
      | Some p \<Rightarrow> p_status p = ProducerComplete)"

definition same_identity :: "string \<Rightarrow> candidate \<Rightarrow> manifest_row \<Rightarrow> bool" where
  "same_identity rid c m \<longleftrightarrow> m_kind m = c_kind c \<and> m_run_id m = rid \<and> m_scope m = c_scope c \<and>
     m_shape m = c_shape c \<and> (c_kind c = NodeKind \<longrightarrow> m_identity_property m = c_identity_property c) \<and>
     m_identity_type m = c_identity_type c \<and> m_identity_json m = c_identity_json c"

definition staged_before :: "string \<Rightarrow> candidate \<Rightarrow> journal \<Rightarrow> manifest_row option" where
  "staged_before rid c j =
     List.find (\<lambda>m. same_identity rid c m \<and> m_disposition m \<in> {StagedUnique, DeclaredDuplicate})
       (manifests j)"

definition disposition_of :: "string \<Rightarrow> candidate \<Rightarrow> journal \<Rightarrow> manifest_disposition" where
  "disposition_of rid c j =
     (if c_disposition c = StagedUnique then
        (case staged_before rid c j of
           None \<Rightarrow> StagedUnique
         | Some m \<Rightarrow> if m_payload_digest m = c_payload_digest c then DeclaredDuplicate else Conflict)
      else c_disposition c)"

definition manifest_row_of ::
  "string \<Rightarrow> string \<Rightarrow> string \<Rightarrow> candidate \<Rightarrow> manifest_disposition \<Rightarrow> manifest_row" where
  "manifest_row_of rid job producer c d =
     \<lparr>m_kind = c_kind c, m_run_id = rid, m_manifest_id = c_manifest_id c, m_job_id = job,
      m_producer_id = producer, m_row_ordinal = c_row_ordinal c, m_scope = c_scope c,
      m_shape = c_shape c, m_identity_property = c_identity_property c,
      m_identity_type = c_identity_type c, m_identity_json = c_identity_json c,
      m_payload_digest = c_payload_digest c, m_disposition = d, m_acked = False,
      m_graph_verified = False\<rparr>"

definition endpoint_row_of ::
  "string \<Rightarrow> candidate \<Rightarrow> string \<times> string \<times> string \<times> string \<times> string \<Rightarrow> endpoint_row" where
  "endpoint_row_of rid c ep =
     (case ep of (role, lbl, prop, ty, js) \<Rightarrow>
       \<lparr>en_run_id = rid, en_edge_manifest_id = c_manifest_id c, en_role = role, en_scope = c_scope c,
        en_node_label = lbl, en_identity_property = prop, en_identity_type = ty,
        en_identity_json = js\<rparr>)"

definition manifest_key_taken :: "string \<Rightarrow> string \<Rightarrow> candidate \<Rightarrow> journal \<Rightarrow> bool" where
  "manifest_key_taken rid job c j \<longleftrightarrow>
     (\<exists>m \<in> set (manifests j). m_kind m = c_kind c \<and>
        ((m_run_id m = rid \<and> m_manifest_id m = c_manifest_id c) \<or>
         (m_job_id m = job \<and> m_row_ordinal m = c_row_ordinal c)))"

definition endpoint_key_taken :: "string \<Rightarrow> candidate \<Rightarrow> journal \<Rightarrow> bool" where
  "endpoint_key_taken rid c j \<longleftrightarrow>
     (\<exists>n \<in> set (endpoints j). en_run_id n = rid \<and> en_edge_manifest_id n = c_manifest_id c \<and>
        en_role n \<in> fst ` set (c_endpoints c))"

type_synonym counts = "(manifest_kind \<Rightarrow> int) \<times> (manifest_kind \<Rightarrow> manifest_disposition \<Rightarrow> int)"

definition zero_counts :: counts where
  "zero_counts = ((\<lambda>_. 0), (\<lambda>_ _. 0))"

definition bump :: "manifest_kind \<Rightarrow> manifest_disposition \<Rightarrow> counts \<Rightarrow> counts" where
  "bump k d = (\<lambda>(em, ct). (em(k := em k + 1), ct(k := (ct k)(d := ct k d + 1))))"

definition stage_candidate ::
  "string \<Rightarrow> string \<Rightarrow> string \<Rightarrow> candidate \<Rightarrow> counts \<times> journal \<Rightarrow> exc + counts \<times> journal" where
  "stage_candidate rid job producer c = (\<lambda>(counts, j).
     (let d = disposition_of rid c j in
      if manifest_key_taken rid job c j \<or> (c_kind c = EdgeKind \<and> endpoint_key_taken rid c j)
      then Inl (JournalError InvalidContract)
      else Inr (bump (c_kind c) d counts,
        j\<lparr>manifests := manifests j @ [manifest_row_of rid job producer c d],
          endpoints := endpoints j @
            (if c_kind c = EdgeKind then map (endpoint_row_of rid c) (c_endpoints c) else [])\<rparr>)))"

definition register_producer :: "string \<Rightarrow> string \<Rightarrow> journal \<Rightarrow> journal" where
  "register_producer rid pid j =
     (if find_producer rid pid j = None
      then j\<lparr>producers := producers j @ [\<lparr>p_run_id = rid, p_producer_id = pid, p_status = ProducerOpen,
             p_emitted = (\<lambda>_. 0), p_count = (\<lambda>_ _. 0)\<rparr>]\<rparr>
      else j)"

definition count_producer :: "string \<Rightarrow> string \<Rightarrow> counts \<Rightarrow> journal \<Rightarrow> journal" where
  "count_producer rid pid counts j =
     update_producers (\<lambda>p. p_run_id p = rid \<and> p_producer_id p = pid)
       (\<lambda>p. p\<lparr>p_emitted := (\<lambda>k. p_emitted p k + fst counts k),
             p_count := (\<lambda>k d. p_count p k d + snd counts k d)\<rparr>) j"

definition stage_manifests ::
  "string \<Rightarrow> string \<Rightarrow> string \<Rightarrow> candidate list \<Rightarrow> journal \<Rightarrow> exc + counts \<times> journal" where
  "stage_manifests rid job producer cs j =
     (case find_producer rid producer j of
        Some p \<Rightarrow> if p_status p \<noteq> ProducerOpen then Inl (JournalError InvalidTransition)
                  else rbind (rfold (stage_candidate rid job producer) cs (zero_counts, j))
                    (\<lambda>(counts, j'). Inr (counts, count_producer rid producer counts j'))
      | None \<Rightarrow> rbind (rfold (stage_candidate rid job producer) cs
                    (zero_counts, register_producer rid producer j))
                    (\<lambda>(counts, j'). Inr (counts, count_producer rid producer counts j')))"

definition manifest_failure :: "counts \<Rightarrow> (string \<times> int) list" where
  "manifest_failure counts =
     filter (\<lambda>(_, n). n \<noteq> 0)
       [(''node_conflict'', snd counts NodeKind Conflict), (''node_rejected'', snd counts NodeKind Rejected),
        (''edge_conflict'', snd counts EdgeKind Conflict), (''edge_rejected'', snd counts EdgeKind Rejected)]"

section \<open>Enqueueing\<close>

definition reference_artifact :: "string \<Rightarrow> artifact_ref \<Rightarrow> journal \<Rightarrow> exc + journal" where
  "reference_artifact rid ref j =
     (case List.find (\<lambda>a. a_run_id a = rid \<and> sha256 (a_ref a) = sha256 ref) (artifacts j) of
        None \<Rightarrow>
          if \<exists>a \<in> set (artifacts j). relative_path (a_ref a) = relative_path ref
          then Inl (JournalError InvalidContract)
          else Inr (j\<lparr>artifacts := artifacts j @ [\<lparr>a_run_id = rid, a_ref = ref, a_ref_count = 1\<rparr>]\<rparr>)
      | Some a \<Rightarrow>
          if relative_path (a_ref a) \<noteq> relative_path ref \<or> byte_count (a_ref a) \<noteq> byte_count ref \<or>
             row_count (a_ref a) \<noteq> row_count ref
          then Inl (JournalError ArtifactHashMismatch)
          else Inr (j\<lparr>artifacts := update_where
                 (\<lambda>a. a_run_id a = rid \<and> sha256 (a_ref a) = sha256 ref)
                 (\<lambda>a. a\<lparr>a_ref_count := a_ref_count a + 1\<rparr>) (artifacts j)\<rparr>))"

definition new_batch :: "env \<Rightarrow> string \<Rightarrow> string \<Rightarrow> batch_spec \<Rightarrow> batch_row" where
  "new_batch e rid job spec =
     \<lparr>b_job_id = job, b_run_id = rid, b_phase = sp_phase spec, b_operation_key = sp_operation_key spec,
      b_sequence = sp_sequence spec, b_artifact = sp_artifact spec,
      b_expected_count = sp_expected_count spec, b_status = Pending, b_attempt = 0,
      b_max_attempts = sp_max_attempts spec, b_fencing_token = None, b_lease_until = None,
      b_next_attempt_at = None, b_required_barriers = sorted_set (sp_required_barriers spec),
      b_produced_barriers = sorted_set (sp_produced_barriers spec), b_retry_class = None,
      b_error_code = None, b_operation = sp_operation spec, b_created_at = e_now e\<rparr>"

definition same_slot :: "string \<Rightarrow> batch_spec \<Rightarrow> batch_row \<Rightarrow> bool" where
  "same_slot rid spec b \<longleftrightarrow> b_run_id b = rid \<and> b_phase b = sp_phase spec \<and>
     b_operation_key b = sp_operation_key spec \<and> b_sequence b = sp_sequence spec \<and>
     sha256 (b_artifact b) = sha256 (sp_artifact spec)"

definition insert_batch :: "env \<Rightarrow> string \<Rightarrow> string \<Rightarrow> batch_spec \<Rightarrow> journal \<Rightarrow> exc + journal" where
  "insert_batch e rid job spec j =
     (if (\<exists>b \<in> set (batches j). same_slot rid spec b) \<or>
         sp_sequence spec < 0 \<or> byte_count (sp_artifact spec) < 0 \<or> row_count (sp_artifact spec) < 0 \<or>
         sp_expected_count spec < 0 \<or> sp_max_attempts spec \<le> 0
      then Inl (JournalError InvalidContract)
      else Inr (j\<lparr>batches := batches j @ [new_batch e rid job spec]\<rparr>))"

text \<open>One produced barrier: created, counted, or refused when it is already closed.\<close>

definition produce_barrier :: "string \<Rightarrow> string \<Rightarrow> journal \<Rightarrow> exc + journal" where
  "produce_barrier rid name j =
     (case find_barrier rid name j of
        None \<Rightarrow> Inr (j\<lparr>barriers := barriers j @ [\<lparr>bar_run_id = rid, bar_name = name,
                 bar_status = BarrierOpen, bar_produced_count = 1, bar_drained_count = 0,
                 bar_closed_at = None\<rparr>]\<rparr>)
      | Some b \<Rightarrow>
          if bar_status b = BarrierOpen
          then Inr (update_barriers (\<lambda>b. bar_run_id b = rid \<and> bar_name b = name)
                 (\<lambda>b. b\<lparr>bar_produced_count := bar_produced_count b + 1\<rparr>) j)
          else Inl (JournalError InvalidTransition))"

definition reject_batch :: "env \<Rightarrow> string \<Rightarrow> string \<Rightarrow> journal \<Rightarrow> journal" where
  "reject_batch e rid job j =
     set_run_error e rid RunBlocked InvalidContract
       (update_batches (\<lambda>b. b_job_id b = job)
         (\<lambda>b. b\<lparr>b_status := Blocked, b_retry_class := Some Integrity,
               b_error_code := Some InvalidContract\<rparr>) j)"

definition stage_batch ::
  "string \<Rightarrow> string \<Rightarrow> (string \<times> candidate list) option \<Rightarrow> journal \<Rightarrow> exc + (string \<times> int) list \<times> journal" where
  "stage_batch rid job mc j =
     (case mc of
        None \<Rightarrow> Inr ([], j)
      | Some (producer, cs) \<Rightarrow>
          rbind (stage_manifests rid job producer cs j) (\<lambda>(counts, j'). Inr (manifest_failure counts, j')))"

definition settle_batch ::
  "env \<Rightarrow> string \<Rightarrow> string \<Rightarrow> batch_spec \<Rightarrow> (string \<times> int) list \<Rightarrow> journal \<Rightarrow> exc + journal" where
  "settle_batch e rid job spec failure j =
     (if failure \<noteq> [] then Inr (reject_batch e rid job j)
      else rfold (produce_barrier rid) (sorted_set (sp_produced_barriers spec)) j)"

definition enqueue_event ::
  "env \<Rightarrow> string \<Rightarrow> string \<Rightarrow> batch_spec \<Rightarrow> (string \<times> int) list \<Rightarrow> journal \<Rightarrow> journal" where
  "enqueue_event e rid job spec failure j =
     add_event rid (if failure \<noteq> [] then EvBatchManifestRejected else EvBatchEnqueued) (Some job)
       ([(''bytes'', byte_count (sp_artifact spec)), (''rows'', row_count (sp_artifact spec))] @ failure)
       None None (if failure \<noteq> [] then Some InvalidContract else None) (e_now e) j"

text \<open>
  The transaction of \<open>enqueue_batch\<close>. It returns the batch and the manifest failures; with
  failures the transaction still commits (the batch and the run are blocked), and the method
  raises after it.
\<close>

definition enqueue_body ::
  "env \<Rightarrow> string \<Rightarrow> string \<Rightarrow> batch_spec \<Rightarrow> (string \<times> candidate list) option \<Rightarrow> journal \<Rightarrow>
   exc + (batch_record \<times> (string \<times> int) list) \<times> journal" where
  "enqueue_body e rid job spec mc j =
     (if production_complete rid j then Inl (JournalError InvalidTransition)
      else case find_batch job j of
        Some dup \<Rightarrow> Inr ((batch_record.truncate dup, []), j)
      | None \<Rightarrow>
          if \<not> run_is_open rid j then Inl (JournalError InvalidTransition)
          else
            rbind (admit e (int (count_where (\<lambda>b. b_run_id b = rid) (batches j)) + 1)
                    (sum_list (map (\<lambda>b. byte_count (b_artifact b))
                       (filter (\<lambda>b. b_run_id b = rid) (batches j))) + byte_count (sp_artifact spec))) (\<lambda>_.
            rbind (reference_artifact rid (sp_artifact spec) j) (\<lambda>j1.
            rbind (insert_batch e rid job spec j1) (\<lambda>j2.
            rbind (stage_batch rid job mc j2) (\<lambda>(failure, j3).
            rbind (settle_batch e rid job spec failure j3) (\<lambda>j4.
            let j5 = enqueue_event e rid job spec failure j4 in
            case find_batch job j5 of
              None \<Rightarrow> Inl TypeError
            | Some b \<Rightarrow> Inr ((batch_record.truncate b, failure), j5)))))))"

definition job_id_of :: "env \<Rightarrow> run_record \<Rightarrow> batch_spec \<Rightarrow> string" where
  "job_id_of e run spec =
     deterministic_job_id (e_sha e) (r_fingerprint run) (sp_phase spec) (sp_operation_key spec)
       (sp_sequence spec) (sha256 (sp_artifact spec))"

definition enqueue_batch ::
  "env \<Rightarrow> artifact_store \<Rightarrow> string \<Rightarrow> batch_spec \<Rightarrow> journal \<Rightarrow> (exc + batch_record) \<times> journal" where
  "enqueue_batch e st rid spec j =
     (case get_run rid j of
        None \<Rightarrow> (Inl (JournalError InvalidTransition), j)
      | Some run \<Rightarrow>
          if pure_posix_parts (relative_path (sp_artifact spec))
             \<noteq> [rid, artifact_name (sha256 (sp_artifact spec))]
          then (Inl (JournalError InvalidContract), j)
          else
            case rbind (artifact_verify (e_sha e) st (sp_artifact spec))
                   (\<lambda>_. read_jsonl (e_sha e) st (sp_artifact spec)) of
              Inl x \<Rightarrow> (Inl x, j)
            | Inr rows \<Rightarrow>
                let job = job_id_of e run spec;
                    mc = manifest_candidates (e_sha e) run spec rows job
                in case transaction j (enqueue_body e rid job spec mc j) of
                     (Inl x, j') \<Rightarrow> (Inl x, j')
                   | (Inr (b, failure), j') \<Rightarrow>
                       if failure \<noteq> [] then (Inl (JournalError InvalidContract), j') else (Inr b, j'))"

section \<open>Barriers\<close>

definition open_barrier :: "string \<Rightarrow> string \<Rightarrow> journal \<Rightarrow> (exc + barrier_record) \<times> journal" where
  "open_barrier rid name j =
     (if strip name = [] then (Inl ValueError, j)
      else transaction j
        (if \<not> run_is_open rid j then Inl (JournalError InvalidTransition)
         else case find_barrier rid name j of
           Some b \<Rightarrow> Inr (b, j)
         | None \<Rightarrow>
             let b = \<lparr>bar_run_id = rid, bar_name = name, bar_status = BarrierOpen,
                      bar_produced_count = 0, bar_drained_count = 0, bar_closed_at = None\<rparr>
             in Inr (b, j\<lparr>barriers := barriers j @ [b]\<rparr>)))"

definition close_barrier_body :: "env \<Rightarrow> string \<Rightarrow> string \<Rightarrow> journal \<Rightarrow> exc + barrier_record \<times> journal" where
  "close_barrier_body e rid name j =
     (case find_barrier rid name j of
        None \<Rightarrow> Inl (JournalError InvalidContract)
      | Some row \<Rightarrow>
          if bar_status row = BarrierDrained then Inr (row, j)
          else if \<not> run_is_open rid j then Inl (JournalError InvalidTransition)
          else
            let st = (if bar_drained_count row = bar_produced_count row then BarrierDrained
                      else BarrierProduced);
                j1 = update_barriers (\<lambda>b. bar_run_id b = rid \<and> bar_name b = name)
                       (\<lambda>b. b\<lparr>bar_status := st, bar_closed_at := Some (e_now e)\<rparr>) j;
                j2 = (if st = BarrierDrained
                      then add_event rid EvBarrierReached None [(''produced'', bar_produced_count row)]
                             None None None (e_now e) j1
                      else j1)
            in Inr (row\<lparr>bar_status := st, bar_closed_at := Some (e_now e)\<rparr>, j2))"

definition close_barrier :: "env \<Rightarrow> string \<Rightarrow> string \<Rightarrow> journal \<Rightarrow> (exc + barrier_record) \<times> journal" where
  "close_barrier e rid name j = transaction j (close_barrier_body e rid name j)"

end
