(* ===== verification/Journal_Lease.thy ===== *)
theory Journal_Lease
  imports Journal_Store
begin

text \<open>
  The consuming half of \<open>SQLiteJournal\<close>: claiming batches under a fencing token and a lease,
  renewing, acknowledging, retrying, blocking, and recovering the leases of owners that are
  gone. A batch whose owner vanished is not executable again: it goes to \<open>Reconciling\<close>, where
  its outcome in the graph has to be read back first.
\<close>

section \<open>Recovering leases\<close>

definition lease_expired :: "int \<Rightarrow> batch_row \<Rightarrow> bool" where
  "lease_expired now b = (case b_lease_until b of None \<Rightarrow> False | Some t \<Rightarrow> t \<le> now)"

definition to_reconciling :: "string \<Rightarrow> journal \<Rightarrow> journal" where
  "to_reconciling job j =
     update_batches (\<lambda>b. b_job_id b = job \<and> b_status b = Leased)
       (\<lambda>b. b\<lparr>b_status := Reconciling, b_fencing_token := None, b_lease_until := None,
             b_retry_class := Some Ambiguous\<rparr>) j"

definition drop_reconciling_fence :: "string \<Rightarrow> journal \<Rightarrow> journal" where
  "drop_reconciling_fence job j =
     update_batches (\<lambda>b. b_job_id b = job \<and> b_status b = Reconciling)
       (\<lambda>b. b\<lparr>b_fencing_token := None, b_lease_until := None\<rparr>) j"

definition recover_leased :: "int \<Rightarrow> batch_row list \<Rightarrow> journal \<Rightarrow> journal" where
  "recover_leased now rows j =
     foldl (\<lambda>j b. add_event (b_run_id b) EvLeaseRecoveredAsAmbiguous (Some (b_job_id b)) []
              (Some (b_attempt b)) None None now (to_reconciling (b_job_id b) j)) j rows"

definition recover_reconciling :: "event_type \<Rightarrow> int \<Rightarrow> batch_row list \<Rightarrow> journal \<Rightarrow> journal" where
  "recover_reconciling ev now rows j =
     foldl (\<lambda>j b. add_event (b_run_id b) ev (Some (b_job_id b)) [] (Some (b_attempt b)) None None now
              (drop_reconciling_fence (b_job_id b) j)) j rows"

text \<open>\<open>_recover_expired_leases_locked\<close>.\<close>

definition recover_expired :: "int \<Rightarrow> journal \<Rightarrow> nat \<times> journal" where
  "recover_expired now j =
     (let rows = filter (\<lambda>b. b_status b = Leased \<and> lease_expired now b) (batches j);
          j1 = recover_leased now rows j;
          recon = filter (\<lambda>b. b_status b = Reconciling \<and> b_fencing_token b \<noteq> None \<and>
                    lease_expired now b) (batches j1)
      in (length rows + length recon, recover_reconciling EvReconciliationRecovered now recon j1))"

definition recover_expired_leases :: "env \<Rightarrow> journal \<Rightarrow> (exc + nat) \<times> journal" where
  "recover_expired_leases e j = transaction j (Inr (recover_expired (e_now e) j))"

definition recover_run_leases :: "env \<Rightarrow> string \<Rightarrow> journal \<Rightarrow> nat \<times> journal" where
  "recover_run_leases e rid j =
     (let rows = filter (\<lambda>b. b_run_id b = rid \<and> b_status b = Leased) (batches j);
          j1 = recover_leased (e_now e) rows j;
          recon = filter (\<lambda>b. b_run_id b = rid \<and> b_status b = Reconciling \<and>
                    b_fencing_token b \<noteq> None) (batches j1)
      in (length rows + length recon,
          recover_reconciling EvReconciliationOwnershipRecovered (e_now e) recon j1))"

definition recover_run_leases_as_ambiguous :: "env \<Rightarrow> string \<Rightarrow> journal \<Rightarrow> (exc + nat) \<times> journal" where
  "recover_run_leases_as_ambiguous e rid j = transaction j (Inr (recover_run_leases e rid j))"

section \<open>Claiming\<close>

definition due :: "int \<Rightarrow> batch_row \<Rightarrow> bool" where
  "due now b = (case b_next_attempt_at b of None \<Rightarrow> True | Some t \<Rightarrow> t \<le> now)"

definition barrier_drained :: "string \<Rightarrow> string \<Rightarrow> journal \<Rightarrow> bool" where
  "barrier_drained rid name j =
     (case find_barrier rid name j of None \<Rightarrow> False | Some b \<Rightarrow> bar_status b = BarrierDrained)"

definition executable :: "batch_row \<Rightarrow> bool" where
  "executable b \<longleftrightarrow> b_status b = Pending \<or> b_status b = RetryWait"

definition claimable :: "int \<Rightarrow> journal \<Rightarrow> batch_row \<Rightarrow> bool" where
  "claimable now j b \<longleftrightarrow> executable b \<and> due now b \<and> run_is_active (b_run_id b) j \<and>
     list_all (\<lambda>name. barrier_drained (b_run_id b) name j) (b_required_barriers b)"

definition reconcilable :: "int \<Rightarrow> journal \<Rightarrow> batch_row \<Rightarrow> bool" where
  "reconcilable now j b \<longleftrightarrow> b_status b = Reconciling \<and> b_fencing_token b = None \<and> due now b \<and>
     run_is_active (b_run_id b) j"

definition claim_order :: "batch_row \<Rightarrow> int \<times> int \<times> string" where
  "claim_order b = (b_sequence b, b_created_at b, b_job_id b)"

definition in_run :: "string option \<Rightarrow> batch_row \<Rightarrow> bool" where
  "in_run rid b = (case rid of None \<Rightarrow> True | Some r \<Rightarrow> b_run_id b = r)"

definition lease_end :: "env \<Rightarrow> int \<Rightarrow> int" where
  "lease_end e lease_seconds = e_now e + lease_seconds * 1000000"

text \<open>
  Leasing the selected row. \<open>rowcount != 1\<close> returns \<open>None\<close>; the event and the result come from
  the row as updated.
\<close>

definition lease_row ::
  "(batch_row \<Rightarrow> bool) \<Rightarrow> (batch_row \<Rightarrow> batch_row) \<Rightarrow> event_type \<Rightarrow> env \<Rightarrow> string \<Rightarrow> journal \<Rightarrow>
   exc + batch_record option \<times> journal" where
  "lease_row p f ev e job j =
     (let sel = (\<lambda>b. b_job_id b = job \<and> p b);
          j1 = update_batches sel f j
      in if count_where sel (batches j) \<noteq> 1 then Inr (None, j1)
         else case find_batch job j1 of
           None \<Rightarrow> Inl TypeError
         | Some b \<Rightarrow> Inr (Some (batch_record.truncate b),
             add_event (b_run_id b) ev (Some job) [] (Some (b_attempt b)) None None (e_now e) j1))"

definition lease_executable ::
  "env \<Rightarrow> int \<Rightarrow> string \<Rightarrow> journal \<Rightarrow> exc + batch_record option \<times> journal" where
  "lease_executable e lease_seconds job j =
     lease_row executable
       (\<lambda>b. b\<lparr>b_status := Leased, b_attempt := b_attempt b + 1, b_fencing_token := Some (e_token e),
             b_lease_until := Some (lease_end e lease_seconds), b_next_attempt_at := None\<rparr>)
       EvBatchLeased e job j"

definition lease_reconciling ::
  "env \<Rightarrow> int \<Rightarrow> string \<Rightarrow> journal \<Rightarrow> exc + batch_record option \<times> journal" where
  "lease_reconciling e lease_seconds job j =
     lease_row (\<lambda>b. b_status b = Reconciling \<and> b_fencing_token b = None)
       (\<lambda>b. b\<lparr>b_fencing_token := Some (e_token e), b_lease_until := Some (lease_end e lease_seconds)\<rparr>)
       EvBatchReconciliationLeased e job j"

text \<open>The four claiming methods: recover, select, lease.\<close>

definition claim_where ::
  "(int \<Rightarrow> journal \<Rightarrow> batch_row \<Rightarrow> bool) \<Rightarrow>
   (env \<Rightarrow> int \<Rightarrow> string \<Rightarrow> journal \<Rightarrow> exc + batch_record option \<times> journal) \<Rightarrow>
   env \<Rightarrow> int \<Rightarrow> journal \<Rightarrow> (exc + batch_record option) \<times> journal" where
  "claim_where eligible lease e lease_seconds j =
     (if lease_seconds \<le> 0 then (Inl ValueError, j)
      else transaction j
        (let j1 = snd (recover_expired (e_now e) j) in
         case first_by claim_order (filter (eligible (e_now e) j1) (batches j1)) of
           None \<Rightarrow> Inr (None, j1)
         | Some b \<Rightarrow> lease e lease_seconds (b_job_id b) j1))"

definition claim_batch :: "env \<Rightarrow> string option \<Rightarrow> int \<Rightarrow> journal \<Rightarrow> (exc + batch_record option) \<times> journal" where
  "claim_batch e rid lease_seconds j =
     claim_where (\<lambda>now j b. claimable now j b \<and> in_run rid b) lease_executable e lease_seconds j"

definition claim_job :: "env \<Rightarrow> string \<Rightarrow> int \<Rightarrow> journal \<Rightarrow> (exc + batch_record option) \<times> journal" where
  "claim_job e job lease_seconds j =
     claim_where (\<lambda>now j b. b_job_id b = job \<and> claimable now j b) lease_executable e lease_seconds j"

definition claim_reconciling ::
  "env \<Rightarrow> string option \<Rightarrow> int \<Rightarrow> journal \<Rightarrow> (exc + batch_record option) \<times> journal" where
  "claim_reconciling e rid lease_seconds j =
     claim_where (\<lambda>now j b. reconcilable now j b \<and> in_run rid b) lease_reconciling e lease_seconds j"

definition claim_reconciling_job ::
  "env \<Rightarrow> string \<Rightarrow> int \<Rightarrow> journal \<Rightarrow> (exc + batch_record option) \<times> journal" where
  "claim_reconciling_job e job lease_seconds j =
     claim_where (\<lambda>now j b. b_job_id b = job \<and> reconcilable now j b) lease_reconciling e lease_seconds j"

section \<open>Owned transitions\<close>

definition lease_live :: "int \<Rightarrow> batch_row \<Rightarrow> bool" where
  "lease_live now b = (case b_lease_until b of None \<Rightarrow> False | Some t \<Rightarrow> t > now)"

definition owns :: "batch_status list \<Rightarrow> string \<Rightarrow> string \<Rightarrow> int \<Rightarrow> batch_row \<Rightarrow> bool" where
  "owns states job token now b \<longleftrightarrow> b_job_id b = job \<and> b_status b \<in> set states \<and>
     b_fencing_token b = Some token \<and> lease_live now b"

definition owned_row :: "batch_status list \<Rightarrow> string \<Rightarrow> string \<Rightarrow> int \<Rightarrow> journal \<Rightarrow> exc + batch_row" where
  "owned_row states job token now j =
     (case List.find (owns states job token now) (batches j) of
        None \<Rightarrow> Inl (JournalError StaleFence)
      | Some b \<Rightarrow> Inr b)"

definition owned_lease :: "string \<Rightarrow> string \<Rightarrow> int \<Rightarrow> journal \<Rightarrow> exc + batch_row" where
  "owned_lease job token now j = owned_row [Leased] job token now j"

definition owned_transition :: "string \<Rightarrow> string \<Rightarrow> int \<Rightarrow> journal \<Rightarrow> exc + batch_row" where
  "owned_transition job token now j = owned_row [Leased, Reconciling] job token now j"

text \<open>The result of an owned transition is the row read back after the update.\<close>

definition read_back :: "string \<Rightarrow> journal \<Rightarrow> exc + batch_record \<times> journal" where
  "read_back job j =
     (case find_batch job j of None \<Rightarrow> Inl TypeError | Some b \<Rightarrow> Inr (batch_record.truncate b, j))"

definition renew_lease ::
  "env \<Rightarrow> string \<Rightarrow> string \<Rightarrow> int \<Rightarrow> journal \<Rightarrow> (exc + batch_record) \<times> journal" where
  "renew_lease e job token lease_seconds j =
     (if lease_seconds \<le> 0 then (Inl ValueError, j)
      else transaction j
        (if count_where (owns [Leased] job token (e_now e)) (batches j) \<noteq> 1
         then Inl (JournalError StaleFence)
         else read_back job
           (update_batches (owns [Leased] job token (e_now e))
             (\<lambda>b. b\<lparr>b_lease_until := Some (lease_end e lease_seconds)\<rparr>) j)))"

text \<open>\<open>_refresh_run_status_locked\<close>: a draining run with nothing left is drained.\<close>

definition refresh_run_status :: "env \<Rightarrow> string \<Rightarrow> journal \<Rightarrow> journal" where
  "refresh_run_status e rid j =
     (case find_run rid j of
        None \<Rightarrow> j
      | Some r \<Rightarrow>
          if r_status r = RunDraining \<and> unfinished_count rid j = 0 \<and>
             count_where (\<lambda>b. bar_run_id b = rid \<and> bar_status b \<noteq> BarrierDrained) (barriers j) = 0
          then add_event rid EvQueueDrained None [] None None None (e_now e)
                 (update_runs (\<lambda>r. r_run_id r = rid)
                   (\<lambda>r. r\<lparr>r_status := RunDrained, r_updated_at := e_now e,
                         r_retention_until := retention_until e\<rparr>) j)
          else j)"

definition mark_done :: "string \<Rightarrow> string \<Rightarrow> journal \<Rightarrow> journal" where
  "mark_done job token j =
     update_batches (\<lambda>b. b_job_id b = job \<and> b_status b \<in> {Leased, Reconciling} \<and>
                        b_fencing_token b = Some token)
       (\<lambda>b. b\<lparr>b_status := Done, b_fencing_token := None, b_lease_until := None,
             b_retry_class := None, b_error_code := None\<rparr>) j"

definition ack_manifests :: "string \<Rightarrow> journal \<Rightarrow> journal" where
  "ack_manifests job j =
     update_manifests (\<lambda>m. m_job_id m = job \<and> m_disposition m = StagedUnique)
       (\<lambda>m. m\<lparr>m_acked := True, m_graph_verified := True\<rparr>) j"

text \<open>
  One produced barrier of an acknowledged batch. The table's CHECK refuses a drained count
  above the produced count.
\<close>

definition drain_barrier :: "env \<Rightarrow> string \<Rightarrow> string \<Rightarrow> journal \<Rightarrow> exc + journal" where
  "drain_barrier e rid name j =
     (case find_barrier rid name j of
        None \<Rightarrow> Inl (JournalError InvalidContract)
      | Some bar \<Rightarrow>
          let drained = bar_drained_count bar + 1;
              st = (if bar_closed_at bar \<noteq> None \<and> drained = bar_produced_count bar
                    then BarrierDrained else bar_status bar)
          in if drained > bar_produced_count bar then Inl (JournalError InvalidContract)
             else
               let j1 = update_barriers (\<lambda>b. bar_run_id b = rid \<and> bar_name b = name)
                          (\<lambda>b. b\<lparr>bar_drained_count := drained, bar_status := st\<rparr>) j
               in Inr (if st = BarrierDrained
                       then add_event rid EvBarrierReached None [(''produced'', bar_produced_count bar)]
                              None None None (e_now e) j1
                       else j1))"

definition ack_batch ::
  "env \<Rightarrow> string \<Rightarrow> string \<Rightarrow> int option \<Rightarrow> journal \<Rightarrow> (exc + batch_record) \<times> journal" where
  "ack_batch e job token elapsed_ms j =
     transaction j
       (rbind (owned_transition job token (e_now e) j) (\<lambda>row.
        rbind (rfold (drain_barrier e (b_run_id row)) (b_produced_barriers row)
                (ack_manifests job (mark_done job token j))) (\<lambda>j1.
        let j2 = add_event (b_run_id row) EvBatchAcked (Some job)
                   [(''rows'', row_count (b_artifact row))] (Some (b_attempt row)) elapsed_ms None
                   (e_now e) j1
        in read_back job (refresh_run_status e (b_run_id row) j2))))"

definition mark_reconciling ::
  "env \<Rightarrow> string \<Rightarrow> string \<Rightarrow> terminal_error_code option \<Rightarrow> journal \<Rightarrow> (exc + batch_record) \<times> journal" where
  "mark_reconciling e job token code j =
     transaction j
       (rbind (owned_lease job token (e_now e) j) (\<lambda>row.
        let j1 = update_batches (\<lambda>b. b_job_id b = job \<and> b_status b = Leased \<and>
                                    b_fencing_token b = Some token)
                   (\<lambda>b. b\<lparr>b_status := Reconciling, b_retry_class := Some Ambiguous,
                         b_error_code := code\<rparr>) j
        in read_back job (add_event (b_run_id row) EvBatchReconciling (Some job) []
             (Some (b_attempt row)) None code (e_now e) j1)))"

definition release_owned ::
  "string \<Rightarrow> string \<Rightarrow> (batch_row \<Rightarrow> batch_row) \<Rightarrow> journal \<Rightarrow> journal" where
  "release_owned job token f j =
     update_batches (\<lambda>b. b_job_id b = job \<and> b_fencing_token b = Some token \<and>
                        b_status b \<in> {Leased, Reconciling})
       (\<lambda>b. (f b)\<lparr>b_fencing_token := None, b_lease_until := None\<rparr>) j"

definition schedule_retry ::
  "env \<Rightarrow> string \<Rightarrow> string \<Rightarrow> int \<Rightarrow> retry_class \<Rightarrow> terminal_error_code \<Rightarrow> journal \<Rightarrow>
   (exc + batch_record) \<times> journal" where
  "schedule_retry e job token retry_at rc code j =
     transaction j
       (rbind (owned_transition job token (e_now e) j) (\<lambda>row.
        let exhausted = b_attempt row \<ge> b_max_attempts row;
            term = (if exhausted then MaxAttempts else code);
            j1 = release_owned job token
                   (\<lambda>b. b\<lparr>b_status := (if exhausted then DeadLetter else RetryWait),
                         b_next_attempt_at := (if exhausted then None else Some retry_at),
                         b_retry_class := Some rc, b_error_code := Some term\<rparr>) j;
            j2 = add_event (b_run_id row) (if exhausted then EvBatchDeadLettered else EvRetryScheduled)
                   (Some job) [] (Some (b_attempt row)) None (Some term) (e_now e) j1;
            j3 = (if exhausted then set_run_error e (b_run_id row) RunDeadLettered term j2 else j2)
        in read_back job j3))"

definition schedule_reconciliation_retry ::
  "env \<Rightarrow> string \<Rightarrow> string \<Rightarrow> int \<Rightarrow> terminal_error_code \<Rightarrow> journal \<Rightarrow> (exc + batch_record) \<times> journal" where
  "schedule_reconciliation_retry e job token retry_at code j =
     transaction j
       (rbind (owned_transition job token (e_now e) j) (\<lambda>row.
        if b_status row \<noteq> Reconciling then Inl (JournalError InvalidTransition)
        else
          let next = b_attempt row + 1;
              exhausted = next \<ge> b_max_attempts row;
              term = (if exhausted then MaxAttempts else code);
              j1 = update_batches (\<lambda>b. b_job_id b = job \<and> b_fencing_token b = Some token \<and>
                                      b_status b = Reconciling)
                     (\<lambda>b. b\<lparr>b_status := (if exhausted then DeadLetter else Reconciling),
                           b_attempt := next, b_fencing_token := None, b_lease_until := None,
                           b_next_attempt_at := (if exhausted then None else Some retry_at),
                           b_retry_class := Some Transient, b_error_code := Some term\<rparr>) j;
              j2 = add_event (b_run_id row)
                     (if exhausted then EvBatchDeadLettered else EvReconciliationRetryScheduled)
                     (Some job) [] (Some next) None (Some term) (e_now e) j1;
              j3 = (if exhausted then set_run_error e (b_run_id row) RunDeadLettered term j2 else j2)
          in read_back job j3))"

definition block_batch ::
  "env \<Rightarrow> string \<Rightarrow> string \<Rightarrow> retry_class \<Rightarrow> terminal_error_code \<Rightarrow> journal \<Rightarrow>
   (exc + batch_record) \<times> journal" where
  "block_batch e job token rc code j =
     transaction j
       (rbind (owned_transition job token (e_now e) j) (\<lambda>row.
        let j1 = release_owned job token
                   (\<lambda>b. b\<lparr>b_status := Blocked, b_retry_class := Some rc, b_error_code := Some code\<rparr>) j;
            j2 = add_event (b_run_id row) EvBatchBlocked (Some job) [] (Some (b_attempt row)) None
                   (Some code) (e_now e) j1
        in read_back job (set_run_error e (b_run_id row) RunBlocked code j2)))"

section \<open>Closing production\<close>

definition close_run_production :: "env \<Rightarrow> string \<Rightarrow> journal \<Rightarrow> (exc + run_record) \<times> journal" where
  "close_run_production e rid j =
     transaction j
       (let sel = (\<lambda>r. r_run_id r = rid \<and> r_status r = RunOpen);
            j1 = update_runs sel (\<lambda>r. r\<lparr>r_status := RunDraining, r_updated_at := e_now e\<rparr>) j;
            ok = count_where sel (runs j) = 1 \<or>
                 (case find_run rid j1 of
                    None \<Rightarrow> False
                  | Some r \<Rightarrow> r_status r \<in> {RunDraining, RunDrained})
        in if \<not> ok then Inl (JournalError InvalidTransition)
           else
             let j2 = refresh_run_status e rid j1
             in case find_run rid j2 of None \<Rightarrow> Inl TypeError | Some r \<Rightarrow> Inr (r, j2))"

end
