(* ===== verification/Journal_Audit.thy ===== *)
theory Journal_Audit
  imports Journal_Lease
begin

text \<open>
  The rest of \<open>SQLiteJournal\<close>: the producer-completion boundary, the conservation summary of a
  run's manifests and the endpoint audit sealed over it, status reports, and the retention
  operations that purge a run and collect orphaned payload files.
\<close>

section \<open>Producer completion\<close>

definition list_open_producers :: "string \<Rightarrow> journal \<Rightarrow> string list" where
  "list_open_producers rid j =
     sort (map p_producer_id (filter (\<lambda>p. p_run_id p = rid \<and> p_status p = ProducerOpen \<and>
       p_producer_id p \<noteq> producers_complete_id) (producers j)))"

definition invalid_rows :: "string \<Rightarrow> journal \<Rightarrow> nat" where
  "invalid_rows rid j =
     count_where (\<lambda>m. m_run_id m = rid \<and> m_disposition m \<in> {Conflict, Rejected}) (manifests j)"

definition complete_producers_body :: "env \<Rightarrow> string \<Rightarrow> journal \<Rightarrow> exc + nat \<times> journal" where
  "complete_producers_body e rid j =
     (if \<not> run_is_open rid j then Inl (JournalError InvalidTransition)
      else if invalid_rows rid j \<noteq> 0 then Inl (JournalError InvalidContract)
      else if production_complete rid j then Inr (0, j)
      else if find_producer rid producers_complete_id j \<noteq> None then Inl (JournalError InvalidContract)
      else
        let sel = (\<lambda>p. p_run_id p = rid \<and> p_status p = ProducerOpen);
            n = count_where sel (producers j);
            j1 = update_producers sel (\<lambda>p. p\<lparr>p_status := ProducerComplete\<rparr>) j;
            j2 = j1\<lparr>producers := producers j1 @ [\<lparr>p_run_id = rid, p_producer_id = producers_complete_id,
                   p_status = ProducerComplete, p_emitted = (\<lambda>_. 0), p_count = (\<lambda>_ _. 0)\<rparr>]\<rparr>
        in Inr (n, add_event rid EvProducersCompleted None [(''producers'', int n)] None None None
                     (e_now e) j2))"

definition complete_producers :: "env \<Rightarrow> string \<Rightarrow> journal \<Rightarrow> (exc + nat) \<times> journal" where
  "complete_producers e rid j = transaction j (complete_producers_body e rid j)"

section \<open>Conservation\<close>

record totals =
  t_emitted :: nat
  t_staged_unique :: nat
  t_declared_duplicate :: nat
  t_conflict :: nat
  t_rejected :: nat
  t_acked :: nat
  t_graph_verified :: nat
  t_conserved :: bool

definition manifests_of :: "manifest_kind \<Rightarrow> string \<Rightarrow> journal \<Rightarrow> manifest_row list" where
  "manifests_of k rid j = filter (\<lambda>m. m_kind m = k \<and> m_run_id m = rid) (manifests j)"

definition totals_of :: "manifest_kind \<Rightarrow> string \<Rightarrow> journal \<Rightarrow> totals" where
  "totals_of k rid j =
     (let rows = manifests_of k rid j;
          by = (\<lambda>d. count_where (\<lambda>m. m_disposition m = d) rows);
          acked = count_where m_acked rows;
          verified = count_where m_graph_verified rows
      in \<lparr>t_emitted = length rows, t_staged_unique = by StagedUnique,
          t_declared_duplicate = by DeclaredDuplicate, t_conflict = by Conflict,
          t_rejected = by Rejected, t_acked = acked, t_graph_verified = verified,
          t_conserved = (length rows = by StagedUnique + by DeclaredDuplicate + by Conflict + by Rejected
            \<and> by StagedUnique = acked \<and> acked = verified)\<rparr>)"

definition disposition_value :: "manifest_disposition \<Rightarrow> string" where
  "disposition_value d = (case d of
       StagedUnique \<Rightarrow> ''staged_unique''
     | DeclaredDuplicate \<Rightarrow> ''declared_duplicate''
     | Conflict \<Rightarrow> ''conflict''
     | Rejected \<Rightarrow> ''rejected'')"

definition node_digest_row :: "manifest_row \<Rightarrow> json" where
  "node_digest_row m =
     JObj [(''scope'', JStr (m_scope m)), (''node_label'', JStr (m_shape m)),
           (''identity_property'', JStr (m_identity_property m)),
           (''identity_type'', JStr (m_identity_type m)), (''identity_json'', JStr (m_identity_json m)),
           (''payload_digest'', JStr (m_payload_digest m)),
           (''disposition'', JStr (disposition_value (m_disposition m)))]"

definition node_digest_order ::
  "manifest_row \<Rightarrow> string \<times> string \<times> string \<times> string \<times> string \<times> string \<times> string" where
  "node_digest_order m =
     (m_scope m, m_shape m, m_identity_property m, m_identity_type m, m_identity_json m,
      m_payload_digest m, m_manifest_id m)"

definition node_manifest_rows :: "string \<Rightarrow> journal \<Rightarrow> json list" where
  "node_manifest_rows rid j =
     map node_digest_row (sort_key node_digest_order (manifests_of NodeKind rid j))"

text \<open>The rows of \<open>edge_manifest LEFT JOIN edge_endpoint\<close>: an edge without endpoints has one, of nulls.\<close>

definition edge_columns :: "manifest_row \<Rightarrow> (string \<times> json) list" where
  "edge_columns m =
     [(''manifest_id'', JStr (m_manifest_id m)), (''job_id'', JStr (m_job_id m)),
      (''producer_id'', JStr (m_producer_id m)), (''row_ordinal'', JInt (m_row_ordinal m)),
      (''scope'', JStr (m_scope m)), (''relationship_type'', JStr (m_shape m)),
      (''identity_type'', JStr (m_identity_type m)), (''identity_json'', JStr (m_identity_json m)),
      (''payload_digest'', JStr (m_payload_digest m)),
      (''disposition'', JStr (disposition_value (m_disposition m)))]"

definition endpoint_columns :: "endpoint_row option \<Rightarrow> (string \<times> json) list" where
  "endpoint_columns n = (case n of
       None \<Rightarrow> map (\<lambda>k. (k, JNull))
         [''role'', ''endpoint_scope'', ''node_label'', ''identity_property'',
          ''endpoint_identity_type'', ''endpoint_identity_json'', ''required'']
     | Some n \<Rightarrow>
         [(''role'', JStr (en_role n)), (''endpoint_scope'', JStr (en_scope n)),
          (''node_label'', JStr (en_node_label n)),
          (''identity_property'', JStr (en_identity_property n)),
          (''endpoint_identity_type'', JStr (en_identity_type n)),
          (''endpoint_identity_json'', JStr (en_identity_json n)), (''required'', JInt 1)])"

definition endpoints_of :: "manifest_row \<Rightarrow> journal \<Rightarrow> endpoint_row option list" where
  "endpoints_of m j =
     (let rows = filter (\<lambda>n. en_run_id n = m_run_id m \<and> en_edge_manifest_id n = m_manifest_id m)
                   (endpoints j)
      in if rows = [] then [None] else map Some (sort_key en_role rows))"

definition endpoint_manifest_rows :: "string \<Rightarrow> journal \<Rightarrow> json list" where
  "endpoint_manifest_rows rid j =
     concat (map (\<lambda>m. map (\<lambda>n. JObj (edge_columns m @ endpoint_columns n)) (endpoints_of m j))
       (sort_key m_manifest_id (manifests_of EdgeKind rid j)))"

record conservation =
  cs_node :: totals
  cs_edge :: totals
  cs_producers_total :: nat
  cs_producers_open :: nat
  cs_node_manifest_digest :: string
  cs_endpoint_manifest_digest :: string
  cs_auditable_edge_rows :: nat
  cs_v3_eligible :: bool
  cs_conserved :: bool

definition v3_eligible :: "string \<Rightarrow> journal \<Rightarrow> bool" where
  "v3_eligible rid j = (case find_run rid j of
       None \<Rightarrow> False
     | Some r \<Rightarrow> \<not> (r_status r = RunQuarantined \<and> r_error_code r = Some IncompatibleSchema))"

definition conservation_summary :: "(string \<Rightarrow> string) \<Rightarrow> string \<Rightarrow> journal \<Rightarrow> conservation" where
  "conservation_summary h rid j =
     (let node = totals_of NodeKind rid j;
          edge = totals_of EdgeKind rid j;
          regular = (\<lambda>p. p_run_id p = rid \<and> p_producer_id p \<noteq> producers_complete_id)
      in \<lparr>cs_node = node, cs_edge = edge,
          cs_producers_total = count_where regular (producers j),
          cs_producers_open = count_where (\<lambda>p. regular p \<and> p_status p = ProducerOpen) (producers j),
          cs_node_manifest_digest = h (canonical_json (JArr (node_manifest_rows rid j))),
          cs_endpoint_manifest_digest = h (canonical_json (JArr (endpoint_manifest_rows rid j))),
          cs_auditable_edge_rows = t_emitted edge,
          cs_v3_eligible = v3_eligible rid j,
          cs_conserved = (v3_eligible rid j \<and> t_conserved node \<and> t_conserved edge)\<rparr>)"

section \<open>Endpoint audit\<close>

definition find_audit :: "string \<Rightarrow> journal \<Rightarrow> audit_row option" where
  "find_audit rid j = List.find (\<lambda>a. au_run_id a = rid) (audits j)"

definition validate_endpoint_audit_boundary ::
  "(string \<Rightarrow> string) \<Rightarrow> string \<Rightarrow> audit_row option \<Rightarrow> journal \<Rightarrow> exc + conservation" where
  "validate_endpoint_audit_boundary h rid sealed j =
     (let s = conservation_summary h rid j; edge = cs_edge s; node = cs_node s in
      if \<not> production_complete rid j \<or> cs_producers_open s \<noteq> 0
        then Inl (JournalError InvalidTransition)
      else if \<not> cs_v3_eligible s \<or> \<not> t_conserved node \<or>
         t_emitted edge \<noteq> t_staged_unique edge + t_declared_duplicate edge + t_conflict edge + t_rejected edge \<or>
         t_conflict node \<noteq> 0 \<or> t_rejected node \<noteq> 0 \<or> t_conflict edge \<noteq> 0 \<or> t_rejected edge \<noteq> 0
        then Inl (JournalError InvalidContract)
      else case sealed of
        None \<Rightarrow> Inr s
      | Some a \<Rightarrow>
          if au_manifest_digest a \<noteq> cs_endpoint_manifest_digest s \<or>
             au_receipt_count a \<noteq> int (cs_auditable_edge_rows s)
          then Inl (JournalError InvalidContract) else Inr s)"

definition supplied_count :: "int option \<Rightarrow> int option \<Rightarrow> int option" where
  "supplied_count audited_rows receipt_count =
     (case audited_rows of Some n \<Rightarrow> Some n | None \<Rightarrow> receipt_count)"

definition seal_again ::
  "audit_row \<Rightarrow> string option \<Rightarrow> int option \<Rightarrow> journal \<Rightarrow> exc + endpoint_audit_status \<times> journal" where
  "seal_again a manifest_digest count j =
     (if (\<exists>d \<in> set_option manifest_digest. au_manifest_digest a \<noteq> d) \<or>
         (\<exists>n \<in> set_option count. au_receipt_count a \<noteq> n)
      then Inl (JournalError InvalidContract) else Inr (au_status a, j))"

definition seal_first ::
  "string \<Rightarrow> conservation \<Rightarrow> string option \<Rightarrow> int option \<Rightarrow> journal \<Rightarrow>
   exc + endpoint_audit_status \<times> journal" where
  "seal_first rid s manifest_digest count j =
     (let digest = (case manifest_digest of
                      Some d \<Rightarrow> if d = [] then cs_endpoint_manifest_digest s else d
                    | None \<Rightarrow> cs_endpoint_manifest_digest s);
          n = (case count of Some n \<Rightarrow> n | None \<Rightarrow> int (cs_auditable_edge_rows s))
      in if digest \<noteq> cs_endpoint_manifest_digest s \<or> n \<noteq> int (cs_auditable_edge_rows s)
         then Inl (JournalError InvalidContract)
         else Inr (Sealed, j\<lparr>audits := audits j @ [\<lparr>au_run_id = rid, au_status = Sealed,
                au_manifest_digest = digest, au_receipt_count = n\<rparr>]\<rparr>))"

definition seal_endpoint_audit ::
  "env \<Rightarrow> string \<Rightarrow> string option \<Rightarrow> int option \<Rightarrow> int option \<Rightarrow> journal \<Rightarrow>
   (exc + endpoint_audit_status) \<times> journal" where
  "seal_endpoint_audit e rid manifest_digest receipt_count audited_rows j =
     (if (\<exists>n \<in> set_option audited_rows. n < 0) \<or> (\<exists>n \<in> set_option receipt_count. n < 0)
        then (Inl ValueError, j)
      else transaction j
        (rbind (validate_endpoint_audit_boundary (e_sha e) rid (find_audit rid j) j) (\<lambda>s.
         let count = supplied_count audited_rows receipt_count in
         case find_audit rid j of
           Some a \<Rightarrow> seal_again a manifest_digest count j
         | None \<Rightarrow> seal_first rid s manifest_digest count j)))"

definition endpoint_audit_status ::
  "(string \<Rightarrow> string) \<Rightarrow> string \<Rightarrow> journal \<Rightarrow> exc + endpoint_audit_status option" where
  "endpoint_audit_status h rid j =
     (case find_audit rid j of
        None \<Rightarrow> Inr None
      | Some a \<Rightarrow> rbind (validate_endpoint_audit_boundary h rid (Some a) j) (\<lambda>_. Inr (Some (au_status a))))"

section \<open>Status reports\<close>

definition list_batches :: "string \<Rightarrow> journal \<Rightarrow> batch_record list" where
  "list_batches rid j =
     map batch_record.truncate (sort_key claim_order (filter (\<lambda>b. b_run_id b = rid) (batches j)))"

definition status_counts :: "string \<Rightarrow> journal \<Rightarrow> batch_status \<Rightarrow> nat" where
  "status_counts rid j st = count_where (\<lambda>b. b_run_id b = rid \<and> b_status b = st) (batches j)"

definition has_event :: "string \<Rightarrow> event_type \<Rightarrow> journal \<Rightarrow> bool" where
  "has_event rid ty j = list_ex (\<lambda>v. ev_run_id v = rid \<and> ev_type v = ty) (events j)"

datatype next_action =
    RetryPurge | NoAction | InspectErrorAndAcknowledgeOrPurge | InspectIncompatibleFingerprint
  | ReconcileAmbiguousBatches | WaitForRetry | WaitForActiveConsumer | ResumeConsumer | CloseProduction

definition next_action_of :: "run_record \<Rightarrow> journal \<Rightarrow> next_action" where
  "next_action_of run j =
     (let rid = r_run_id run; counts = status_counts rid j in
      if has_event rid EvRunPurgeStarted j then RetryPurge
      else if r_status run = RunDrained then NoAction
      else if r_status run \<in> {RunBlocked, RunDeadLettered} then InspectErrorAndAcknowledgeOrPurge
      else if r_status run = RunQuarantined then InspectIncompatibleFingerprint
      else if counts Reconciling \<noteq> 0 then ReconcileAmbiguousBatches
      else if counts RetryWait \<noteq> 0 then WaitForRetry
      else if counts Leased \<noteq> 0 then WaitForActiveConsumer
      else if counts Pending \<noteq> 0 then ResumeConsumer
      else CloseProduction)"

record status_report =
  su_run :: run_record
  su_resumed :: bool
  su_produced :: nat
  su_counts :: "batch_status \<Rightarrow> nat"
  su_rows :: int
  su_payload_bytes :: int
  su_artifact_bytes :: int
  su_journal_bytes :: int
  su_endpoint_audit :: "endpoint_audit_status option"
  su_conservation :: conservation
  su_oldest_unfinished_at :: "int option"
  su_oldest_unfinished_age :: "int option"
  su_next_action :: next_action

definition least_opt :: "int list \<Rightarrow> int option" where
  "least_opt xs = first_by id xs"

text \<open>The sizes of the database files are the argument \<open>journal_bytes\<close>; ages are in microseconds.\<close>

definition status_summary :: "env \<Rightarrow> int \<Rightarrow> string \<Rightarrow> journal \<Rightarrow> exc + status_report" where
  "status_summary e journal_bytes rid j =
     (case get_run rid j of
        None \<Rightarrow> Inl (JournalError InvalidTransition)
      | Some run \<Rightarrow>
          let mine = filter (\<lambda>b. b_run_id b = rid) (batches j);
              oldest = least_opt (map b_created_at (filter (\<lambda>b. b_status b \<noteq> Done) mine))
          in rbind (endpoint_audit_status (e_sha e) rid j) (\<lambda>audit.
             Inr \<lparr>su_run = run, su_resumed = has_event rid EvRunResumed j,
                  su_produced = length mine, su_counts = status_counts rid j,
                  su_rows = sum_list (map (\<lambda>b. row_count (b_artifact b)) mine),
                  su_payload_bytes = sum_list (map (\<lambda>b. byte_count (b_artifact b)) mine),
                  su_artifact_bytes = sum_list (map (\<lambda>a. byte_count (a_ref a))
                    (filter (\<lambda>a. a_run_id a = rid) (artifacts j))),
                  su_journal_bytes = journal_bytes, su_endpoint_audit = audit,
                  su_conservation = conservation_summary (e_sha e) rid j,
                  su_oldest_unfinished_at = oldest,
                  su_oldest_unfinished_age = map_option (\<lambda>t. max 0 (e_now e - t)) oldest,
                  su_next_action = next_action_of run j\<rparr>))"

record event_view =
  vw_event :: event_row
  vw_parser :: string
  vw_phase :: "operation_phase option"
  vw_operation :: "string option"
  vw_rows :: int
  vw_pending :: int

text \<open>\<open>list_events\<close>; the absent phase and operation are shown as \<open>run\<close> and the event type.\<close>

definition list_events :: "string \<Rightarrow> journal \<Rightarrow> event_view list" where
  "list_events rid j =
     (case find_run rid j of
        None \<Rightarrow> []
      | Some r \<Rightarrow>
          map (\<lambda>v. let b = (case ev_job_id v of None \<Rightarrow> None | Some job \<Rightarrow> find_batch job j) in
                 \<lparr>vw_event = v, vw_parser = parser (r_metadata r), vw_phase = map_option b_phase b,
                  vw_operation = map_option b_operation_key b,
                  vw_rows = (case b of None \<Rightarrow> 0 | Some b \<Rightarrow> row_count (b_artifact b)),
                  vw_pending = (case map_of (ev_counters v) ''pending'' of None \<Rightarrow> 0 | Some n \<Rightarrow> n)\<rparr>)
            (sort_key ev_id (filter (\<lambda>v. ev_run_id v = rid) (events j))))"

section \<open>Payload files and retention\<close>

definition verify_referenced_artifacts ::
  "(string \<Rightarrow> string) \<Rightarrow> artifact_store \<Rightarrow> journal \<Rightarrow> exc + unit" where
  "verify_referenced_artifacts h st j =
     rfold (\<lambda>a u. rbind (artifact_verify h st (a_ref a)) (\<lambda>_. Inr u))
       (filter (\<lambda>a. a_ref_count a > 0 \<and> \<not> has_event (a_run_id a) EvRunPurgeStarted j) (artifacts j)) ()"

definition run_terminal :: "run_record \<Rightarrow> bool" where
  "run_terminal r \<longleftrightarrow>
     r_status r \<in> {RunDrained, RunBlocked, RunDeadLettered, RunQuarantined, RunFailed}"

definition begin_purge :: "string \<Rightarrow> int \<Rightarrow> journal \<Rightarrow> exc + artifact_ref list option \<times> journal" where
  "begin_purge rid now j =
     (case find_run rid j of
        None \<Rightarrow> Inr (None, j)
      | Some run \<Rightarrow>
          if \<not> run_terminal run then Inl (JournalError InvalidTransition)
          else if r_retention_until run > now then Inl (JournalError InvalidTransition)
          else if count_where (\<lambda>b. b_run_id b = rid \<and> b_fencing_token b \<noteq> None) (batches j) \<noteq> 0
            then Inl (JournalError InvalidTransition)
          else
            let refs = map a_ref (filter (\<lambda>a. a_run_id a = rid) (artifacts j))
            in Inr (Some refs,
                 if has_event rid EvRunPurgeStarted j then j
                 else add_event rid EvRunPurgeStarted None [(''artifacts'', int (length refs))]
                        None None None now j))"

text \<open>\<open>DELETE FROM runs\<close> with the schema's \<open>ON DELETE CASCADE\<close>.\<close>

definition delete_run :: "string \<Rightarrow> journal \<Rightarrow> journal" where
  "delete_run rid j =
     j\<lparr>runs := delete_where (\<lambda>r. r_run_id r = rid) (runs j),
       artifacts := delete_where (\<lambda>a. a_run_id a = rid) (artifacts j),
       batches := delete_where (\<lambda>b. b_run_id b = rid) (batches j),
       barriers := delete_where (\<lambda>b. bar_run_id b = rid) (barriers j),
       events := delete_where (\<lambda>v. ev_run_id v = rid) (events j),
       producers := delete_where (\<lambda>p. p_run_id p = rid) (producers j),
       manifests := delete_where (\<lambda>m. m_run_id m = rid) (manifests j),
       endpoints := delete_where (\<lambda>n. en_run_id n = rid) (endpoints j),
       audits := delete_where (\<lambda>a. au_run_id a = rid) (audits j)\<rparr>"

text \<open>The files go one by one, between the two transactions; a failure leaves the rest in place.\<close>

fun remove_all :: "artifact_ref list \<Rightarrow> artifact_store \<Rightarrow> (exc + unit) \<times> artifact_store" where
  "remove_all [] st = (Inr (), st)"
| "remove_all (ref # refs) st =
     (case artifact_remove st ref of Inl x \<Rightarrow> (Inl x, st) | Inr st' \<Rightarrow> remove_all refs st')"

definition purge_run ::
  "env \<Rightarrow> bool \<Rightarrow> int option \<Rightarrow> string \<Rightarrow> artifact_store \<Rightarrow> journal \<Rightarrow>
   (exc + nat) \<times> artifact_store \<times> journal" where
  "purge_run e ownership_confirmed now rid st j =
     (if \<not> ownership_confirmed then (Inl (JournalError InvalidTransition), st, j)
      else
        let now_value = (case now of Some t \<Rightarrow> t | None \<Rightarrow> e_now e)
        in case transaction j (begin_purge rid now_value j) of
             (Inl x, j1) \<Rightarrow> (Inl x, st, j1)
           | (Inr None, j1) \<Rightarrow> (Inr 0, st, j1)
           | (Inr (Some refs), j1) \<Rightarrow>
               (case remove_all refs st of
                  (Inl x, st1) \<Rightarrow> (Inl x, st1, j1)
                | (Inr _, st1) \<Rightarrow> (Inr (length refs), st1, delete_run rid j1)))"

text \<open>
  The directory listing \<open>cleanup_orphan_artifacts\<close> walks is an argument: run directory, file
  name and what the entry is, with its modification time. Of the reference it builds for a file
  only the relative path is used.
\<close>

datatype dir_entry = SymlinkEntry | FileEntry int | OtherEntry

definition collect_orphan ::
  "int \<Rightarrow> string list \<Rightarrow> string \<times> string \<times> dir_entry \<Rightarrow> nat \<times> artifact_store \<Rightarrow>
   exc + nat \<times> artifact_store" where
  "collect_orphan cutoff referenced entry = (\<lambda>(removed, st).
     (case entry of (dir, name, kind) \<Rightarrow>
       let rel = dir @ ''/'' @ name; path = st_root st @ [dir, name] in
       case kind of
         SymlinkEntry \<Rightarrow> Inr (removed + 1, st\<lparr>st_files := (st_files st)(path := None)\<rparr>)
       | OtherEntry \<Rightarrow> Inr (removed, st)
       | FileEntry mtime \<Rightarrow>
           if mtime > cutoff \<or> rel \<in> set referenced then Inr (removed, st)
           else rbind (artifact_remove st \<lparr>sha256 = name, relative_path = rel, byte_count = 0, row_count = 0\<rparr>)
                  (\<lambda>st'. Inr (removed + 1, st'))))"

definition cleanup_orphan_artifacts ::
  "env \<Rightarrow> bool \<Rightarrow> int \<Rightarrow> (string \<times> string \<times> dir_entry) list \<Rightarrow> artifact_store \<Rightarrow> journal \<Rightarrow>
   exc + nat \<times> artifact_store" where
  "cleanup_orphan_artifacts e ownership_confirmed older_than_seconds listing st j =
     (if \<not> ownership_confirmed then Inl (JournalError InvalidTransition)
      else if older_than_seconds \<le> 0 then Inl ValueError
      else rfold (collect_orphan (e_now e - older_than_seconds * 1000000)
                   (map (\<lambda>a. relative_path (a_ref a)) (artifacts j))) listing (0, st))"

end
