(* ===== verification/Journal_System.thy ===== *)
theory Journal_System
  imports Journal_Audit
begin

text \<open>
  The journal as a transition system: one operation per public method of \<open>SQLiteJournal\<close> that
  changes the database, with every argument, clock reading, token and payload store arbitrary.
  This theory holds the operations, the frame facts of the statements they are made of, and the
  relation \<open>benign\<close> between states that the claiming, renewing and recovering operations
  establish.
\<close>

section \<open>Operations\<close>

datatype journal_op =
    OpenRun env run_metadata int int
  | QuarantineLegacyTargets env run_metadata "string list"
  | EnqueueBatch env artifact_store string batch_spec
  | OpenBarrier string string
  | CloseBarrier env string string
  | ClaimBatch env "string option" int
  | ClaimJob env string int
  | ClaimReconciling env "string option" int
  | ClaimReconcilingJob env string int
  | RenewLease env string string int
  | AckBatch env string string "int option"
  | MarkReconciling env string string "terminal_error_code option"
  | ScheduleRetry env string string int retry_class terminal_error_code
  | ScheduleReconciliationRetry env string string int terminal_error_code
  | BlockBatch env string string retry_class terminal_error_code
  | RecoverExpiredLeases env
  | RecoverRunLeases env string
  | CompleteProducers env string
  | SealEndpointAudit env string "string option" "int option" "int option"
  | CloseRunProduction env string
  | PurgeRun env bool "int option" string artifact_store

fun apply_op :: "journal_op \<Rightarrow> journal \<Rightarrow> journal" where
  "apply_op (OpenRun e m n b) j = snd (open_run e m n b j)"
| "apply_op (QuarantineLegacyTargets e m ts) j = snd (quarantine_legacy_targets e m ts j)"
| "apply_op (EnqueueBatch e st rid spec) j = snd (enqueue_batch e st rid spec j)"
| "apply_op (OpenBarrier rid name) j = snd (open_barrier rid name j)"
| "apply_op (CloseBarrier e rid name) j = snd (close_barrier e rid name j)"
| "apply_op (ClaimBatch e rid n) j = snd (claim_batch e rid n j)"
| "apply_op (ClaimJob e job n) j = snd (claim_job e job n j)"
| "apply_op (ClaimReconciling e rid n) j = snd (claim_reconciling e rid n j)"
| "apply_op (ClaimReconcilingJob e job n) j = snd (claim_reconciling_job e job n j)"
| "apply_op (RenewLease e job token n) j = snd (renew_lease e job token n j)"
| "apply_op (AckBatch e job token ms) j = snd (ack_batch e job token ms j)"
| "apply_op (MarkReconciling e job token code) j = snd (mark_reconciling e job token code j)"
| "apply_op (ScheduleRetry e job token t rc code) j = snd (schedule_retry e job token t rc code j)"
| "apply_op (ScheduleReconciliationRetry e job token t code) j =
     snd (schedule_reconciliation_retry e job token t code j)"
| "apply_op (BlockBatch e job token rc code) j = snd (block_batch e job token rc code j)"
| "apply_op (RecoverExpiredLeases e) j = snd (recover_expired_leases e j)"
| "apply_op (RecoverRunLeases e rid) j = snd (recover_run_leases_as_ambiguous e rid j)"
| "apply_op (CompleteProducers e rid) j = snd (complete_producers e rid j)"
| "apply_op (SealEndpointAudit e rid d n a) j = snd (seal_endpoint_audit e rid d n a j)"
| "apply_op (CloseRunProduction e rid) j = snd (close_run_production e rid j)"
| "apply_op (PurgeRun e own now rid st) j = snd (snd (purge_run e own now rid st j))"

fun op_sha :: "journal_op \<Rightarrow> (string \<Rightarrow> string) option" where
  "op_sha (OpenRun e _ _ _) = Some (e_sha e)"
| "op_sha (EnqueueBatch e _ _ _) = Some (e_sha e)"
| "op_sha (SealEndpointAudit e _ _ _ _) = Some (e_sha e)"
| "op_sha _ = None"

text \<open>The hash is one function for the life of a journal; everything else may differ per call.\<close>

inductive jstep :: "(string \<Rightarrow> string) \<Rightarrow> journal \<Rightarrow> journal \<Rightarrow> bool" for h where
  jstep: "op_sha op \<in> {None, Some h} \<Longrightarrow> jstep h j (apply_op op j)"

inductive_cases jstepE: "jstep h j j'"

interpretation jsys: transition_system empty_journal "jstep h" for h .

section \<open>Frame facts\<close>

lemma add_event_tables [simp]:
  "runs (add_event rid ty job c a el er now j) = runs j"
  "artifacts (add_event rid ty job c a el er now j) = artifacts j"
  "batches (add_event rid ty job c a el er now j) = batches j"
  "barriers (add_event rid ty job c a el er now j) = barriers j"
  "producers (add_event rid ty job c a el er now j) = producers j"
  "manifests (add_event rid ty job c a el er now j) = manifests j"
  "endpoints (add_event rid ty job c a el er now j) = endpoints j"
  "audits (add_event rid ty job c a el er now j) = audits j"
  by (simp_all add: add_event_def Let_def)

lemma update_batches_tables [simp]:
  "runs (update_batches p f j) = runs j"
  "artifacts (update_batches p f j) = artifacts j"
  "batches (update_batches p f j) = update_where p f (batches j)"
  "barriers (update_batches p f j) = barriers j"
  "producers (update_batches p f j) = producers j"
  "manifests (update_batches p f j) = manifests j"
  "endpoints (update_batches p f j) = endpoints j"
  "audits (update_batches p f j) = audits j"
  by (simp_all add: update_batches_def)

lemma update_runs_tables [simp]:
  "runs (update_runs p f j) = update_where p f (runs j)"
  "artifacts (update_runs p f j) = artifacts j"
  "batches (update_runs p f j) = batches j"
  "barriers (update_runs p f j) = barriers j"
  "producers (update_runs p f j) = producers j"
  "manifests (update_runs p f j) = manifests j"
  "endpoints (update_runs p f j) = endpoints j"
  "audits (update_runs p f j) = audits j"
  by (simp_all add: update_runs_def)

lemma update_barriers_tables [simp]:
  "runs (update_barriers p f' j) = runs j"
  "artifacts (update_barriers p f' j) = artifacts j"
  "batches (update_barriers p f' j) = batches j"
  "barriers (update_barriers p f' j) = update_where p f' (barriers j)"
  "producers (update_barriers p f' j) = producers j"
  "manifests (update_barriers p f' j) = manifests j"
  "endpoints (update_barriers p f' j) = endpoints j"
  "audits (update_barriers p f' j) = audits j"
  by (simp_all add: update_barriers_def)

lemma update_manifests_tables [simp]:
  "runs (update_manifests p f j) = runs j"
  "artifacts (update_manifests p f j) = artifacts j"
  "batches (update_manifests p f j) = batches j"
  "barriers (update_manifests p f j) = barriers j"
  "producers (update_manifests p f j) = producers j"
  "manifests (update_manifests p f j) = update_where p f (manifests j)"
  "endpoints (update_manifests p f j) = endpoints j"
  "audits (update_manifests p f j) = audits j"
  by (simp_all add: update_manifests_def)

lemma update_producers_tables [simp]:
  "runs (update_producers p f j) = runs j"
  "artifacts (update_producers p f j) = artifacts j"
  "batches (update_producers p f j) = batches j"
  "barriers (update_producers p f j) = barriers j"
  "producers (update_producers p f j) = update_where p f (producers j)"
  "manifests (update_producers p f j) = manifests j"
  "endpoints (update_producers p f j) = endpoints j"
  "audits (update_producers p f j) = audits j"
  by (simp_all add: update_producers_def)

lemma find_add_event [simp]:
  "find_run rid (add_event r ty job c a el er now j) = find_run rid j"
  "find_batch jb (add_event r ty job c a el er now j) = find_batch jb j"
  "find_barrier rid name (add_event r ty job c a el er now j) = find_barrier rid name j"
  "find_producer rid pid (add_event r ty job c a el er now j) = find_producer rid pid j"
  by (simp_all add: find_run_def find_batch_def find_barrier_def find_producer_def)

section \<open>Rows of batches\<close>

text \<open>The columns no statement changes after the insertion.\<close>

definition same_batch :: "batch_row \<Rightarrow> batch_row \<Rightarrow> bool" where
  "same_batch b c \<longleftrightarrow> b_job_id c = b_job_id b \<and> b_run_id c = b_run_id b \<and> b_phase c = b_phase b \<and>
     b_operation_key c = b_operation_key b \<and> b_sequence c = b_sequence b \<and>
     b_artifact c = b_artifact b \<and> b_expected_count c = b_expected_count b \<and>
     b_max_attempts c = b_max_attempts b \<and> b_required_barriers c = b_required_barriers b \<and>
     b_produced_barriers c = b_produced_barriers b \<and> b_operation c = b_operation b \<and>
     b_created_at c = b_created_at b"

definition final_status :: "batch_status \<Rightarrow> bool" where
  "final_status s \<longleftrightarrow> s \<in> {Done, Blocked, DeadLetter}"

definition in_flight :: "batch_row \<Rightarrow> bool" where
  "in_flight b \<longleftrightarrow> b_status b = Leased \<or> b_status b = Reconciling"

text \<open>
  Well-formedness of a row: the fence and the lease go together, exactly the leased batches must
  have them and only leased or reconciling ones may, and the attempts stay within the limit.
\<close>

definition batch_ok :: "batch_row \<Rightarrow> bool" where
  "batch_ok b \<longleftrightarrow> distinct (b_produced_barriers b) \<and> 0 < b_max_attempts b \<and>
     (b_fencing_token b = None \<longleftrightarrow> b_lease_until b = None) \<and>
     (b_status b = Leased \<longrightarrow> b_fencing_token b \<noteq> None) \<and>
     (b_fencing_token b \<noteq> None \<longrightarrow> in_flight b) \<and>
     0 \<le> b_attempt b \<and> b_attempt b \<le> b_max_attempts b + (if b_status b = DeadLetter then 1 else 0) \<and>
     (b_status b = RetryWait \<longrightarrow> b_attempt b < b_max_attempts b) \<and>
     (b_status b = Pending \<longrightarrow> b_attempt b = 0) \<and>
     (b_status b = DeadLetter \<longrightarrow> b_max_attempts b \<le> b_attempt b) \<and>
     (b_status b \<noteq> Pending \<and> b_status b \<noteq> Blocked \<longrightarrow> 0 < b_attempt b)"

text \<open>
  What an operation that neither completes nor fails a batch does to a row, without and with
  the guarantee that it makes nothing executable.
\<close>

definition row_live :: "batch_row \<Rightarrow> batch_row \<Rightarrow> bool" where
  "row_live b c \<longleftrightarrow> same_batch b c \<and> (batch_ok b \<longrightarrow> batch_ok c) \<and>
     (final_status (b_status b) \<longrightarrow> c = b) \<and> (final_status (b_status c) \<longrightarrow> c = b)"

definition row_keep :: "batch_row \<Rightarrow> batch_row \<Rightarrow> bool" where
  "row_keep b c \<longleftrightarrow> row_live b c \<and> (executable c \<longrightarrow> c = b)"

lemma same_batch_refl [simp]: "same_batch b b"
  by (simp add: same_batch_def)

lemma row_live_refl [simp]: "row_live b b" and row_keep_refl [simp]: "row_keep b b"
  by (simp_all add: row_live_def row_keep_def)

lemma same_batch_trans: "same_batch a b \<Longrightarrow> same_batch b c \<Longrightarrow> same_batch a c"
  by (simp add: same_batch_def)

lemma row_live_trans: "row_live a b \<Longrightarrow> row_live b c \<Longrightarrow> row_live a c"
  unfolding row_live_def using same_batch_trans by metis

lemma row_keep_trans: "row_keep a b \<Longrightarrow> row_keep b c \<Longrightarrow> row_keep a c"
  unfolding row_keep_def using row_live_trans by blast

section \<open>Benign steps\<close>

definition same_tables :: "journal \<Rightarrow> journal \<Rightarrow> bool" where
  "same_tables j j' \<longleftrightarrow> runs j' = runs j \<and> artifacts j' = artifacts j \<and> barriers j' = barriers j \<and>
     producers j' = producers j \<and> manifests j' = manifests j \<and> endpoints j' = endpoints j \<and>
     audits j' = audits j"

definition benign :: "(batch_row \<Rightarrow> batch_row \<Rightarrow> bool) \<Rightarrow> journal \<Rightarrow> journal \<Rightarrow> bool" where
  "benign R j j' \<longleftrightarrow> same_tables j j' \<and> list_all2 R (batches j) (batches j')"

lemma benign_refl: "(\<And>b. R b b) \<Longrightarrow> benign R j j"
  by (simp add: benign_def same_tables_def list_all2_refl)

lemma benign_trans:
  assumes "\<And>a b c. R a b \<Longrightarrow> R b c \<Longrightarrow> R a c" "benign R j k" "benign R k l"
  shows "benign R j l"
  using assms(2,3) list_all2_trans[of R R R] assms(1) unfolding benign_def same_tables_def
  by (metis (full_types))

lemma benign_mono: "benign R j j' \<Longrightarrow> (\<And>b c. R b c \<Longrightarrow> S b c) \<Longrightarrow> benign S j j'"
  by (auto simp: benign_def intro: list_all2_mono)

lemma list_all2_update_where:
  "(\<And>b. R b b) \<Longrightarrow> (\<And>b. p b \<Longrightarrow> R b (f b)) \<Longrightarrow> list_all2 R rows (update_where p f rows)"
  by (induction rows) auto

lemma benign_update_batches:
  "(\<And>b. R b b) \<Longrightarrow> (\<And>b. p b \<Longrightarrow> R b (f b)) \<Longrightarrow> benign R j (update_batches p f j)"
  by (simp add: benign_def same_tables_def list_all2_update_where)

lemma benign_add_event: "(\<And>b. R b b) \<Longrightarrow> benign R j (add_event rid ty job c a el er now j)"
  by (simp add: benign_def same_tables_def list_all2_refl)

lemma benign_add_event_right [simp]:
  "benign R j (add_event rid ty job c a el er now k) \<longleftrightarrow> benign R j k"
  by (simp add: benign_def same_tables_def)

lemmas row_defs = row_keep_def row_live_def same_batch_def batch_ok_def final_status_def in_flight_def
  executable_def

lemma benign_keep_trans: "benign row_keep j k \<Longrightarrow> benign row_keep k l \<Longrightarrow> benign row_keep j l"
  by (rule benign_trans[OF row_keep_trans])

lemma benign_foldl:
  assumes "\<And>x j. benign row_keep j (f j x)"
  shows "benign row_keep j (foldl f j xs)"
proof (induction xs arbitrary: j)
  case Nil
  show ?case by (simp add: benign_refl)
next
  case (Cons x xs)
  then show ?case using assms benign_keep_trans by (metis foldl_Cons)
qed

lemma to_reconciling_benign: "benign row_keep j (to_reconciling job j)"
  unfolding to_reconciling_def by (rule benign_update_batches) (auto simp: row_defs)

lemma drop_reconciling_fence_benign: "benign row_keep j (drop_reconciling_fence job j)"
  unfolding drop_reconciling_fence_def by (rule benign_update_batches) (auto simp: row_defs)

lemma recover_leased_benign: "benign row_keep j (recover_leased now rows j)"
  unfolding recover_leased_def by (rule benign_foldl) (simp add: to_reconciling_benign)

lemma recover_reconciling_benign: "benign row_keep j (recover_reconciling ev now rows j)"
  unfolding recover_reconciling_def by (rule benign_foldl) (simp add: drop_reconciling_fence_benign)

lemma recover_expired_benign: "benign row_keep j (snd (recover_expired now j))"
  unfolding recover_expired_def Let_def snd_conv
  by (rule benign_keep_trans[OF recover_leased_benign recover_reconciling_benign])

lemma recover_run_leases_benign: "benign row_keep j (snd (recover_run_leases e rid j))"
  unfolding recover_run_leases_def Let_def snd_conv
  by (rule benign_keep_trans[OF recover_leased_benign recover_reconciling_benign])

lemma lease_row_benign:
  assumes "lease_row p f ev e job j = Inr (x, j')" "\<And>b. p b \<Longrightarrow> row_keep b (f b)"
  shows "benign row_keep j j'"
proof -
  have "benign row_keep j (update_batches (\<lambda>b. b_job_id b = job \<and> p b) f j)"
    by (rule benign_update_batches) (use assms(2) in auto)
  then show ?thesis
    using assms(1) by (auto simp: lease_row_def Let_def split: if_splits option.splits)
qed

lemma lease_executable_benign: "lease_executable e n job j = Inr (x, j') \<Longrightarrow> benign row_keep j j'"
  unfolding lease_executable_def by (erule lease_row_benign) (auto simp: row_defs)

lemma lease_reconciling_benign: "lease_reconciling e n job j = Inr (x, j') \<Longrightarrow> benign row_keep j j'"
  unfolding lease_reconciling_def by (erule lease_row_benign) (auto simp: row_defs)

lemma claim_where_benign:
  assumes "\<And>e n job j x j'. lease e n job j = Inr (x, j') \<Longrightarrow> benign row_keep j j'"
  shows "benign row_keep j (snd (claim_where eligible lease e n j))"
proof -
  let ?j1 = "snd (recover_expired (e_now e) j)"
  have j1: "benign row_keep j ?j1" by (rule recover_expired_benign)
  have refl: "benign row_keep j j" by (simp add: benign_refl)
  show ?thesis
  proof (cases "first_by claim_order (filter (eligible (e_now e) ?j1) (batches ?j1))")
    case None
    then show ?thesis using j1 refl by (simp add: claim_where_def)
  next
    case (Some b)
    then show ?thesis
      using refl benign_keep_trans[OF j1 assms]
      by (cases "lease e n (b_job_id b) ?j1") (auto simp: claim_where_def)
  qed
qed

lemmas claim_defs = claim_batch_def claim_job_def claim_reconciling_def claim_reconciling_job_def

lemma claims_benign:
  "benign row_keep j (snd (claim_batch e rid n j))"
  "benign row_keep j (snd (claim_job e job n j))"
  "benign row_keep j (snd (claim_reconciling e rid n j))"
  "benign row_keep j (snd (claim_reconciling_job e job n j))"
  unfolding claim_defs
  by (intro claim_where_benign; erule lease_executable_benign lease_reconciling_benign)+

lemma read_back_Inr: "read_back job j = Inr (x, j') \<Longrightarrow> j' = j \<and> (\<exists>b. find_batch job j = Some b \<and> x = batch_record.truncate b)"
  by (auto simp: read_back_def split: option.splits)

lemma recovers_benign:
  "benign row_keep j (snd (recover_expired_leases e j))"
  "benign row_keep j (snd (recover_run_leases_as_ambiguous e rid j))"
  using recover_expired_benign[of j "e_now e"] recover_run_leases_benign[of j e rid]
  by (cases "recover_expired (e_now e) j"; cases "recover_run_leases e rid j";
      simp add: recover_expired_leases_def recover_run_leases_as_ambiguous_def)+

lemma renew_lease_benign: "benign row_keep j (snd (renew_lease e job token n j))"
proof -
  have "benign row_keep j (update_batches (owns [Leased] job token (e_now e))
          (\<lambda>b. b\<lparr>b_lease_until := Some (lease_end e n)\<rparr>) j)"
    by (rule benign_update_batches) (auto simp: row_defs owns_def)
  then show ?thesis
    by (auto simp: renew_lease_def read_back_def benign_refl split: option.splits)
qed

lemma mark_reconciling_benign: "benign row_keep j (snd (mark_reconciling e job token code j))"
proof -
  have "benign row_keep j (update_batches (\<lambda>b. b_job_id b = job \<and> b_status b = Leased \<and>
          b_fencing_token b = Some token)
          (\<lambda>b. b\<lparr>b_status := Reconciling, b_retry_class := Some Ambiguous, b_error_code := code\<rparr>) j)"
    by (rule benign_update_batches) (auto simp: row_defs)
  then show ?thesis
    by (auto simp: mark_reconciling_def read_back_def rbind_def benign_refl Let_def
        split: option.splits sum.splits)
qed

end
