(* ===== verification/Journal_Invariant.thy ===== *)
theory Journal_Invariant
  imports Journal_System
begin

text \<open>
  The invariants of the journal and their preservation by every operation. They are stated over
  the tables of runs, batches and barriers; \<open>Journal_Conservation\<close> adds those of the manifests.
\<close>

section \<open>Invariants\<close>

abbreviation bar_key :: "barrier_record \<Rightarrow> string \<times> string" where
  "bar_key b \<equiv> (bar_run_id b, bar_name b)"

definition keys_ok :: "journal \<Rightarrow> bool" where
  "keys_ok j \<longleftrightarrow> distinct (map r_run_id (runs j)) \<and> distinct (map b_job_id (batches j)) \<and>
     distinct (map bar_key (barriers j)) \<and>
     b_run_id ` set (batches j) \<subseteq> r_run_id ` set (runs j) \<and>
     bar_run_id ` set (barriers j) \<subseteq> r_run_id ` set (runs j)"

definition rows_ok :: "journal \<Rightarrow> bool" where
  "rows_ok j \<longleftrightarrow> list_all batch_ok (batches j)"

text \<open>What the status of a run says about the statuses of its batches.\<close>

fun run_batch_ok :: "run_status \<Rightarrow> batch_status \<Rightarrow> bool" where
  "run_batch_ok RunOpen s \<longleftrightarrow> s \<noteq> Blocked \<and> s \<noteq> DeadLetter"
| "run_batch_ok RunDraining s \<longleftrightarrow> s \<noteq> Blocked \<and> s \<noteq> DeadLetter"
| "run_batch_ok RunDrained s \<longleftrightarrow> s = Done"
| "run_batch_ok RunQuarantined s \<longleftrightarrow> s = Done \<or> s = Blocked"
| "run_batch_ok _ s \<longleftrightarrow> True"

definition runs_ok :: "journal \<Rightarrow> bool" where
  "runs_ok j \<longleftrightarrow>
     (\<forall>r \<in> set (runs j). \<forall>b \<in> set (batches j).
        b_run_id b = r_run_id r \<longrightarrow> run_batch_ok (r_status r) (b_status b)) \<and>
     (\<forall>r \<in> set (runs j). \<forall>x \<in> set (barriers j).
        r_status r = RunDrained \<and> bar_run_id x = r_run_id r \<longrightarrow> bar_status x = BarrierDrained)"

definition single_active :: "journal \<Rightarrow> bool" where
  "single_active j \<longleftrightarrow>
     (\<forall>r \<in> set (runs j). \<forall>s \<in> set (runs j).
        run_active r \<and> run_active s \<and> same_scope (r_metadata r) (r_metadata s) \<longrightarrow>
        r_run_id r = r_run_id s)"

definition produces :: "barrier_record \<Rightarrow> batch_row \<Rightarrow> bool" where
  "produces x b \<longleftrightarrow> b_run_id b = bar_run_id x \<and> bar_name x \<in> set (b_produced_barriers b)"

definition barrier_ok :: "batch_row list \<Rightarrow> barrier_record \<Rightarrow> bool" where
  "barrier_ok bs x \<longleftrightarrow>
     bar_drained_count x = int (count_where (\<lambda>b. produces x b \<and> b_status b = Done) bs) \<and>
     int (count_where (\<lambda>b. produces x b \<and> b_status b \<noteq> Blocked) bs) \<le> bar_produced_count x \<and>
     (bar_status x = BarrierOpen \<longleftrightarrow> bar_closed_at x = None) \<and>
     (bar_status x = BarrierDrained \<longrightarrow> bar_drained_count x = bar_produced_count x)"

definition barriers_rel :: "batch_row list \<Rightarrow> barrier_record list \<Rightarrow> bool" where
  "barriers_rel bs xs \<longleftrightarrow> list_all (barrier_ok bs) xs \<and>
     (\<forall>b \<in> set bs. \<forall>n \<in> set (b_produced_barriers b). b_status b \<noteq> Blocked \<longrightarrow>
        (b_run_id b, n) \<in> bar_key ` set xs)"

abbreviation barriers_ok :: "journal \<Rightarrow> bool" where
  "barriers_ok j \<equiv> barriers_rel (batches j) (barriers j)"

definition jinv :: "journal \<Rightarrow> bool" where
  "jinv j \<longleftrightarrow> keys_ok j \<and> rows_ok j \<and> runs_ok j \<and> single_active j \<and> barriers_ok j"

lemma jinv_empty: "jinv empty_journal"
  by (simp add: jinv_def keys_ok_def rows_ok_def runs_ok_def single_active_def barriers_rel_def
      empty_journal_def)

section \<open>Rows and keys\<close>

lemma update_where_cong:
  "(\<And>r. r \<in> set rows \<Longrightarrow> p r = q r) \<Longrightarrow> (\<And>r. r \<in> set rows \<Longrightarrow> p r \<Longrightarrow> f r = g r) \<Longrightarrow>
   update_where p f rows = update_where q g rows"
  by (induction rows) auto

lemma benign_update_batches_on:
  "(\<And>b. R b b) \<Longrightarrow> (\<And>b. b \<in> set (batches j) \<Longrightarrow> p b \<Longrightarrow> R b (f b)) \<Longrightarrow>
   benign R j (update_batches p f j)"
proof -
  assume "\<And>b. R b b" "\<And>b. b \<in> set (batches j) \<Longrightarrow> p b \<Longrightarrow> R b (f b)"
  then have "list_all2 R rows (update_where p f rows)" if "set rows \<subseteq> set (batches j)" for rows
    using that by (induction rows) auto
  then show ?thesis by (simp add: benign_def same_tables_def)
qed

lemma keys_okD:
  assumes "keys_ok j"
  shows "distinct (map r_run_id (runs j))" "distinct (map b_job_id (batches j))"
    "distinct (map bar_key (barriers j))"
    "b \<in> set (batches j) \<Longrightarrow> \<exists>r \<in> set (runs j). r_run_id r = b_run_id b"
    "x \<in> set (barriers j) \<Longrightarrow> \<exists>r \<in> set (runs j). r_run_id r = bar_run_id x"
  using assms unfolding keys_ok_def by (auto dest!: subsetD[OF _ imageI])

lemma same_job_eq:
  "keys_ok j \<Longrightarrow> b \<in> set (batches j) \<Longrightarrow> c \<in> set (batches j) \<Longrightarrow> b_job_id b = b_job_id c \<Longrightarrow> b = c"
  by (rule unique_key_eq[OF keys_okD(2)])

lemma same_run_eq:
  "keys_ok j \<Longrightarrow> r \<in> set (runs j) \<Longrightarrow> s \<in> set (runs j) \<Longrightarrow> r_run_id r = r_run_id s \<Longrightarrow> r = s"
  by (rule unique_key_eq[OF keys_okD(1)])

lemma find_run_Some: "find_run rid j = Some r \<Longrightarrow> r \<in> set (runs j) \<and> r_run_id r = rid"
  by (auto simp: find_run_def dest: find_SomeD)

lemma find_batch_Some: "find_batch job j = Some b \<Longrightarrow> b \<in> set (batches j) \<and> b_job_id b = job"
  by (auto simp: find_batch_def dest: find_SomeD)

lemma find_barrier_Some:
  "find_barrier rid n j = Some x \<Longrightarrow> x \<in> set (barriers j) \<and> bar_run_id x = rid \<and> bar_name x = n"
  by (auto simp: find_barrier_def dest: find_SomeD)

lemma find_run_in: "keys_ok j \<Longrightarrow> r \<in> set (runs j) \<Longrightarrow> find_run (r_run_id r) j = Some r"
  using find_key_Some[of r_run_id "runs j" r] keys_okD(1)[of j] by (simp add: find_run_def)

lemma find_batch_in: "keys_ok j \<Longrightarrow> b \<in> set (batches j) \<Longrightarrow> find_batch (b_job_id b) j = Some b"
  using find_key_Some[of b_job_id "batches j" b] keys_okD(2)[of j] by (simp add: find_batch_def)

lemma find_barrier_in:
  "keys_ok j \<Longrightarrow> x \<in> set (barriers j) \<Longrightarrow> find_barrier (bar_run_id x) (bar_name x) j = Some x"
  using find_key_Some[of bar_key "barriers j" x] keys_okD(3)[of j] by (simp add: find_barrier_def)

lemma run_is_openD:
  "run_is_open rid j \<Longrightarrow> \<exists>r \<in> set (runs j). r_run_id r = rid \<and> r_status r = RunOpen"
  by (auto simp: run_is_open_def dest: find_run_Some split: option.splits)

lemma run_is_activeD:
  "run_is_active rid j \<Longrightarrow> \<exists>r \<in> set (runs j). r_run_id r = rid \<and> run_active r"
  by (auto simp: run_is_active_def dest: find_run_Some split: option.splits)

lemma owned_rowD:
  "owned_row states job token now j = Inr row \<Longrightarrow> row \<in> set (batches j) \<and> owns states job token now row"
  by (auto simp: owned_row_def dest: find_SomeD split: option.splits)

section \<open>Benign steps preserve the invariants\<close>

lemma benign_live: "benign row_keep j j' \<Longrightarrow> benign row_live j j'"
  by (erule benign_mono) (simp add: row_keep_def)

lemma row_liveI:
  "same_batch b c \<Longrightarrow> (batch_ok b \<Longrightarrow> batch_ok c) \<Longrightarrow> \<not> final_status (b_status b) \<Longrightarrow>
   \<not> final_status (b_status c) \<Longrightarrow> row_live b c"
  by (simp add: row_live_def)

lemma row_live_status:
  assumes "row_live b c"
  shows "(b_status c = Done) = (b_status b = Done)" "(b_status c = Blocked) = (b_status b = Blocked)"
    "(b_status c = DeadLetter) = (b_status b = DeadLetter)"
proof -
  have "c = b \<or> (\<not> final_status (b_status b) \<and> \<not> final_status (b_status c))"
    using assms unfolding row_live_def by blast
  then show "(b_status c = Done) = (b_status b = Done)" "(b_status c = Blocked) = (b_status b = Blocked)"
    "(b_status c = DeadLetter) = (b_status b = DeadLetter)"
    by (elim disjE; simp add: final_status_def)+
qed

lemma row_live_simps:
  assumes "row_live b c"
  shows "b_job_id c = b_job_id b" "b_run_id c = b_run_id b" "b_produced_barriers c = b_produced_barriers b"
    "b_required_barriers c = b_required_barriers b" "batch_ok b \<Longrightarrow> batch_ok c"
  using assms unfolding row_live_def same_batch_def by blast+

lemma row_live_produces: "row_live b c \<Longrightarrow> produces x c = produces x b"
  by (simp add: produces_def row_live_simps)

lemma list_all2_count_where:
  assumes "list_all2 R xs ys" "\<And>x y. R x y \<Longrightarrow> p x = q y"
  shows "count_where p xs = count_where q ys"
  using assms(1) by (induction rule: list_all2_induct) (auto simp: assms(2))

lemma list_all2_map_eq:
  assumes "list_all2 R xs ys" "\<And>x y. R x y \<Longrightarrow> k x = k y"
  shows "map k xs = map k ys"
  using assms(1) by (induction rule: list_all2_induct) (auto simp: assms(2))

lemma list_all2_in_right: "list_all2 R xs ys \<Longrightarrow> y \<in> set ys \<Longrightarrow> \<exists>x \<in> set xs. R x y"
  by (induction rule: list_all2_induct) auto

lemma list_all2_in_left: "list_all2 R xs ys \<Longrightarrow> x \<in> set xs \<Longrightarrow> \<exists>y \<in> set ys. R x y"
  by (induction rule: list_all2_induct) auto

lemma benign_barrier_ok:
  assumes "list_all2 row_live bs cs"
  shows "barrier_ok cs x = barrier_ok bs x"
proof -
  have "count_where (\<lambda>b. produces x b \<and> b_status b = Done) bs =
          count_where (\<lambda>b. produces x b \<and> b_status b = Done) cs"
    "count_where (\<lambda>b. produces x b \<and> b_status b \<noteq> Blocked) bs =
          count_where (\<lambda>b. produces x b \<and> b_status b \<noteq> Blocked) cs"
    by (rule list_all2_count_where[OF assms]; simp add: row_live_produces row_live_status)+
  then show ?thesis by (simp add: barrier_ok_def)
qed

lemma benign_jinv:
  assumes "benign row_live j j'" "jinv j"
  shows "jinv j'"
proof -
  have rows: "list_all2 row_live (batches j) (batches j')"
    and tabs: "runs j' = runs j" "barriers j' = barriers j"
    using assms(1) by (auto simp: benign_def same_tables_def)
  have orig: "\<exists>b \<in> set (batches j). row_live b c" if "c \<in> set (batches j')" for c
    using list_all2_in_right[OF rows that] .
  have maps: "map b_job_id (batches j') = map b_job_id (batches j)"
    "map b_run_id (batches j') = map b_run_id (batches j)"
    using list_all2_map_eq[OF rows, of b_job_id] list_all2_map_eq[OF rows, of b_run_id]
    by (auto simp: row_live_simps)
  then have "keys_ok j'"
    using assms(2) by (metis (no_types, lifting) jinv_def keys_ok_def set_map tabs)
  moreover have "rows_ok j'"
    unfolding rows_ok_def list_all_iff
  proof
    fix c assume "c \<in> set (batches j')"
    with orig obtain b where "b \<in> set (batches j)" "row_live b c" by blast
    then show "batch_ok c" using assms(2) row_live_simps(5) by (auto simp: jinv_def rows_ok_def list_all_iff)
  qed
  moreover have "runs_ok j'"
  proof -
    have same: "run_batch_ok s (b_status c) = run_batch_ok s (b_status b)" if "row_live b c" for s b c
      using row_live_status[OF that] by (cases s) auto
    have "run_batch_ok (r_status r) (b_status c)"
      if c: "c \<in> set (batches j')" and r: "r \<in> set (runs j)" and "b_run_id c = r_run_id r" for r c
    proof -
      obtain b where b: "b \<in> set (batches j)" "row_live b c" using orig[OF c] by blast
      then have "b_run_id b = r_run_id r" using that(3) row_live_simps(2)[OF b(2)] by simp
      then show ?thesis using assms(2) r b same[OF b(2)] by (auto simp: jinv_def runs_ok_def)
    qed
    then show ?thesis using assms(2) tabs by (simp add: jinv_def runs_ok_def)
  qed
  moreover have "single_active j'" using assms(2) tabs by (simp add: jinv_def single_active_def)
  moreover have "barriers_ok j'"
  proof -
    have "(b_run_id c, n) \<in> bar_key ` set (barriers j)"
      if c: "c \<in> set (batches j')" and "n \<in> set (b_produced_barriers c)" "b_status c \<noteq> Blocked" for c n
    proof -
      obtain b where b: "b \<in> set (batches j)" "row_live b c" using orig[OF c] by blast
      then show ?thesis
        using assms(2) that(2,3) row_live_simps(2,3)[OF b(2)] row_live_status(2)[OF b(2)]
        by (auto simp: jinv_def barriers_rel_def)
    qed
    then show ?thesis
      using assms(2) tabs benign_barrier_ok[OF rows]
      by (auto simp: jinv_def barriers_rel_def list_all_iff)
  qed
  ultimately show ?thesis by (simp add: jinv_def)
qed

section \<open>Replacing one row\<close>

definition replace_batch :: "batch_row \<Rightarrow> batch_row \<Rightarrow> batch_row list \<Rightarrow> batch_row list" where
  "replace_batch b c bs = update_where (\<lambda>d. b_job_id d = b_job_id b) (\<lambda>_. c) bs"

lemma set_replace_batch:
  assumes "keys_ok j" "b \<in> set (batches j)"
  shows "set (replace_batch b c (batches j)) = insert c (set (batches j) - {b})"
  using assms same_job_eq[OF assms(1) _ assms(2)]
  by (auto simp: replace_batch_def set_update_where image_iff)

lemma map_replace_batch: "k c = k b \<Longrightarrow> (\<And>d. b_job_id d = b_job_id b \<Longrightarrow> d \<in> set bs \<Longrightarrow> d = b) \<Longrightarrow>
    map k (replace_batch b c bs) = map k bs"
  by (induction bs) (auto simp: replace_batch_def)

lemma count_replace_batch:
  assumes "distinct (map b_job_id bs)" "b \<in> set bs"
  shows "count_where q (replace_batch b c bs) + (if q b then 1 else 0) = count_where q bs + (if q c then 1 else 0)"
  using assms
proof (induction bs)
  case (Cons d bs)
  show ?case
  proof (cases "d = b")
    case True
    with Cons.prems(1) have "replace_batch b c bs = bs"
      unfolding replace_batch_def by (intro update_where_none) (auto simp: image_iff)
    with True show ?thesis by (simp add: replace_batch_def)
  next
    case False
    with Cons.prems have "b \<in> set bs" "b_job_id d \<noteq> b_job_id b" by (auto simp: image_iff)
    with Cons show ?thesis by (simp add: replace_batch_def)
  qed
qed simp

lemma update_batches_owned:
  assumes "keys_ok j" "row \<in> set (batches j)" "p row" "\<And>b. p b \<Longrightarrow> b_job_id b = b_job_id row"
  shows "update_where p f (batches j) = replace_batch row (f row) (batches j)"
  unfolding replace_batch_def
proof (rule update_where_cong)
  have eq: "b = row" if "b \<in> set (batches j)" "b_job_id b = b_job_id row" for b
    using same_job_eq[OF assms(1) that(1) assms(2) that(2)] .
  show "p b = (b_job_id b = b_job_id row)" if "b \<in> set (batches j)" for b
    using eq[OF that] assms(3,4) by blast
  show "f b = f row" if "b \<in> set (batches j)" "p b" for b
    using eq[OF that(1) assms(4)[OF that(2)]] by simp
qed

lemma keys_ok_replace:
  assumes "keys_ok j" "b \<in> set (batches j)" "same_batch b c" "batches j' = replace_batch b c (batches j)"
    and "map r_run_id (runs j') = map r_run_id (runs j)" "map bar_key (barriers j') = map bar_key (barriers j)"
  shows "keys_ok j'"
proof -
  have uniq: "\<And>d. b_job_id d = b_job_id b \<Longrightarrow> d \<in> set (batches j) \<Longrightarrow> d = b"
    using same_job_eq[OF assms(1) _ assms(2)] by simp
  have "map b_job_id (batches j') = map b_job_id (batches j)" "map b_run_id (batches j') = map b_run_id (batches j)"
    using assms(3) map_replace_batch[OF _ uniq, where c = c] by (auto simp: assms(4) same_batch_def)
  moreover have "map bar_run_id (barriers j') = map bar_run_id (barriers j)"
    using arg_cong[OF assms(6), of "map fst"] by (simp add: comp_def)
  ultimately show ?thesis
    using assms(1,5,6) unfolding keys_ok_def by (metis set_map)
qed

section \<open>Batches that fail\<close>

definition fails :: "batch_row \<Rightarrow> journal \<Rightarrow> journal \<Rightarrow> bool" where
  "fails b j j' \<longleftrightarrow> b \<in> set (batches j) \<and> in_flight b \<and>
     (\<exists>c g. same_batch b c \<and> (batch_ok b \<longrightarrow> batch_ok c) \<and> b_status c \<in> {Blocked, DeadLetter} \<and>
        batches j' = replace_batch b c (batches j) \<and>
        runs j' = update_where (\<lambda>r. r_run_id r = b_run_id b) g (runs j) \<and>
        (\<forall>r. r_run_id (g r) = r_run_id r \<and> r_metadata (g r) = r_metadata r \<and>
             r_status (g r) \<in> {RunBlocked, RunDeadLettered})) \<and>
     same_tables (j\<lparr>runs := runs j'\<rparr>) j'"

lemma in_update_whereE:
  assumes "y \<in> set (update_where p f rows)"
  obtains (hit) x where "x \<in> set rows" "p x" "y = f x" | (miss) "y \<in> set rows" "\<not> p y"
  using assms by (auto simp: set_update_where split: if_splits)

lemma fails_jinv:
  assumes "fails b j j'" "jinv j"
  shows "jinv j'"
proof -
  obtain c g where b: "b \<in> set (batches j)" "in_flight b"
    and c: "same_batch b c" "batch_ok b \<longrightarrow> batch_ok c" "b_status c \<in> {Blocked, DeadLetter}"
    and bs: "batches j' = replace_batch b c (batches j)"
    and rs: "runs j' = update_where (\<lambda>r. r_run_id r = b_run_id b) g (runs j)"
    and g: "\<And>r. r_run_id (g r) = r_run_id r" "\<And>r. r_metadata (g r) = r_metadata r"
      "\<And>r. r_status (g r) \<in> {RunBlocked, RunDeadLettered}"
    and tabs: "barriers j' = barriers j"
    using assms(1) unfolding fails_def same_tables_def by auto
  have inv: "keys_ok j" "rows_ok j" "runs_ok j" "single_active j" "barriers_ok j"
    using assms(2) by (auto simp: jinv_def)
  have set_bs: "set (batches j') = insert c (set (batches j) - {b})"
    using set_replace_batch[OF inv(1) b(1)] bs by simp
  have "keys_ok j'"
    by (rule keys_ok_replace[OF inv(1) b(1) c(1) bs]) (simp_all add: rs tabs map_update_where_key g)
  moreover have "rows_ok j'"
    using inv(2) b(1) c(2) set_bs by (auto simp: rows_ok_def list_all_iff)
  moreover have "runs_ok j'"
    unfolding runs_ok_def
  proof (intro conjI ballI impI)
    fix r d assume "r \<in> set (runs j')" and d: "d \<in> set (batches j')" "b_run_id d = r_run_id r"
    then show "run_batch_ok (r_status r) (b_status d)"
      unfolding rs
    proof (cases rule: in_update_whereE)
      case (hit s)
      then show ?thesis using g(3)[of s] by auto
    next
      case miss
      then have "d \<in> set (batches j)" using d set_bs c(1) by (auto simp: same_batch_def)
      then show ?thesis using miss d(2) inv(3) by (auto simp: runs_ok_def)
    qed
  next
    fix r x assume "r \<in> set (runs j')" and x: "x \<in> set (barriers j')"
      "r_status r = RunDrained \<and> bar_run_id x = r_run_id r"
    then show "bar_status x = BarrierDrained"
      unfolding rs
    proof (cases rule: in_update_whereE)
      case (hit s)
      then show ?thesis using g(3)[of s] x by auto
    next
      case miss
      then show ?thesis using x tabs inv(3) by (auto simp: runs_ok_def)
    qed
  qed
  moreover have "single_active j'"
  proof -
    have "r \<in> set (runs j)" if "r \<in> set (runs j')" "run_active r" for r
      using that(1) unfolding rs
    proof (cases rule: in_update_whereE)
      case (hit s)
      then show ?thesis using g(3)[of s] that(2) by (auto simp: run_active_def)
    qed
    then show ?thesis using inv(4) by (auto simp: single_active_def)
  qed
  moreover have "barriers_ok j'"
  proof -
    have nb: "b_status b \<noteq> Done" "b_status b \<noteq> Blocked" using b(2) by (auto simp: in_flight_def)
    have "barrier_ok (batches j') x" if "barrier_ok (batches j) x" for x
      using that c(3) nb
        count_replace_batch[OF keys_okD(2)[OF inv(1)] b(1), of "\<lambda>b. produces x b \<and> b_status b = Done" c]
        count_replace_batch[OF keys_okD(2)[OF inv(1)] b(1), of "\<lambda>b. produces x b \<and> b_status b \<noteq> Blocked" c]
        c(1)
      by (auto simp: barrier_ok_def bs produces_def same_batch_def split: if_splits)
    then show ?thesis
      using inv(5) tabs set_bs c(1) b(1) nb(2) by (auto simp: barriers_rel_def list_all_iff same_batch_def)
  qed
  ultimately show ?thesis by (simp add: jinv_def)
qed

section \<open>Owned transitions\<close>

lemma set_run_error_tables [simp]:
  "runs (set_run_error e rid st code j) =
     update_where (\<lambda>r. r_run_id r = rid)
       (\<lambda>r. r\<lparr>r_status := st, r_error_code := Some code, r_updated_at := e_now e,
             r_retention_until := retention_until e\<rparr>) (runs j)"
  "artifacts (set_run_error e rid st code j) = artifacts j"
  "batches (set_run_error e rid st code j) = batches j"
  "barriers (set_run_error e rid st code j) = barriers j"
  "producers (set_run_error e rid st code j) = producers j"
  "manifests (set_run_error e rid st code j) = manifests j"
  "endpoints (set_run_error e rid st code j) = endpoints j"
  "audits (set_run_error e rid st code j) = audits j"
  by (simp_all add: set_run_error_def)

lemma release_owned_tables [simp]:
  "runs (release_owned job token f j) = runs j"
  "artifacts (release_owned job token f j) = artifacts j"
  "barriers (release_owned job token f j) = barriers j"
  "producers (release_owned job token f j) = producers j"
  "manifests (release_owned job token f j) = manifests j"
  "endpoints (release_owned job token f j) = endpoints j"
  "audits (release_owned job token f j) = audits j"
  by (simp_all add: release_owned_def)

lemma snd_transaction_read_back:
  "snd (transaction j (read_back job k)) = (if find_batch job k = None then j else k)"
  by (auto simp: read_back_def split: option.splits)

lemma release_owned_batches:
  assumes "keys_ok j" "owned_row [Leased, Reconciling] job token now j = Inr row"
  shows "batches (release_owned job token f j) =
    replace_batch row ((f row)\<lparr>b_fencing_token := None, b_lease_until := None\<rparr>) (batches j)"
proof -
  have row: "row \<in> set (batches j)" "b_job_id row = job" "b_status row \<in> {Leased, Reconciling}"
    "b_fencing_token row = Some token"
    using owned_rowD[OF assms(2)] by (auto simp: owns_def)
  then show ?thesis
    unfolding release_owned_def update_batches_tables
    by (subst update_batches_owned[OF assms(1) row(1)]) auto
qed

lemma failsI:
  assumes "b \<in> set (batches j)" "in_flight b" "same_batch b c" "batch_ok b \<Longrightarrow> batch_ok c"
    "b_status c \<in> {Blocked, DeadLetter}" "batches j' = replace_batch b c (batches j)"
    "st \<in> {RunBlocked, RunDeadLettered}"
    "runs j' = runs (set_run_error e (b_run_id b) st code j)"
    "same_tables (j\<lparr>runs := runs j'\<rparr>) j'"
  shows "fails b j j'"
  unfolding fails_def using assms(1,2,9)
  by (intro conjI exI[of _ c] exI[of _ "\<lambda>r. r\<lparr>r_status := st, r_error_code := Some code,
        r_updated_at := e_now e, r_retention_until := retention_until e\<rparr>"])
    (use assms(3-8) in auto)

lemma in_flight_owned:
  "owned_row [Leased, Reconciling] job token now j = Inr row \<Longrightarrow>
   row \<in> set (batches j) \<and> in_flight row \<and> b_job_id row = job \<and> b_fencing_token row = Some token"
  by (auto simp: in_flight_def owns_def dest: owned_rowD)

lemma block_batch_step:
  assumes "jinv j" "j' = snd (block_batch e job token rc code j)"
  shows "j' = j \<or> (\<exists>row. owned_row [Leased, Reconciling] job token (e_now e) j = Inr row \<and> fails row j j')"
proof (cases "owned_row [Leased, Reconciling] job token (e_now e) j")
  case (Inl x)
  then show ?thesis using assms(2) by (simp add: block_batch_def owned_transition_def)
next
  case (Inr row)
  have keys: "keys_ok j" using assms(1) by (simp add: jinv_def)
  note own = in_flight_owned[OF Inr]
  note rel = release_owned_batches[OF keys Inr]
  let ?f = "\<lambda>b. b\<lparr>b_status := Blocked, b_retry_class := Some rc, b_error_code := Some code\<rparr>"
  let ?j = "set_run_error e (b_run_id row) RunBlocked code
     (add_event (b_run_id row) EvBatchBlocked (Some job) [] (Some (b_attempt row)) None (Some code) (e_now e)
       (release_owned job token ?f j))"
  have "fails row j ?j"
    by (rule failsI[where c = "(?f row)\<lparr>b_fencing_token := None, b_lease_until := None\<rparr>"])
      (use own rel in \<open>auto simp: same_batch_def batch_ok_def in_flight_def same_tables_def\<close>)
  then show ?thesis
    using Inr assms(2)
    by (auto simp: block_batch_def owned_transition_def Let_def snd_transaction_read_back)
qed

lemma schedule_retry_step:
  assumes "jinv j" "j' = snd (schedule_retry e job token t rc code j)"
  shows "j' = j \<or> (\<exists>row. owned_row [Leased, Reconciling] job token (e_now e) j = Inr row \<and>
           (benign row_live j j' \<or> fails row j j'))"
proof (cases "owned_row [Leased, Reconciling] job token (e_now e) j")
  case (Inl x)
  then show ?thesis using assms(2) by (simp add: schedule_retry_def owned_transition_def)
next
  case (Inr row)
  have keys: "keys_ok j" using assms(1) by (simp add: jinv_def)
  note own = in_flight_owned[OF Inr]
  note rel = release_owned_batches[OF keys Inr]
  have ok: "batch_ok row" using assms(1) own by (auto simp: jinv_def rows_ok_def list_all_iff)
  show ?thesis
  proof (cases "b_attempt row \<ge> b_max_attempts row")
    case True
    let ?f = "\<lambda>b. b\<lparr>b_status := DeadLetter, b_next_attempt_at := None, b_retry_class := Some rc,
       b_error_code := Some MaxAttempts\<rparr>"
    let ?j = "set_run_error e (b_run_id row) RunDeadLettered MaxAttempts
       (add_event (b_run_id row) EvBatchDeadLettered (Some job) [] (Some (b_attempt row)) None
         (Some MaxAttempts) (e_now e) (release_owned job token ?f j))"
    have "fails row j ?j"
      by (rule failsI[where c = "(?f row)\<lparr>b_fencing_token := None, b_lease_until := None\<rparr>"])
        (use own rel True in \<open>auto simp: same_batch_def batch_ok_def in_flight_def same_tables_def\<close>)
    then show ?thesis
      using Inr assms(2) True
      by (auto simp: schedule_retry_def owned_transition_def Let_def snd_transaction_read_back)
  next
    case False
    let ?f = "\<lambda>b. b\<lparr>b_status := RetryWait, b_next_attempt_at := Some t, b_retry_class := Some rc,
       b_error_code := Some code\<rparr>"
    have "row_live row ((?f row)\<lparr>b_fencing_token := None, b_lease_until := None\<rparr>)"
      by (rule row_liveI) (use ok own False in \<open>auto simp: same_batch_def batch_ok_def in_flight_def final_status_def\<close>)
    then have "benign row_live j (release_owned job token ?f j)"
      unfolding release_owned_def using own same_job_eq[OF keys, of _ row]
      by (intro benign_update_batches_on) fastforce+
    then show ?thesis
      using Inr assms(2) False
      by (auto simp: schedule_retry_def owned_transition_def Let_def snd_transaction_read_back)
  qed
qed

lemma schedule_reconciliation_retry_step:
  assumes "jinv j" "j' = snd (schedule_reconciliation_retry e job token t code j)"
  shows "j' = j \<or> (\<exists>row. owned_row [Leased, Reconciling] job token (e_now e) j = Inr row \<and>
           (benign row_keep j j' \<or> fails row j j'))"
proof (cases "owned_row [Leased, Reconciling] job token (e_now e) j")
  case (Inl x)
  then show ?thesis using assms(2) by (simp add: schedule_reconciliation_retry_def owned_transition_def)
next
  case (Inr row)
  have keys: "keys_ok j" using assms(1) by (simp add: jinv_def)
  note own = in_flight_owned[OF Inr]
  have ok: "batch_ok row" using assms(1) own by (auto simp: jinv_def rows_ok_def list_all_iff)
  let ?p = "\<lambda>b. b_job_id b = job \<and> b_fencing_token b = Some token \<and> b_status b = Reconciling"
  show ?thesis
  proof (cases "b_status row = Reconciling")
    case False
    then show ?thesis
      using Inr assms(2) by (simp add: schedule_reconciliation_retry_def owned_transition_def)
  next
    case rec: True
    let ?n = "b_attempt row + 1"
    show ?thesis
    proof (cases "?n \<ge> b_max_attempts row")
      case True
      let ?f = "\<lambda>b. b\<lparr>b_status := DeadLetter, b_attempt := ?n, b_fencing_token := None,
         b_lease_until := None, b_next_attempt_at := None, b_retry_class := Some Transient,
         b_error_code := Some MaxAttempts\<rparr>"
      let ?j = "set_run_error e (b_run_id row) RunDeadLettered MaxAttempts
         (add_event (b_run_id row) EvBatchDeadLettered (Some job) [] (Some ?n) None
           (Some MaxAttempts) (e_now e) (update_batches ?p ?f j))"
      have "update_where ?p ?f (batches j) = replace_batch row (?f row) (batches j)"
        by (rule update_batches_owned[OF keys]) (use own rec in auto)
      then have "batches ?j = replace_batch row (?f row) (batches j)" by simp
      then have "fails row j ?j"
        by (rule failsI[rotated 5])
          (use own ok True in \<open>auto simp: same_batch_def batch_ok_def in_flight_def same_tables_def\<close>)
      then show ?thesis
        using Inr assms(2) True rec
        by (auto simp: schedule_reconciliation_retry_def owned_transition_def Let_def snd_transaction_read_back)
    next
      case False
      let ?f = "\<lambda>b. b\<lparr>b_status := Reconciling, b_attempt := ?n, b_fencing_token := None,
         b_lease_until := None, b_next_attempt_at := Some t, b_retry_class := Some Transient,
         b_error_code := Some code\<rparr>"
      have "row_live row (?f row)"
        by (rule row_liveI)
          (use ok own False in \<open>auto simp: same_batch_def batch_ok_def in_flight_def final_status_def\<close>)
      then have "row_keep row (?f row)" by (simp add: row_keep_def executable_def)
      then have "benign row_keep j (update_batches ?p ?f j)"
        using own same_job_eq[OF keys, of _ row]
        by (intro benign_update_batches_on) fastforce+
      then show ?thesis
        using Inr assms(2) False rec
        by (auto simp: schedule_reconciliation_retry_def owned_transition_def Let_def snd_transaction_read_back)
    qed
  qed
qed

section \<open>Acknowledgement\<close>

definition drained_row :: "barrier_record \<Rightarrow> barrier_record" where
  "drained_row x = x\<lparr>bar_drained_count := bar_drained_count x + 1,
     bar_status := (if bar_closed_at x \<noteq> None \<and> bar_drained_count x + 1 = bar_produced_count x
                    then BarrierDrained else bar_status x)\<rparr>"

lemma drained_row_simps [simp]:
  "bar_run_id (drained_row x) = bar_run_id x" "bar_name (drained_row x) = bar_name x"
  "bar_produced_count (drained_row x) = bar_produced_count x"
  "bar_closed_at (drained_row x) = bar_closed_at x"
  "bar_drained_count (drained_row x) = bar_drained_count x + 1"
  by (simp_all add: drained_row_def)

lemma drain_barrier_effect:
  assumes "keys_ok j" "x \<in> set (barriers j)" "bar_drained_count x < bar_produced_count x"
  shows "\<exists>j'. drain_barrier e (bar_run_id x) (bar_name x) j = Inr j' \<and>
    same_tables (j\<lparr>barriers := barriers j'\<rparr>) j' \<and> batches j' = batches j \<and>
    barriers j' = update_where (\<lambda>y. bar_run_id y = bar_run_id x \<and> bar_name y = bar_name x)
                    drained_row (barriers j)"
proof -
  have eq: "update_where (\<lambda>y. bar_run_id y = bar_run_id x \<and> bar_name y = bar_name x)
      (\<lambda>y. y\<lparr>bar_drained_count := bar_drained_count x + 1,
            bar_status := (if bar_closed_at x \<noteq> None \<and> bar_drained_count x + 1 = bar_produced_count x
                    then BarrierDrained else bar_status x)\<rparr>) (barriers j) =
      update_where (\<lambda>y. bar_run_id y = bar_run_id x \<and> bar_name y = bar_name x) drained_row (barriers j)"
  proof (rule update_where_cong)
    fix y assume "y \<in> set (barriers j)" "bar_run_id y = bar_run_id x \<and> bar_name y = bar_name x"
    then have "y = x" using unique_key_eq[OF keys_okD(3)[OF assms(1)] _ assms(2), of y] by simp
    then show "y\<lparr>bar_drained_count := bar_drained_count x + 1,
            bar_status := (if bar_closed_at x \<noteq> None \<and> bar_drained_count x + 1 = bar_produced_count x
                    then BarrierDrained else bar_status x)\<rparr> = drained_row y"
      by (simp add: drained_row_def)
  qed simp
  show ?thesis
    using assms(3) eq
    by (auto simp: drain_barrier_def find_barrier_in[OF assms(1,2)] Let_def same_tables_def)
qed

lemma update_where_twice:
  assumes "\<And>x. p x \<Longrightarrow> \<not> q x" "\<And>x. p (f x) = p x" "\<And>x. q (f x) = q x"
  shows "update_where q f (update_where p f rows) = update_where (\<lambda>x. p x \<or> q x) f rows"
  by (induction rows) (auto simp: assms dest: assms(1))

lemma keys_ok_barriers:
  assumes "keys_ok j" "runs j' = runs j" "batches j' = batches j"
    "map bar_key (barriers j') = map bar_key (barriers j)"
  shows "keys_ok j'"
proof -
  have "map bar_run_id (barriers j') = map bar_run_id (barriers j)"
    using arg_cong[OF assms(4), of "map fst"] by (simp add: comp_def)
  then show ?thesis using assms unfolding keys_ok_def by (metis set_map)
qed

lemma drains_effect:
  assumes "keys_ok j" "distinct ns" "\<And>n. n \<in> set ns \<Longrightarrow> (rid, n) \<in> bar_key ` set (barriers j)"
    and "\<And>x. x \<in> set (barriers j) \<Longrightarrow> bar_run_id x = rid \<Longrightarrow> bar_name x \<in> set ns \<Longrightarrow>
           bar_drained_count x < bar_produced_count x"
  shows "\<exists>j'. rfold (drain_barrier e rid) ns j = Inr j' \<and>
    same_tables (j\<lparr>barriers := barriers j'\<rparr>) j' \<and> batches j' = batches j \<and>
    barriers j' = update_where (\<lambda>y. bar_run_id y = rid \<and> bar_name y \<in> set ns) drained_row (barriers j)"
  using assms
proof (induction ns arbitrary: j)
  case Nil
  show ?case by (simp add: same_tables_def update_where_none)
next
  case (Cons n ns)
  obtain x where x: "x \<in> set (barriers j)" "bar_run_id x = rid" "bar_name x = n"
    using Cons.prems(3)[of n] by auto
  let ?p = "\<lambda>y. bar_run_id y = rid \<and> bar_name y = n"
  obtain k where k: "drain_barrier e rid n j = Inr k" "same_tables (j\<lparr>barriers := barriers k\<rparr>) k"
    "batches k = batches j" "barriers k = update_where ?p drained_row (barriers j)"
    using drain_barrier_effect[OF Cons.prems(1) x(1), where e = e] Cons.prems(4)[of x]
    unfolding x(2,3) by (auto simp: x)
  have keys: "map bar_key (barriers k) = map bar_key (barriers j)"
    unfolding k(4) by (rule map_update_where_key) simp
  have rest: "y \<in> set (barriers j)" if "y \<in> set (barriers k)" "bar_name y \<in> set ns" for y
    using that Cons.prems(2) unfolding k(4) by (auto elim!: in_update_whereE)
  have "\<exists>j'. rfold (drain_barrier e rid) ns k = Inr j' \<and>
      same_tables (k\<lparr>barriers := barriers j'\<rparr>) j' \<and> batches j' = batches k \<and>
      barriers j' = update_where (\<lambda>y. bar_run_id y = rid \<and> bar_name y \<in> set ns) drained_row (barriers k)"
  proof (rule Cons.IH)
    show "keys_ok k"
      by (rule keys_ok_barriers[OF Cons.prems(1) _ k(3) keys]) (use k(2) in \<open>simp add: same_tables_def\<close>)
    show "(rid, m) \<in> bar_key ` set (barriers k)" if "m \<in> set ns" for m
      using Cons.prems(3)[of m] that arg_cong[OF keys, of set] by simp
    show "bar_drained_count y < bar_produced_count y"
      if "y \<in> set (barriers k)" "bar_run_id y = rid" "bar_name y \<in> set ns" for y
      using Cons.prems(4)[of y] rest that by simp
  qed (use Cons.prems(2) in simp)
  moreover have "update_where (\<lambda>y. bar_run_id y = rid \<and> bar_name y \<in> set ns) drained_row (barriers k) =
      update_where (\<lambda>y. bar_run_id y = rid \<and> bar_name y \<in> set (n # ns)) drained_row (barriers j)"
    unfolding k(4) using Cons.prems(2)
    by (subst update_where_twice) (auto intro!: update_where_cong)
  ultimately show ?case using k(1-3) by (auto simp: same_tables_def)
qed

text \<open>What a successful acknowledgement of row \<open>b\<close> does, up to events and the status of its run.\<close>

definition acked_state :: "batch_row \<Rightarrow> journal \<Rightarrow> journal \<Rightarrow> bool" where
  "acked_state b j k \<longleftrightarrow> b \<in> set (batches j) \<and> in_flight b \<and>
     (\<exists>c. same_batch b c \<and> (batch_ok b \<longrightarrow> batch_ok c) \<and> b_status c = Done \<and>
        batches k = replace_batch b c (batches j)) \<and>
     barriers k = update_where (\<lambda>y. bar_run_id y = b_run_id b \<and> bar_name y \<in> set (b_produced_barriers b))
                    drained_row (barriers j) \<and>
     manifests k = update_where (\<lambda>m. m_job_id m = b_job_id b \<and> m_disposition m = StagedUnique)
                     (\<lambda>m. m\<lparr>m_acked := True, m_graph_verified := True\<rparr>) (manifests j) \<and>
     same_tables (j\<lparr>barriers := barriers k, manifests := manifests k\<rparr>) k"

lemma in_flight_not_drained:
  assumes "jinv j" "b \<in> set (batches j)" "in_flight b" "x \<in> set (barriers j)" "produces x b"
  shows "bar_drained_count x < bar_produced_count x"
proof -
  have ok: "barrier_ok (batches j) x" using assms(1,4) by (auto simp: jinv_def barriers_rel_def list_all_iff)
  let ?p = "\<lambda>b. produces x b \<and> b_status b = Done" and ?q = "\<lambda>b. produces x b \<and> b_status b \<noteq> Blocked"
  have le: "count_where ?p (batches j) \<le> count_where ?q (batches j)" by (rule count_where_mono) auto
  have "count_where ?p (batches j) \<noteq> count_where ?q (batches j)"
  proof
    assume "count_where ?p (batches j) = count_where ?q (batches j)"
    then have "?p b" by (rule count_where_eq_imp_all) (use assms(2,3,5) in \<open>auto simp: in_flight_def\<close>)
    then show False using assms(3) by (simp add: in_flight_def)
  qed
  with le ok show ?thesis unfolding barrier_ok_def by linarith
qed

lemma ack_prefix:
  assumes "jinv j" "owned_row [Leased, Reconciling] job token now j = Inr row"
  shows "\<exists>k. rfold (drain_barrier e (b_run_id row)) (b_produced_barriers row)
              (ack_manifests job (mark_done job token j)) = Inr k \<and> acked_state row j k"
proof -
  have keys: "keys_ok j" and ok: "batch_ok row"
    using assms(1) in_flight_owned[OF assms(2)] by (auto simp: jinv_def rows_ok_def list_all_iff)
  note own = in_flight_owned[OF assms(2)]
  let ?k = "ack_manifests job (mark_done job token j)"
  let ?f = "\<lambda>b. b\<lparr>b_status := Done, b_fencing_token := None, b_lease_until := None,
             b_retry_class := None, b_error_code := None\<rparr>"
  have bs: "batches ?k = replace_batch row (?f row) (batches j)"
    unfolding ack_manifests_def mark_done_def update_manifests_tables update_batches_tables
    by (rule update_batches_owned[OF keys]) (use own in \<open>auto simp: in_flight_def\<close>)
  have same: "same_batch row (?f row)" by (simp add: same_batch_def)
  have tabs: "barriers ?k = barriers j" "runs ?k = runs j"
    by (simp_all add: ack_manifests_def mark_done_def)
  have keys': "keys_ok ?k"
    by (rule keys_ok_replace[OF keys _ same bs]) (use own tabs in auto)
  have "\<exists>k. rfold (drain_barrier e (b_run_id row)) (b_produced_barriers row) ?k = Inr k \<and>
      same_tables (?k\<lparr>barriers := barriers k\<rparr>) k \<and> batches k = batches ?k \<and>
      barriers k = update_where (\<lambda>y. bar_run_id y = b_run_id row \<and> bar_name y \<in> set (b_produced_barriers row))
        drained_row (barriers ?k)"
  proof (rule drains_effect[OF keys'])
    show "distinct (b_produced_barriers row)" using ok by (simp add: batch_ok_def)
    show "(b_run_id row, n) \<in> bar_key ` set (barriers ?k)" if "n \<in> set (b_produced_barriers row)" for n
      using assms(1) own that tabs by (auto simp: jinv_def barriers_rel_def in_flight_def)
    show "bar_drained_count x < bar_produced_count x"
      if "x \<in> set (barriers ?k)" "bar_run_id x = b_run_id row" "bar_name x \<in> set (b_produced_barriers row)" for x
      using in_flight_not_drained[OF assms(1), of row x] own that tabs by (simp add: produces_def)
  qed
  then obtain k where k: "rfold (drain_barrier e (b_run_id row)) (b_produced_barriers row) ?k = Inr k"
    "same_tables (?k\<lparr>barriers := barriers k\<rparr>) k" "batches k = batches ?k"
    "barriers k = update_where (\<lambda>y. bar_run_id y = b_run_id row \<and> bar_name y \<in> set (b_produced_barriers row))
        drained_row (barriers ?k)" by blast
  have "acked_state row j k"
    unfolding acked_state_def
  proof (intro conjI exI[of _ "?f row"])
    show "batch_ok row \<longrightarrow> batch_ok (?f row)"
      using own by (auto simp: batch_ok_def in_flight_def)
    show "batches k = replace_batch row (?f row) (batches j)" using k(3) bs by simp
    show "barriers k = update_where (\<lambda>y. bar_run_id y = b_run_id row \<and> bar_name y \<in> set (b_produced_barriers row))
        drained_row (barriers j)" using k(4) tabs by simp
  qed (use own same k(2) in \<open>auto simp: same_tables_def ack_manifests_def mark_done_def\<close>)
  with k(1) show ?thesis by blast
qed

lemma acked_jinv:
  assumes "acked_state b j k" "jinv j"
  shows "jinv k"
proof -
  let ?hit = "\<lambda>y. bar_run_id y = b_run_id b \<and> bar_name y \<in> set (b_produced_barriers b)"
  obtain c where b: "b \<in> set (batches j)" "in_flight b"
    and c: "same_batch b c" "batch_ok b \<longrightarrow> batch_ok c" "b_status c = Done"
    and bs: "batches k = replace_batch b c (batches j)"
    and bars: "barriers k = update_where ?hit drained_row (barriers j)"
    and rs: "runs k = runs j"
    using assms(1) unfolding acked_state_def same_tables_def by auto
  have inv: "keys_ok j" "rows_ok j" "runs_ok j" "single_active j" "barriers_ok j"
    using assms(2) by (auto simp: jinv_def)
  have set_bs: "set (batches k) = insert c (set (batches j) - {b})"
    using set_replace_batch[OF inv(1) b(1)] bs by simp
  have nb: "b_status b \<noteq> Done" "b_status b \<noteq> Blocked" using b(2) by (auto simp: in_flight_def)
  have keys: "map bar_key (barriers k) = map bar_key (barriers j)"
    unfolding bars by (rule map_update_where_key) simp
  have "keys_ok k" by (rule keys_ok_replace[OF inv(1) b(1) c(1) bs]) (simp_all add: rs keys)
  moreover have "rows_ok k"
    using inv(2) b(1) c(2) set_bs by (auto simp: rows_ok_def list_all_iff)
  moreover have "runs_ok k"
    unfolding runs_ok_def rs
  proof (intro conjI ballI impI)
    fix r d assume r: "r \<in> set (runs j)" and d: "d \<in> set (batches k)" "b_run_id d = r_run_id r"
    show "run_batch_ok (r_status r) (b_status d)"
    proof (cases "d = c")
      case True
      then have "run_batch_ok (r_status r) (b_status b)"
        using r d(2) b(1) c(1) inv(3) by (auto simp: runs_ok_def same_batch_def)
      then show ?thesis using True c(3) by (cases "r_status r") auto
    next
      case False
      then show ?thesis using r d set_bs inv(3) by (auto simp: runs_ok_def)
    qed
  next
    fix r x assume r: "r \<in> set (runs j)" and "x \<in> set (barriers k)"
      "r_status r = RunDrained \<and> bar_run_id x = r_run_id r"
    then show "bar_status x = BarrierDrained"
      unfolding bars
    proof (elim in_update_whereE)
      fix y assume "x = drained_row y" "?hit y"
      then have "run_batch_ok RunDrained (b_status b)"
        using r b(1) inv(3) \<open>r_status r = RunDrained \<and> bar_run_id x = r_run_id r\<close>
        by (auto simp: runs_ok_def)
      then show ?thesis using nb by simp
    qed (use inv(3) r \<open>r_status r = RunDrained \<and> bar_run_id x = r_run_id r\<close> in \<open>auto simp: runs_ok_def\<close>)
  qed
  moreover have "single_active k" using inv(4) rs by (simp add: single_active_def)
  moreover have "barriers_ok k"
  proof -
    note cnt = count_replace_batch[OF keys_okD(2)[OF inv(1)] b(1)]
    have prod: "produces x c = produces x b" for x using c(1) by (simp add: produces_def same_batch_def)
    have ok: "barrier_ok (batches k) (if ?hit x then drained_row x else x)"
      if x: "x \<in> set (barriers j)" for x
    proof -
      have old: "barrier_ok (batches j) x" using inv(5) x by (auto simp: barriers_rel_def list_all_iff)
      have done_count: "count_where (\<lambda>d. produces x d \<and> b_status d = Done) (batches k) =
          count_where (\<lambda>d. produces x d \<and> b_status d = Done) (batches j) + (if produces x b then 1 else 0)"
        using cnt[of "\<lambda>d. produces x d \<and> b_status d = Done" c] nb c(3) prod[of x] by (simp add: bs)
      have live_count: "count_where (\<lambda>d. produces x d \<and> b_status d \<noteq> Blocked) (batches k) =
          count_where (\<lambda>d. produces x d \<and> b_status d \<noteq> Blocked) (batches j)"
        using cnt[of "\<lambda>d. produces x d \<and> b_status d \<noteq> Blocked" c] nb c(3) prod[of x]
        by (simp add: bs split: if_splits)
      have hit: "?hit x = produces x b" by (auto simp: produces_def)
      show ?thesis
      proof (cases "produces x b")
        case True
        have "bar_drained_count x < bar_produced_count x"
          using in_flight_not_drained[OF assms(2) b x True] .
        moreover have "produces (drained_row x) = produces x" by (simp add: produces_def fun_eq_iff)
        ultimately show ?thesis
          using True old done_count live_count hit
          by (simp add: barrier_ok_def) (auto simp: drained_row_def)
      next
        case False
        then have "\<not> ?hit x" using hit by simp
        moreover have "barrier_ok (batches k) x"
          using False old done_count live_count by (auto simp: barrier_ok_def)
        ultimately show ?thesis by (simp only: if_False)
      qed
    qed
    have "list_all (barrier_ok (batches k)) (barriers k)"
      unfolding bars set_update_where list_all_iff using ok by blast
    moreover have "(b_run_id d, n) \<in> bar_key ` set (barriers j)"
      if "d \<in> set (batches k)" "n \<in> set (b_produced_barriers d)" "b_status d \<noteq> Blocked" for d n
      using that inv(5) set_bs c(1) b(1) nb(2) by (auto simp: barriers_rel_def same_batch_def)
    ultimately show ?thesis using arg_cong[OF keys, of set] by (simp add: barriers_rel_def)
  qed
  ultimately show ?thesis by (simp add: jinv_def)
qed

lemma refresh_run_status_tables [simp]:
  "artifacts (refresh_run_status e rid j) = artifacts j"
  "batches (refresh_run_status e rid j) = batches j"
  "barriers (refresh_run_status e rid j) = barriers j"
  "producers (refresh_run_status e rid j) = producers j"
  "manifests (refresh_run_status e rid j) = manifests j"
  "endpoints (refresh_run_status e rid j) = endpoints j"
  "audits (refresh_run_status e rid j) = audits j"
  by (simp_all add: refresh_run_status_def split: option.splits)

text \<open>A run moves to another status that its batches and barriers allow, and does not become active.\<close>

lemma update_run_jinv:
  assumes "jinv j" "batches j' = batches j" "barriers j' = barriers j"
    and rs: "runs j' = update_where (\<lambda>r. r_run_id r = rid) g (runs j)"
    and g: "\<And>r. r_run_id (g r) = r_run_id r" "\<And>r. r_metadata (g r) = r_metadata r"
    and act: "\<And>r. r \<in> set (runs j) \<Longrightarrow> r_run_id r = rid \<Longrightarrow> run_active (g r) \<Longrightarrow> run_active r"
    and stat: "\<And>r b. r \<in> set (runs j) \<Longrightarrow> r_run_id r = rid \<Longrightarrow> b \<in> set (batches j) \<Longrightarrow> b_run_id b = rid \<Longrightarrow>
        run_batch_ok (r_status (g r)) (b_status b)"
    and dr: "\<And>r x. r \<in> set (runs j) \<Longrightarrow> r_run_id r = rid \<Longrightarrow> r_status (g r) = RunDrained \<Longrightarrow>
        x \<in> set (barriers j) \<Longrightarrow> bar_run_id x = rid \<Longrightarrow> bar_status x = BarrierDrained"
  shows "jinv j'"
proof -
  have inv: "keys_ok j" "rows_ok j" "runs_ok j" "single_active j" "barriers_ok j"
    using assms(1) by (auto simp: jinv_def)
  have "map r_run_id (runs j') = map r_run_id (runs j)"
    unfolding rs by (rule map_update_where_key) (simp add: g)
  then have "keys_ok j'" using inv(1) assms(2,3) unfolding keys_ok_def by (metis set_map)
  moreover have "runs_ok j'"
    unfolding runs_ok_def
  proof (intro conjI ballI impI)
    fix r b assume "r \<in> set (runs j')" "b \<in> set (batches j')" "b_run_id b = r_run_id r"
    then show "run_batch_ok (r_status r) (b_status b)"
      using inv(3) stat assms(2) unfolding rs runs_ok_def by (auto elim!: in_update_whereE simp: g)
  next
    fix r x assume "r \<in> set (runs j')" "x \<in> set (barriers j')" "r_status r = RunDrained \<and> bar_run_id x = r_run_id r"
    then show "bar_status x = BarrierDrained"
      using inv(3) dr assms(3) unfolding rs runs_ok_def by (auto elim!: in_update_whereE simp: g)
  qed
  moreover have "single_active j'"
  proof -
    have "\<exists>s \<in> set (runs j). r_run_id s = r_run_id r \<and> r_metadata s = r_metadata r \<and> run_active s"
      if "r \<in> set (runs j')" "run_active r" for r
      using that act unfolding rs by (auto elim!: in_update_whereE simp: g)
    then show ?thesis using inv(4) unfolding single_active_def by metis
  qed
  ultimately show ?thesis
    using inv(2,5) assms(2,3) by (simp add: jinv_def rows_ok_def barriers_rel_def)
qed

lemma refresh_run_status_jinv:
  assumes "jinv j"
  shows "jinv (refresh_run_status e rid j)"
proof (cases "\<exists>r. find_run rid j = Some r \<and> r_status r = RunDraining \<and> unfinished_count rid j = 0 \<and>
    count_where (\<lambda>b. bar_run_id b = rid \<and> bar_status b \<noteq> BarrierDrained) (barriers j) = 0")
  case True
  then obtain r where r: "find_run rid j = Some r" "r_status r = RunDraining"
    and dn: "\<And>b. b \<in> set (batches j) \<Longrightarrow> b_run_id b = rid \<Longrightarrow> b_status b = Done"
      "\<And>x. x \<in> set (barriers j) \<Longrightarrow> bar_run_id x = rid \<Longrightarrow> bar_status x = BarrierDrained"
    by (auto simp: unfinished_count_def count_where_0_iff)
  show ?thesis
    by (rule update_run_jinv[OF assms, where rid = rid and g = "\<lambda>r. r\<lparr>r_status := RunDrained,
          r_updated_at := e_now e, r_retention_until := retention_until e\<rparr>"])
      (use True dn in \<open>auto simp: refresh_run_status_def run_active_def\<close>)
next
  case False
  then have "refresh_run_status e rid j = j"
    by (auto simp: refresh_run_status_def split: option.splits)
  then show ?thesis using assms by simp
qed

lemma ack_batch_step:
  assumes "jinv j" "j' = snd (ack_batch e job token ms j)"
  shows "j' = j \<or> (\<exists>row k ev. owned_row [Leased, Reconciling] job token (e_now e) j = Inr row \<and>
           acked_state row j k \<and> j' = refresh_run_status e (b_run_id row) (ev k) \<and>
           (\<forall>k. same_tables k (ev k) \<and> batches (ev k) = batches k))"
proof (cases "owned_row [Leased, Reconciling] job token (e_now e) j")
  case (Inl x)
  then show ?thesis using assms(2) by (simp add: ack_batch_def owned_transition_def)
next
  case (Inr row)
  obtain k where k: "rfold (drain_barrier e (b_run_id row)) (b_produced_barriers row)
      (ack_manifests job (mark_done job token j)) = Inr k" "acked_state row j k"
    using ack_prefix[OF assms(1) Inr] by blast
  let ?ev = "add_event (b_run_id row) EvBatchAcked (Some job) [(''rows'', row_count (b_artifact row))]
      (Some (b_attempt row)) ms None (e_now e)"
  have "j' = j \<or> j' = refresh_run_status e (b_run_id row) (?ev k)"
    using Inr k(1) assms(2)
    by (auto simp: ack_batch_def owned_transition_def Let_def snd_transaction_read_back)
  moreover have "\<forall>k. same_tables k (?ev k) \<and> batches (?ev k) = batches k"
    by (simp add: same_tables_def)
  ultimately show ?thesis using Inr k(2) by blast
qed

text \<open>
  The acknowledgement of an owned batch always goes through: neither the missing-barrier check
  nor the table's CHECK on the counters can fail.
\<close>

lemma same_tables_jinv:
  "same_tables j j' \<Longrightarrow> batches j' = batches j \<Longrightarrow> jinv j' = jinv j"
  by (simp add: jinv_def keys_ok_def rows_ok_def runs_ok_def single_active_def barriers_rel_def same_tables_def)

lemma ack_batch_succeeds:
  assumes "jinv j" "owned_row [Leased, Reconciling] job token (e_now e) j = Inr row"
  shows "\<exists>c k. ack_batch e job token ms j = (Inr (batch_record.truncate c), k) \<and> c \<in> set (batches k) \<and>
           b_job_id c = job \<and> b_status c = Done \<and> b_fencing_token c = None"
proof -
  obtain k where k: "rfold (drain_barrier e (b_run_id row)) (b_produced_barriers row)
      (ack_manifests job (mark_done job token j)) = Inr k" "acked_state row j k"
    using ack_prefix[OF assms] by blast
  let ?k = "refresh_run_status e (b_run_id row) (add_event (b_run_id row) EvBatchAcked (Some job)
      [(''rows'', row_count (b_artifact row))] (Some (b_attempt row)) ms None (e_now e) k)"
  obtain c where c: "same_batch row c" "batch_ok row \<longrightarrow> batch_ok c" "b_status c = Done"
    "batches k = replace_batch row c (batches j)"
    using k(2) unfolding acked_state_def by blast
  have own: "row \<in> set (batches j)" "b_job_id row = job" using in_flight_owned[OF assms(2)] by auto
  have "keys_ok j" and "batch_ok row"
    using assms(1) own by (auto simp: jinv_def rows_ok_def list_all_iff)
  then have "c \<in> set (batches k)" "batch_ok c" using set_replace_batch[OF _ own(1)] c by auto
  moreover have "keys_ok k" using acked_jinv[OF k(2) assms(1)] by (simp add: jinv_def)
  ultimately have "find_batch job k = Some c"
    using find_batch_in[of k c] c(1) own(2) by (simp add: same_batch_def)
  then have "find_batch job ?k = Some c" by (simp add: find_batch_def)
  moreover have "ack_batch e job token ms j = transaction j (read_back job ?k)"
    using assms(2) k(1) by (simp add: ack_batch_def owned_transition_def Let_def)
  ultimately have "ack_batch e job token ms j = (Inr (batch_record.truncate c), ?k)"
    by (simp add: read_back_def)
  moreover have "b_fencing_token c = None" using \<open>batch_ok c\<close> c(3) by (auto simp: batch_ok_def in_flight_def)
  ultimately show ?thesis
    using \<open>c \<in> set (batches k)\<close> c(1,3) own(2) by (auto simp: same_batch_def)
qed

end
