(* ===== verification/Journal_Preservation.thy ===== *)
theory Journal_Preservation
  imports Journal_Invariant
begin

text \<open>
  Preservation of the invariants by the operations that change runs and barriers or insert and
  delete rows: quarantine, opening a run, barriers, closing production, purging, enqueueing. The
  last section collects all operations: every reachable journal satisfies \<open>jinv\<close>.
\<close>

section \<open>Quarantine\<close>

definition quarantine_row :: "env \<Rightarrow> run_record \<Rightarrow> run_record" where
  "quarantine_row e r = r\<lparr>r_status := RunQuarantined, r_error_code := Some IncompatibleSchema,
     r_updated_at := e_now e, r_retention_until := retention_until e\<rparr>"

definition block_row :: "batch_row \<Rightarrow> batch_row" where
  "block_row b = b\<lparr>b_status := Blocked, b_fencing_token := None, b_lease_until := None,
     b_retry_class := Some Incompatible, b_error_code := Some IncompatibleSchema\<rparr>"

lemma update_where_idem:
  "(\<And>x. f (f x) = f x) \<Longrightarrow> update_where q f (update_where p f rows) = update_where (\<lambda>x. p x \<or> q x) f rows"
  by (induction rows) auto

lemma quarantine_runs_tables:
  "runs (quarantine_runs e rids j) = update_where (\<lambda>r. r_run_id r \<in> set rids) (quarantine_row e) (runs j) \<and>
   batches (quarantine_runs e rids j) =
     update_where (\<lambda>b. b_run_id b \<in> set rids \<and> b_status b \<noteq> Done) block_row (batches j) \<and>
   same_tables (j\<lparr>runs := runs (quarantine_runs e rids j)\<rparr>) (quarantine_runs e rids j)"
proof (induction rids arbitrary: j)
  case Nil
  show ?case by (simp add: quarantine_runs_def update_where_none same_tables_def)
next
  case (Cons rid rids)
  have one: "runs (quarantine_run e rid j) = update_where (\<lambda>r. r_run_id r = rid) (quarantine_row e) (runs j)"
    "batches (quarantine_run e rid j) =
       update_where (\<lambda>b. b_run_id b = rid \<and> b_status b \<noteq> Done) block_row (batches j)"
    "same_tables (j\<lparr>runs := runs (quarantine_run e rid j)\<rparr>) (quarantine_run e rid j)"
    by (simp_all add: quarantine_run_def Let_def quarantine_row_def[abs_def] block_row_def[abs_def] same_tables_def)
  have unf: "quarantine_runs e (rid # rids) j = quarantine_runs e rids (quarantine_run e rid j)"
    by (simp add: quarantine_runs_def)
  have r: "update_where (\<lambda>r. r_run_id r \<in> set rids) (quarantine_row e)
      (update_where (\<lambda>r. r_run_id r = rid) (quarantine_row e) (runs j)) =
      update_where (\<lambda>r. r_run_id r \<in> set (rid # rids)) (quarantine_row e) (runs j)"
    by (subst update_where_idem) (simp_all add: quarantine_row_def)
  have b: "update_where (\<lambda>b. b_run_id b \<in> set rids \<and> b_status b \<noteq> Done) block_row
      (update_where (\<lambda>b. b_run_id b = rid \<and> b_status b \<noteq> Done) block_row (batches j)) =
      update_where (\<lambda>b. b_run_id b \<in> set (rid # rids) \<and> b_status b \<noteq> Done) block_row (batches j)"
    by (subst update_where_idem) (auto simp: block_row_def intro: update_where_cong)
  show ?case
    unfolding unf using Cons[of "quarantine_run e rid j"] one r b by (simp add: same_tables_def)
qed

lemma quarantine_runs_jinv:
  assumes "jinv j" "\<And>rid. rid \<in> set rids \<Longrightarrow> \<exists>r \<in> set (runs j). r_run_id r = rid \<and> run_active r"
  shows "jinv (quarantine_runs e rids j)"
proof -
  let ?k = "quarantine_runs e rids j"
  have inv: "keys_ok j" "rows_ok j" "runs_ok j" "single_active j" "barriers_ok j"
    using assms(1) by (auto simp: jinv_def)
  have rs: "runs ?k = update_where (\<lambda>r. r_run_id r \<in> set rids) (quarantine_row e) (runs j)"
    and bs: "batches ?k = update_where (\<lambda>b. b_run_id b \<in> set rids \<and> b_status b \<noteq> Done) block_row (batches j)"
    and bars: "barriers ?k = barriers j"
    using quarantine_runs_tables[of e rids j] by (auto simp: same_tables_def)
  have maps: "map r_run_id (runs ?k) = map r_run_id (runs j)" "map b_job_id (batches ?k) = map b_job_id (batches j)"
    "map b_run_id (batches ?k) = map b_run_id (batches j)"
    unfolding rs bs by (rule map_update_where_key; simp add: quarantine_row_def block_row_def)+
  have live: "b_status b \<noteq> DeadLetter" if b: "b \<in> set (batches j)" "b_run_id b \<in> set rids" for b
  proof -
    obtain r where "r \<in> set (runs j)" "r_run_id r = b_run_id b" "run_active r" using assms(2)[OF b(2)] by blast
    then have "run_batch_ok (r_status r) (b_status b)" using inv(3) b(1) by (auto simp: runs_ok_def)
    then show ?thesis using \<open>run_active r\<close> by (auto simp: run_active_def)
  qed
  have "keys_ok ?k" using inv(1) maps bars unfolding keys_ok_def by (metis set_map)
  moreover have "rows_ok ?k"
  proof -
    have "batch_ok (block_row b)" if "batch_ok b" "b_status b \<noteq> DeadLetter" for b
      using that by (auto simp: batch_ok_def block_row_def)
    then show ?thesis
      using inv(2) live by (auto simp: rows_ok_def bs list_all_iff elim!: in_update_whereE)
  qed
  moreover have "runs_ok ?k"
  proof -
    have "run_batch_ok (r_status r) (b_status b)"
      if "r \<in> set (runs ?k)" "b \<in> set (batches ?k)" "b_run_id b = r_run_id r" for r b
      using that inv(3) unfolding rs bs runs_ok_def
      by (auto elim!: in_update_whereE simp: quarantine_row_def block_row_def)
    moreover have "bar_status x = BarrierDrained"
      if "r \<in> set (runs ?k)" "x \<in> set (barriers j)" "r_status r = RunDrained" "bar_run_id x = r_run_id r" for r x
      using that inv(3) unfolding rs runs_ok_def by (auto elim!: in_update_whereE simp: quarantine_row_def)
    ultimately show ?thesis by (simp add: runs_ok_def bars)
  qed
  moreover have "single_active ?k"
  proof -
    have "r \<in> set (runs j)" if "r \<in> set (runs ?k)" "run_active r" for r
      using that unfolding rs by (auto elim!: in_update_whereE simp: quarantine_row_def run_active_def)
    then show ?thesis using inv(4) by (auto simp: single_active_def)
  qed
  moreover have "barriers_ok ?k"
  proof -
    have "barrier_ok (batches ?k) x" if "barrier_ok (batches j) x" for x
    proof -
      have "count_where (\<lambda>b. produces x b \<and> b_status b = Done) (batches ?k) =
          count_where (\<lambda>b. produces x b \<and> b_status b = Done) (batches j)"
        unfolding bs count_where_update_where by (rule count_where_cong) (auto simp: block_row_def)
      moreover have "count_where (\<lambda>b. produces x b \<and> b_status b \<noteq> Blocked) (batches ?k) \<le>
          count_where (\<lambda>b. produces x b \<and> b_status b \<noteq> Blocked) (batches j)"
        unfolding bs count_where_update_where by (rule count_where_mono) (auto simp: block_row_def split: if_splits)
      ultimately show ?thesis using that by (auto simp: barrier_ok_def)
    qed
    then show ?thesis
      using inv(5) unfolding barriers_rel_def bars
      by (auto simp: list_all_iff bs block_row_def elim!: in_update_whereE)
  qed
  ultimately show ?thesis by (simp add: jinv_def)
qed

section \<open>Opening runs\<close>

lemma same_scope_sym: "same_scope m n \<Longrightarrow> same_scope n m"
  by (simp add: same_scope_def)

lemma append_run_jinv:
  assumes "jinv j" "r_run_id new \<notin> r_run_id ` set (runs j)" "r_status new = RunOpen"
    and "\<And>r. r \<in> set (runs j) \<Longrightarrow> same_scope (r_metadata r) (r_metadata new) \<Longrightarrow> \<not> run_active r"
  shows "jinv (j\<lparr>runs := runs j @ [new]\<rparr>)"
proof -
  have inv: "keys_ok j" "rows_ok j" "runs_ok j" "single_active j" "barriers_ok j"
    using assms(1) by (auto simp: jinv_def)
  have none: "b_run_id b \<noteq> r_run_id new" if "b \<in> set (batches j)" for b
    using keys_okD(4)[OF inv(1) that] assms(2) by (metis image_eqI)
  have "keys_ok (j\<lparr>runs := runs j @ [new]\<rparr>)" using inv(1) assms(2) by (auto simp: keys_ok_def)
  moreover have "runs_ok (j\<lparr>runs := runs j @ [new]\<rparr>)"
    using inv(3) none assms(3) by (auto simp: runs_ok_def)
  moreover have "single_active (j\<lparr>runs := runs j @ [new]\<rparr>)"
  proof -
    have "\<not> same_scope (r_metadata new) (r_metadata r)" if "r \<in> set (runs j)" "run_active r" for r
      using assms(4)[OF that(1)] that(2) same_scope_sym by blast
    then show ?thesis using inv(4) assms(4) by (auto simp: single_active_def)
  qed
  ultimately show ?thesis using inv(2,5) by (simp add: jinv_def rows_ok_def)
qed

lemma open_run_body_cases:
  assumes "open_run_body e m j = Inr (x, j')"
  obtains (resumed) r where "find_run (run_id (e_sha e) m) j = Some r" "x = r" "same_tables j j'" "batches j' = batches j"
  | (opened) "find_run (run_id (e_sha e) m) j = None" "x = new_run e m"
      "j' = add_event (run_id (e_sha e) m) EvRunOpened None [] None None None (e_now e)
        (let k = quarantine_runs e (map r_run_id (filter (\<lambda>r. same_scope (r_metadata r) m \<and> run_active r) (runs j))) j
         in k\<lparr>runs := runs k @ [new_run e m]\<rparr>)"
  using assms
  by (cases "find_run (run_id (e_sha e) m) j")
    (auto simp: open_run_body_def Let_def same_tables_def split: if_splits)

lemma event_jinv: "jinv (add_event rid ty job c a el er now j) = jinv j"
  by (rule same_tables_jinv) (simp_all add: same_tables_def)

lemma open_run_jinv:
  assumes "jinv j"
  shows "jinv (snd (open_run e m n b j))"
proof -
  have body: "jinv j'" if "open_run_body e m j = Inr (x, j')" for x j'
    using that
  proof (cases rule: open_run_body_cases)
    case (resumed r)
    then show ?thesis using assms same_tables_jinv by metis
  next
    case opened
    let ?rids = "map r_run_id (filter (\<lambda>r. same_scope (r_metadata r) m \<and> run_active r) (runs j))"
    let ?k = "quarantine_runs e ?rids j"
    have k: "jinv ?k" by (rule quarantine_runs_jinv[OF assms]) auto
    have rs: "runs ?k = update_where (\<lambda>r. r_run_id r \<in> set ?rids) (quarantine_row e) (runs j)"
      using quarantine_runs_tables[of e ?rids j] by blast
    have ids: "r_run_id ` set (runs ?k) = r_run_id ` set (runs j)"
      using map_update_where_key[of "\<lambda>r. r_run_id r \<in> set ?rids" r_run_id "quarantine_row e" "runs j"]
      unfolding rs by (simp add: quarantine_row_def) (metis set_map)
    have "jinv (?k\<lparr>runs := runs ?k @ [new_run e m]\<rparr>)"
    proof (rule append_run_jinv[OF k])
      show "r_run_id (new_run e m) \<notin> r_run_id ` set (runs ?k)"
        using opened(1) unfolding ids by (auto simp: new_run_def find_run_def find_None_iff')
      show "\<not> run_active r" if "r \<in> set (runs ?k)" "same_scope (r_metadata r) (r_metadata (new_run e m))" for r
        using that unfolding rs
        by (auto elim!: in_update_whereE simp: quarantine_row_def run_active_def new_run_def)
    qed (simp add: new_run_def)
    then show ?thesis using opened(3) by (simp add: event_jinv Let_def)
  qed
  show ?thesis
    using assms body
    by (cases "open_run_body e m j") (auto simp: open_run_def split: sum.splits)
qed

lemma quarantine_legacy_targets_jinv:
  assumes "jinv j"
  shows "jinv (snd (quarantine_legacy_targets e m ts j))"
  using assms by (auto simp: quarantine_legacy_targets_def Let_def intro!: quarantine_runs_jinv)

section \<open>Barriers and production\<close>

lemma open_barrier_jinv:
  assumes "jinv j"
  shows "jinv (snd (open_barrier rid name j))"
proof (cases "strip name \<noteq> [] \<and> run_is_open rid j \<and> find_barrier rid name j = None")
  case False
  then have "snd (open_barrier rid name j) = j"
    by (auto simp: open_barrier_def split: option.splits)
  then show ?thesis using assms by simp
next
  case True
  let ?x = "\<lparr>bar_run_id = rid, bar_name = name, bar_status = BarrierOpen,
                      bar_produced_count = 0, bar_drained_count = 0, bar_closed_at = None\<rparr>"
  have inv: "keys_ok j" "rows_ok j" "runs_ok j" "single_active j" "barriers_ok j"
    using assms by (auto simp: jinv_def)
  obtain r where r: "r \<in> set (runs j)" "r_run_id r = rid" "r_status r = RunOpen"
    using True run_is_openD by blast
  have fresh: "(rid, name) \<notin> bar_key ` set (barriers j)"
    using True by (auto simp: find_barrier_def find_None_iff')
  have none: "b_status b = Blocked" if "b \<in> set (batches j)" "produces ?x b" for b
    using that inv(5) fresh by (auto simp: barriers_rel_def produces_def)
  then have ok: "barrier_ok (batches j) ?x"
    using count_where_0_iff[of "\<lambda>b. produces ?x b \<and> b_status b = Done" "batches j"]
      count_where_0_iff[of "\<lambda>b. produces ?x b \<and> b_status b \<noteq> Blocked" "batches j"]
    by (fastforce simp: barrier_ok_def)
  let ?k = "j\<lparr>barriers := barriers j @ [?x]\<rparr>"
  have "keys_ok ?k" using inv(1) fresh r by (auto simp: keys_ok_def)
  moreover have "r_run_id s \<noteq> rid" if "s \<in> set (runs j)" "r_status s = RunDrained" for s
    using same_run_eq[OF inv(1) that(1) r(1)] r that(2) by auto
  then have "runs_ok ?k" using inv(3) by (fastforce simp: runs_ok_def)
  moreover have "barriers_ok ?k" using inv(5) ok by (auto simp: barriers_rel_def)
  ultimately have "jinv ?k" using inv(2,4) by (simp add: jinv_def rows_ok_def single_active_def)
  then show ?thesis using True by (simp add: open_barrier_def Let_def)
qed

text \<open>Changing rows of the barriers of one open run, each to a row that fits the batches.\<close>

lemma update_barriers_jinv:
  assumes "jinv j" "run_is_open rid j"
    and k: "runs j' = runs j" "batches j' = batches j" "barriers j' = update_where p f (barriers j)"
    and p: "\<And>x. p x \<Longrightarrow> bar_run_id x = rid" "\<And>x. p x \<Longrightarrow> bar_key (f x) = bar_key x"
    and ok: "\<And>x. x \<in> set (barriers j) \<Longrightarrow> p x \<Longrightarrow> barrier_ok (batches j) (f x)"
  shows "jinv j'"
proof -
  have inv: "keys_ok j" "rows_ok j" "runs_ok j" "single_active j" "barriers_ok j"
    using assms(1) by (auto simp: jinv_def)
  obtain r where r: "r \<in> set (runs j)" "r_run_id r = rid" "r_status r = RunOpen"
    using assms(2) run_is_openD by blast
  have keys: "map bar_key (barriers j') = map bar_key (barriers j)"
    unfolding k(3) by (rule map_update_where_key) (rule p(2))
  have "keys_ok j'" by (rule keys_ok_barriers[OF inv(1) k(1,2) keys])
  moreover have "runs_ok j'"
  proof -
    have "bar_status x = BarrierDrained"
      if s: "s \<in> set (runs j)" "r_status s = RunDrained" and "x \<in> set (barriers j')" "bar_run_id x = r_run_id s" for s x
      using that(3) unfolding k(3)
    proof (cases rule: in_update_whereE)
      case (hit y)
      then have "r_run_id s = rid" using p(1)[of y] p(2)[of y] that(4) by simp
      then show ?thesis using same_run_eq[OF inv(1) s(1) r(1)] r s(2) by simp
    next
      case miss
      then show ?thesis using s that(4) inv(3) by (auto simp: runs_ok_def)
    qed
    then show ?thesis using inv(3) k by (auto simp: runs_ok_def)
  qed
  moreover have "barriers_ok j'"
  proof -
    have "barrier_ok (batches j) x" if "x \<in> set (barriers j')" for x
      using that inv(5) ok unfolding k(3) by (auto elim!: in_update_whereE simp: barriers_rel_def list_all_iff)
    moreover have "bar_key ` set (barriers j') = bar_key ` set (barriers j)"
      using arg_cong[OF keys, of set] by simp
    ultimately show ?thesis using inv(5) k(2) by (simp add: barriers_rel_def list_all_iff)
  qed
  ultimately show ?thesis using inv(2,4) k by (simp add: jinv_def rows_ok_def single_active_def)
qed

lemma close_barrier_jinv:
  assumes "jinv j"
  shows "jinv (snd (close_barrier e rid name j))"
proof (cases "close_barrier_body e rid name j")
  case (Inl x)
  then show ?thesis using assms by (simp add: close_barrier_def)
next
  case (Inr res)
  obtain y j' where res: "res = (y, j')" by (cases res)
  obtain row where row: "find_barrier rid name j = Some row"
    using Inr by (auto simp: close_barrier_body_def split: option.splits)
  show ?thesis
  proof (cases "bar_status row = BarrierDrained")
    case True
    then show ?thesis using assms Inr row by (auto simp: close_barrier_def close_barrier_body_def)
  next
    case False
    let ?st = "if bar_drained_count row = bar_produced_count row then BarrierDrained else BarrierProduced"
    let ?f = "\<lambda>b. b\<lparr>bar_status := ?st, bar_closed_at := Some (e_now e)\<rparr>"
    let ?p = "\<lambda>b. bar_run_id b = rid \<and> bar_name b = name"
    have op: "run_is_open rid j" and j': "runs j' = runs j" "batches j' = batches j"
      "barriers j' = update_where ?p ?f (barriers j)"
      using Inr False row unfolding res by (auto simp: close_barrier_body_def Let_def split: if_splits)
    have inv: "keys_ok j" "barriers_ok j" using assms by (auto simp: jinv_def)
    have row_in: "row \<in> set (barriers j)" "bar_run_id row = rid" "bar_name row = name"
      using find_barrier_Some[OF row] by auto
    have "jinv j'"
    proof (rule update_barriers_jinv[OF assms op j'])
      fix x assume x: "x \<in> set (barriers j)" "?p x"
      then have "x = row" using unique_key_eq[OF keys_okD(3)[OF inv(1)] x(1) row_in(1)] row_in by simp
      moreover have "barrier_ok (batches j) row" using inv(2) row_in(1) by (auto simp: barriers_rel_def list_all_iff)
      moreover have "produces (?f row) = produces row" by (simp add: produces_def fun_eq_iff)
      ultimately show "barrier_ok (batches j) (?f x)" by (simp add: barrier_ok_def)
    qed auto
    then show ?thesis using Inr res by (simp add: close_barrier_def)
  qed
qed

lemma close_run_production_jinv:
  assumes "jinv j"
  shows "jinv (snd (close_run_production e rid j))"
proof -
  let ?g = "\<lambda>r. if r_status r = RunOpen then r\<lparr>r_status := RunDraining, r_updated_at := e_now e\<rparr> else r"
  let ?k = "update_runs (\<lambda>r. r_run_id r = rid \<and> r_status r = RunOpen)
      (\<lambda>r. r\<lparr>r_status := RunDraining, r_updated_at := e_now e\<rparr>) j"
  have rs: "runs ?k = update_where (\<lambda>r. r_run_id r = rid) ?g (runs j)"
    by (simp add: update_where_def)
  have st: "run_batch_ok (r_status r) (b_status b)"
    if "r \<in> set (runs j)" "r_run_id r = rid" "b \<in> set (batches j)" "b_run_id b = rid" for r b
    using that assms by (auto simp: jinv_def runs_ok_def)
  have "jinv ?k"
  proof (rule update_run_jinv[OF assms _ _ rs])
    show "run_batch_ok (r_status (?g r)) (b_status b)"
      if "r \<in> set (runs j)" "r_run_id r = rid" "b \<in> set (batches j)" "b_run_id b = rid" for r b
      using st[OF that] by auto
    show "bar_status x = BarrierDrained"
      if "r \<in> set (runs j)" "r_run_id r = rid" "r_status (?g r) = RunDrained" "x \<in> set (barriers j)" "bar_run_id x = rid" for r x
      using that assms by (auto simp: jinv_def runs_ok_def split: if_splits)
  qed (auto simp: run_active_def split: if_splits)
  then have "jinv (refresh_run_status e rid ?k)" by (rule refresh_run_status_jinv)
  then show ?thesis
    using assms by (auto simp: close_run_production_def Let_def split: option.splits)
qed

lemma complete_producers_same:
  "runs (snd (complete_producers e rid j)) = runs j \<and> batches (snd (complete_producers e rid j)) = batches j \<and>
   barriers (snd (complete_producers e rid j)) = barriers j"
  by (auto simp: complete_producers_def complete_producers_body_def Let_def)

lemma snd_transactionI: "P j \<Longrightarrow> (\<And>x k. b = Inr (x, k) \<Longrightarrow> P k) \<Longrightarrow> P (snd (transaction j b))"
  by (rule transaction_snd_cases[OF refl])

lemma seal_endpoint_audit_step:
  assumes "j' = snd (seal_endpoint_audit e rid d n a j)"
  shows "j' = j \<or> (\<exists>s. validate_endpoint_audit_boundary (e_sha e) rid None j = Inr s \<and> find_audit rid j = None \<and>
    j' = j\<lparr>audits := audits j @ [\<lparr>au_run_id = rid, au_status = Sealed,
           au_manifest_digest = cs_endpoint_manifest_digest s,
           au_receipt_count = int (cs_auditable_edge_rows s)\<rparr>]\<rparr>)"
proof (cases "(\<exists>n \<in> set_option a. n < 0) \<or> (\<exists>n \<in> set_option n. n < 0)")
  case True
  then show ?thesis using assms by (simp add: seal_endpoint_audit_def)
next
  case False
  show ?thesis
  proof (cases "validate_endpoint_audit_boundary (e_sha e) rid (find_audit rid j) j")
    case (Inl x)
    then show ?thesis using assms by (simp add: seal_endpoint_audit_def)
  next
    case (Inr s)
    then show ?thesis
      using assms False
      by (cases "find_audit rid j") (auto simp: seal_endpoint_audit_def seal_again_def seal_first_def Let_def)
  qed
qed

lemma jinv_core:
  "runs j' = runs j \<Longrightarrow> batches j' = batches j \<Longrightarrow> barriers j' = barriers j \<Longrightarrow> jinv j' = jinv j"
  by (simp add: jinv_def keys_ok_def rows_ok_def runs_ok_def single_active_def)

section \<open>Purging\<close>

lemma purge_run_step:
  assumes "j' = snd (snd (purge_run e own now rid st j))"
  shows "(same_tables j j' \<and> batches j' = batches j) \<or>
    (\<exists>r k. find_run rid j = Some r \<and> run_terminal r \<and> same_tables j k \<and> batches k = batches j \<and>
       j' = delete_run rid k)"
proof -
  let ?t = "case now of Some t \<Rightarrow> t | None \<Rightarrow> e_now e"
  have refl: "same_tables j j \<and> batches j = batches j" by (simp add: same_tables_def)
  have body: "k = j \<or> (\<exists>r refs. find_run rid j = Some r \<and> run_terminal r \<and> x = Some refs \<and> same_tables j k \<and> batches k = batches j)"
    if "begin_purge rid ?t j = Inr (x, k)" for x k
    using that by (auto simp: begin_purge_def Let_def same_tables_def split: option.splits if_splits)
  have some: "\<exists>r. find_run rid j = Some r \<and> run_terminal r \<and> same_tables j k \<and> batches k = batches j"
    if "begin_purge rid ?t j = Inr (Some refs, k)" for refs k
    using that by (auto simp: begin_purge_def Let_def same_tables_def split: option.splits if_splits)
  show ?thesis
  proof (cases "begin_purge rid ?t j")
    case (Inl x)
    then show ?thesis using assms refl by (auto simp: purge_run_def Let_def)
  next
    case (Inr res)
    obtain x k where res: "res = (x, k)" by (cases res)
    show ?thesis
    proof (cases x)
      case None
      then have "k = j" using body[of x k] Inr res by auto
      then show ?thesis using assms refl Inr res None by (auto simp: purge_run_def Let_def)
    next
      case (Some refs)
      obtain r where r: "find_run rid j = Some r" "run_terminal r" "same_tables j k" "batches k = batches j"
        using some[of refs k] Inr res Some by auto
      have "j' = j \<or> j' = k \<or> j' = delete_run rid k"
        using assms Inr res Some
        by (auto simp: purge_run_def Let_def split: prod.splits sum.splits if_splits)
      then show ?thesis using r refl by blast
    qed
  qed
qed

lemma delete_run_tables [simp]:
  "runs (delete_run rid j) = delete_where (\<lambda>r. r_run_id r = rid) (runs j)"
  "artifacts (delete_run rid j) = delete_where (\<lambda>a. a_run_id a = rid) (artifacts j)"
  "batches (delete_run rid j) = delete_where (\<lambda>b. b_run_id b = rid) (batches j)"
  "barriers (delete_run rid j) = delete_where (\<lambda>b. bar_run_id b = rid) (barriers j)"
  "producers (delete_run rid j) = delete_where (\<lambda>p. p_run_id p = rid) (producers j)"
  "manifests (delete_run rid j) = delete_where (\<lambda>m. m_run_id m = rid) (manifests j)"
  "endpoints (delete_run rid j) = delete_where (\<lambda>n. en_run_id n = rid) (endpoints j)"
  "audits (delete_run rid j) = delete_where (\<lambda>a. au_run_id a = rid) (audits j)"
  by (simp_all add: delete_run_def)

lemma delete_run_jinv:
  assumes "jinv j"
  shows "jinv (delete_run rid j)"
proof -
  have inv: "keys_ok j" "rows_ok j" "runs_ok j" "single_active j" "barriers_ok j"
    using assms by (auto simp: jinv_def)
  have "keys_ok (delete_run rid j)"
  proof -
    have "b_run_id b \<in> r_run_id ` {r \<in> set (runs j). r_run_id r \<noteq> rid}"
      if "b \<in> set (batches j)" "b_run_id b \<noteq> rid" for b
      using keys_okD(4)[OF inv(1) that(1)] that(2) by (auto simp: image_iff intro: rev_bexI)
    moreover have "bar_run_id x \<in> r_run_id ` {r \<in> set (runs j). r_run_id r \<noteq> rid}"
      if "x \<in> set (barriers j)" "bar_run_id x \<noteq> rid" for x
      using keys_okD(5)[OF inv(1) that(1)] that(2) by (auto simp: image_iff intro: rev_bexI)
    ultimately show ?thesis
      using keys_okD(1-3)[OF inv(1)] unfolding keys_ok_def
      by (auto simp: distinct_map_delete_where)
  qed
  moreover have "barriers_ok (delete_run rid j)"
  proof -
    have "barrier_ok (delete_where (\<lambda>b. b_run_id b = rid) (batches j)) x"
      if "bar_run_id x \<noteq> rid" "barrier_ok (batches j) x" for x
    proof -
      have "count_where (\<lambda>b. produces x b \<and> q b) (delete_where (\<lambda>b. b_run_id b = rid) (batches j)) =
          count_where (\<lambda>b. produces x b \<and> q b) (batches j)" for q
        using that(1) by (intro count_where_delete_where) (auto simp: produces_def)
      then show ?thesis using that(2) by (auto simp: barrier_ok_def)
    qed
    moreover have "(b_run_id b, n) \<in> bar_key ` {x \<in> set (barriers j). bar_run_id x \<noteq> rid}"
      if b: "b \<in> set (batches j)" "b_run_id b \<noteq> rid" "n \<in> set (b_produced_barriers b)" "b_status b \<noteq> Blocked" for b n
    proof -
      have "(b_run_id b, n) \<in> bar_key ` set (barriers j)"
        using inv(5) b(1,3,4) unfolding barriers_rel_def by blast
      then obtain x where "x \<in> set (barriers j)" "bar_run_id x = b_run_id b" "bar_name x = n" by auto
      then show ?thesis using b(2) by (intro image_eqI[of _ _ x]) auto
    qed
    ultimately show ?thesis
      using inv(5) unfolding barriers_rel_def by (auto simp: list_all_iff)
  qed
  moreover have "rows_ok (delete_run rid j)" "runs_ok (delete_run rid j)" "single_active (delete_run rid j)"
    using inv(2-4) by (auto simp: rows_ok_def list_all_iff runs_ok_def single_active_def)
  ultimately show ?thesis by (simp add: jinv_def)
qed

lemma purge_run_jinv:
  assumes "jinv j"
  shows "jinv (snd (snd (purge_run e own now rid st j)))"
  using purge_run_step[OF refl, where e = e and own = own and now = now and rid = rid and st = st and j = j] assms same_tables_jinv delete_run_jinv by metis

section \<open>Enqueueing\<close>

lemma stage_candidate_tables:
  assumes "stage_candidate rid job producer c (counts, j) = Inr (counts', j')"
  shows "runs j' = runs j" "batches j' = batches j" "barriers j' = barriers j"
    "producers j' = producers j" "audits j' = audits j"
  using assms by (auto simp: stage_candidate_def Let_def split: if_splits)

lemma stage_candidates_tables:
  assumes "rfold (stage_candidate rid job producer) cs (counts, j) = Inr (counts', j')"
  shows "runs j' = runs j \<and> batches j' = batches j \<and> barriers j' = barriers j \<and>
    producers j' = producers j \<and> audits j' = audits j"
  using assms
proof (induction cs arbitrary: counts j)
  case (Cons c cs)
  then obtain ct k where k: "stage_candidate rid job producer c (counts, j) = Inr (ct, k)"
    "rfold (stage_candidate rid job producer) cs (ct, k) = Inr (counts', j')"
    by (auto simp: rbind_Inr_iff)
  show ?case using Cons.IH[OF k(2)] stage_candidate_tables[OF k(1)] by simp
qed simp

lemma register_producer_tables [simp]:
  "runs (register_producer rid pid j) = runs j" "batches (register_producer rid pid j) = batches j"
  "barriers (register_producer rid pid j) = barriers j" "manifests (register_producer rid pid j) = manifests j"
  "endpoints (register_producer rid pid j) = endpoints j" "audits (register_producer rid pid j) = audits j"
  by (simp_all add: register_producer_def)

lemma stage_batch_tables:
  assumes "stage_batch rid job mc j = Inr (failure, j')"
  shows "runs j' = runs j \<and> batches j' = batches j \<and> barriers j' = barriers j \<and> audits j' = audits j"
proof (cases mc)
  case None
  then show ?thesis using assms by (simp add: stage_batch_def)
next
  case (Some pc)
  obtain producer cs where pc: "pc = (producer, cs)" by (cases pc)
  obtain counts k where k: "stage_manifests rid job producer cs j = Inr (counts, k)" "j' = k"
    using assms Some pc by (auto simp: stage_batch_def rbind_Inr_iff)
  obtain j0 ct k0 where j0: "j0 = j \<or> j0 = register_producer rid producer j"
    "rfold (stage_candidate rid job producer) cs (zero_counts, j0) = Inr (ct, k0)"
    "k = count_producer rid producer ct k0"
    using k(1) by (auto simp: stage_manifests_def rbind_Inr_iff split: option.splits if_splits)
  have "runs k = runs k0" "batches k = batches k0" "barriers k = barriers k0" "audits k = audits k0"
    unfolding j0(3) by (simp_all add: count_producer_def)
  then show ?thesis
    using stage_candidates_tables[OF j0(2)] j0(1) k(2) by auto
qed

text \<open>
  The loop over the produced barriers. Its invariant relates the barriers to the batches that
  were there before and the new one, with the produced barriers of the new one cut down to the
  names already handled.
\<close>

lemma barrier_ok_append:
  "barrier_ok (bs @ [c]) x \<longleftrightarrow>
     bar_drained_count x = int (count_where (\<lambda>b. produces x b \<and> b_status b = Done) bs) +
       (if produces x c \<and> b_status c = Done then 1 else 0) \<and>
     int (count_where (\<lambda>b. produces x b \<and> b_status b \<noteq> Blocked) bs) +
       (if produces x c \<and> b_status c \<noteq> Blocked then 1 else 0) \<le> bar_produced_count x \<and>
     (bar_status x = BarrierOpen \<longleftrightarrow> bar_closed_at x = None) \<and>
     (bar_status x = BarrierDrained \<longrightarrow> bar_drained_count x = bar_produced_count x)"
  by (auto simp: barrier_ok_def)

definition produce_inv ::
  "batch_row list \<Rightarrow> batch_row \<Rightarrow> string \<Rightarrow> journal \<Rightarrow> string list \<Rightarrow> journal \<Rightarrow> bool" where
  "produce_inv bs c rid j0 ps j \<longleftrightarrow>
     barriers_rel (bs @ [c\<lparr>b_produced_barriers := ps\<rparr>]) (barriers j) \<and>
     distinct (map bar_key (barriers j)) \<and>
     (\<forall>x \<in> set (barriers j). bar_run_id x \<noteq> rid \<longrightarrow> x \<in> set (barriers j0)) \<and>
     runs j = runs j0 \<and> batches j = batches j0 \<and>
     producers j = producers j0 \<and> manifests j = manifests j0 \<and> endpoints j = endpoints j0 \<and>
     audits j = audits j0 \<and> artifacts j = artifacts j0"

lemma produce_barrier_inv:
  assumes "produce_inv bs c rid j0 ps j" "b_run_id c = rid" "b_status c = Pending" "n \<notin> set ps"
    "produce_barrier rid n j = Inr j'"
  shows "produce_inv bs c rid j0 (ps @ [n]) j'"
proof -
  let ?c = "c\<lparr>b_produced_barriers := ps\<rparr>" and ?d = "c\<lparr>b_produced_barriers := ps @ [n]\<rparr>"
  have rel: "barriers_rel (bs @ [?c]) (barriers j)" and dist: "distinct (map bar_key (barriers j))"
    using assms(1) by (auto simp: produce_inv_def)
  have old: "barrier_ok (bs @ [?c]) x" if "x \<in> set (barriers j)" for x
    using rel that by (simp add: barriers_rel_def list_all_iff)
  have other: "barrier_ok (bs @ [?d]) x" if "x \<in> set (barriers j)" "bar_key x \<noteq> (rid, n)" for x
  proof -
    have "produces x ?d = produces x ?c" using that(2) assms(2) by (auto simp: produces_def)
    then have "barrier_ok (bs @ [?d]) x = barrier_ok (bs @ [?c]) x" by (simp add: barrier_ok_append)
    then show ?thesis using old[OF that(1)] by simp
  qed
  show ?thesis
  proof (cases "find_barrier rid n j")
    case None
    let ?x = "\<lparr>bar_run_id = rid, bar_name = n, bar_status = BarrierOpen, bar_produced_count = 1,
                 bar_drained_count = 0, bar_closed_at = None\<rparr>"
    have j': "j' = j\<lparr>barriers := barriers j @ [?x]\<rparr>"
      using assms(5) None by (simp add: produce_barrier_def)
    have fresh: "(rid, n) \<notin> bar_key ` set (barriers j)"
      using None by (auto simp: find_barrier_def find_None_iff')
    have blocked: "b_status b = Blocked" if "b \<in> set bs" "produces ?x b" for b
      using that rel fresh by (auto simp: barriers_rel_def produces_def)
    have "count_where (\<lambda>b. produces ?x b \<and> b_status b = Done) bs = 0"
      "count_where (\<lambda>b. produces ?x b \<and> b_status b \<noteq> Blocked) bs = 0"
      unfolding count_where_0_iff using blocked by fastforce+
    then have new: "barrier_ok (bs @ [?d]) ?x" using assms(3) by (simp add: barrier_ok_append)
    have "barrier_ok (bs @ [?d]) x" if "x \<in> set (barriers j)" for x
    proof (rule other[OF that])
      show "bar_key x \<noteq> (rid, n)"
      proof
        assume "bar_key x = (rid, n)"
        then show False using imageI[OF that, of bar_key] fresh by (simp only: simp_thms)
      qed
    qed
    then have "barriers_rel (bs @ [?d]) (barriers j')"
      using rel new assms(2) unfolding j' barriers_rel_def by (auto simp: list_all_iff)
    moreover have "distinct (map bar_key (barriers j'))" using dist fresh by (simp add: j')
    ultimately show ?thesis using assms(1) by (auto simp: produce_inv_def j')
  next
    case (Some y)
    let ?p = "\<lambda>b. bar_run_id b = rid \<and> bar_name b = n"
    let ?f = "\<lambda>b. b\<lparr>bar_produced_count := bar_produced_count b + 1\<rparr>"
    have op: "bar_status y = BarrierOpen" and j': "j' = update_barriers ?p ?f j"
      using assms(5) Some by (auto simp: produce_barrier_def split: if_splits)
    have y: "y \<in> set (barriers j)" "?p y" using find_barrier_Some[OF Some] by auto
    have keys: "map bar_key (barriers j') = map bar_key (barriers j)"
      unfolding j' update_barriers_tables by (rule map_update_where_key) simp
    have hit: "barrier_ok (bs @ [?d]) (?f x)" if x: "x \<in> set (barriers j)" "?p x" for x
    proof -
      have "x = y" using unique_key_eq[OF dist x(1) y(1)] x(2) y(2) by simp
      then have "bar_status x = BarrierOpen" using op by simp
      moreover have "produces (?f x) = produces x" by (simp add: produces_def fun_eq_iff)
      moreover have "produces x ?d" "\<not> produces x ?c" using x(2) assms(2,4) by (auto simp: produces_def)
      ultimately show ?thesis using old[OF x(1)] assms(3) by (simp add: barrier_ok_append)
    qed
    have "barrier_ok (bs @ [?d]) x" if "x \<in> set (barriers j')" for x
      using that hit other unfolding j' update_barriers_tables by (auto elim!: in_update_whereE)
    moreover have "bar_key ` set (barriers j') = bar_key ` set (barriers j)"
      using arg_cong[OF keys, of set] by simp
    moreover have "(rid, n) \<in> bar_key ` set (barriers j)" using y by (auto simp: image_iff)
    ultimately have "barriers_rel (bs @ [?d]) (barriers j')"
      using rel assms(2) unfolding barriers_rel_def by (auto simp: list_all_iff)
    then show ?thesis
      using assms(1) keys dist unfolding produce_inv_def j' by (auto elim!: in_update_whereE)
  qed
qed

lemma produce_barriers_inv:
  assumes "rfold (produce_barrier rid) ns j = Inr j'" "produce_inv bs c rid j0 ps j"
    "b_run_id c = rid" "b_status c = Pending" "distinct (ps @ ns)"
  shows "produce_inv bs c rid j0 (ps @ ns) j'"
  using assms
proof (induction ns arbitrary: ps j)
  case (Cons n ns)
  then obtain k where k: "produce_barrier rid n j = Inr k" "rfold (produce_barrier rid) ns k = Inr j'"
    by (auto simp: rbind_Inr_iff)
  have "produce_inv bs c rid j0 (ps @ [n]) k"
    by (rule produce_barrier_inv[OF Cons.prems(2-4) _ k(1)]) (use Cons.prems(5) in simp)
  from Cons.IH[OF k(2) this Cons.prems(3,4)] Cons.prems(5) show ?case by simp
qed simp

lemma reference_artifact_tables:
  assumes "reference_artifact rid ref j = Inr j'"
  shows "runs j' = runs j" "batches j' = batches j" "barriers j' = barriers j" "audits j' = audits j"
    "producers j' = producers j" "manifests j' = manifests j" "endpoints j' = endpoints j"
  using assms by (auto simp: reference_artifact_def split: option.splits if_splits)

text \<open>
  The two outcomes of a transaction that inserts a batch: it is pending and counted by the
  barriers it produces, or its manifest was refused and both it and its run are blocked.
\<close>

definition rejected_row :: "batch_row \<Rightarrow> batch_row" where
  "rejected_row b = b\<lparr>b_status := Blocked, b_retry_class := Some Integrity,
     b_error_code := Some InvalidContract\<rparr>"

lemma enqueue_body_cases:
  assumes "enqueue_body e rid job spec mc j = Inr ((b, failure), j')"
  obtains (duplicate) dup where "find_batch job j = Some dup" "b = batch_record.truncate dup" "failure = []" "j' = j"
  | (inserted) j1 j2 j3 j4 where "find_batch job j = None" "run_is_open rid j" "\<not> production_complete rid j"
      "reference_artifact rid (sp_artifact spec) j = Inr j1" "insert_batch e rid job spec j1 = Inr j2"
      "stage_batch rid job mc j2 = Inr (failure, j3)" "settle_batch e rid job spec failure j3 = Inr j4"
      "j' = enqueue_event e rid job spec failure j4"
  using assms
  by (cases "find_batch job j")
    (auto simp: enqueue_body_def Let_def rbind_Inr_iff split: if_splits option.splits)

lemma enqueue_event_tables [simp]:
  "runs (enqueue_event e rid job spec f j) = runs j" "batches (enqueue_event e rid job spec f j) = batches j"
  "barriers (enqueue_event e rid job spec f j) = barriers j" "producers (enqueue_event e rid job spec f j) = producers j"
  "manifests (enqueue_event e rid job spec f j) = manifests j" "endpoints (enqueue_event e rid job spec f j) = endpoints j"
  "audits (enqueue_event e rid job spec f j) = audits j" "artifacts (enqueue_event e rid job spec f j) = artifacts j"
  by (simp_all add: enqueue_event_def)

lemma insert_batch_effect:
  assumes "insert_batch e rid job spec j = Inr j'"
  shows "j' = j\<lparr>batches := batches j @ [new_batch e rid job spec]\<rparr>" "0 < sp_max_attempts spec"
  using assms by (auto simp: insert_batch_def split: if_splits)

lemma enqueue_inserted:
  assumes "find_batch job j = None" "reference_artifact rid (sp_artifact spec) j = Inr j1"
    "insert_batch e rid job spec j1 = Inr j2" "stage_batch rid job mc j2 = Inr (failure, j3)"
    "settle_batch e rid job spec failure j3 = Inr j4"
  defines "c \<equiv> new_batch e rid job spec"
  shows "(failure = [] \<and> batches j4 = batches j @ [c] \<and> runs j4 = runs j \<and>
            rfold (produce_barrier rid) (b_produced_barriers c) j3 = Inr j4 \<and> barriers j3 = barriers j) \<or>
         (failure \<noteq> [] \<and> batches j4 = batches j @ [rejected_row c] \<and>
            runs j4 = runs (set_run_error e rid RunBlocked InvalidContract j) \<and> barriers j4 = barriers j)"
    and "runs j3 = runs j" "batches j3 = batches j @ [c]" "barriers j3 = barriers j" "0 < b_max_attempts c"
proof -
  have j2: "runs j2 = runs j" "batches j2 = batches j @ [c]" "barriers j2 = barriers j"
    using insert_batch_effect[OF assms(3)] reference_artifact_tables[OF assms(2)] by (simp_all add: c_def)
  then show j3: "runs j3 = runs j" "batches j3 = batches j @ [c]" "barriers j3 = barriers j"
    using stage_batch_tables[OF assms(4)] by auto
  show "0 < b_max_attempts c" using insert_batch_effect(2)[OF assms(3)] by (simp add: c_def new_batch_def)
  have fresh: "b_job_id b \<noteq> job" if "b \<in> set (batches j)" for b
    using assms(1) that by (auto simp: find_batch_def find_None_iff')
  have "update_where (\<lambda>b. b_job_id b = job) f (batches j @ [c]) = batches j @ [f c]" for f
    using fresh by (simp add: update_where_none c_def new_batch_def)
  then have rej: "batches (reject_batch e rid job j3) = batches j @ [rejected_row c]"
    "runs (reject_batch e rid job j3) = runs (set_run_error e rid RunBlocked InvalidContract j)"
    "barriers (reject_batch e rid job j3) = barriers j"
    by (simp_all add: reject_batch_def j3 rejected_row_def del: update_where_append)
  have prod: "b_produced_barriers c = sorted_set (sp_produced_barriers spec)" by (simp add: c_def new_batch_def)
  have keep: "runs k = runs j' \<and> batches k = batches j'"
    if "rfold (produce_barrier rid) ns j' = Inr k" for ns j' k
    by (rule rfold_invariant[OF that]) (auto simp: produce_barrier_def split: option.splits if_splits)
  show "(failure = [] \<and> batches j4 = batches j @ [c] \<and> runs j4 = runs j \<and>
            rfold (produce_barrier rid) (b_produced_barriers c) j3 = Inr j4 \<and> barriers j3 = barriers j) \<or>
         (failure \<noteq> [] \<and> batches j4 = batches j @ [rejected_row c] \<and>
            runs j4 = runs (set_run_error e rid RunBlocked InvalidContract j) \<and> barriers j4 = barriers j)"
  proof (cases "failure = []")
    case True
    then have fold: "rfold (produce_barrier rid) (b_produced_barriers c) j3 = Inr j4"
      using assms(5) by (simp add: settle_batch_def prod)
    from keep[OF this] j3 True fold show ?thesis by simp
  next
    case False
    then have "j4 = reject_batch e rid job j3" using assms(5) by (simp add: settle_batch_def)
    then show ?thesis using False rej by simp
  qed
qed

lemma append_batch_keys:
  assumes "keys_ok j" "find_batch (b_job_id c) j = None" "r \<in> set (runs j)" "r_run_id r = b_run_id c"
    "batches j' = batches j @ [c]" "map r_run_id (runs j') = map r_run_id (runs j)"
    "distinct (map bar_key (barriers j'))"
    "\<And>x. x \<in> set (barriers j') \<Longrightarrow> bar_run_id x \<noteq> b_run_id c \<Longrightarrow> x \<in> set (barriers j)"
  shows "keys_ok j'"
proof -
  have ids: "r_run_id ` set (runs j') = r_run_id ` set (runs j)"
    using arg_cong[OF assms(6), of set] by simp
  have job: "b_job_id c \<notin> b_job_id ` set (batches j)"
    using assms(2) by (auto simp: find_batch_def find_None_iff')
  have run: "b_run_id c \<in> r_run_id ` set (runs j)" using assms(3,4) by (metis image_eqI)
  have "bar_run_id x \<in> r_run_id ` set (runs j)" if "x \<in> set (barriers j')" for x
    using assms(1) assms(8)[OF that] run by (cases "bar_run_id x = b_run_id c") (auto simp: keys_ok_def)
  then show ?thesis
    using assms(1,5,6,7) ids job run unfolding keys_ok_def by auto
qed

lemma new_batch_ok: "0 < b_max_attempts (new_batch e rid job spec) \<Longrightarrow> batch_ok (new_batch e rid job spec)"
  by (simp add: batch_ok_def new_batch_def)

lemma enqueue_accepted_jinv:
  assumes "jinv j" "find_batch job j = None" "run_is_open rid j" "0 < b_max_attempts c"
    and c: "c = new_batch e rid job spec"
    and j3: "runs j3 = runs j" "batches j3 = batches j @ [c]" "barriers j3 = barriers j"
    and fold: "rfold (produce_barrier rid) (b_produced_barriers c) j3 = Inr j4"
  shows "jinv j4"
proof -
  have inv: "keys_ok j" "rows_ok j" "runs_ok j" "single_active j" "barriers_ok j"
    using assms(1) by (auto simp: jinv_def)
  obtain r where r: "r \<in> set (runs j)" "r_run_id r = rid" "r_status r = RunOpen"
    using run_is_openD[OF assms(3)] by blast
  have cs: "b_run_id c = rid" "b_status c = Pending" "b_job_id c = job" "distinct (b_produced_barriers c)"
    by (simp_all add: c new_batch_def)
  have start: "produce_inv (batches j) c rid j3 [] j3"
  proof -
    have np: "\<not> produces x (c\<lparr>b_produced_barriers := []\<rparr>)" for x by (simp add: produces_def)
    then have "barrier_ok (batches j @ [c\<lparr>b_produced_barriers := []\<rparr>]) x = barrier_ok (batches j) x" for x
      by (simp add: barrier_ok_append barrier_ok_def[of "batches j"])
    then have "barriers_rel (batches j @ [c\<lparr>b_produced_barriers := []\<rparr>]) (barriers j)"
      using inv(5) by (simp add: barriers_rel_def list_all_iff)
    then show ?thesis using keys_okD(3)[OF inv(1)] j3 by (simp add: produce_inv_def)
  qed
  have "produce_inv (batches j) c rid j3 ([] @ b_produced_barriers c) j4"
    by (rule produce_barriers_inv[OF fold start cs(1,2)]) (simp add: cs(4))
  moreover have "c\<lparr>b_produced_barriers := b_produced_barriers c\<rparr> = c" by simp
  ultimately have rel: "barriers_rel (batches j @ [c]) (barriers j4)" "distinct (map bar_key (barriers j4))"
    and loc: "\<And>x. x \<in> set (barriers j4) \<Longrightarrow> bar_run_id x \<noteq> rid \<Longrightarrow> x \<in> set (barriers j)"
    and j4: "runs j4 = runs j" "batches j4 = batches j @ [c]"
    using j3 by (auto simp: produce_inv_def)
  have "keys_ok j4"
    by (rule append_batch_keys[OF inv(1) _ r(1) _ j4(2)]) (use assms(2) cs r j4(1) rel(2) loc in auto)
  moreover have "rows_ok j4"
    using inv(2) new_batch_ok assms(4) unfolding c by (simp add: rows_ok_def j4 c)
  moreover have "runs_ok j4"
  proof -
    have rr: "s = r" if "s \<in> set (runs j)" "r_run_id s = rid" for s
      using same_run_eq[OF inv(1) that(1) r(1)] r(2) that(2) by simp
    have "run_batch_ok (r_status s) (b_status b)"
      if s: "s \<in> set (runs j)" and b: "b \<in> set (batches j @ [c])" "b_run_id b = r_run_id s" for s b
    proof (cases "b = c")
      case True
      then have "s = r" using rr[OF s] b(2) cs(1) by simp
      then show ?thesis using True cs(2) r(3) by simp
    next
      case False
      then show ?thesis using s b inv(3) by (auto simp: runs_ok_def)
    qed
    moreover have "bar_status x = BarrierDrained"
      if s: "s \<in> set (runs j)" "r_status s = RunDrained" and x: "x \<in> set (barriers j4)" "bar_run_id x = r_run_id s" for s x
    proof -
      have "r_run_id s \<noteq> rid" using rr[OF s(1)] r(3) s(2) by auto
      then show ?thesis using loc[OF x(1)] x(2) s inv(3) by (auto simp: runs_ok_def)
    qed
    ultimately show ?thesis by (simp add: runs_ok_def j4)
  qed
  ultimately show ?thesis using inv(4) rel(1) j4 by (simp add: jinv_def single_active_def)
qed

lemma enqueue_rejected_jinv:
  assumes "jinv j" "find_batch job j = None" "run_is_open rid j" "0 < b_max_attempts c"
    and c: "c = new_batch e rid job spec"
    and j4: "batches j4 = batches j @ [rejected_row c]" "barriers j4 = barriers j"
      "runs j4 = runs (set_run_error e rid RunBlocked InvalidContract j)"
  shows "jinv j4"
proof -
  have inv: "keys_ok j" "rows_ok j" "runs_ok j" "single_active j" "barriers_ok j"
    using assms(1) by (auto simp: jinv_def)
  obtain r where r: "r \<in> set (runs j)" "r_run_id r = rid" "r_status r = RunOpen"
    using run_is_openD[OF assms(3)] by blast
  let ?c = "rejected_row c"
  have cs: "b_run_id ?c = rid" "b_status ?c = Blocked" "b_job_id ?c = job" "batch_ok ?c"
    using assms(4) by (simp_all add: c new_batch_def rejected_row_def batch_ok_def)
  let ?g = "\<lambda>r. r\<lparr>r_status := RunBlocked, r_error_code := Some InvalidContract, r_updated_at := e_now e,
             r_retention_until := retention_until e\<rparr>"
  let ?k = "set_run_error e rid RunBlocked InvalidContract j"
  have rs: "runs j4 = update_where (\<lambda>r. r_run_id r = rid) ?g (runs j)" using j4(3) by simp
  have k: "jinv ?k"
    by (rule update_run_jinv[OF assms(1), where rid = rid and g = ?g]) (auto simp: run_active_def)
  have "keys_ok j4"
    by (rule append_batch_keys[OF inv(1) _ r(1) _ j4(1)])
      (use assms(2) cs r rs keys_okD(3)[OF inv(1)] j4(2) in \<open>auto simp: map_update_where_key\<close>)
  moreover have "rows_ok j4" using inv(2) cs(4) by (simp add: rows_ok_def j4)
  moreover have "runs_ok j4"
  proof -
    have "run_batch_ok (r_status s) (b_status ?c)" if "s \<in> set (runs j4)" "r_run_id s = rid" for s
      using that(1) unfolding rs by (cases rule: in_update_whereE) (simp_all add: that(2))
    moreover have "run_batch_ok (r_status s) (b_status b)"
      if "s \<in> set (runs j4)" "b \<in> set (batches j)" "b_run_id b = r_run_id s" for s b
      using k that unfolding jinv_def runs_ok_def j4(3)[symmetric] set_run_error_tables(3,4) by blast
    moreover have "bar_status x = BarrierDrained"
      if "s \<in> set (runs j4)" "x \<in> set (barriers j)" "r_status s = RunDrained" "bar_run_id x = r_run_id s" for s x
      using k that unfolding jinv_def runs_ok_def j4(3)[symmetric] set_run_error_tables(3,4) by blast
    ultimately show ?thesis
      unfolding runs_ok_def j4(1,2) using cs(1) by (auto simp del: set_run_error_tables)
  qed
  moreover have "single_active j4" using k j4 by (simp add: jinv_def single_active_def)
  moreover have "barriers_ok j4"
  proof -
    have "barrier_ok (batches j @ [?c]) x = barrier_ok (batches j) x" for x
      using cs(2) by (simp add: barrier_ok_def)
    then show ?thesis using inv(5) cs(2) by (simp add: barriers_rel_def j4 list_all_iff)
  qed
  ultimately show ?thesis by (simp add: jinv_def)
qed

lemma enqueue_body_jinv:
  assumes "jinv j" "enqueue_body e rid job spec mc j = Inr ((b, failure), j')"
  shows "jinv j'"
  using assms(2)
proof (cases rule: enqueue_body_cases)
  case (duplicate dup)
  then show ?thesis using assms(1) by simp
next
  case (inserted j1 j2 j3 j4)
  note ins = enqueue_inserted[OF inserted(1,4,5,6,7)]
  have "jinv j4"
    using ins(1)
  proof (elim disjE conjE)
    assume "rfold (produce_barrier rid) (b_produced_barriers (new_batch e rid job spec)) j3 = Inr j4"
    then show ?thesis by (rule enqueue_accepted_jinv[OF assms(1) inserted(1,2) ins(5) refl ins(2,3,4)])
  next
    assume "batches j4 = batches j @ [rejected_row (new_batch e rid job spec)]" "barriers j4 = barriers j"
      "runs j4 = runs (set_run_error e rid RunBlocked InvalidContract j)"
    then show ?thesis by (rule enqueue_rejected_jinv[OF assms(1) inserted(1,2) ins(5) refl])
  qed
  then show ?thesis using inserted(8) by (simp add: enqueue_event_def event_jinv)
qed

lemma enqueue_batch_step:
  assumes "j' = snd (enqueue_batch e st rid spec j)"
  shows "j' = j \<or> (\<exists>run rows b failure. get_run rid j = Some run \<and>
    read_jsonl (e_sha e) st (sp_artifact spec) = Inr rows \<and>
    enqueue_body e rid (job_id_of e run spec) spec
      (manifest_candidates (e_sha e) run spec rows (job_id_of e run spec)) j = Inr ((b, failure), j'))"
proof (cases "get_run rid j")
  case None
  then show ?thesis using assms by (simp add: enqueue_batch_def)
next
  case (Some run)
  show ?thesis
  proof (cases "pure_posix_parts (relative_path (sp_artifact spec)) = [rid, artifact_name (sha256 (sp_artifact spec))]")
    case False
    then show ?thesis using Some assms by (simp add: enqueue_batch_def)
  next
    case True
    show ?thesis
    proof (cases "rbind (artifact_verify (e_sha e) st (sp_artifact spec))
        (\<lambda>_. read_jsonl (e_sha e) st (sp_artifact spec))")
      case (Inl x)
      then show ?thesis using True Some assms by (simp add: enqueue_batch_def)
    next
      case (Inr rows)
      let ?job = "job_id_of e run spec"
      let ?body = "enqueue_body e rid ?job spec (manifest_candidates (e_sha e) run spec rows ?job) j"
      have read: "read_jsonl (e_sha e) st (sp_artifact spec) = Inr rows"
        using Inr by (auto simp: rbind_Inr_iff)
      have "j' = snd (transaction j ?body)"
        using Inr True Some assms by (auto simp: enqueue_batch_def Let_def split: prod.splits sum.splits)
      then show ?thesis
        using Some read by (cases rule: transaction_cases[of ?body j]) auto
    qed
  qed
qed

lemma enqueue_batch_jinv:
  assumes "jinv j"
  shows "jinv (snd (enqueue_batch e st rid spec j))"
  using enqueue_batch_step[OF refl, where e = e and st = st and rid = rid and spec = spec and j = j]
    assms enqueue_body_jinv[OF assms] by metis

section \<open>Every operation preserves the invariants\<close>

lemma owned_steps_jinv:
  assumes "jinv j"
  shows "jinv (snd (ack_batch e job token ms j))" "jinv (snd (schedule_retry e job token t rc code j))"
    "jinv (snd (schedule_reconciliation_retry e job token t code j))" "jinv (snd (block_batch e job token rc code j))"
proof -
  show "jinv (snd (ack_batch e job token ms j))"
    using ack_batch_step[OF assms refl, where e = e and job = job and token = token and ms = ms]
  proof (elim disjE exE conjE)
    fix row k ev
    assume "acked_state row j k" and fin: "snd (ack_batch e job token ms j) = refresh_run_status e (b_run_id row) (ev k)"
      and ev: "\<forall>k. same_tables k (ev k) \<and> batches (ev k) = batches k"
    then have "jinv (ev k)" using acked_jinv[OF _ assms] same_tables_jinv[of k "ev k"] by simp
    then show ?thesis unfolding fin by (rule refresh_run_status_jinv)
  qed (simp add: assms)
  show "jinv (snd (schedule_retry e job token t rc code j))"
    using schedule_retry_step[OF assms refl, where e = e and job = job and token = token and t = t and rc = rc and code = code]
      benign_jinv fails_jinv assms by metis
  show "jinv (snd (schedule_reconciliation_retry e job token t code j))"
    using schedule_reconciliation_retry_step[OF assms refl, where e = e and job = job and token = token and t = t and code = code]
      benign_jinv benign_live fails_jinv assms by metis
  show "jinv (snd (block_batch e job token rc code j))"
    using block_batch_step[OF assms refl, where e = e and job = job and token = token and rc = rc and code = code]
      fails_jinv assms by metis
qed

lemma benign_ops_jinv:
  assumes "jinv j" "benign row_keep j j'"
  shows "jinv j'"
  using benign_jinv[OF benign_live[OF assms(2)] assms(1)] .

lemma apply_op_jinv:
  assumes "jinv j"
  shows "jinv (apply_op op j)"
proof (cases op)
  case (CompleteProducers e rid)
  then show ?thesis
    using complete_producers_same[of e rid j] jinv_core[of "apply_op op j" j] assms by simp
next
  case (SealEndpointAudit e rid d n a)
  then have "runs (apply_op op j) = runs j \<and> batches (apply_op op j) = batches j \<and> barriers (apply_op op j) = barriers j"
    using seal_endpoint_audit_step[OF refl, where e = e and rid = rid and d = d and n = n and a = a and j = j] by auto
  then show ?thesis using jinv_core[of "apply_op op j" j] assms by simp
qed (simp_all add: assms open_run_jinv quarantine_legacy_targets_jinv enqueue_batch_jinv open_barrier_jinv
    close_barrier_jinv owned_steps_jinv close_run_production_jinv purge_run_jinv
    benign_ops_jinv[OF assms claims_benign(1)] benign_ops_jinv[OF assms claims_benign(2)]
    benign_ops_jinv[OF assms claims_benign(3)] benign_ops_jinv[OF assms claims_benign(4)]
    benign_ops_jinv[OF assms renew_lease_benign] benign_ops_jinv[OF assms mark_reconciling_benign]
    benign_ops_jinv[OF assms recovers_benign(1)] benign_ops_jinv[OF assms recovers_benign(2)])

definition reachable :: "(string \<Rightarrow> string) \<Rightarrow> journal \<Rightarrow> bool" where
  "reachable h j \<longleftrightarrow> (jstep h)\<^sup>*\<^sup>* empty_journal j"

lemma reachable_reach: "reachable h j \<Longrightarrow> jsys.reach h j"
  unfolding reachable_def by (erule jsys.reach_rtranclp) (rule jsys.reach_initial)

lemma reachable_jinv: "reachable h j \<Longrightarrow> jinv j"
  by (drule reachable_reach, erule jsys.reach_invariant[where I = jinv]) (auto elim!: jstepE simp: apply_op_jinv jinv_empty)

lemma reachable_step: "reachable h j \<Longrightarrow> op_sha op \<in> {None, Some h} \<Longrightarrow> reachable h (apply_op op j)"
  unfolding reachable_def by (rule rtranclp.rtrancl_into_rtrancl) (auto intro: jstep)

lemma reachable_empty: "reachable h empty_journal"
  by (simp add: reachable_def)

end
