(* ===== verification/Journal_Evolution.thy ===== *)
theory Journal_Evolution
  imports Journal_Preservation
begin

text \<open>
  How one operation may change the row of a given batch: the columns fixed at insertion never
  change, a done, blocked or dead-lettered batch is never touched again, and a batch in flight
  becomes executable only through its owner's \<open>schedule_retry\<close>.
\<close>

definition row_evolves :: "batch_row \<Rightarrow> batch_row \<Rightarrow> bool" where
  "row_evolves b c \<longleftrightarrow> same_batch b c \<and> (final_status (b_status b) \<longrightarrow> c = b)"

definition row_fenced :: "batch_row \<Rightarrow> batch_row \<Rightarrow> bool" where
  "row_fenced b c \<longleftrightarrow> row_evolves b c \<and> (in_flight b \<longrightarrow> \<not> executable c)"

definition evolves :: "(batch_row \<Rightarrow> batch_row \<Rightarrow> bool) \<Rightarrow> journal \<Rightarrow> journal \<Rightarrow> bool" where
  "evolves P j j' \<longleftrightarrow>
     (\<forall>b \<in> set (batches j). \<forall>c \<in> set (batches j'). b_job_id c = b_job_id b \<longrightarrow> P b c)"

lemma row_evolves_refl [simp]: "row_evolves b b"
  by (simp add: row_evolves_def)

lemma row_fenced_refl [simp]: "row_fenced b b"
  by (auto simp: row_fenced_def in_flight_def executable_def)

lemma row_live_evolves: "row_live b c \<Longrightarrow> row_evolves b c"
  unfolding row_live_def row_evolves_def by blast

lemma row_keep_fenced:
  assumes "row_keep b c"
  shows "row_fenced b c"
proof (cases "executable c")
  case True
  then have "c = b" using assms by (simp add: row_keep_def)
  then show ?thesis by simp
next
  case False
  then show ?thesis using assms row_live_evolves by (simp add: row_keep_def row_fenced_def)
qed

lemma evolves_same:
  assumes "keys_ok j" "batches j' = batches j" "\<And>b. P b b"
  shows "evolves P j j'"
proof -
  have "P b c" if "b \<in> set (batches j)" "c \<in> set (batches j)" "b_job_id c = b_job_id b" for b c
    using same_job_eq[OF assms(1) that(2,1,3)] assms(3) by simp
  then show ?thesis by (simp add: evolves_def assms(2))
qed

lemma evolves_rows:
  assumes "keys_ok j'" "list_all2 R (batches j) (batches j')" "\<And>b c. R b c \<Longrightarrow> b_job_id c = b_job_id b"
    "\<And>b c. R b c \<Longrightarrow> P b c"
  shows "evolves P j j'"
proof -
  have "P b c" if b: "b \<in> set (batches j)" and c: "c \<in> set (batches j')" "b_job_id c = b_job_id b" for b c
  proof -
    obtain d where d: "d \<in> set (batches j')" "R b d" using list_all2_in_left[OF assms(2) b] by blast
    then have "d = c" using same_job_eq[OF assms(1) d(1) c(1)] assms(3)[OF d(2)] c(2) by simp
    then show ?thesis using assms(4)[OF d(2)] by simp
  qed
  then show ?thesis by (simp add: evolves_def)
qed

lemma evolves_benign:
  assumes "jinv j" "benign row_keep j j'"
  shows "evolves row_fenced j j'"
proof (rule evolves_rows)
  show "keys_ok j'" using benign_ops_jinv[OF assms] by (simp add: jinv_def)
  show "list_all2 row_keep (batches j) (batches j')" using assms(2) by (simp add: benign_def)
qed (auto simp: row_keep_def row_live_simps intro!: row_keep_fenced)

lemma evolves_live:
  assumes "jinv j" "benign row_live j j'"
  shows "evolves row_evolves j j'"
proof (rule evolves_rows)
  show "keys_ok j'" using benign_jinv[OF assms(2,1)] by (simp add: jinv_def)
  show "list_all2 row_live (batches j) (batches j')" using assms(2) by (simp add: benign_def)
qed (auto simp: row_live_simps intro!: row_live_evolves)

lemma evolves_replace:
  assumes "keys_ok j" "b \<in> set (batches j)" "batches j' = replace_batch b c (batches j)"
    "P b c" "\<And>d. P d d" "b_job_id c = b_job_id b"
  shows "evolves P j j'"
proof -
  have "P d x" if d: "d \<in> set (batches j)" and x: "x \<in> set (batches j')" "b_job_id x = b_job_id d" for d x
  proof (cases "x = c")
    case True
    then have "d = b" using same_job_eq[OF assms(1) d assms(2)] x(2) assms(6) by simp
    then show ?thesis using True assms(4) by simp
  next
    case False
    then have "x \<in> set (batches j)" using x(1) set_replace_batch[OF assms(1,2), of c] assms(3) by auto
    then have "x = d" using same_job_eq[OF assms(1) _ d x(2)] by simp
    then show ?thesis using assms(5) by simp
  qed
  then show ?thesis by (simp add: evolves_def)
qed

lemma evolves_fails: "jinv j \<Longrightarrow> fails b j j' \<Longrightarrow> evolves row_fenced j j'"
proof -
  assume "jinv j" "fails b j j'"
  then obtain c where "keys_ok j" "b \<in> set (batches j)" "in_flight b" "same_batch b c"
    "b_status c \<in> {Blocked, DeadLetter}" "batches j' = replace_batch b c (batches j)"
    unfolding fails_def jinv_def by blast
  then show ?thesis
    by (intro evolves_replace[of j b j' c])
      (auto simp: row_fenced_def row_evolves_def in_flight_def final_status_def executable_def same_batch_def)
qed

lemma evolves_acked: "jinv j \<Longrightarrow> acked_state b j k \<Longrightarrow> batches j' = batches k \<Longrightarrow> evolves row_fenced j j'"
proof -
  assume "jinv j" "acked_state b j k" "batches j' = batches k"
  then obtain c where "keys_ok j" "b \<in> set (batches j)" "in_flight b" "same_batch b c"
    "b_status c = Done" "batches j' = replace_batch b c (batches j)"
    unfolding acked_state_def jinv_def by auto
  then show ?thesis
    by (intro evolves_replace[of j b j' c])
      (auto simp: row_fenced_def row_evolves_def in_flight_def final_status_def executable_def same_batch_def)
qed

lemma evolves_quarantine:
  assumes "jinv j" "\<And>rid. rid \<in> set rids \<Longrightarrow> \<exists>r \<in> set (runs j). r_run_id r = rid \<and> run_active r"
    "batches j' = batches (quarantine_runs e rids j)"
  shows "evolves row_fenced j j'"
proof -
  have keys: "keys_ok j" using assms(1) by (simp add: jinv_def)
  have bs: "batches j' = update_where (\<lambda>b. b_run_id b \<in> set rids \<and> b_status b \<noteq> Done) block_row (batches j)"
    using quarantine_runs_tables[of e rids j] assms(3) by simp
  have "\<not> final_status (b_status b)" if b: "b \<in> set (batches j)" "b_run_id b \<in> set rids" "b_status b \<noteq> Done" for b
  proof -
    obtain r where "r \<in> set (runs j)" "r_run_id r = b_run_id b" "run_active r" using assms(2)[OF b(2)] by blast
    moreover from this have "run_batch_ok (r_status r) (b_status b)"
      using assms(1) b(1) by (auto simp: jinv_def runs_ok_def)
    ultimately show ?thesis using b(3) by (auto simp: run_active_def final_status_def)
  qed
  then have blocked: "row_fenced b (block_row b)"
    if "b \<in> set (batches j)" "b_run_id b \<in> set rids \<and> b_status b \<noteq> Done" for b
    using that by (auto simp: row_fenced_def row_evolves_def block_row_def same_batch_def executable_def)
  have "row_fenced b c" if "b \<in> set (batches j)" "c \<in> set (batches j')" "b_job_id c = b_job_id b" for b c
    using that(2) unfolding bs
  proof (cases rule: in_update_whereE)
    case (hit d)
    then have "b_job_id d = b_job_id b" using that(3) by (simp add: block_row_def)
    then have "d = b" using same_job_eq[OF keys hit(1) that(1)] by simp
    then show ?thesis using hit blocked by simp
  next
    case miss
    then have "c = b" using same_job_eq[OF keys miss(1) that(1) that(3)] by simp
    then show ?thesis by simp
  qed
  then show ?thesis by (simp add: evolves_def)
qed

lemma evolves_append:
  assumes "keys_ok j" "batches j' = batches j @ [c]" "find_batch (b_job_id c) j = None" "\<And>b. P b b"
  shows "evolves P j j'"
proof -
  have "b_job_id c \<noteq> b_job_id b" if "b \<in> set (batches j)" for b
    using assms(3) that by (auto simp: find_batch_def find_None_iff')
  then have "P b x" if "b \<in> set (batches j)" "x \<in> set (batches j @ [c])" "b_job_id x = b_job_id b" for b x
    using that same_job_eq[OF assms(1) _ that(1,3)] assms(4) by auto
  then show ?thesis by (simp add: evolves_def assms(2))
qed

lemma evolves_delete:
  assumes "keys_ok j" "set (batches j') \<subseteq> set (batches j)" "\<And>b. P b b"
  shows "evolves P j j'"
proof -
  have "P b x" if "b \<in> set (batches j)" "x \<in> set (batches j')" "b_job_id x = b_job_id b" for b x
    using same_job_eq[OF assms(1) _ that(1,3)] that(2) assms(2,3) by (metis subsetD)
  then show ?thesis by (simp add: evolves_def)
qed

section \<open>All operations\<close>

lemma enqueue_evolves:
  assumes "jinv j"
  shows "evolves row_fenced j (snd (enqueue_batch e st rid spec j))"
proof -
  have keys: "keys_ok j" using assms by (simp add: jinv_def)
  let ?j' = "snd (enqueue_batch e st rid spec j)"
  have body: "evolves row_fenced j j'" if "enqueue_body e rid job spec mc j = Inr ((b, failure), j')" for job mc b failure j'
    using that
  proof (cases rule: enqueue_body_cases)
    case (duplicate dup)
    then show ?thesis using evolves_same[OF keys] by simp
  next
    case (inserted j1 j2 j3 j4)
    have "batches j' = batches j @ [new_batch e rid job spec] \<or>
        batches j' = batches j @ [rejected_row (new_batch e rid job spec)]"
      using enqueue_inserted(1)[OF inserted(1,4,5,6,7)] inserted(8) by auto
    then show ?thesis
      using evolves_append[OF keys] inserted(1) by (auto simp: new_batch_def rejected_row_def)
  qed
  show ?thesis
    using enqueue_batch_step[OF refl, where e = e and st = st and rid = rid and spec = spec and j = j]
  proof (elim disjE exE conjE)
    assume "?j' = j"
    then show ?thesis using evolves_same[OF keys] by simp
  qed (rule body)
qed

lemma open_run_evolves:
  assumes "jinv j"
  shows "evolves row_fenced j (snd (open_run e m n b j))"
proof -
  have keys: "keys_ok j" using assms by (simp add: jinv_def)
  have body: "evolves row_fenced j j'" if "open_run_body e m j = Inr (x, j')" for x j'
    using that
  proof (cases rule: open_run_body_cases)
    case (resumed r)
    then show ?thesis using evolves_same[OF keys] by simp
  next
    case opened
    then show ?thesis by (intro evolves_quarantine[OF assms]) (auto simp: Let_def)
  qed
  show ?thesis
    using evolves_same[OF keys refl] body
    by (cases "open_run_body e m j") (auto simp: open_run_def split: sum.splits)
qed

lemma owned_evolves:
  assumes "jinv j"
  shows "evolves row_fenced j (snd (ack_batch e job token ms j))"
    "evolves row_fenced j (snd (schedule_reconciliation_retry e job token t code j))"
    "evolves row_fenced j (snd (block_batch e job token rc code j))"
    "evolves row_evolves j (snd (schedule_retry e job token t rc code j))"
proof -
  have keys: "keys_ok j" using assms by (simp add: jinv_def)
  have same: "evolves row_fenced j j" using evolves_same[OF keys refl] by simp
  show "evolves row_fenced j (snd (ack_batch e job token ms j))"
    using ack_batch_step[OF assms refl, where e = e and job = job and token = token and ms = ms]
  proof (elim disjE exE conjE)
    fix row k ev
    assume "acked_state row j k" "snd (ack_batch e job token ms j) = refresh_run_status e (b_run_id row) (ev k)"
      "\<forall>k. same_tables k (ev k) \<and> batches (ev k) = batches k"
    then show ?thesis using evolves_acked[OF assms] by simp
  qed (simp add: same)
  show "evolves row_fenced j (snd (schedule_reconciliation_retry e job token t code j))"
    using schedule_reconciliation_retry_step[OF assms refl, where e = e and job = job and token = token and t = t and code = code]
      same evolves_fails[OF assms] evolves_benign[OF assms] by metis
  show "evolves row_fenced j (snd (block_batch e job token rc code j))"
    using block_batch_step[OF assms refl, where e = e and job = job and token = token and rc = rc and code = code]
      same evolves_fails[OF assms] by metis
  have weaken: "evolves row_evolves j j'" if "evolves row_fenced j j'" for j'
    using that by (auto simp: evolves_def row_fenced_def)
  show "evolves row_evolves j (snd (schedule_retry e job token t rc code j))"
    using schedule_retry_step[OF assms refl, where e = e and job = job and token = token and t = t and rc = rc and code = code]
      weaken[OF same] weaken[OF evolves_fails[OF assms]] evolves_live[OF assms] by metis
qed

lemma purge_evolves:
  assumes "jinv j"
  shows "evolves row_fenced j (snd (snd (purge_run e own now rid st j)))"
proof (rule evolves_delete)
  show "keys_ok j" using assms by (simp add: jinv_def)
  show "set (batches (snd (snd (purge_run e own now rid st j)))) \<subseteq> set (batches j)"
    using purge_run_step[OF refl, where e = e and own = own and now = now and rid = rid and st = st and j = j]
    by auto
qed simp

lemma barrier_ops_batches:
  "batches (snd (open_barrier rid name j)) = batches j"
  "batches (snd (close_barrier e rid name j)) = batches j"
  "batches (snd (close_run_production e rid j)) = batches j"
  by (auto simp: open_barrier_def close_barrier_def close_barrier_body_def close_run_production_def Let_def
      split: option.splits)

lemma seal_batches: "batches (snd (seal_endpoint_audit e rid d n a j)) = batches j"
  using seal_endpoint_audit_step[OF refl, where e = e and rid = rid and d = d and n = n and a = a and j = j] by auto

lemma quarantine_legacy_evolves:
  assumes "jinv j"
  shows "evolves row_fenced j (snd (quarantine_legacy_targets e m ts j))"
proof (cases "legacy_targets m ts = []")
  case True
  have "keys_ok j" using assms by (simp add: jinv_def)
  then show ?thesis using True evolves_same[of j j row_fenced] by (simp add: quarantine_legacy_targets_def)
next
  case False
  show ?thesis
    by (rule evolves_quarantine[OF assms]) (use False in \<open>auto simp: quarantine_legacy_targets_def Let_def\<close>)
qed

lemma apply_op_fenced:
  assumes "jinv j" "\<nexists>e job token t rc code. op = ScheduleRetry e job token t rc code"
  shows "evolves row_fenced j (apply_op op j)"
proof -
  have keys: "keys_ok j" using assms(1) by (simp add: jinv_def)
  note bt = evolves_same[OF keys, where P = row_fenced]
  show ?thesis
    using assms(2)
    by (cases op)
      (simp_all add: open_run_evolves[OF assms(1)] quarantine_legacy_evolves[OF assms(1)] enqueue_evolves[OF assms(1)]
        bt barrier_ops_batches complete_producers_same seal_batches owned_evolves[OF assms(1)] purge_evolves[OF assms(1)]
        evolves_benign[OF assms(1)] claims_benign renew_lease_benign mark_reconciling_benign recovers_benign)
qed

lemma apply_op_evolves:
  assumes "jinv j"
  shows "evolves row_evolves j (apply_op op j)"
proof (cases "\<exists>e job token t rc code. op = ScheduleRetry e job token t rc code")
  case True
  then show ?thesis using owned_evolves(4)[OF assms] by auto
next
  case False
  then show ?thesis using apply_op_fenced[OF assms, of op] by (auto simp: evolves_def row_fenced_def)
qed

section \<open>Rows persist\<close>

definition purges :: "journal_op \<Rightarrow> string \<Rightarrow> bool" where
  "purges op rid \<longleftrightarrow> (\<exists>e now st. op = PurgeRun e True now rid st)"

definition keeps_jobs :: "journal \<Rightarrow> journal \<Rightarrow> bool" where
  "keeps_jobs j j' \<longleftrightarrow> b_job_id ` set (batches j) \<subseteq> b_job_id ` set (batches j')"

lemma keeps_jobs_map: "map b_job_id (batches j') = map b_job_id (batches j) \<Longrightarrow> keeps_jobs j j'"
  unfolding keeps_jobs_def by (metis set_map subset_refl)

lemma keeps_jobs_benign:
  assumes "benign row_live j j'"
  shows "keeps_jobs j j'"
  using assms list_all2_map_eq[of row_live "batches j" "batches j'" b_job_id]
  by (intro keeps_jobs_map) (auto simp: benign_def row_live_simps)

lemma keeps_jobs_replace:
  assumes "keys_ok j" "b \<in> set (batches j)" "b_job_id c = b_job_id b" "batches j' = replace_batch b c (batches j)"
  shows "keeps_jobs j j'"
  unfolding keeps_jobs_def assms(4) set_replace_batch[OF assms(1,2)] using assms(3) by auto

lemma keeps_jobs_fails:
  assumes "jinv j" "fails b j j'"
  shows "keeps_jobs j j'"
  using assms unfolding fails_def jinv_def same_batch_def by (metis keeps_jobs_replace)

lemma keeps_jobs_quarantine: "keeps_jobs j (quarantine_runs e rids j)"
  by (rule keeps_jobs_map) (simp add: quarantine_runs_tables map_update_where_key block_row_def)

lemma keeps_jobs_same: "batches j' = batches j \<Longrightarrow> keeps_jobs j j'"
  by (simp add: keeps_jobs_def)

lemma keeps_jobs_append: "batches j' = batches j @ xs \<Longrightarrow> keeps_jobs j j'"
  by (auto simp: keeps_jobs_def)

lemma enqueue_keeps_jobs: "keeps_jobs j (snd (enqueue_batch e st rid spec j))"
proof -
  let ?j' = "snd (enqueue_batch e st rid spec j)"
  have body: "keeps_jobs j j'" if "enqueue_body e rid job spec mc j = Inr ((b, failure), j')" for job mc b failure j'
    using that
  proof (cases rule: enqueue_body_cases)
    case (duplicate dup)
    then show ?thesis by (simp add: keeps_jobs_same)
  next
    case (inserted j1 j2 j3 j4)
    then show ?thesis
      using enqueue_inserted(1)[OF inserted(1,4,5,6,7)] by (auto intro: keeps_jobs_append)
  qed
  show ?thesis
    using enqueue_batch_step[OF refl, where e = e and st = st and rid = rid and spec = spec and j = j]
  proof (elim disjE exE conjE)
    assume "?j' = j"
    then show ?thesis by (simp add: keeps_jobs_same)
  qed (rule body)
qed

lemma open_run_keeps_jobs: "keeps_jobs j (snd (open_run e m n b j))"
proof -
  have body: "keeps_jobs j j'" if "open_run_body e m j = Inr (x, j')" for x j'
    using that
  proof (cases rule: open_run_body_cases)
    case (resumed r)
    then show ?thesis by (simp add: keeps_jobs_same)
  next
    case opened
    then show ?thesis using keeps_jobs_quarantine[of j e] by (simp add: Let_def keeps_jobs_def)
  qed
  show ?thesis
    using body keeps_jobs_same[of j j]
    by (cases "open_run_body e m j") (auto simp: open_run_def split: sum.splits)
qed

lemma owned_keeps_jobs:
  assumes "jinv j"
  shows "keeps_jobs j (snd (ack_batch e job token ms j))"
    "keeps_jobs j (snd (schedule_reconciliation_retry e job token t code j))"
    "keeps_jobs j (snd (block_batch e job token rc code j))"
    "keeps_jobs j (snd (schedule_retry e job token t rc code j))"
proof -
  have same: "keeps_jobs j j" by (simp add: keeps_jobs_same)
  show "keeps_jobs j (snd (ack_batch e job token ms j))"
    using ack_batch_step[OF assms refl, where e = e and job = job and token = token and ms = ms]
  proof (elim disjE exE conjE)
    fix row k ev
    assume k: "acked_state row j k" and "snd (ack_batch e job token ms j) = refresh_run_status e (b_run_id row) (ev k)"
      "\<forall>k. same_tables k (ev k) \<and> batches (ev k) = batches k"
    then have "batches (snd (ack_batch e job token ms j)) = batches k" by simp
    moreover have "keeps_jobs j k"
      using k assms unfolding acked_state_def jinv_def same_batch_def by (metis keeps_jobs_replace)
    ultimately show ?thesis by (simp add: keeps_jobs_def)
  qed (simp add: same)
  show "keeps_jobs j (snd (schedule_reconciliation_retry e job token t code j))"
    using schedule_reconciliation_retry_step[OF assms refl, where e = e and job = job and token = token and t = t and code = code]
      same keeps_jobs_fails[OF assms] keeps_jobs_benign benign_live by metis
  show "keeps_jobs j (snd (block_batch e job token rc code j))"
    using block_batch_step[OF assms refl, where e = e and job = job and token = token and rc = rc and code = code]
      same keeps_jobs_fails[OF assms] by metis
  show "keeps_jobs j (snd (schedule_retry e job token t rc code j))"
    using schedule_retry_step[OF assms refl, where e = e and job = job and token = token and t = t and rc = rc and code = code]
      same keeps_jobs_fails[OF assms] keeps_jobs_benign by metis
qed

lemma purge_keeps:
  assumes "b \<in> set (batches j)" "\<not> purges (PurgeRun e own now rid st) (b_run_id b)"
  shows "b \<in> set (batches (snd (snd (purge_run e own now rid st j))))"
proof (cases own)
  case True
  then have "b_run_id b \<noteq> rid" using assms(2) by (auto simp: purges_def)
  then show ?thesis
    using purge_run_step[OF refl, where e = e and own = own and now = now and rid = rid and st = st and j = j] assms(1)
    by auto
next
  case False
  then show ?thesis using assms(1) by (simp add: purge_run_def)
qed

lemma apply_op_persists:
  assumes "jinv j" "b \<in> set (batches j)" "\<not> purges op (b_run_id b)"
  shows "\<exists>c \<in> set (batches (apply_op op j)). b_job_id c = b_job_id b"
proof -
  have "keeps_jobs j (apply_op op j)" if "\<nexists>e own now rid st. op = PurgeRun e own now rid st"
    using that assms(1)
    by (cases op)
      (simp_all add: open_run_keeps_jobs enqueue_keeps_jobs keeps_jobs_same barrier_ops_batches complete_producers_same
        seal_batches owned_keeps_jobs quarantine_legacy_targets_def Let_def keeps_jobs_quarantine
        keeps_jobs_benign[OF benign_live] claims_benign renew_lease_benign mark_reconciling_benign recovers_benign)
  moreover have "\<exists>c \<in> set (batches (apply_op op j)). b_job_id c = b_job_id b"
    if "op = PurgeRun e own now rid st" for e own now rid st
    using purge_keeps[OF assms(2)] assms(3) that by (auto intro!: bexI[of _ b])
  ultimately show ?thesis
    using assms(2) unfolding keeps_jobs_def by (metis (no_types, lifting) imageE image_eqI subsetD)
qed

end
