(* ===== verification/Journal_Samples.thy ===== *)
theory Journal_Samples
  imports Journal_Preservation
begin

text \<open>
  One run of the journal on concrete inputs, from \<open>open_run\<close> to a drained and audited run: a
  batch with one \<open>Function\<close> node, a barrier, and a batch with one \<open>CALLS\<close> edge that waits for
  it. The states are the ones the theorems of the later theories are exercised on. The hash is
  the length of its argument in decimal, which is collision-free on these inputs.
\<close>

section \<open>Inputs\<close>

definition sample_hash :: "string \<Rightarrow> string" where
  "sample_hash s = show_nat (length s)"

definition sample_env :: "int \<Rightarrow> string \<Rightarrow> env" where
  "sample_env now token =
     \<lparr>e_now = now, e_free = 1000000000000, e_limits = default_limits, e_sha = sample_hash, e_token = token\<rparr>"

definition node_payload :: string where
  "node_payload = ''{\"id\":\"a\"}'' @ [CHR 0x0A]"

definition edge_payload :: string where
  "edge_payload = ''{\"callee_id\":\"a\",\"caller_id\":\"a\"}'' @ [CHR 0x0A]"

definition sample_store :: artifact_store where
  "sample_store =
     \<lparr>st_root = [''r''],
      st_files = [[''r'', ''run_251'', ''11.jsonl''] \<mapsto> node_payload,
                  [''r'', ''run_251'', ''34.jsonl''] \<mapsto> edge_payload],
      st_max_artifact_bytes = 1000, st_min_free_bytes = 10\<rparr>"

definition node_spec :: batch_spec where
  "node_spec =
     \<lparr>sp_phase = PhaseNodes, sp_operation_key = ''k'', sp_sequence = 1,
      sp_artifact = \<lparr>sha256 = ''11'', relative_path = ''run_251/11.jsonl'', byte_count = 11, row_count = 1\<rparr>,
      sp_expected_count = 1, sp_required_barriers = [], sp_produced_barriers = [''n''], sp_max_attempts = 3,
      sp_operation = [(''label'', JStr ''functions''), (''reconciliation'', JStr ''node_identity''),
        (''node_label'', JStr ''Function''), (''identity_property'', JStr ''id'')]\<rparr>"

definition edge_spec :: batch_spec where
  "edge_spec =
     \<lparr>sp_phase = PhaseCalls, sp_operation_key = ''kk'', sp_sequence = 10,
      sp_artifact = \<lparr>sha256 = ''34'', relative_path = ''run_251/34.jsonl'', byte_count = 34, row_count = 1\<rparr>,
      sp_expected_count = 1, sp_required_barriers = [''n''], sp_produced_barriers = [], sp_max_attempts = 3,
      sp_operation = [(''label'', JStr ''calls''), (''reconciliation'', JStr ''call_edge'')]\<rparr>"

section \<open>States\<close>

definition sample_opened :: journal where
  "sample_opened = apply_op (OpenRun (sample_env 100 ''a'') sample_metadata 0 0) empty_journal"

definition sample_nodes :: journal where
  "sample_nodes =
     apply_op (CloseBarrier (sample_env 102 ''a'') ''run_251'' ''n'')
       (apply_op (EnqueueBatch (sample_env 101 ''a'') sample_store ''run_251'' node_spec) sample_opened)"

definition sample_queued :: journal where
  "sample_queued = apply_op (EnqueueBatch (sample_env 103 ''a'') sample_store ''run_251'' edge_spec) sample_nodes"

definition sample_leased :: journal where
  "sample_leased = apply_op (ClaimBatch (sample_env 105 ''t'') (Some ''run_251'') 60)
     (apply_op (CompleteProducers (sample_env 104 ''a'') ''run_251'') sample_queued)"

definition sample_acked :: journal where
  "sample_acked = apply_op (AckBatch (sample_env 106 ''x'') ''job_96'' ''t'' None) sample_leased"

definition sample_edges :: journal where
  "sample_edges = apply_op (ClaimBatch (sample_env 107 ''u'') (Some ''run_251'') 60) sample_acked"

definition sample_done :: journal where
  "sample_done =
     apply_op (CloseRunProduction (sample_env 109 ''x'') ''run_251'')
       (apply_op (AckBatch (sample_env 108 ''x'') ''job_98'' ''u'' None) sample_edges)"

lemma sample_op_sha [simp]: "e_sha (sample_env now token) = sample_hash"
  by (simp add: sample_env_def)

lemma sample_reachable:
  "reachable sample_hash sample_opened" "reachable sample_hash sample_nodes"
  "reachable sample_hash sample_queued" "reachable sample_hash sample_leased"
  "reachable sample_hash sample_acked" "reachable sample_hash sample_edges"
  "reachable sample_hash sample_done"
proof -
  show opened: "reachable sample_hash sample_opened"
    unfolding sample_opened_def by (rule reachable_step[OF reachable_empty]) simp
  then show nodes: "reachable sample_hash sample_nodes"
    unfolding sample_nodes_def by (intro reachable_step) simp_all
  then show queued: "reachable sample_hash sample_queued"
    unfolding sample_queued_def by (intro reachable_step) simp_all
  then show leased: "reachable sample_hash sample_leased"
    unfolding sample_leased_def by (intro reachable_step) simp_all
  then show acked: "reachable sample_hash sample_acked"
    unfolding sample_acked_def by (intro reachable_step) simp_all
  then show edges: "reachable sample_hash sample_edges"
    unfolding sample_edges_def by (intro reachable_step) simp_all
  then show "reachable sample_hash sample_done"
    unfolding sample_done_def by (intro reachable_step) simp_all
qed

lemma handed_out:
  "case fst c of Inl _ \<Rightarrow> False | Inr None \<Rightarrow> False | Inr (Some x) \<Rightarrow> P x \<Longrightarrow> \<exists>x. c = (Inr (Some x), snd c) \<and> P x"
  by (cases c) (auto split: sum.splits option.splits)

section \<open>Evaluated states\<close>

text \<open>
  Evaluation continues from the two states below instead of repeating the parsing and hashing
  that lead to them.
\<close>

definition sample_run :: run_record where
  "sample_run =
     \<lparr>r_run_id = ''run_251'', r_fingerprint = ''251'', r_metadata = sample_metadata, r_status = RunOpen,
      r_created_at = 100, r_updated_at = 100, r_retention_until = 604800000100, r_error_code = None\<rparr>"

definition opened_event :: event_row where
  "opened_event =
     \<lparr>ev_id = 1, ev_run_id = ''run_251'', ev_job_id = None, ev_type = EvRunOpened,
      ev_counters = [(''pending'', 0)], ev_attempt = None, ev_elapsed_ms = None, ev_error_code = None,
      ev_created_at = 100\<rparr>"

lemma sample_run_id:
  "run_fingerprint sample_hash sample_metadata = ''251''"
  "run_id sample_hash sample_metadata = ''run_251''"
proof -
  show "run_fingerprint sample_hash sample_metadata = ''251''" by code_simp
  then show "run_id sample_hash sample_metadata = ''run_251''" by (simp add: run_id_def)
qed

lemma sample_opened_eval [code]:
  "sample_opened = empty_journal\<lparr>runs := [sample_run], event_seq := 1, events := [opened_event]\<rparr>"
  by (simp add: sample_opened_def open_run_def new_run_def retention_until_def admit_def sample_env_def
      default_limits_def open_run_body_def Let_def sample_run_id find_run_def empty_journal_def
      quarantine_runs_def add_event_def unfinished_count_def sample_run_def opened_event_def)

definition enqueued_event :: "int \<Rightarrow> string \<Rightarrow> int \<Rightarrow> int \<Rightarrow> int \<Rightarrow> event_row" where
  "enqueued_event i job bytes pending now =
     opened_event\<lparr>ev_id := i, ev_job_id := Some job, ev_type := EvBatchEnqueued,
       ev_counters := [(''bytes'', bytes), (''rows'', 1), (''pending'', pending)], ev_created_at := now\<rparr>"

definition sample_producer :: "string \<Rightarrow> manifest_kind \<Rightarrow> producer_row" where
  "sample_producer pid kind =
     \<lparr>p_run_id = ''run_251'', p_producer_id = pid, p_status = ProducerOpen,
      p_emitted = (\<lambda>k. if k = kind then 1 else 0),
      p_count = (\<lambda>k d. if k = kind \<and> d = StagedUnique then 1 else 0)\<rparr>"

definition node_manifest :: manifest_row where
  "node_manifest =
     \<lparr>m_kind = NodeKind, m_run_id = ''run_251'', m_manifest_id = ''41'', m_job_id = ''job_96'',
      m_producer_id = ''functions'', m_row_ordinal = 0, m_scope = ''p'', m_shape = ''Function'',
      m_identity_property = ''id'', m_identity_type = ''string'', m_identity_json = ''\"a\"'',
      m_payload_digest = ''10'', m_disposition = StagedUnique, m_acked = False, m_graph_verified = False\<rparr>"

definition edge_manifest :: manifest_row where
  "edge_manifest =
     \<lparr>m_kind = EdgeKind, m_run_id = ''run_251'', m_manifest_id = ''41'', m_job_id = ''job_98'',
      m_producer_id = ''calls'', m_row_ordinal = 0, m_scope = ''p'', m_shape = ''CALLS'',
      m_identity_property = [], m_identity_type = ''edge_key'',
      m_identity_json = canonical_json (edge_key (''Function'', ''id'', ''string'', ''\"a\"'') ''CALLS''
        (''Function'', ''id'', ''string'', ''\"a\"'') None),
      m_payload_digest = ''33'', m_disposition = StagedUnique, m_acked = False, m_graph_verified = False\<rparr>"

definition sample_endpoint :: "string \<Rightarrow> endpoint_row" where
  "sample_endpoint role =
     \<lparr>en_run_id = ''run_251'', en_edge_manifest_id = ''41'', en_role = role, en_scope = ''p'',
      en_node_label = ''Function'', en_identity_property = ''id'', en_identity_type = ''string'',
      en_identity_json = ''\"a\"''\<rparr>"

lemma sample_queued_eval [code]:
  "sample_queued =
     \<lparr>runs = [sample_run],
      artifacts = [\<lparr>a_run_id = ''run_251'', a_ref = sp_artifact node_spec, a_ref_count = 1\<rparr>,
        \<lparr>a_run_id = ''run_251'', a_ref = sp_artifact edge_spec, a_ref_count = 1\<rparr>],
      batches = [new_batch (sample_env 101 ''a'') ''run_251'' ''job_96'' node_spec,
        new_batch (sample_env 103 ''a'') ''run_251'' ''job_98'' edge_spec],
      barriers = [\<lparr>bar_run_id = ''run_251'', bar_name = ''n'', bar_status = BarrierProduced,
        bar_produced_count = 1, bar_drained_count = 0, bar_closed_at = Some 102\<rparr>],
      events = [opened_event, enqueued_event 2 ''job_96'' 11 1 101, enqueued_event 3 ''job_98'' 34 2 103],
      event_seq = 3,
      producers = [sample_producer ''functions'' NodeKind, sample_producer ''calls'' EdgeKind],
      manifests = [node_manifest, edge_manifest],
      endpoints = [sample_endpoint ''source'', sample_endpoint ''target''],
      audits = []\<rparr>"
  by code_simp

end
