(* ===== verification/Journal_Safety.thy ===== *)
theory Journal_Safety
  imports Journal_Evolution Journal_Samples
begin

text \<open>
  What the journal promises to the producers and consumers that share it: fences, leases,
  ordering between phases, finality, idempotent production and retention.
\<close>

section \<open>Invariants of reachable journals\<close>

lemma reachable_invs:
  assumes "reachable h j"
  shows "keys_ok j" "rows_ok j" "runs_ok j" "single_active j" "barriers_ok j"
  using reachable_jinv[OF assms] by (auto simp: jinv_def)

lemma barrier_okD:
  assumes "jinv j" "x \<in> set (barriers j)"
  shows "barrier_ok (batches j) x"
  using assms by (auto simp: jinv_def barriers_rel_def list_all_iff)

lemma drained_barrier_producers:
  assumes "jinv j" "x \<in> set (barriers j)" "bar_status x = BarrierDrained" "b \<in> set (batches j)" "produces x b"
  shows "b_status b = Done \<or> b_status b = Blocked"
proof (rule ccontr)
  assume "\<not> ?thesis"
  then have live: "b_status b \<noteq> Done" "b_status b \<noteq> Blocked" by auto
  note ok = barrier_okD[OF assms(1,2)]
  let ?p = "\<lambda>b. produces x b \<and> b_status b = Done" and ?q = "\<lambda>b. produces x b \<and> b_status b \<noteq> Blocked"
  have "count_where ?p (batches j) \<le> count_where ?q (batches j)" by (rule count_where_mono) auto
  moreover have "int (count_where ?q (batches j)) \<le> int (count_where ?p (batches j))"
    using ok assms(3) unfolding barrier_ok_def by linarith
  ultimately have "count_where ?p (batches j) = count_where ?q (batches j)" by linarith
  then have "?p b" by (rule count_where_eq_imp_all) (use assms(4,5) live in auto)
  then show False using live by simp
qed

lemma active_run_batches:
  assumes "jinv j" "run_is_active (b_run_id b) j" "b \<in> set (batches j)"
  shows "b_status b \<noteq> Blocked \<and> b_status b \<noteq> DeadLetter"
proof -
  obtain r where r: "r \<in> set (runs j)" "r_run_id r = b_run_id b" "run_active r"
    using run_is_activeD[OF assms(2)] by blast
  then have "run_batch_ok (r_status r) (b_status b)" using assms(1,3) by (auto simp: jinv_def runs_ok_def)
  then show ?thesis using r(3) by (auto simp: run_active_def)
qed

section \<open>Claiming\<close>

definition leased_row :: "env \<Rightarrow> int \<Rightarrow> batch_row \<Rightarrow> batch_row" where
  "leased_row e n b = b\<lparr>b_status := Leased, b_attempt := b_attempt b + 1, b_fencing_token := Some (e_token e),
     b_lease_until := Some (lease_end e n), b_next_attempt_at := None\<rparr>"

definition reconciling_row :: "env \<Rightarrow> int \<Rightarrow> batch_row \<Rightarrow> batch_row" where
  "reconciling_row e n b = b\<lparr>b_fencing_token := Some (e_token e), b_lease_until := Some (lease_end e n)\<rparr>"

lemma lease_row_effect:
  assumes "keys_ok j" "b \<in> set (batches j)" "p b" "\<And>b. b_job_id (f b) = b_job_id b"
  shows "\<exists>j'. lease_row p f ev e (b_job_id b) j = Inr (Some (batch_record.truncate (f b)), j') \<and>
    batches j' = replace_batch b (f b) (batches j) \<and> same_tables j j'"
proof -
  let ?sel = "\<lambda>c. b_job_id c = b_job_id b \<and> p c"
  have "count_where ?sel (batches j) = 1"
    by (rule count_where_unique_key[OF keys_okD(2)[OF assms(1)] assms(2)]) (use assms(3) in auto)
  moreover have eq: "update_where ?sel f (batches j) = replace_batch b (f b) (batches j)"
    by (rule update_batches_owned[OF assms(1,2)]) (use assms(3) in auto)
  moreover have "find_batch (b_job_id b) (update_batches ?sel f j) = Some (f b)"
  proof -
    have "map b_job_id (update_where ?sel f (batches j)) = map b_job_id (batches j)"
      by (rule map_update_where_key) (simp add: assms(4))
    then have "distinct (map b_job_id (update_where ?sel f (batches j)))"
      using keys_okD(2)[OF assms(1)] by simp
    moreover have "f b \<in> set (update_where ?sel f (batches j))"
      using assms(2,3) by (auto simp: set_update_where intro!: image_eqI[of _ _ b])
    ultimately show ?thesis
      using find_key_Some[of b_job_id "update_where ?sel f (batches j)" "f b"]
      by (simp add: find_batch_def assms(4))
  qed
  ultimately show ?thesis by (auto simp: lease_row_def Let_def same_tables_def)
qed

text \<open>The first eligible row in claim order is leased; the others keep their place.\<close>

definition claims ::
  "(int \<Rightarrow> journal \<Rightarrow> batch_row \<Rightarrow> bool) \<Rightarrow> (batch_row \<Rightarrow> batch_row) \<Rightarrow> env \<Rightarrow> journal \<Rightarrow> batch_row \<Rightarrow> journal \<Rightarrow> bool" where
  "claims eligible f e j b j' \<longleftrightarrow>
     (let k = snd (recover_expired (e_now e) j) in
      b \<in> set (batches k) \<and> eligible (e_now e) k b \<and>
      (\<forall>c \<in> set (batches k). eligible (e_now e) k c \<longrightarrow> claim_order b \<le> claim_order c) \<and>
      batches j' = replace_batch b (f b) (batches k) \<and> same_tables k j')"

lemma recover_expired_jinv: "jinv j \<Longrightarrow> jinv (snd (recover_expired now j))"
  by (rule benign_ops_jinv[OF _ recover_expired_benign])

lemma claim_where_result:
  assumes inv: "jinv j" and elig: "\<And>b. eligible (e_now e) (snd (recover_expired (e_now e) j)) b \<Longrightarrow> p b"
    and lease: "\<And>job k. lease e n job k = lease_row p f ev e job k"
    and job: "\<And>b. b_job_id (f b) = b_job_id b" and n: "0 < n"
  shows "(\<exists>b j'. claim_where eligible lease e n j = (Inr (Some (batch_record.truncate (f b))), j') \<and>
            claims eligible f e j b j') \<or>
         (claim_where eligible lease e n j = (Inr None, snd (recover_expired (e_now e) j)) \<and>
            (\<forall>b \<in> set (batches (snd (recover_expired (e_now e) j))).
               \<not> eligible (e_now e) (snd (recover_expired (e_now e) j)) b))"
proof -
  let ?k = "snd (recover_expired (e_now e) j)"
  have keys: "keys_ok ?k" using recover_expired_jinv[OF inv] by (auto simp: jinv_def)
  show ?thesis
  proof (cases "first_by claim_order (filter (eligible (e_now e) ?k) (batches ?k))")
    case None
    then show ?thesis using n by (auto simp: claim_where_def filter_empty_conv)
  next
    case (Some b)
    then have b: "b \<in> set (batches ?k)" "eligible (e_now e) ?k b"
      and least: "\<And>c. c \<in> set (batches ?k) \<Longrightarrow> eligible (e_now e) ?k c \<Longrightarrow> claim_order b \<le> claim_order c"
      using first_by_in[OF Some] first_by_least[OF Some] by auto
    obtain j' where j': "lease_row p f ev e (b_job_id b) ?k = Inr (Some (batch_record.truncate (f b)), j')"
      "batches j' = replace_batch b (f b) (batches ?k)" "same_tables ?k j'"
      using lease_row_effect[OF keys b(1), of p f ev e] elig[OF b(2)] job by blast
    have "claim_where eligible lease e n j = (Inr (Some (batch_record.truncate (f b))), j')"
      using Some n j'(1) by (simp add: claim_where_def lease)
    moreover have "claims eligible f e j b j'"
      using b least j'(2,3) by (simp add: claims_def Let_def)
    ultimately show ?thesis by blast
  qed
qed

lemma lease_executable_row:
  "lease_executable e n job k = lease_row executable (leased_row e n) EvBatchLeased e job k"
  by (simp add: lease_executable_def leased_row_def[abs_def])

lemma lease_reconciling_row:
  "lease_reconciling e n job k =
     lease_row (\<lambda>b. b_status b = Reconciling \<and> b_fencing_token b = None) (reconciling_row e n)
       EvBatchReconciliationLeased e job k"
  by (simp add: lease_reconciling_def reconciling_row_def[abs_def])

lemma leased_row_simps [simp]:
  "b_job_id (leased_row e n b) = b_job_id b" "b_run_id (leased_row e n b) = b_run_id b"
  "b_required_barriers (leased_row e n b) = b_required_barriers b"
  "b_produced_barriers (leased_row e n b) = b_produced_barriers b"
  "b_status (leased_row e n b) = Leased" "b_fencing_token (leased_row e n b) = Some (e_token e)"
  "b_lease_until (leased_row e n b) = Some (lease_end e n)" "b_attempt (leased_row e n b) = b_attempt b + 1"
  "b_max_attempts (leased_row e n b) = b_max_attempts b"
  by (simp_all add: leased_row_def)

lemma reconciling_row_job [simp]: "b_job_id (reconciling_row e n b) = b_job_id b"
  by (simp add: reconciling_row_def)

lemma claim_batch_result:
  assumes "jinv j" "0 < n"
  shows "(\<exists>b j'. claim_batch e rid n j = (Inr (Some (batch_record.truncate (leased_row e n b))), j') \<and>
            claims (\<lambda>now j b. claimable now j b \<and> in_run rid b) (leased_row e n) e j b j') \<or>
         (claim_batch e rid n j = (Inr None, snd (recover_expired (e_now e) j)) \<and>
            (\<forall>b \<in> set (batches (snd (recover_expired (e_now e) j))).
               \<not> (claimable (e_now e) (snd (recover_expired (e_now e) j)) b \<and> in_run rid b)))"
  unfolding claim_batch_def
  by (rule claim_where_result[where p = executable and ev = EvBatchLeased, OF assms(1) _ lease_executable_row _ assms(2)])
    (auto simp: claimable_def)

lemma claim_job_result:
  assumes "jinv j" "0 < n"
  shows "(\<exists>b j'. claim_job e job n j = (Inr (Some (batch_record.truncate (leased_row e n b))), j') \<and>
            claims (\<lambda>now j b. b_job_id b = job \<and> claimable now j b) (leased_row e n) e j b j') \<or>
         (claim_job e job n j = (Inr None, snd (recover_expired (e_now e) j)) \<and>
            (\<forall>b \<in> set (batches (snd (recover_expired (e_now e) j))).
               \<not> (b_job_id b = job \<and> claimable (e_now e) (snd (recover_expired (e_now e) j)) b)))"
  unfolding claim_job_def
  by (rule claim_where_result[where p = executable and ev = EvBatchLeased, OF assms(1) _ lease_executable_row _ assms(2)])
    (auto simp: claimable_def)

lemma claim_positive:
  "claim_batch e rid n j = (Inr x, j') \<Longrightarrow> 0 < n" "claim_job e job n j = (Inr x, j') \<Longrightarrow> 0 < n"
  by (auto simp: claim_batch_def claim_job_def claim_where_def split: if_splits)

lemma claims_mono:
  "claims el f e j b j' \<Longrightarrow> (\<And>now j b. el now j b \<Longrightarrow> claimable now j b) \<Longrightarrow>
   \<exists>k. jinv j \<longrightarrow> jinv k \<and> b \<in> set (batches k) \<and> claimable (e_now e) k b \<and>
     batches j' = replace_batch b (f b) (batches k) \<and> same_tables k j'"
  using recover_expired_jinv unfolding claims_def Let_def by blast

lemma claimed_row:
  assumes "(Inr (Some x), j') \<in> {claim_batch e rid n j, claim_job e job n j}" "jinv j"
  obtains b k where "x = batch_record.truncate (leased_row e n b)" "jinv k" "b \<in> set (batches k)"
    "claimable (e_now e) k b" "batches j' = replace_batch b (leased_row e n b) (batches k)" "same_tables k j'"
proof -
  have n: "0 < n" using assms(1) claim_positive by (metis insertE singletonD)
  have "\<exists>b. x = batch_record.truncate (leased_row e n b) \<and>
     (claims (\<lambda>now j b. claimable now j b \<and> in_run rid b) (leased_row e n) e j b j' \<or>
      claims (\<lambda>now j b. b_job_id b = job \<and> claimable now j b) (leased_row e n) e j b j')"
    using assms(1) claim_batch_result[OF assms(2) n, of e rid] claim_job_result[OF assms(2) n, of e job] by auto
  then obtain b where b: "x = batch_record.truncate (leased_row e n b)"
    "claims (\<lambda>now j b. claimable now j b \<and> in_run rid b) (leased_row e n) e j b j' \<or>
      claims (\<lambda>now j b. b_job_id b = job \<and> claimable now j b) (leased_row e n) e j b j'" by blast
  then have "\<exists>k. jinv j \<longrightarrow> jinv k \<and> b \<in> set (batches k) \<and> claimable (e_now e) k b \<and>
     batches j' = replace_batch b (leased_row e n b) (batches k) \<and> same_tables k j'"
    by (elim disjE) (erule claims_mono, simp)+
  then show thesis using that b(1) assms(2) by blast
qed

lemma claimed_dependencies:
  assumes "jinv k" "b \<in> set (batches k)" "claimable now k b" "name \<in> set (b_required_barriers b)"
    "batches j' = replace_batch b (leased_row e n b) (batches k)" "same_tables k j'"
  shows "barrier_drained (b_run_id b) name j' \<and>
    (\<forall>p \<in> set (batches j'). b_run_id p = b_run_id b \<and> name \<in> set (b_produced_barriers p) \<longrightarrow> b_status p = Done)"
proof -
  have bd: "barrier_drained (b_run_id b) name k" and act: "run_is_active (b_run_id b) k" and ex: "executable b"
    using assms(3,4) by (auto simp: claimable_def list_all_iff)
  obtain x where x: "x \<in> set (barriers k)" "bar_run_id x = b_run_id b" "bar_name x = name" "bar_status x = BarrierDrained"
    using bd by (auto simp: barrier_drained_def dest: find_barrier_Some split: option.splits)
  have don: "b_status p = Done"
    if "p \<in> set (batches k)" "b_run_id p = b_run_id b" "name \<in> set (b_produced_barriers p)" for p
    using drained_barrier_producers[OF assms(1) x(1,4) that(1)] active_run_batches[OF assms(1) _ that(1)] act that x
    by (auto simp: produces_def)
  have "name \<notin> set (b_produced_barriers b)" using don[OF assms(2)] ex by (auto simp: executable_def)
  moreover have "keys_ok k" using assms(1) by (simp add: jinv_def)
  ultimately have "b_status p = Done"
    if "p \<in> set (batches j')" "b_run_id p = b_run_id b" "name \<in> set (b_produced_barriers p)" for p
    using that don set_replace_batch[OF _ assms(2)] unfolding assms(5) by auto
  moreover have "barrier_drained (b_run_id b) name j'"
    using bd assms(6) by (simp add: barrier_drained_def find_barrier_def same_tables_def)
  ultimately show ?thesis by blast
qed

text \<open>
  C23. Phase ordering. Whenever \<open>claim_batch\<close> or \<open>claim_job\<close> hands out a batch of a reachable
  journal, each barrier the batch requires is drained, and every batch of the same run that
  produces such a barrier is done: edges are never leased before the nodes they depend on are
  acknowledged.
\<close>

theorem claim_respects_barriers:
  assumes "reachable h j" "(Inr (Some x), j') \<in> {claim_batch e rid n j, claim_job e job n j}"
  shows "\<forall>name \<in> set (b_required_barriers x). barrier_drained (b_run_id x) name j' \<and>
    (\<forall>p \<in> set (batches j'). b_run_id p = b_run_id x \<and> name \<in> set (b_produced_barriers p) \<longrightarrow> b_status p = Done)"
proof -
  obtain b k where bk: "x = batch_record.truncate (leased_row e n b)" "jinv k" "b \<in> set (batches k)"
    "claimable (e_now e) k b" "batches j' = replace_batch b (leased_row e n b) (batches k)" "same_tables k j'"
    using claimed_row[OF assms(2) reachable_jinv[OF assms(1)]] .
  have "b_required_barriers x = b_required_barriers b" "b_run_id x = b_run_id b"
    by (simp_all add: bk(1) batch_record.truncate_def)
  then show ?thesis using claimed_dependencies[OF bk(2,3,4) _ bk(5,6)] by auto
qed

theorem claim_respects_barriers_witness:
  "\<exists>x. claim_batch (sample_env 107 ''u'') (Some ''run_251'') 60 sample_acked = (Inr (Some x), sample_edges) \<and>
     b_required_barriers x = [''n''] \<and> barrier_drained (b_run_id x) ''n'' sample_edges \<and>
     (\<forall>p \<in> set (batches sample_edges). b_run_id p = b_run_id x \<and> ''n'' \<in> set (b_produced_barriers p) \<longrightarrow> b_status p = Done)"
proof -
  let ?c = "claim_batch (sample_env 107 ''u'') (Some ''run_251'') 60 sample_acked"
  have "case fst ?c of Inr (Some x) \<Rightarrow> b_required_barriers x = [''n''] | _ \<Rightarrow> False" by code_simp
  then obtain x where x: "?c = (Inr (Some x), sample_edges)" "b_required_barriers x = [''n'']"
    using handed_out[where c = ?c] by (auto simp: sample_edges_def)
  then show ?thesis
    using claim_respects_barriers[OF sample_reachable(5), of x sample_edges "sample_env 107 ''u''" "Some ''run_251''" 60 "[]"]
    by simp
qed

text \<open>
  Deterministic claims. On a reachable journal \<open>claim_batch\<close> leases the batch that comes
  first by sequence, creation time and job id among all batches that are claimable once expired
  leases are recovered, counts the attempt and fences it with the fresh token; it returns
  \<open>None\<close> exactly when no batch is claimable.
\<close>

theorem claim_batch_order:
  assumes "reachable h j" "0 < n"
  shows "let k = snd (recover_expired (e_now e) j) in
    if \<exists>b \<in> set (batches k). claimable (e_now e) k b \<and> in_run rid b
    then \<exists>b j'. b \<in> set (batches k) \<and> claimable (e_now e) k b \<and> in_run rid b \<and>
      (\<forall>c \<in> set (batches k). claimable (e_now e) k c \<and> in_run rid c \<longrightarrow> claim_order b \<le> claim_order c) \<and>
      claim_batch e rid n j = (Inr (Some (batch_record.truncate (leased_row e n b))), j') \<and>
      batches j' = replace_batch b (leased_row e n b) (batches k)
    else claim_batch e rid n j = (Inr None, k)"
  using claim_batch_result[OF reachable_jinv[OF assms(1)] assms(2), of e rid]
  by (auto simp: claims_def Let_def)

theorem claim_batch_order_witness:
  "\<exists>x j'. claim_batch (sample_env 105 ''t'') None 60 sample_queued = (Inr (Some x), j')"
proof -
  let ?k = "snd (recover_expired (e_now (sample_env 105 ''t'')) sample_queued)"
  have "\<exists>b \<in> set (batches ?k). claimable (e_now (sample_env 105 ''t'')) ?k b \<and> in_run None b" by code_simp
  moreover have "(0::int) < 60" by simp
  ultimately show ?thesis
    using claim_batch_order[OF sample_reachable(3), of 60 "sample_env 105 ''t''" None] unfolding Let_def by auto
qed

section \<open>Fences\<close>

lemma no_owner_row:
  assumes "\<forall>b \<in> set (batches j). \<not> owns [Leased, Reconciling] job token now b"
  shows "owned_row [Leased, Reconciling] job token now j = Inl (JournalError StaleFence)"
    "owned_row [Leased] job token now j = Inl (JournalError StaleFence)"
    "count_where (owns [Leased] job token now) (batches j) = 0"
proof -
  have "\<forall>b \<in> set (batches j). \<not> owns [Leased] job token now b" using assms by (auto simp: owns_def)
  then show "owned_row [Leased] job token now j = Inl (JournalError StaleFence)"
    "count_where (owns [Leased] job token now) (batches j) = 0"
    by (simp_all add: owned_row_def count_where_0_iff find_None_iff'[THEN iffD2])
  show "owned_row [Leased, Reconciling] job token now j = Inl (JournalError StaleFence)"
    using assms by (simp add: owned_row_def find_None_iff'[THEN iffD2])
qed

text \<open>
  C24. Stale fences. A caller that does not own the batch, because the token is not the one on
  the row, the lease has run out or the batch is no longer in flight, gets \<open>StaleFence\<close> from
  every owner operation and changes nothing.
\<close>

theorem stale_fence:
  assumes "\<forall>b \<in> set (batches j). \<not> owns [Leased, Reconciling] job token (e_now e) b"
  shows "ack_batch e job token ms j = (Inl (JournalError StaleFence), j) \<and>
    mark_reconciling e job token err j = (Inl (JournalError StaleFence), j) \<and>
    schedule_retry e job token t rc code j = (Inl (JournalError StaleFence), j) \<and>
    schedule_reconciliation_retry e job token t code j = (Inl (JournalError StaleFence), j) \<and>
    block_batch e job token rc code j = (Inl (JournalError StaleFence), j) \<and>
    (0 < n \<longrightarrow> renew_lease e job token n j = (Inl (JournalError StaleFence), j))"
  using no_owner_row[OF assms]
  by (simp add: ack_batch_def mark_reconciling_def schedule_retry_def schedule_reconciliation_retry_def
      block_batch_def renew_lease_def owned_transition_def owned_lease_def)

theorem stale_fence_witness:
  "ack_batch (sample_env 106 ''x'') ''job_96'' ''stale'' None sample_leased =
     (Inl (JournalError StaleFence), sample_leased) \<and>
   ack_batch (sample_env 70000000 ''x'') ''job_96'' ''t'' None sample_leased =
     (Inl (JournalError StaleFence), sample_leased)"
proof -
  have "\<forall>b \<in> set (batches sample_leased). \<not> owns [Leased, Reconciling] ''job_96'' ''stale'' (e_now (sample_env 106 ''x'')) b"
    "\<forall>b \<in> set (batches sample_leased). \<not> owns [Leased, Reconciling] ''job_96'' ''t'' (e_now (sample_env 70000000 ''x'')) b"
    by code_simp+
  then show ?thesis using stale_fence by blast
qed

text \<open>
  One owner at a time. After a claim of a reachable journal has handed out a batch, its row
  carries the claimer's token and a lease from now on, and any caller with another token is
  stale, whatever the clock says.
\<close>

theorem claim_fences_others:
  assumes "reachable h j" "(Inr (Some x), j') \<in> {claim_batch e rid n j, claim_job e job n j}" "token \<noteq> e_token e"
  shows "ack_batch e' (b_job_id x) token ms j' = (Inl (JournalError StaleFence), j') \<and>
    b_fencing_token x = Some (e_token e) \<and> b_lease_until x = Some (e_now e + n * 1000000) \<and> b_status x = Leased \<and>
    b_attempt x \<le> b_max_attempts x \<and> get_batch (b_job_id x) j' = Some x"
proof -
  obtain b k where bk: "x = batch_record.truncate (leased_row e n b)" "jinv k" "b \<in> set (batches k)"
    "claimable (e_now e) k b" "batches j' = replace_batch b (leased_row e n b) (batches k)" "same_tables k j'"
    using claimed_row[OF assms(2) reachable_jinv[OF assms(1)]] .
  let ?c = "leased_row e n b"
  have "j' \<in> {apply_op (ClaimBatch e rid n) j, apply_op (ClaimJob e job n) j}"
    using assms(2) by (metis apply_op.simps(6,7) insert_iff singletonD snd_conv)
  then have "jinv j'" by (elim insertE emptyE) (simp_all only: apply_op_jinv[OF reachable_jinv[OF assms(1)]])
  then have keys: "keys_ok j'" and rows: "rows_ok j'" by (simp_all add: jinv_def)
  have "keys_ok k" using bk(2) by (simp add: jinv_def)
  then have c: "?c \<in> set (batches j')" using set_replace_batch[OF _ bk(3)] bk(5) by simp
  have eq: "d = ?c" if "d \<in> set (batches j')" "b_job_id d = b_job_id b" for d
    by (rule same_job_eq[OF keys that(1) c]) (use that in simp)
  have "\<not> owns [Leased, Reconciling] (b_job_id b) token (e_now e') d" if "d \<in> set (batches j')" for d
    using eq[OF that] assms(3) by (auto simp: owns_def)
  then have "owned_row [Leased, Reconciling] (b_job_id b) token (e_now e') j' = Inl (JournalError StaleFence)"
    by (intro no_owner_row) blast
  moreover have "batch_ok ?c" using rows c by (simp add: rows_ok_def list_all_iff)
  moreover have "get_batch (b_job_id b) j' = Some x"
    using find_batch_in[OF keys c] bk(1) by (simp add: get_batch_def)
  ultimately show ?thesis
    by (simp add: bk(1) batch_record.truncate_def ack_batch_def owned_transition_def lease_end_def batch_ok_def)
qed

theorem claim_fences_others_witness:
  "\<exists>x. claim_batch (sample_env 107 ''u'') (Some ''run_251'') 60 sample_acked = (Inr (Some x), sample_edges) \<and>
     b_job_id x = ''job_98'' \<and>
     ack_batch (sample_env 108 ''x'') (b_job_id x) ''t'' None sample_edges = (Inl (JournalError StaleFence), sample_edges)"
proof -
  let ?c = "claim_batch (sample_env 107 ''u'') (Some ''run_251'') 60 sample_acked"
  have "case fst ?c of Inr (Some x) \<Rightarrow> b_job_id x = ''job_98'' | _ \<Rightarrow> False" by code_simp
  then obtain x where x: "?c = (Inr (Some x), sample_edges)" "b_job_id x = ''job_98''"
    using handed_out[where c = ?c] by (auto simp: sample_edges_def)
  have "''t'' \<noteq> e_token (sample_env 107 ''u'')" by code_simp
  then have "ack_batch (sample_env 108 ''x'') (b_job_id x) ''t'' None sample_edges = (Inl (JournalError StaleFence), sample_edges)"
    using claim_fences_others[of sample_hash sample_acked x sample_edges "sample_env 107 ''u''" "Some ''run_251''" 60 "''''" "''t''"
        "sample_env 108 ''x''" None] sample_reachable x(1) by simp
  then show ?thesis using x by blast
qed

section \<open>Evolution of batches\<close>

lemma schedule_retry_rows:
  assumes "keys_ok j" "b \<in> set (batches j)" "c \<in> set (batches (snd (schedule_retry e job token t rc code j)))"
    "b_job_id c = b_job_id b" "in_flight b" "executable c"
  shows "job = b_job_id b \<and> owns [Leased, Reconciling] job token (e_now e) b \<and> b_attempt b < b_max_attempts b"
proof (cases "owned_row [Leased, Reconciling] job token (e_now e) j")
  case (Inl x)
  then have "c = b" using assms(2,3,4) same_job_eq[OF assms(1)] by (simp add: schedule_retry_def owned_transition_def)
  then show ?thesis using assms(5,6) by (auto simp: in_flight_def executable_def)
next
  case (Inr row)
  let ?ex = "b_attempt row \<ge> b_max_attempts row"
  let ?sel = "\<lambda>b. b_job_id b = job \<and> b_fencing_token b = Some token \<and> b_status b \<in> {Leased, Reconciling}"
  let ?f = "\<lambda>b. b\<lparr>b_status := if ?ex then DeadLetter else RetryWait, b_next_attempt_at := if ?ex then None else Some t,
      b_retry_class := Some rc, b_error_code := Some (if ?ex then MaxAttempts else code),
      b_fencing_token := None, b_lease_until := None\<rparr>"
  have row: "row \<in> set (batches j)" "owns [Leased, Reconciling] job token (e_now e) row"
    using owned_rowD[OF Inr] by auto
  have "batches (snd (schedule_retry e job token t rc code j)) = batches j \<or>
     batches (snd (schedule_retry e job token t rc code j)) = update_where ?sel ?f (batches j)"
    using Inr by (auto simp: schedule_retry_def owned_transition_def release_owned_def Let_def snd_transaction_read_back)
  then obtain d where d: "d \<in> set (batches j)" "c = d \<or> (c = ?f d \<and> ?sel d)"
    using assms(3) by (auto simp: set_update_where)
  then have "d = b" using same_job_eq[OF assms(1) d(1) assms(2)] assms(4) by auto
  then have c: "c = ?f b" "?sel b" using d(2) assms(5,6) by (auto simp: in_flight_def executable_def)
  have "row = b" by (rule same_job_eq[OF assms(1) row(1) assms(2)]) (use row(2) c(2) in \<open>auto simp: owns_def\<close>)
  then show ?thesis using row(2) c assms(6) by (auto simp: executable_def owns_def split: if_splits)
qed

text \<open>
  C22. Ambiguous work is never replayed blindly. From a reachable journal, a batch in flight
  (leased or reconciling) can become executable again in one step only by \<open>schedule_retry\<close>
  called by the owner of its live lease, with attempts left. In particular the expiry or
  recovery of a lease never makes a batch claimable for execution.
\<close>

theorem no_blind_replay:
  assumes "reachable h j" "b \<in> set (batches j)" "in_flight b" "c \<in> set (batches (apply_op op j))"
    "b_job_id c = b_job_id b" "executable c"
  shows "\<exists>e token t rc code. op = ScheduleRetry e (b_job_id b) token t rc code \<and>
    owns [Leased, Reconciling] (b_job_id b) token (e_now e) b \<and> b_attempt b < b_max_attempts b"
proof (cases "\<exists>e job token t rc code. op = ScheduleRetry e job token t rc code")
  case True
  then obtain e job token t rc code where op: "op = ScheduleRetry e job token t rc code" by blast
  then show ?thesis
    using schedule_retry_rows[OF reachable_invs(1)[OF assms(1)] assms(2) _ assms(5,3,6)] assms(4) by auto
next
  case False
  then have "evolves row_fenced j (apply_op op j)" using apply_op_fenced[OF reachable_jinv[OF assms(1)]] by blast
  then have "row_fenced b c" using assms(2,4,5) by (simp add: evolves_def)
  then show ?thesis using assms(3,6) by (simp add: row_fenced_def)
qed

theorem no_blind_replay_witness:
  "let b = hd (batches sample_leased);
       op = ScheduleRetry (sample_env 106 ''x'') ''job_96'' ''t'' 200 Transient MaxAttempts;
       c = hd (batches (apply_op op sample_leased)) in
   in_flight b \<and> executable c \<and>
   (\<exists>e token t rc code. op = ScheduleRetry e (b_job_id b) token t rc code \<and>
     owns [Leased, Reconciling] (b_job_id b) token (e_now e) b \<and> b_attempt b < b_max_attempts b)"
proof -
  let ?b = "hd (batches sample_leased)" and ?op = "ScheduleRetry (sample_env 106 ''x'') ''job_96'' ''t'' 200 Transient MaxAttempts"
  let ?c = "hd (batches (apply_op ?op sample_leased))"
  have "batches sample_leased \<noteq> [] \<and> batches (apply_op ?op sample_leased) \<noteq> [] \<and> in_flight ?b \<and> executable ?c \<and>
      b_job_id ?c = b_job_id ?b" by code_simp
  then show ?thesis
    unfolding Let_def using no_blind_replay[OF sample_reachable(4), of ?b ?c ?op] hd_in_set by blast
qed

definition run_ops :: "journal_op list \<Rightarrow> journal \<Rightarrow> journal" where
  "run_ops ops j = foldl (\<lambda>j op. apply_op op j) j ops"

lemma batch_persists:
  assumes "jinv j" "b \<in> set (batches j)" "\<not> purges op (b_run_id b)"
  shows "\<exists>c \<in> set (batches (apply_op op j)). row_evolves b c"
  using apply_op_persists[OF assms] apply_op_evolves[OF assms(1), of op] assms(2)
  unfolding evolves_def by blast

lemma run_ops_persists:
  assumes "jinv j" "b \<in> set (batches j)" "\<forall>op \<in> set ops. \<not> purges op (b_run_id b)"
  shows "\<exists>c \<in> set (batches (run_ops ops j)). row_evolves b c"
  using assms
proof (induction ops arbitrary: j b)
  case (Cons op ops)
  obtain c where c: "c \<in> set (batches (apply_op op j))" "row_evolves b c"
    using batch_persists[OF Cons.prems(1,2)] Cons.prems(3) by auto
  then have "\<forall>op \<in> set ops. \<not> purges op (b_run_id c)"
    using Cons.prems(3) by (simp add: row_evolves_def same_batch_def)
  from Cons.IH[OF apply_op_jinv[OF Cons.prems(1)] c(1) this]
  obtain d where d: "d \<in> set (batches (run_ops ops (apply_op op j)))" "row_evolves c d" by blast
  have "row_evolves b d"
    using c(2) d(2) same_batch_trans[of b c d] by (auto simp: row_evolves_def)
  then show ?case using d(1) by (auto simp: run_ops_def)
qed (auto simp: run_ops_def intro!: bexI[of _ b for b])

text \<open>
  C26. Outcomes are final. Once a batch of a reachable journal is done, blocked or dead-lettered,
  no sequence of operations changes its row, short of purging its run.
\<close>

theorem outcome_final:
  assumes "reachable h j" "b \<in> set (batches j)" "b_status b \<in> {Done, Blocked, DeadLetter}"
    "\<forall>op \<in> set ops. \<not> purges op (b_run_id b)"
  shows "b \<in> set (batches (run_ops ops j))"
proof -
  obtain c where c: "c \<in> set (batches (run_ops ops j))" "row_evolves b c"
    using run_ops_persists[OF reachable_jinv[OF assms(1)] assms(2,4)] by blast
  then have "c = b" using assms(3) by (auto simp: row_evolves_def final_status_def)
  then show ?thesis using c(1) by simp
qed

theorem outcome_final_witness:
  "hd (batches sample_acked) \<in> set (batches (run_ops [ClaimBatch (sample_env 107 ''u'') None 60,
     AckBatch (sample_env 108 ''x'') ''job_96'' ''t'' None, RecoverExpiredLeases (sample_env 90000000 ''x'')] sample_acked))"
proof -
  have "batches sample_acked \<noteq> [] \<and> b_status (hd (batches sample_acked)) \<in> {Done, Blocked, DeadLetter}" by code_simp
  then show ?thesis by (intro outcome_final[OF sample_reachable(5)]) (auto simp: purges_def)
qed

text \<open>
  C27. Work is immutable. What a batch says to write (phase, operation, sequence, payload
  reference, row count, barriers, attempt limit) is fixed when it is enqueued: no sequence of
  operations changes it or loses the batch, short of purging its run.
\<close>

theorem enqueued_work_immutable:
  assumes "reachable h j" "b \<in> set (batches j)" "\<forall>op \<in> set ops. \<not> purges op (b_run_id b)"
  shows "\<exists>c \<in> set (batches (run_ops ops j)).
    c = b\<lparr>b_status := b_status c, b_attempt := b_attempt c, b_fencing_token := b_fencing_token c,
          b_lease_until := b_lease_until c, b_next_attempt_at := b_next_attempt_at c,
          b_retry_class := b_retry_class c, b_error_code := b_error_code c\<rparr>"
proof -
  obtain c where c: "c \<in> set (batches (run_ops ops j))" "row_evolves b c"
    using run_ops_persists[OF reachable_jinv[OF assms(1)] assms(2,3)] by blast
  have "same_batch b c" using c(2) by (simp add: row_evolves_def)
  then have "c = b\<lparr>b_status := b_status c, b_attempt := b_attempt c, b_fencing_token := b_fencing_token c,
          b_lease_until := b_lease_until c, b_next_attempt_at := b_next_attempt_at c,
          b_retry_class := b_retry_class c, b_error_code := b_error_code c\<rparr>"
    by (intro batch_row.equality) (simp_all add: same_batch_def)
  then show ?thesis using c(1) by blast
qed

theorem enqueued_work_immutable_witness:
  "\<exists>b \<in> set (batches sample_queued). \<exists>c \<in> set (batches (run_ops [ClaimBatch (sample_env 107 ''u'') None 60] sample_queued)).
    b_status b = Pending \<and> b_artifact c = b_artifact b \<and> b_operation c = b_operation b"
proof -
  let ?b = "hd (batches sample_queued)"
  have b: "batches sample_queued \<noteq> [] \<and> b_status ?b = Pending" by code_simp
  then have "?b \<in> set (batches sample_queued)" by simp
  from enqueued_work_immutable[OF sample_reachable(3) this, of "[ClaimBatch (sample_env 107 ''u'') None 60]"]
  obtain c where c: "c \<in> set (batches (run_ops [ClaimBatch (sample_env 107 ''u'') None 60] sample_queued))"
    "c = ?b\<lparr>b_status := b_status c, b_attempt := b_attempt c, b_fencing_token := b_fencing_token c,
          b_lease_until := b_lease_until c, b_next_attempt_at := b_next_attempt_at c,
          b_retry_class := b_retry_class c, b_error_code := b_error_code c\<rparr>" by (auto simp: purges_def)
  have "b_artifact c = b_artifact ?b" by (subst c(2)) simp
  moreover have "b_operation c = b_operation ?b" by (subst c(2)) simp
  ultimately show ?thesis using b c(1) hd_in_set by blast
qed

section \<open>Runs\<close>

text \<open>
  C28. What a run status promises. In a reachable journal a drained run has only done batches and
  only drained barriers; the batches of a quarantined run are done or blocked, so none of them
  can be claimed or acknowledged; and a run that is still active has no failed batch. The run has at
  least one batch.
\<close>

theorem run_status_sound:
  assumes "reachable h j" "r \<in> set (runs j)" "b \<in> set (batches j)" "b_run_id b = r_run_id r"
  shows "(r_status r = RunDrained \<longrightarrow> b_status b = Done \<and>
      (\<forall>x \<in> set (barriers j). bar_run_id x = r_run_id r \<longrightarrow> bar_status x = BarrierDrained)) \<and>
    (r_status r = RunQuarantined \<longrightarrow> b_status b \<in> {Done, Blocked}) \<and>
    (run_active r \<longrightarrow> b_status b \<notin> {Blocked, DeadLetter})"
proof -
  have "run_batch_ok (r_status r) (b_status b)"
    "r_status r = RunDrained \<longrightarrow> (\<forall>x \<in> set (barriers j). bar_run_id x = r_run_id r \<longrightarrow> bar_status x = BarrierDrained)"
    using reachable_invs(3)[OF assms(1)] assms(2-4) by (auto simp: runs_ok_def)
  then show ?thesis by (auto simp: run_active_def)
qed

theorem run_status_sound_witness:
  "\<exists>r \<in> set (runs sample_done). r_status r = RunDrained \<and> batches sample_done \<noteq> [] \<and>
     (\<forall>b \<in> set (batches sample_done). b_status b = Done)"
proof -
  let ?r = "hd (runs sample_done)"
  have "runs sample_done \<noteq> [] \<and> r_status ?r = RunDrained \<and> batches sample_done \<noteq> [] \<and>
      (\<forall>b \<in> set (batches sample_done). b_run_id b = r_run_id ?r)" by code_simp
  then show ?thesis using run_status_sound[OF sample_reachable(7), of ?r] hd_in_set by blast
qed

text \<open>
  C29. One active run per scope. A reachable journal has at most one active run for a project,
  scope, physical target and parser: opening a run supersedes the incompatible ones.
\<close>

theorem one_active_run:
  assumes "reachable h j"
  shows "length (filter (\<lambda>r. run_active r \<and> same_scope (r_metadata r) m) (runs j)) \<le> 1"
proof (rule unique_key_length)
  show "distinct (map r_run_id (filter (\<lambda>r. run_active r \<and> same_scope (r_metadata r) m) (runs j)))"
    using keys_okD(1)[OF reachable_invs(1)[OF assms]] by (rule distinct_map_filter)
  fix r s
  assume "r \<in> set (filter (\<lambda>r. run_active r \<and> same_scope (r_metadata r) m) (runs j))"
    "s \<in> set (filter (\<lambda>r. run_active r \<and> same_scope (r_metadata r) m) (runs j))"
  then show "r_run_id r = r_run_id s"
    using reachable_invs(4)[OF assms] by (auto simp: single_active_def same_scope_def)
qed

theorem one_active_run_witness:
  "length (filter (\<lambda>r. run_active r \<and> same_scope (r_metadata r) sample_metadata) (runs sample_leased)) = 1"
proof -
  have "filter (\<lambda>r. run_active r \<and> same_scope (r_metadata r) sample_metadata) (runs sample_leased) \<noteq> []" by code_simp
  then show ?thesis
    using one_active_run[OF sample_reachable(4), of sample_metadata] by (simp add: le_Suc_eq)
qed

text \<open>
  C30. Barrier accounting. For every barrier of a reachable journal the drained count is the
  number of done batches that produce it and never exceeds the produced count; a barrier is
  open exactly while nobody has closed it; and once drained, every batch that produces it is done
  or was rejected.
\<close>

theorem barrier_accounting:
  assumes "reachable h j" "x \<in> set (barriers j)"
  shows "bar_drained_count x =
      int (length (filter (\<lambda>b. b_run_id b = bar_run_id x \<and> bar_name x \<in> set (b_produced_barriers b) \<and> b_status b = Done) (batches j))) \<and>
    bar_drained_count x \<le> bar_produced_count x \<and>
    (bar_status x = BarrierOpen \<longleftrightarrow> bar_closed_at x = None) \<and>
    (bar_status x = BarrierDrained \<longrightarrow> bar_drained_count x = bar_produced_count x \<and>
      (\<forall>b \<in> set (batches j). b_run_id b = bar_run_id x \<and> bar_name x \<in> set (b_produced_barriers b) \<longrightarrow>
         b_status b = Done \<or> b_status b = Blocked))"
proof -
  have inv: "jinv j" by (rule reachable_jinv[OF assms(1)])
  note ok = barrier_okD[OF inv assms(2), unfolded barrier_ok_def]
  have "count_where (\<lambda>b. produces x b \<and> b_status b = Done) (batches j) \<le>
      count_where (\<lambda>b. produces x b \<and> b_status b \<noteq> Blocked) (batches j)" by (rule count_where_mono) auto
  then show ?thesis
    using ok drained_barrier_producers[OF inv assms(2)] by (auto simp: count_where_def produces_def conj_assoc)
qed

theorem barrier_accounting_witness:
  "let x = hd (barriers sample_acked) in barriers sample_acked \<noteq> [] \<and> bar_status x = BarrierDrained \<and> bar_produced_count x = 1 \<and>
   bar_drained_count x = bar_produced_count x"
proof -
  let ?x = "hd (barriers sample_acked)"
  have "barriers sample_acked \<noteq> [] \<and> bar_status ?x = BarrierDrained \<and> bar_produced_count ?x = 1" by code_simp
  then show ?thesis using barrier_accounting[OF sample_reachable(5), of ?x] hd_in_set unfolding Let_def by blast
qed

text \<open>
  C31. Lifecycle of a row. In every reachable journal a fencing token and a lease are present
  together or not at all, a leased batch has them, only batches in flight have them; attempts
  are counted from zero, stay within the limit, and are exhausted exactly for dead letters
  (a reconciliation may exceed the limit by one).
\<close>

theorem batch_row_wf:
  assumes "reachable h j" "b \<in> set (batches j)"
  shows "(b_fencing_token b = None \<longleftrightarrow> b_lease_until b = None) \<and>
    (b_status b = Leased \<longrightarrow> b_fencing_token b \<noteq> None) \<and>
    (b_fencing_token b \<noteq> None \<longrightarrow> b_status b \<in> {Leased, Reconciling}) \<and>
    (b_status b = Pending \<longrightarrow> b_attempt b = 0) \<and>
    (b_status b \<in> {Leased, Reconciling, RetryWait, Done} \<longrightarrow> 0 < b_attempt b \<and> b_attempt b \<le> b_max_attempts b) \<and>
    (b_status b = RetryWait \<longrightarrow> b_attempt b < b_max_attempts b) \<and>
    (b_status b = DeadLetter \<longrightarrow> b_max_attempts b \<le> b_attempt b \<and> b_attempt b \<le> b_max_attempts b + 1)"
  using reachable_invs(2)[OF assms(1)] assms(2) unfolding rows_ok_def list_all_iff
  by (auto simp: batch_ok_def in_flight_def)

theorem batch_row_wf_witness:
  "let b = hd (batches sample_leased) in b_status b = Leased \<and> b_fencing_token b \<noteq> None \<and> b_attempt b \<le> b_max_attempts b"
proof -
  have "batches sample_leased \<noteq> [] \<and> b_status (hd (batches sample_leased)) = Leased" by code_simp
  then show ?thesis
    using batch_row_wf[OF sample_reachable(4), of "hd (batches sample_leased)"] unfolding Let_def by force
qed

text \<open>
  C25. Acknowledgement cannot fail for the owner. In a reachable journal the holder of the
  current token and a live lease always succeeds in acknowledging: the batch is done, its fence
  is gone and its unique manifest rows are marked as acknowledged and verified.
\<close>

theorem owner_ack_succeeds:
  assumes "reachable h j" "row \<in> set (batches j)" "owns [Leased, Reconciling] job token (e_now e) row"
  shows "\<exists>x. ack_batch e job token ms j = (Inr x, apply_op (AckBatch e job token ms) j) \<and> b_job_id x = job \<and>
    b_status x = Done \<and> b_fencing_token x = None \<and> get_batch job (apply_op (AckBatch e job token ms) j) = Some x"
proof -
  have inv: "jinv j" by (rule reachable_jinv[OF assms(1)])
  obtain r where "List.find (owns [Leased, Reconciling] job token (e_now e)) (batches j) = Some r"
    using assms(2,3) find_None_iff'[of "owns [Leased, Reconciling] job token (e_now e)"] by blast
  then have "owned_row [Leased, Reconciling] job token (e_now e) j = Inr r" by (simp add: owned_row_def)
  from ack_batch_succeeds[OF inv this, of ms] obtain c k where c:
    "ack_batch e job token ms j = (Inr (batch_record.truncate c), k)" "c \<in> set (batches k)" "b_job_id c = job"
    "b_status c = Done" "b_fencing_token c = None" by blast
  have k: "k = apply_op (AckBatch e job token ms) j" using c(1) by simp
  then have "keys_ok k" using apply_op_jinv[OF inv, of "AckBatch e job token ms"] by (simp only: jinv_def)
  then have "get_batch job k = Some (batch_record.truncate c)"
    using find_batch_in[OF _ c(2)] c(3) by (simp add: get_batch_def)
  moreover have "b_job_id (batch_record.truncate c) = job" "b_status (batch_record.truncate c) = Done"
    "b_fencing_token (batch_record.truncate c) = None"
    using c(3-5) by (simp_all add: batch_record.truncate_def)
  ultimately show ?thesis using c(1) unfolding k by blast
qed

theorem owner_ack_succeeds_witness:
  "\<exists>x. ack_batch (sample_env 106 ''x'') ''job_96'' ''t'' None sample_leased = (Inr x, sample_acked) \<and> b_status x = Done"
proof -
  let ?b = "hd (batches sample_leased)"
  have "batches sample_leased \<noteq> [] \<and> owns [Leased, Reconciling] ''job_96'' ''t'' (e_now (sample_env 106 ''x'')) ?b"
    by code_simp
  then show ?thesis
    using owner_ack_succeeds[OF sample_reachable(4), of ?b "''job_96''" "''t''" "sample_env 106 ''x''" None]
    unfolding sample_acked_def by auto
qed

section \<open>Recovery\<close>

lemma recover_leased_batches:
  "batches (recover_leased now rows j) =
     update_where (\<lambda>b. b_job_id b \<in> b_job_id ` set rows \<and> b_status b = Leased)
       (\<lambda>b. b\<lparr>b_status := Reconciling, b_fencing_token := None, b_lease_until := None, b_retry_class := Some Ambiguous\<rparr>)
       (batches j)"
proof (induction rows arbitrary: j)
  case Nil
  show ?case by (simp add: recover_leased_def update_where_none)
next
  case (Cons r rows)
  have "recover_leased now (r # rows) j = recover_leased now rows (add_event (b_run_id r) EvLeaseRecoveredAsAmbiguous
      (Some (b_job_id r)) [] (Some (b_attempt r)) None None now (to_reconciling (b_job_id r) j))"
    by (simp add: recover_leased_def)
  then show ?case by (auto simp: Cons.IH to_reconciling_def update_where_def)
qed

lemma recover_reconciling_batches:
  "batches (recover_reconciling ev now rows j) =
     update_where (\<lambda>b. b_job_id b \<in> b_job_id ` set rows \<and> b_status b = Reconciling)
       (\<lambda>b. b\<lparr>b_fencing_token := None, b_lease_until := None\<rparr>) (batches j)"
proof (induction rows arbitrary: j)
  case Nil
  show ?case by (simp add: recover_reconciling_def update_where_none)
next
  case (Cons r rows)
  have "recover_reconciling ev now (r # rows) j = recover_reconciling ev now rows (add_event (b_run_id r) ev
      (Some (b_job_id r)) [] (Some (b_attempt r)) None None now (drop_reconciling_fence (b_job_id r) j))"
    by (simp add: recover_reconciling_def)
  then show ?case by (auto simp: Cons.IH drop_reconciling_fence_def update_where_def)
qed

text \<open>What recovery makes of one row.\<close>

definition recovered_row :: "int \<Rightarrow> batch_row \<Rightarrow> batch_row" where
  "recovered_row now b =
     (if b_status b = Leased \<and> lease_expired now b
      then b\<lparr>b_status := Reconciling, b_fencing_token := None, b_lease_until := None, b_retry_class := Some Ambiguous\<rparr>
      else if b_status b = Reconciling \<and> lease_expired now b then b\<lparr>b_fencing_token := None, b_lease_until := None\<rparr>
      else b)"

lemma job_id_selects:
  assumes "distinct (map b_job_id bs)" "b \<in> set bs"
  shows "b_job_id b \<in> b_job_id ` set (filter p bs) \<longleftrightarrow> p b"
  using unique_key_eq[OF assms] assms(2) by force

lemma recover_leased_rows:
  assumes "keys_ok j"
  shows "batches (recover_leased now (filter (\<lambda>b. b_status b = Leased \<and> lease_expired now b) (batches j)) j) =
    map (\<lambda>b. if b_status b = Leased \<and> lease_expired now b
      then b\<lparr>b_status := Reconciling, b_fencing_token := None, b_lease_until := None, b_retry_class := Some Ambiguous\<rparr>
      else b) (batches j)"
  unfolding recover_leased_batches update_where_map
  by (rule map_cong[OF refl]) (use job_id_selects[OF keys_okD(2)[OF assms]] in auto)

lemma recover_expired_rows:
  assumes "keys_ok j" "rows_ok j"
  shows "batches (snd (recover_expired now j)) = map (recovered_row now) (batches j)"
proof -
  let ?j1 = "recover_leased now (filter (\<lambda>b. b_status b = Leased \<and> lease_expired now b) (batches j)) j"
  note j1 = recover_leased_rows[OF assms(1), of now]
  have "distinct (map b_job_id (batches ?j1))"
    using keys_okD(2)[OF assms(1)] by (simp add: j1 o_def if_distrib cong: if_cong)
  note sel = job_id_selects[OF this]
  have "batches (snd (recover_expired now j)) = map (\<lambda>b. if b_status b = Reconciling \<and> b_fencing_token b \<noteq> None \<and> lease_expired now b
      then b\<lparr>b_fencing_token := None, b_lease_until := None\<rparr> else b) (batches ?j1)"
    unfolding recover_expired_def Let_def snd_conv recover_reconciling_batches update_where_map
    by (rule map_cong[OF refl]) (use sel in auto)
  also have "\<dots> = map (recovered_row now) (batches j)"
    unfolding j1 using assms(2)
    by (auto simp: recovered_row_def rows_ok_def list_all_iff batch_ok_def lease_expired_def split: option.splits)
  finally show ?thesis .
qed

lemma recover_expired_count:
  assumes "keys_ok j" "rows_ok j"
  shows "fst (recover_expired now j) = length (filter (lease_expired now) (batches j))"
proof -
  let ?q = "\<lambda>b. b_status b = Leased \<and> lease_expired now b"
  have "fst (recover_expired now j) = length (filter ?q (batches j)) +
      length (filter (\<lambda>b. \<not> ?q b \<and> b_status b = Reconciling \<and> b_fencing_token b \<noteq> None \<and> lease_expired now b) (batches j))"
    unfolding recover_expired_def Let_def fst_conv recover_leased_rows[OF assms(1)] length_filter_map_if by simp
  moreover have "length (filter ?q bs) + length (filter (\<lambda>b. \<not> ?q b \<and> b_status b = Reconciling \<and> b_fencing_token b \<noteq> None \<and>
      lease_expired now b) bs) = length (filter (lease_expired now) bs)"
    if "\<forall>b \<in> set bs. lease_expired now b \<longrightarrow> b_fencing_token b \<noteq> None \<and> in_flight b" for bs
    using that by (induction bs) (auto simp: in_flight_def)
  moreover have "\<forall>b \<in> set (batches j). lease_expired now b \<longrightarrow> b_fencing_token b \<noteq> None \<and> in_flight b"
    using assms(2) by (auto simp: rows_ok_def list_all_iff batch_ok_def lease_expired_def split: option.splits)
  ultimately show ?thesis by simp
qed

text \<open>
  Recovery is complete and safe. On a reachable journal \<open>recover_expired_leases\<close> touches
  exactly the rows whose lease has run out and returns their number: a leased one becomes
  reconciling, a reconciling one only loses its fence; afterwards no expired lease is left.
\<close>

theorem expired_leases_recovered:
  assumes "reachable h j"
  shows "fst (recover_expired_leases e j) = Inr (length (filter (lease_expired (e_now e)) (batches j))) \<and>
    batches (snd (recover_expired_leases e j)) = map (recovered_row (e_now e)) (batches j) \<and>
    (\<forall>b \<in> set (batches (snd (recover_expired_leases e j))). \<not> lease_expired (e_now e) b)"
proof -
  note inv = reachable_invs(1,2)[OF assms]
  have eq: "recover_expired_leases e j = (Inr (fst (recover_expired (e_now e) j)), snd (recover_expired (e_now e) j))"
    by (cases "recover_expired (e_now e) j") (simp add: recover_expired_leases_def)
  have "\<not> lease_expired (e_now e) (recovered_row (e_now e) b)" if "b \<in> set (batches j)" for b
  proof -
    have "lease_expired (e_now e) b \<longrightarrow> in_flight b"
      using inv(2) that by (auto simp: rows_ok_def list_all_iff batch_ok_def lease_expired_def split: option.splits)
    then show ?thesis by (auto simp: recovered_row_def lease_expired_def in_flight_def)
  qed
  then show ?thesis
    unfolding eq using recover_expired_count[OF inv] recover_expired_rows[OF inv] by auto
qed

theorem expired_leases_recovered_witness:
  "fst (recover_expired_leases (sample_env 90000000 ''x'') sample_leased) = Inr 1 \<and>
   list_all (\<lambda>b. \<not> lease_expired 90000000 b) (batches (snd (recover_expired_leases (sample_env 90000000 ''x'') sample_leased)))"
proof -
  have "length (filter (lease_expired 90000000) (batches sample_leased)) = 1" by code_simp
  moreover have "e_now (sample_env 90000000 ''x'') = 90000000" by (simp add: sample_env_def)
  ultimately show ?thesis
    using expired_leases_recovered[OF sample_reachable(4), of "sample_env 90000000 ''x''"] by (auto simp: list_all_iff)
qed

section \<open>Production\<close>

lemma production_complete_status:
  "production_complete rid j \<longleftrightarrow> map_option p_status (find_producer rid producers_complete_id j) = Some ProducerComplete"
  by (auto simp: production_complete_def split: option.splits)

lemma count_producer_complete [simp]:
  "production_complete rid (count_producer r pid counts j) = production_complete rid j"
  unfolding production_complete_status
  by (simp add: find_producer_def count_producer_def find_update_where option.map_comp o_def if_distrib cong: if_cong)

lemma register_producer_complete [simp]:
  "production_complete rid (register_producer r pid j) = production_complete rid j"
  unfolding production_complete_status
  by (auto simp: find_producer_def register_producer_def find_append split: option.splits)

lemma stage_batch_cases:
  assumes "stage_batch rid job mc j = Inr (failure, j')"
  obtains (plain) "mc = None" "failure = []" "j' = j"
  | (staged) producer cs j0 counts k where "mc = Some (producer, cs)" "failure = manifest_failure counts"
      "j0 = register_producer rid producer j" "\<forall>p. find_producer rid producer j = Some p \<longrightarrow> p_status p = ProducerOpen"
      "rfold (stage_candidate rid job producer) cs (zero_counts, j0) = Inr (counts, k)"
      "j' = count_producer rid producer counts k"
  using assms
  by (cases mc) (auto simp: stage_batch_def stage_manifests_def register_producer_def rbind_Inr_iff
      split: option.splits if_splits)

lemma stage_batch_complete:
  assumes "stage_batch rid job mc j = Inr (failure, j')"
  shows "production_complete r j' = production_complete r j"
  using assms
proof (cases rule: stage_batch_cases)
  case (staged producer cs j0 counts k)
  have "production_complete r k = production_complete r j0"
    using stage_candidates_tables[OF staged(5)] by (simp add: production_complete_def find_producer_def)
  then show ?thesis using staged(3,6) by simp
qed simp

lemma produce_barriers_producers:
  assumes "rfold (produce_barrier rid) ps j = Inr j'"
  shows "producers j' = producers j"
  using assms by (induction ps arbitrary: j) (auto simp: produce_barrier_def rbind_Inr_iff split: option.splits if_splits)

lemma enqueue_body_again:
  assumes "enqueue_body e rid job spec mc j = Inr ((b, []), j')"
  shows "enqueue_body e' rid job spec mc' j' = Inr ((b, []), j') \<and> runs j' = runs j"
  using assms
proof (cases rule: enqueue_body_cases)
  case (duplicate dup)
  then show ?thesis using assms by (simp add: enqueue_body_def split: if_splits)
next
  case (inserted j1 j2 j3 j4)
  note tabs = enqueue_inserted[OF inserted(1,4,5,6,7)]
  have "producers j2 = producers j"
    using insert_batch_effect(1)[OF inserted(5)] reference_artifact_tables[OF inserted(4)] by simp
  moreover have "producers j4 = producers j3"
    using inserted(7) produce_barriers_producers by (auto simp: settle_batch_def)
  ultimately have "\<not> production_complete rid j'"
    using stage_batch_complete[OF inserted(6), of rid] inserted(3,8)
    by (simp add: production_complete_def find_producer_def)
  moreover have "\<exists>row. find_batch job j' = Some row \<and> b = batch_record.truncate row"
    using assms inserted(1,8) by (auto simp: enqueue_body_def Let_def rbind_Inr_iff split: if_splits option.splits)
  ultimately show ?thesis using tabs(1) inserted(8) by (auto simp: enqueue_body_def)
qed

text \<open>
  Idempotent production. When \<open>enqueue_batch\<close> has returned a batch, repeating the call on
  the resulting journal, at any time and with any limits, returns the same batch and changes
  nothing.
\<close>

theorem enqueue_idempotent:
  assumes "enqueue_batch e st rid spec j = (Inr b, j')" "e_sha e' = e_sha e"
  shows "enqueue_batch e' st rid spec j' = (Inr b, j')"
proof -
  obtain run rows where pre: "find_run rid j = Some run"
    "pure_posix_parts (relative_path (sp_artifact spec)) = [rid, artifact_name (sha256 (sp_artifact spec))]"
    "rbind (artifact_verify (e_sha e) st (sp_artifact spec)) (\<lambda>_. read_jsonl (e_sha e) st (sp_artifact spec)) = Inr rows"
    "enqueue_body e rid (job_id_of e run spec) spec (manifest_candidates (e_sha e) run spec rows (job_id_of e run spec)) j =
      Inr ((b, []), j')"
    using assms(1)
    by (auto simp: enqueue_batch_def Let_def get_run_def transaction_def split: option.splits if_splits sum.splits prod.splits)
  note again = enqueue_body_again[OF pre(4)]
  have "find_run rid j' = Some run" using again pre(1) by (simp add: find_run_def)
  moreover have "job_id_of e' run spec = job_id_of e run spec" by (simp add: job_id_of_def assms(2))
  ultimately show ?thesis
    using pre(2,3) again by (simp add: enqueue_batch_def get_run_def Let_def assms(2))
qed

theorem enqueue_idempotent_witness:
  "\<exists>b. enqueue_batch (sample_env 200 ''y'') sample_store ''run_251'' edge_spec sample_queued = (Inr b, sample_queued)"
proof -
  let ?r = "enqueue_batch (sample_env 103 ''a'') sample_store ''run_251'' edge_spec sample_nodes"
  have "case fst ?r of Inr b \<Rightarrow> True | Inl _ \<Rightarrow> False" by code_simp
  then obtain b where "?r = (Inr b, sample_queued)"
    by (cases ?r) (auto simp: sample_queued_def split: sum.splits)
  then show ?thesis using enqueue_idempotent[where e' = "sample_env 200 ''y''"] by (metis sample_op_sha)
qed

section \<open>Retention\<close>

text \<open>
  Purging is guarded and all or nothing. A purge that raises leaves every table except the
  event log as it was. One that returns either found no such run, or was called with confirmed
  ownership on a terminal run past its retention with no fenced batch, and then removes exactly
  the rows of that run and reports its payload files.
\<close>

theorem purge_guarded:
  "case purge_run e own now rid st j of (res, st', j') \<Rightarrow>
     (case res of
        Inl x \<Rightarrow> same_tables j j' \<and> batches j' = batches j
      | Inr n \<Rightarrow>
          (find_run rid j = None \<and> n = 0 \<and> j' = j \<and> st' = st) \<or>
          (\<exists>r. find_run rid j = Some r \<and> own \<and> run_terminal r \<and>
             r_retention_until r \<le> (case now of Some t \<Rightarrow> t | None \<Rightarrow> e_now e) \<and>
             (\<forall>b \<in> set (batches j). b_run_id b = rid \<longrightarrow> b_fencing_token b = None) \<and>
             n = length (filter (\<lambda>a. a_run_id a = rid) (artifacts j)) \<and>
             runs j' = filter (\<lambda>r. r_run_id r \<noteq> rid) (runs j) \<and>
             batches j' = filter (\<lambda>b. b_run_id b \<noteq> rid) (batches j) \<and>
             barriers j' = filter (\<lambda>b. bar_run_id b \<noteq> rid) (barriers j) \<and>
             artifacts j' = filter (\<lambda>a. a_run_id a \<noteq> rid) (artifacts j) \<and>
             manifests j' = filter (\<lambda>m. m_run_id m \<noteq> rid) (manifests j)))"
proof (cases own)
  case False
  then show ?thesis by (simp add: purge_run_def same_tables_def)
next
  case own: True
  let ?t = "case now of Some t \<Rightarrow> t | None \<Rightarrow> e_now e"
  show ?thesis
  proof (cases "begin_purge rid ?t j")
    case (Inl x)
    then show ?thesis using own by (simp add: purge_run_def same_tables_def)
  next
    case (Inr p)
    obtain refs k where p: "p = (refs, k)" by (cases p)
    show ?thesis
    proof (cases refs)
      case None
      then have "find_run rid j = None" "k = j"
        using Inr p by (auto simp: begin_purge_def Let_def split: option.splits if_splits)
      then show ?thesis using own Inr p None by (simp add: purge_run_def)
    next
      case (Some rs)
      then obtain r where r: "find_run rid j = Some r" "run_terminal r" "r_retention_until r \<le> ?t"
        "\<forall>b \<in> set (batches j). b_run_id b = rid \<longrightarrow> b_fencing_token b = None"
        "rs = map a_ref (filter (\<lambda>a. a_run_id a = rid) (artifacts j))" "same_tables j k" "batches k = batches j"
        using Inr p
        by (auto simp: begin_purge_def Let_def count_where_0_iff same_tables_def split: option.splits if_splits)
      show ?thesis
        using own Inr p Some r
        by (cases "remove_all rs st")
          (auto simp: purge_run_def delete_run_def delete_where_def same_tables_def split: sum.splits)
    qed
  qed
qed

theorem purge_guarded_witness:
  "\<exists>n st' j'. purge_run (sample_env 200 ''x'') True (Some 700000000000) ''run_251'' sample_store sample_done = (Inr n, st', j') \<and>
     find_run ''run_251'' sample_done \<noteq> None \<and> n = 2 \<and> runs j' = [] \<and> batches j' = [] \<and> manifests j' = []"
proof -
  let ?p = "purge_run (sample_env 200 ''x'') True (Some 700000000000) ''run_251'' sample_store sample_done"
  have ok: "case fst ?p of Inr n \<Rightarrow> n = 2 | Inl _ \<Rightarrow> False" by code_simp
  then obtain st' j' where p: "?p = (Inr 2, st', j')" by (cases ?p) (auto split: sum.splits)
  have run: "find_run ''run_251'' sample_done \<noteq> None"
    "list_all (\<lambda>r. r_run_id r = ''run_251'') (runs sample_done)"
    "list_all (\<lambda>b. b_run_id b = ''run_251'') (batches sample_done)"
    "list_all (\<lambda>m. m_run_id m = ''run_251'') (manifests sample_done)" by code_simp+
  have "runs j' = filter (\<lambda>r. r_run_id r \<noteq> ''run_251'') (runs sample_done) \<and>
      batches j' = filter (\<lambda>b. b_run_id b \<noteq> ''run_251'') (batches sample_done) \<and>
      manifests j' = filter (\<lambda>m. m_run_id m \<noteq> ''run_251'') (manifests sample_done)"
    using purge_guarded[where e = "sample_env 200 ''x''" and own = True and now = "Some 700000000000" and rid = "''run_251''" and
        st = sample_store and j = sample_done] run(1)
    unfolding p prod.case sum.case by blast
  then have "runs j' = []" "batches j' = []" "manifests j' = []"
    using run(2-4) by (simp_all add: filter_empty_conv list_all_iff)
  then show ?thesis using p run(1) by blast
qed

end
