(* ===== verification/Journal_World.thy ===== *)
theory Journal_World
  imports Journal_Safety
begin

text \<open>
  Code that makes several journal calls, as a program over a world: the database, the payload
  files, the state of the process itself, and a counter of the observations made so far, so that
  every call sees its own clock, free space and token. An exception ends a program but keeps what
  it did to the world before. The locale \<open>world_relation\<close> is the logic of such programs for one
  relation between the world before and after; \<open>follows\<close> is its instance that says that a
  program changes the journal through the public operations of the store only, none of them a
  purge; the locale \<open>journal_client\<close> collects what every such program inherits from the journal.
\<close>

section \<open>Programs\<close>

record 'x world =
  w_journal :: journal
  w_store :: artifact_store
  w_tick :: nat
  w_process :: 'x

type_synonym ('x, 'a) prog = "'x world \<Rightarrow> (exc + 'a) \<times> 'x world"

text \<open>
  The process: its hash function, the limits it opened the journal with, what the environment
  answers to each observation, and the jitter \<open>random.uniform\<close> gives.
\<close>

record host =
  ho_sha :: "string \<Rightarrow> string"
  ho_limits :: journal_limits
  ho_env :: "nat \<Rightarrow> env"
  ho_jitter :: "rat \<Rightarrow> rat \<Rightarrow> rat"

definition env_at :: "host \<Rightarrow> nat \<Rightarrow> env" where
  "env_at hs n = (ho_env hs n)\<lparr>e_sha := ho_sha hs, e_limits := ho_limits hs\<rparr>"

definition ret :: "'a \<Rightarrow> ('x, 'a) prog" where
  "ret x w = (Inr x, w)"

definition raise :: "exc \<Rightarrow> ('x, 'a) prog" where
  "raise e w = (Inl e, w)"

definition lift :: "exc + 'a \<Rightarrow> ('x, 'a) prog" where
  "lift r w = (r, w)"

definition seq :: "('x, 'a) prog \<Rightarrow> ('a \<Rightarrow> ('x, 'b) prog) \<Rightarrow> ('x, 'b) prog" where
  "seq m f w = (case m w of (Inl e, w') \<Rightarrow> (Inl e, w') | (Inr x, w') \<Rightarrow> f x w')"

text \<open>\<open>try: m except: handler\<close>; a handler that does not want an exception raises it again.\<close>

definition catch :: "('x, 'a) prog \<Rightarrow> (exc \<Rightarrow> ('x, 'a) prog) \<Rightarrow> ('x, 'a) prog" where
  "catch m handler w = (case m w of (Inl e, w') \<Rightarrow> handler e w' | (Inr x, w') \<Rightarrow> (Inr x, w'))"

fun for_each :: "('a \<Rightarrow> ('x, unit) prog) \<Rightarrow> 'a list \<Rightarrow> ('x, unit) prog" where
  "for_each f [] = ret ()"
| "for_each f (x # xs) = seq (f x) (\<lambda>_. for_each f xs)"

text \<open>A call of the journal, a look at it, and a look at the clock.\<close>

definition call :: "host \<Rightarrow> (env \<Rightarrow> journal \<Rightarrow> (exc + 'a) \<times> journal) \<Rightarrow> ('x, 'a) prog" where
  "call hs f w =
     (case f (env_at hs (w_tick w)) (w_journal w) of
        (r, j) \<Rightarrow> (r, w\<lparr>w_journal := j, w_tick := Suc (w_tick w)\<rparr>))"

definition look :: "(journal \<Rightarrow> 'a) \<Rightarrow> ('x, 'a) prog" where
  "look f w = (Inr (f (w_journal w)), w)"

definition clock :: "host \<Rightarrow> ('x, int) prog" where
  "clock hs w = (Inr (e_now (env_at hs (w_tick w))), w\<lparr>w_tick := Suc (w_tick w)\<rparr>)"

text \<open>\<open>retry_at\<close>: the clock plus the delay; \<open>timedelta\<close> rounds to microseconds, halves to even.\<close>

definition round_half_even :: "rat \<Rightarrow> int" where
  "round_half_even x =
     (let n = \<lfloor>x\<rfloor>; r = x - of_int n
      in if r < 1 / 2 then n else if r > 1 / 2 then n + 1 else if even n then n else n + 1)"

definition retry_at :: "host \<Rightarrow> int \<Rightarrow> int \<Rightarrow> int \<Rightarrow> ('x, int) prog" where
  "retry_at hs attempt base_seconds max_seconds =
     seq (lift (retry_delay attempt base_seconds max_seconds (ho_jitter hs))) (\<lambda>d.
     seq (clock hs) (\<lambda>now. ret (now + round_half_even (d * 1000000))))"

lemmas prog_defs = ret_def raise_def lift_def seq_def catch_def call_def look_def clock_def

lemma env_at_sha [simp]: "e_sha (env_at hs n) = ho_sha hs"
  by (simp add: env_at_def)

lemma ret_apply [simp]: "ret x w = (Inr x, w)" and raise_apply [simp]: "raise e w = (Inl e, w)"
  and lift_apply [simp]: "lift r w = (r, w)" and look_apply [simp]: "look f w = (Inr (f (w_journal w)), w)"
  by (simp_all add: prog_defs)

lemma seq_Inr_iff: "seq m f w = (Inr y, w'') \<longleftrightarrow> (\<exists>x w'. m w = (Inr x, w') \<and> f x w' = (Inr y, w''))"
  by (auto simp: seq_def split: prod.splits sum.splits)

lemma catch_Inr_iff:
  "catch m f w = (Inr y, w'') \<longleftrightarrow> m w = (Inr y, w'') \<or> (\<exists>e w'. m w = (Inl e, w') \<and> f e w' = (Inr y, w''))"
  by (auto simp: catch_def split: prod.splits sum.splits)

lemma call_iff:
  "call hs f w = (r, w') \<longleftrightarrow>
     (\<exists>j. f (env_at hs (w_tick w)) (w_journal w) = (r, j) \<and> w' = w\<lparr>w_journal := j, w_tick := Suc (w_tick w)\<rparr>)"
  by (auto simp: call_def split: prod.splits)

lemma clock_iff: "clock hs w = (r, w') \<longleftrightarrow> r = Inr (e_now (env_at hs (w_tick w))) \<and> w' = w\<lparr>w_tick := Suc (w_tick w)\<rparr>"
  by (auto simp: clock_def)

lemmas prog_iffs = seq_Inr_iff catch_Inr_iff call_iff clock_iff

section \<open>Clients of the journal\<close>

definition client_op :: "(string \<Rightarrow> string) \<Rightarrow> journal_op \<Rightarrow> bool" where
  "client_op h op \<longleftrightarrow> op_sha op \<in> {None, Some h} \<and> (\<forall>rid. \<not> purges op rid)"

inductive cstep :: "(string \<Rightarrow> string) \<Rightarrow> journal \<Rightarrow> journal \<Rightarrow> bool" for h where
  cstep: "client_op h op \<Longrightarrow> cstep h j (apply_op op j)"

inductive_cases cstepE: "cstep h j j'"

text \<open>
  A program stays within a relation on worlds if every run of it, whether it returns or raises,
  relates the world before to the world after. For a transitive relation that does not look at
  the counter of observations, staying within it is a property of the parts of a program.
\<close>

definition stays :: "('x world \<Rightarrow> 'x world \<Rightarrow> bool) \<Rightarrow> ('x, 'a) prog \<Rightarrow> bool" where
  "stays R m \<longleftrightarrow> (\<forall>w. R w (snd (m w)))"

lemma staysD: "stays R m \<Longrightarrow> m w = (r, w') \<Longrightarrow> R w w'"
  unfolding stays_def by (metis snd_conv)

locale world_relation =
  fixes R :: "'x world \<Rightarrow> 'x world \<Rightarrow> bool"
  assumes R_tick: "R w (w\<lparr>w_tick := n\<rparr>)" and R_trans: "R u v \<Longrightarrow> R v w \<Longrightarrow> R u w"
begin

lemma R_refl: "R w w"
  using R_tick[of w "w_tick w"] by simp

lemma stays_pure: "stays R (ret x)" "stays R (raise e)" "stays R (lift r)" "stays R (look f)" "stays R (clock hs)"
  by (simp_all add: stays_def clock_def R_refl R_tick)

lemma stays_seq: "stays R m \<Longrightarrow> (\<And>x. stays R (f x)) \<Longrightarrow> stays R (seq m f)"
  unfolding stays_def seq_def by (auto split: prod.splits sum.splits) (metis R_trans snd_conv)+

lemma stays_catch: "stays R m \<Longrightarrow> (\<And>e. stays R (f e)) \<Longrightarrow> stays R (catch m f)"
  unfolding stays_def catch_def by (auto split: prod.splits sum.splits) (metis R_trans snd_conv)+

lemma stays_for_each: "(\<And>x. stays R (f x)) \<Longrightarrow> stays R (for_each f xs)"
  by (induction xs) (auto intro: stays_pure stays_seq)

lemma stays_retry_at: "stays R (retry_at hs n b m)"
  unfolding retry_at_def by (intro stays_seq stays_pure)

lemma stays_if: "(b \<Longrightarrow> stays R m) \<Longrightarrow> (\<not> b \<Longrightarrow> stays R n) \<Longrightarrow> stays R (if b then m else n)"
  by simp

lemma stays_option:
  "(v = None \<Longrightarrow> stays R m) \<Longrightarrow> (\<And>x. v = Some x \<Longrightarrow> stays R (f x)) \<Longrightarrow> stays R (case v of None \<Rightarrow> m | Some x \<Rightarrow> f x)"
  by (cases v) simp_all

lemma stays_prod: "(\<And>x y. v = (x, y) \<Longrightarrow> stays R (f x y)) \<Longrightarrow> stays R (case v of (x, y) \<Rightarrow> f x y)"
  by (cases v) simp

lemma stays_bool: "stays R m \<Longrightarrow> stays R n \<Longrightarrow> stays R (case b of True \<Rightarrow> m | False \<Rightarrow> n)"
  by (cases b) simp_all

lemma stays_exc: "(\<And>c. stays R (f c)) \<Longrightarrow> stays R m \<Longrightarrow> stays R (case x of JournalError c \<Rightarrow> f c | _ \<Rightarrow> m)"
  by (cases x) simp_all

lemma stays_call:
  assumes "\<And>w e. e_sha e = ho_sha hs \<Longrightarrow> R w (w\<lparr>w_journal := snd (f e (w_journal w))\<rparr>)"
  shows "stays R (call hs f)"
proof -
  have "R w (w\<lparr>w_journal := j, w_tick := n\<rparr>)" if "f (env_at hs (w_tick w)) (w_journal w) = (r, j)" for w r j n
    using R_trans[OF assms[of "env_at hs (w_tick w)" w] R_tick[of _ n]] that by simp
  then show ?thesis by (simp add: stays_def call_def split: prod.split)
qed

lemmas stays_intros = stays_pure stays_seq stays_catch stays_for_each stays_retry_at stays_if stays_option
  stays_prod stays_bool stays_exc

end

definition journal_steps :: "(string \<Rightarrow> string) \<Rightarrow> 'x world \<Rightarrow> 'x world \<Rightarrow> bool" where
  "journal_steps h w w' \<longleftrightarrow> (cstep h)\<^sup>*\<^sup>* (w_journal w) (w_journal w')"

interpretation steps: world_relation "journal_steps h" for h
  by unfold_locales (auto simp: journal_steps_def)

abbreviation follows :: "(string \<Rightarrow> string) \<Rightarrow> ('x, 'a) prog \<Rightarrow> bool" where
  "follows h \<equiv> stays (journal_steps h)"

named_theorems follows_intros \<open>programs that keep to the operations of the store\<close>

lemmas [follows_intros] = steps.stays_intros

lemma follows_iff: "follows h m \<longleftrightarrow> (\<forall>w. (cstep h)\<^sup>*\<^sup>* (w_journal w) (w_journal (snd (m w))))"
  by (simp add: stays_def journal_steps_def)

lemma follows_unchanged: "(\<And>w. w_journal (snd (m w)) = w_journal w) \<Longrightarrow> follows h m"
  by (simp add: follows_iff)

lemma follows_call:
  assumes "\<And>e j. snd (f e j) = apply_op (op e) j" "\<And>e. op_sha (op e) \<in> {None, Some (e_sha e)}" "\<And>e rid. \<not> purges (op e) rid"
  shows "follows (ho_sha hs) (call hs f :: ('x, 'a) prog)"
proof (rule steps.stays_call)
  fix w :: "'x world" and e :: env
  assume "e_sha e = ho_sha hs"
  then have "cstep (ho_sha hs) (w_journal w) (apply_op (op e) (w_journal w))"
    using assms(2)[of e] assms(3) by (intro cstep) (simp add: client_op_def)
  then show "journal_steps (ho_sha hs) w (w\<lparr>w_journal := snd (f e (w_journal w))\<rparr>)"
    by (auto simp: journal_steps_def assms(1))
qed

lemma follows_operations [follows_intros]:
  "follows (ho_sha hs) (call hs (\<lambda>e. open_run e m n b))"
  "follows (ho_sha hs) (call hs (\<lambda>e. enqueue_batch e st rid spec))"
  "follows (ho_sha hs) (call hs (\<lambda>_. open_barrier rid name))"
  "follows (ho_sha hs) (call hs (\<lambda>e. close_barrier e rid name))"
  "follows (ho_sha hs) (call hs (\<lambda>e. claim_batch e r k))"
  "follows (ho_sha hs) (call hs (\<lambda>e. claim_job e job k))"
  "follows (ho_sha hs) (call hs (\<lambda>e. claim_reconciling e r k))"
  "follows (ho_sha hs) (call hs (\<lambda>e. claim_reconciling_job e job k))"
  "follows (ho_sha hs) (call hs (\<lambda>e. renew_lease e job token k))"
  "follows (ho_sha hs) (call hs (\<lambda>e. ack_batch e job token ms))"
  "follows (ho_sha hs) (call hs (\<lambda>e. mark_reconciling e job token err))"
  "follows (ho_sha hs) (call hs (\<lambda>e. schedule_retry e job token t rc code))"
  "follows (ho_sha hs) (call hs (\<lambda>e. schedule_reconciliation_retry e job token t code))"
  "follows (ho_sha hs) (call hs (\<lambda>e. block_batch e job token rc code))"
  "follows (ho_sha hs) (call hs (\<lambda>e. recover_run_leases_as_ambiguous e rid))"
  "follows (ho_sha hs) (call hs (\<lambda>e. complete_producers e rid))"
  "follows (ho_sha hs) (call hs (\<lambda>e. seal_endpoint_audit e rid d c a))"
  by (rule follows_call, rule apply_op.simps[symmetric], simp, simp add: purges_def)+

lemma csteps_run_ops: "(cstep h)\<^sup>*\<^sup>* j j' \<longleftrightarrow> (\<exists>ops. list_all (client_op h) ops \<and> j' = run_ops ops j)"
proof
  show "\<exists>ops. list_all (client_op h) ops \<and> j' = run_ops ops j" if "(cstep h)\<^sup>*\<^sup>* j j'"
    using that
  proof (induction rule: rtranclp_induct)
    case base
    show ?case by (rule exI[of _ "[]"]) (simp add: run_ops_def)
  next
    case (step k l)
    then obtain ops op where "list_all (client_op h) ops" "k = run_ops ops j" "client_op h op" "l = apply_op op k"
      by (auto elim!: cstepE)
    then show ?case by (intro exI[of _ "ops @ [op]"]) (simp add: run_ops_def)
  qed
  have "(cstep h)\<^sup>*\<^sup>* j (run_ops ops j)" if "list_all (client_op h) ops" for ops
    using that by (induction ops rule: rev_induct) (auto simp: run_ops_def intro: cstep rtranclp.rtrancl_into_rtrancl)
  then show "(cstep h)\<^sup>*\<^sup>* j j'" if "\<exists>ops. list_all (client_op h) ops \<and> j' = run_ops ops j" using that by blast
qed

text \<open>
  What a program that keeps to the operations of the store can rely on: the journal stays a
  reachable one, an outcome once recorded is still there afterwards, and work once enqueued is
  neither lost nor altered.
\<close>

lemma csteps_reachable: "(cstep h)\<^sup>*\<^sup>* j j' \<Longrightarrow> reachable h j \<Longrightarrow> reachable h j'"
  by (induction rule: rtranclp_induct) (auto elim!: cstepE simp: client_op_def intro: reachable_step)

lemma row_evolves_trans: "row_evolves b c \<Longrightarrow> row_evolves c d \<Longrightarrow> row_evolves b d"
  unfolding row_evolves_def using same_batch_trans by blast

lemma csteps_persist:
  assumes "(cstep h)\<^sup>*\<^sup>* j j'" "reachable h j" "b \<in> set (batches j)"
  shows "\<exists>c \<in> set (batches j'). row_evolves b c"
  using assms(1)
proof (induction rule: rtranclp_induct)
  case base
  show ?case using assms(3) row_evolves_refl by blast
next
  case (step k l)
  then obtain c where c: "c \<in> set (batches k)" "row_evolves b c" by blast
  obtain op where op: "l = apply_op op k" "\<not> purges op (b_run_id c)" using step(2) by (auto elim!: cstepE simp: client_op_def)
  have "jinv k" using csteps_reachable[OF step(1) assms(2)] by (rule reachable_jinv)
  then obtain d where "d \<in> set (batches l)" "row_evolves c d" using batch_persists[OF _ c(1) op(2)] op(1) by blast
  then show ?case using row_evolves_trans[OF c(2)] by blast
qed

locale journal_client =
  fixes h :: "string \<Rightarrow> string" and m :: "('x, 'a) prog"
  assumes follows_journal: "follows h m"
begin

lemma steps: "(cstep h)\<^sup>*\<^sup>* (w_journal w) (w_journal (snd (m w)))"
  using follows_journal by (simp add: follows_iff)

lemma stays_reachable: "reachable h (w_journal w) \<Longrightarrow> reachable h (w_journal (snd (m w)))"
  using csteps_reachable[OF steps] .

lemma outcome_kept:
  assumes "reachable h (w_journal w)" "b \<in> set (batches (w_journal w))" "final_status (b_status b)"
  shows "b \<in> set (batches (w_journal (snd (m w))))"
  using csteps_persist[OF steps assms(1,2)] assms(3) by (auto simp: row_evolves_def)

lemma work_kept:
  assumes "reachable h (w_journal w)" "b \<in> set (batches (w_journal w))"
  shows "\<exists>c \<in> set (batches (w_journal (snd (m w)))). same_batch b c"
  using csteps_persist[OF steps assms] by (auto simp: row_evolves_def)

end

section \<open>What the operations of a consumer do to the rows\<close>

text \<open>
  \<open>rows_under D X j j'\<close>: every row of \<open>j'\<close> is a row of \<open>j\<close> with the same work; it is done only if
  it was done or its job is in \<open>D\<close>, and executable only if it was executable or its job is in \<open>X\<close>.
\<close>

definition row_under :: "string set \<Rightarrow> string set \<Rightarrow> batch_row \<Rightarrow> batch_row \<Rightarrow> bool" where
  "row_under D X b c \<longleftrightarrow> same_batch b c \<and> (b_status c = Done \<longrightarrow> b_status b = Done \<or> b_job_id b \<in> D) \<and>
     (executable c \<longrightarrow> executable b \<or> b_job_id b \<in> X)"

definition rows_under :: "string set \<Rightarrow> string set \<Rightarrow> journal \<Rightarrow> journal \<Rightarrow> bool" where
  "rows_under D X j j' \<longleftrightarrow> (\<forall>c \<in> set (batches j'). \<exists>b \<in> set (batches j). row_under D X b c)"

lemma row_under_refl [simp]: "row_under D X b b"
  by (simp add: row_under_def)

lemma same_batch_job: "same_batch b c \<Longrightarrow> b_job_id c = b_job_id b"
  by (simp add: same_batch_def)

lemma row_under_trans: "row_under D X a b \<Longrightarrow> row_under D X b c \<Longrightarrow> row_under D X a c"
  unfolding row_under_def using same_batch_trans[of a b c] same_batch_job[of a b] by metis

lemma row_keep_under: "row_keep b c \<Longrightarrow> row_under D X b c"
  unfolding row_under_def row_keep_def row_live_def final_status_def by blast

lemma rows_under_same: "batches j' = batches j \<Longrightarrow> rows_under D X j j'"
  unfolding rows_under_def using row_under_refl by metis

lemma rows_under_trans: "rows_under D X j k \<Longrightarrow> rows_under D X k l \<Longrightarrow> rows_under D X j l"
  unfolding rows_under_def using row_under_trans by blast

lemma rows_under_rel:
  assumes "list_all2 R (batches j) (batches j')" "\<And>b c. R b c \<Longrightarrow> row_under D X b c"
  shows "rows_under D X j j'"
  unfolding rows_under_def
proof
  fix c assume "c \<in> set (batches j')"
  then obtain b where "b \<in> set (batches j)" "R b c" using assms(1) by (metis in_set_conv_nth list_all2_conv_all_nth)
  then show "\<exists>b \<in> set (batches j). row_under D X b c" using assms(2) by blast
qed

lemma rows_under_benign: "benign row_keep j j' \<Longrightarrow> rows_under D X j j'"
  by (rule rows_under_rel[of row_keep]) (auto simp: benign_def intro: row_keep_under)

lemma rows_under_replace:
  assumes "keys_ok j" "b \<in> set (batches j)" "batches j' = replace_batch b c (batches j)" "same_batch b c"
    "b_status c = Done \<longrightarrow> b_job_id b \<in> D" "executable c \<longrightarrow> b_job_id b \<in> X"
  shows "rows_under D X j j'"
proof -
  have "row_under D X b c" using assms(4-6) by (simp add: row_under_def)
  then show ?thesis
    unfolding rows_under_def assms(3) set_replace_batch[OF assms(1,2)] using assms(2) row_under_refl by blast
qed

lemma rows_under_fails: "jinv j \<Longrightarrow> fails b j j' \<Longrightarrow> rows_under D X j j'"
  unfolding fails_def jinv_def
  by (elim conjE exE, rule rows_under_replace[of j b]) (auto simp: executable_def)

lemma rows_under_ack:
  assumes "jinv j"
  shows "rows_under {job} {} j (snd (ack_batch e job token ms j))"
  using ack_batch_step[OF assms refl, where e = e and job = job and token = token and ms = ms]
proof (elim disjE exE conjE)
  fix row k ev
  assume row: "owned_row [Leased, Reconciling] job token (e_now e) j = Inr row"
    and k: "acked_state row j k" "snd (ack_batch e job token ms j) = refresh_run_status e (b_run_id row) (ev k)"
      "\<forall>k. same_tables k (ev k) \<and> batches (ev k) = batches k"
  obtain c where c: "row \<in> set (batches j)" "same_batch row c" "b_status c = Done" "batches k = replace_batch row c (batches j)"
    using k(1) unfolding acked_state_def by blast
  have "b_job_id row = job" using owned_rowD[OF row] by (simp add: owns_def)
  then show ?thesis using assms c k(2,3)
    by (intro rows_under_replace[OF _ c(1) _ c(2)]) (auto simp: jinv_def executable_def refresh_run_status_def split: option.splits)
qed (simp add: rows_under_same)

lemma rows_under_retry:
  assumes "jinv j"
  shows "rows_under {} {job} j (snd (schedule_retry e job token t rc code j))"
proof (cases "owned_row [Leased, Reconciling] job token (e_now e) j")
  case (Inl x)
  then show ?thesis by (simp add: schedule_retry_def owned_transition_def rows_under_same)
next
  case (Inr row)
  let ?f = "\<lambda>b. b\<lparr>b_status := if b_max_attempts row \<le> b_attempt row then DeadLetter else RetryWait,
      b_next_attempt_at := if b_max_attempts row \<le> b_attempt row then None else Some t, b_retry_class := Some rc,
      b_error_code := Some (if b_max_attempts row \<le> b_attempt row then MaxAttempts else code),
      b_fencing_token := None, b_lease_until := None\<rparr>"
  let ?sel = "\<lambda>b. b_job_id b = job \<and> b_fencing_token b = Some token \<and> b_status b \<in> {Leased, Reconciling}"
  have "batches (snd (schedule_retry e job token t rc code j)) = batches j \<or>
     batches (snd (schedule_retry e job token t rc code j)) = update_where ?sel ?f (batches j)"
    using Inr by (auto simp: schedule_retry_def owned_transition_def release_owned_def Let_def snd_transaction_read_back)
  moreover have "rows_under {} {job} j k" if "batches k = update_where ?sel ?f (batches j)" for k
  proof (rule rows_under_rel)
    show "list_all2 (\<lambda>b c. c = b \<or> (?sel b \<and> c = ?f b)) (batches j) (batches k)"
      unfolding that by (rule list_all2_update_where) auto
  qed (auto simp: row_under_def same_batch_def executable_def split: if_splits)
  ultimately show ?thesis using rows_under_same by blast
qed

lemma rows_under_quiet:
  assumes "jinv j"
  shows "rows_under D X j (snd (claim_batch e rid n j))" "rows_under D X j (snd (claim_job e job n j))"
    "rows_under D X j (snd (claim_reconciling e rid n j))" "rows_under D X j (snd (claim_reconciling_job e job n j))"
    "rows_under D X j (snd (mark_reconciling e job token err j))"
    "rows_under D X j (snd (block_batch e job token rc code j))"
    "rows_under D X j (snd (schedule_reconciliation_retry e job token t code j))"
    "rows_under D X j (snd (recover_run_leases_as_ambiguous e r j))"
    "rows_under D X j (snd (close_barrier e r name j))"
    "rows_under D X j (snd (seal_endpoint_audit e r dg m a j))"
proof -
  show "rows_under D X j (snd (block_batch e job token rc code j))"
    using block_batch_step[OF assms refl, where e = e and job = job and token = token and rc = rc and code = code]
      rows_under_same[of j j] rows_under_fails[OF assms] by metis
  show "rows_under D X j (snd (schedule_reconciliation_retry e job token t code j))"
    using schedule_reconciliation_retry_step[OF assms refl, where e = e and job = job and token = token and t = t and code = code]
      rows_under_same[of j j] rows_under_fails[OF assms] rows_under_benign by metis
qed (simp_all add: rows_under_benign claims_benign mark_reconciling_benign recovers_benign rows_under_same barrier_ops_batches seal_batches)

end
