(* ===== verification/Journal_Conservation.thy ===== *)
theory Journal_Conservation
  imports Journal_Safety
begin

text \<open>
  The row manifests of a run and the conservation summary over them. The invariant \<open>minv\<close>
  relates manifests, producers and batches and is preserved by every operation; from it follow
  the meaning of acknowledged rows, the exactness of producer counters, the conservation law and
  the soundness of a sealed endpoint audit.
\<close>

section \<open>What the manifests depend on\<close>

definition done_jobs :: "journal \<Rightarrow> string set" where
  "done_jobs j = b_job_id ` {b \<in> set (batches j). b_status b = Done}"

definition job_runs :: "journal \<Rightarrow> (string \<times> string) set" where
  "job_runs j = (\<lambda>b. (b_job_id b, b_run_id b)) ` set (batches j)"

text \<open>Operations that leave manifests, producers and the set of finished jobs alone.\<close>

definition quiet :: "journal \<Rightarrow> journal \<Rightarrow> bool" where
  "quiet j j' \<longleftrightarrow> manifests j' = manifests j \<and> producers j' = producers j \<and>
     done_jobs j' = done_jobs j \<and> job_runs j' = job_runs j"

lemma quiet_refl [simp]: "quiet j j"
  by (simp add: quiet_def)

lemma quiet_tables: "manifests j' = manifests j \<Longrightarrow> producers j' = producers j \<Longrightarrow> batches j' = batches j \<Longrightarrow> quiet j j'"
  by (simp add: quiet_def done_jobs_def job_runs_def)

lemma list_all2_image_eq: "list_all2 R xs ys \<Longrightarrow> (\<And>x y. R x y \<Longrightarrow> f y = f x) \<Longrightarrow> f ` set ys = f ` set xs"
  by (induction rule: list_all2_induct) auto

lemma list_all2_filter_image_eq:
  "list_all2 R xs ys \<Longrightarrow> (\<And>x y. R x y \<Longrightarrow> f y = f x \<and> p y = p x) \<Longrightarrow> f ` {y \<in> set ys. p y} = f ` {x \<in> set xs. p x}"
  by (induction rule: list_all2_induct) (auto 0 3 simp: image_iff)

lemma quiet_rows:
  assumes "manifests j' = manifests j \<and> producers j' = producers j" "list_all2 R (batches j) (batches j')"
    "\<And>b c. R b c \<Longrightarrow> same_batch b c \<and> (b_status c = Done \<longleftrightarrow> b_status b = Done)"
  shows "quiet j j'"
proof -
  have "done_jobs j' = done_jobs j"
    unfolding done_jobs_def by (rule list_all2_filter_image_eq[OF assms(2)]) (use assms(3) in \<open>auto simp: same_batch_def\<close>)
  moreover have "job_runs j' = job_runs j"
    unfolding job_runs_def by (rule list_all2_image_eq[OF assms(2)]) (use assms(3) in \<open>auto simp: same_batch_def\<close>)
  ultimately show ?thesis using assms(1) by (simp add: quiet_def)
qed

lemma row_live_done:
  assumes "row_live b c"
  shows "same_batch b c \<and> (b_status c = Done \<longleftrightarrow> b_status b = Done)"
proof (cases "b_status b = Done \<or> b_status c = Done")
  case True
  then have "c = b" using assms unfolding row_live_def final_status_def by blast
  then show ?thesis by simp
qed (use assms in \<open>simp add: row_live_def\<close>)

lemma benign_quiet: "benign row_live j j' \<Longrightarrow> quiet j j'"
  by (rule quiet_rows[where R = row_live]) (simp_all add: benign_def row_live_done same_tables_def)

lemma list_all2_update_where_on:
  "(\<And>b. R b b) \<Longrightarrow> (\<And>b. b \<in> set rows \<Longrightarrow> p b \<Longrightarrow> R b (f b)) \<Longrightarrow> list_all2 R rows (update_where p f rows)"
  by (induction rows) auto

lemma fails_quiet:
  assumes "jinv j" "fails b j j'"
  shows "quiet j j'"
proof -
  obtain c where c: "b \<in> set (batches j)" "in_flight b" "same_batch b c" "b_status c \<in> {Blocked, DeadLetter}"
    "batches j' = replace_batch b c (batches j)" "same_tables (j\<lparr>runs := runs j'\<rparr>) j'"
    using assms(2) unfolding fails_def by blast
  have keys: "keys_ok j" using assms(1) by (simp add: jinv_def)
  let ?R = "\<lambda>b c. same_batch b c \<and> (b_status c = Done \<longleftrightarrow> b_status b = Done)"
  have "list_all2 ?R (batches j) (batches j')"
    unfolding c(5) replace_batch_def
  proof (rule list_all2_update_where_on)
    fix d assume d: "d \<in> set (batches j)" "b_job_id d = b_job_id b"
    have "d = b" by (rule same_job_eq[OF keys d(1) c(1) d(2)])
    then show "?R d c" using c(2,3,4) by (auto simp: in_flight_def)
  qed simp
  then show ?thesis using c(6) by (intro quiet_rows[where R = ?R]) (simp_all add: same_tables_def)
qed

lemma quarantine_quiet: "quiet j (quarantine_runs e rids j)"
proof (rule quiet_rows)
  let ?R = "\<lambda>b c. same_batch b c \<and> (b_status c = Done \<longleftrightarrow> b_status b = Done)"
  show "list_all2 ?R (batches j) (batches (quarantine_runs e rids j))"
    using quarantine_runs_tables[of e rids j]
    by (auto intro!: list_all2_update_where simp: block_row_def same_batch_def)
  show "manifests (quarantine_runs e rids j) = manifests j \<and> producers (quarantine_runs e rids j) = producers j"
    using quarantine_runs_tables[of e rids j] by (simp add: same_tables_def)
qed simp

lemma open_run_quiet: "quiet j (snd (open_run e m n b j))"
proof -
  have body: "quiet j j'" if "open_run_body e m j = Inr (x, j')" for x j'
    using that
  proof (cases rule: open_run_body_cases)
    case (resumed r)
    then show ?thesis by (intro quiet_tables) (simp_all add: same_tables_def)
  next
    case opened
    let ?k = "quarantine_runs e (map r_run_id (filter (\<lambda>r. same_scope (r_metadata r) m \<and> run_active r) (runs j))) j"
    have "quiet j ?k" by (rule quarantine_quiet)
    then show ?thesis using opened(3) by (simp add: quiet_def done_jobs_def job_runs_def Let_def)
  qed
  show ?thesis
    by (cases "admit e n b") (simp_all add: open_run_def snd_transactionI body)
qed

lemma barrier_ops_quiet:
  "quiet j (snd (open_barrier rid name j))" "quiet j (snd (close_barrier e rid name j))"
  "quiet j (snd (close_run_production e rid j))"
  by (auto simp: open_barrier_def close_barrier_def close_barrier_body_def close_run_production_def Let_def
      intro!: quiet_tables split: option.splits)

lemma owned_quiet:
  assumes "jinv j"
  shows "quiet j (snd (schedule_retry e job token t rc code j))"
    "quiet j (snd (schedule_reconciliation_retry e job token t code j))"
    "quiet j (snd (block_batch e job token rc code j))"
  using schedule_retry_step[OF assms refl] schedule_reconciliation_retry_step[OF assms refl] block_batch_step[OF assms refl]
    fails_quiet[OF assms] benign_quiet benign_quiet[OF benign_live] quiet_refl
  by metis+

fun touches_manifests :: "journal_op \<Rightarrow> bool" where
  "touches_manifests (EnqueueBatch e st rid spec) = True"
| "touches_manifests (AckBatch e job token ms) = True"
| "touches_manifests (CompleteProducers e rid) = True"
| "touches_manifests (PurgeRun e own now rid st) = True"
| "touches_manifests _ = False"

lemma apply_op_quiet:
  assumes "jinv j" "\<not> touches_manifests op"
  shows "quiet j (apply_op op j)"
proof -
  have "quiet j (snd (seal_endpoint_audit e rid d n a j))" for e rid d n a
    using seal_endpoint_audit_step[OF refl, where e = e and rid = rid and d = d and n = n and a = a and j = j]
    by (auto intro!: quiet_tables)
  moreover have "quiet j (snd (quarantine_legacy_targets e m ts j))" for e m ts
    by (simp add: quarantine_legacy_targets_def Let_def quarantine_quiet)
  ultimately show ?thesis
    using assms
    by (cases op)
      (simp_all add: open_run_quiet barrier_ops_quiet owned_quiet benign_quiet[OF benign_live] claims_benign
        renew_lease_benign mark_reconciling_benign recovers_benign)
qed

section \<open>Identities\<close>

type_synonym ident = "manifest_kind \<times> string \<times> string \<times> string \<times> string \<times> string \<times> string"

definition ident :: "manifest_row \<Rightarrow> ident" where
  "ident m = (m_kind m, m_run_id m, m_scope m, m_shape m,
     (if m_kind m = NodeKind then m_identity_property m else []), m_identity_type m, m_identity_json m)"

definition c_ident :: "string \<Rightarrow> candidate \<Rightarrow> ident" where
  "c_ident rid c = (c_kind c, rid, c_scope c, c_shape c,
     (if c_kind c = NodeKind then c_identity_property c else []), c_identity_type c, c_identity_json c)"

definition sig :: "manifest_row \<Rightarrow> ident \<times> manifest_disposition \<times> string" where
  "sig m = (ident m, m_disposition m, m_payload_digest m)"

text \<open>
  One unique row per identity, and every declared duplicate repeats the payload of the unique
  row of its identity.
\<close>

definition sigs_ok :: "(ident \<times> manifest_disposition \<times> string) list \<Rightarrow> bool" where
  "sigs_ok xs \<longleftrightarrow> distinct (map fst (filter (\<lambda>x. fst (snd x) = StagedUnique) xs)) \<and>
     (\<forall>i g. (i, DeclaredDuplicate, g) \<in> set xs \<longrightarrow> (i, StagedUnique, g) \<in> set xs)"

lemma same_identity_ident: "same_identity rid c m \<longleftrightarrow> ident m = c_ident rid c"
  by (cases "c_kind c") (auto simp: same_identity_def ident_def c_ident_def)

lemma staged_before_None:
  "staged_before rid c j = None \<longleftrightarrow>
     (\<forall>m \<in> set (manifests j). ident m = c_ident rid c \<longrightarrow> m_disposition m \<notin> {StagedUnique, DeclaredDuplicate})"
  by (auto simp: staged_before_def find_None_iff' same_identity_ident)

lemma sigs_okD:
  "sigs_ok xs \<Longrightarrow> (i, d, g) \<in> set xs \<Longrightarrow> d \<in> {StagedUnique, DeclaredDuplicate} \<Longrightarrow> (i, StagedUnique, g) \<in> set xs"
  unfolding sigs_ok_def by blast

lemma staged_before_unique:
  assumes "sigs_ok (map sig (manifests j))" "staged_before rid c j = Some m"
  shows "(c_ident rid c, StagedUnique, m_payload_digest m) \<in> set (map sig (manifests j))"
proof -
  have m: "m \<in> set (manifests j)" "ident m = c_ident rid c" "m_disposition m \<in> {StagedUnique, DeclaredDuplicate}"
    using find_SomeD[OF assms(2)[unfolded staged_before_def]] by (auto simp: same_identity_ident)
  then have "sig m \<in> set (map sig (manifests j))" by simp
  then have "(c_ident rid c, m_disposition m, m_payload_digest m) \<in> set (map sig (manifests j))"
    by (simp only: sig_def m(2))
  then show ?thesis using m(3) by (rule sigs_okD[OF assms(1)])
qed

lemma sigs_ok_append:
  assumes "sigs_ok xs" "d = StagedUnique \<longrightarrow> (\<forall>g. (i, StagedUnique, g) \<notin> set xs)"
    "d = DeclaredDuplicate \<longrightarrow> (i, StagedUnique, g) \<in> set xs"
  shows "sigs_ok (xs @ [(i, d, g)])"
proof -
  have "i \<notin> fst ` {x \<in> set xs. fst (snd x) = StagedUnique}" if "d = StagedUnique"
    using assms(2) that by force
  then show ?thesis using assms(1,3) by (auto simp: sigs_ok_def)
qed

lemma sig_manifest_row: "sig (manifest_row_of rid job p c d) = (c_ident rid c, d, c_payload_digest c)"
  by (simp add: sig_def ident_def c_ident_def manifest_row_of_def)

definition fresh_candidates :: "candidate list \<Rightarrow> bool" where
  "fresh_candidates cs \<longleftrightarrow> (\<forall>c \<in> set cs. c_disposition c = StagedUnique \<or> c_disposition c = Rejected)"

lemma manifest_candidates_fresh: "manifest_candidates h run spec rows job = Some (p, cs) \<Longrightarrow> fresh_candidates cs"
proof -
  assume "manifest_candidates h run spec rows job = Some (p, cs)"
  moreover have "c_disposition c = StagedUnique \<or> c_disposition c = Rejected"
    if "row_candidate h job p s operation raw i = Some c" for s operation raw i c
    using that
    by (auto simp: row_candidate_def node_candidate_def edge_candidate_def candidate_base_def Let_def
        split: if_splits sum.splits)
  ultimately show ?thesis
    by (fastforce simp: manifest_candidates_def fresh_candidates_def Let_def map_filter_def split: if_splits)
qed

lemma stage_candidate_sigs:
  assumes "sigs_ok (map sig (manifests j))" "c_disposition c = StagedUnique \<or> c_disposition c = Rejected"
  shows "sigs_ok (map sig (manifests j @ [manifest_row_of rid job p c (disposition_of rid c j)]))"
proof (cases "c_disposition c = StagedUnique")
  case False
  then have "disposition_of rid c j = Rejected" using assms(2) by (simp add: disposition_of_def)
  then show ?thesis using assms(1) by (auto simp: sig_manifest_row intro!: sigs_ok_append)
next
  case True
  show ?thesis
  proof (cases "staged_before rid c j")
    case None
    then have "\<forall>g. (c_ident rid c, StagedUnique, g) \<notin> set (map sig (manifests j))"
      unfolding staged_before_None by (auto simp: sig_def)
    then show ?thesis
      using True None assms by (auto simp: disposition_of_def sig_manifest_row intro!: sigs_ok_append)
  next
    case (Some m)
    then show ?thesis
      using True assms(1) staged_before_unique[OF assms(1) Some]
      by (auto simp: disposition_of_def sig_manifest_row intro!: sigs_ok_append)
  qed
qed

section \<open>Staging a batch\<close>

definition staged_row :: "string \<Rightarrow> string \<Rightarrow> string \<Rightarrow> manifest_row \<Rightarrow> bool" where
  "staged_row rid job producer m \<longleftrightarrow> m_run_id m = rid \<and> m_job_id m = job \<and> m_producer_id m = producer \<and>
     \<not> m_acked m \<and> \<not> m_graph_verified m"

definition counts_of :: "manifest_row list \<Rightarrow> counts" where
  "counts_of ms = ((\<lambda>k. int (count_where (\<lambda>m. m_kind m = k) ms)),
     (\<lambda>k d. int (count_where (\<lambda>m. m_kind m = k \<and> m_disposition m = d) ms)))"

lemma counts_of_Nil: "counts_of [] = zero_counts"
  by (simp add: counts_of_def zero_counts_def)

lemma counts_of_snoc: "counts_of (ms @ [m]) = bump (m_kind m) (m_disposition m) (counts_of ms)"
  by (auto simp: counts_of_def bump_def fun_eq_iff)

lemma stage_candidate_step:
  assumes "stage_candidate rid job producer c (ct, j) = Inr (ct', k)"
  defines "m \<equiv> manifest_row_of rid job producer c (disposition_of rid c j)"
  shows "ct' = bump (m_kind m) (m_disposition m) ct" "manifests k = manifests j @ [m]"
  using assms by (auto simp: stage_candidate_def Let_def manifest_row_of_def split: if_splits)

lemma stage_candidates_effect:
  assumes "rfold (stage_candidate rid job producer) cs (counts_of new0, j) = Inr (counts, j')"
    "manifests j = ms0 @ new0" "list_all (staged_row rid job producer) new0"
    "sigs_ok (map sig (manifests j))" "fresh_candidates cs"
  shows "\<exists>new. manifests j' = ms0 @ new \<and> counts = counts_of new \<and> list_all (staged_row rid job producer) new \<and>
    length new = length new0 + length cs \<and> sigs_ok (map sig (manifests j'))"
  using assms
proof (induction cs arbitrary: new0 j)
  case Nil
  then show ?case by auto
next
  case (Cons c cs)
  let ?m = "manifest_row_of rid job producer c (disposition_of rid c j)"
  obtain k where k: "stage_candidate rid job producer c (counts_of new0, j) = Inr (counts_of (new0 @ [?m]), k)"
    "rfold (stage_candidate rid job producer) cs (counts_of (new0 @ [?m]), k) = Inr (counts, j')"
    "manifests k = ms0 @ new0 @ [?m]"
  proof -
    obtain ct k where k: "stage_candidate rid job producer c (counts_of new0, j) = Inr (ct, k)"
      "rfold (stage_candidate rid job producer) cs (ct, k) = Inr (counts, j')"
      using Cons.prems(1) by (auto simp: rbind_Inr_iff)
    then show thesis using that[of k] stage_candidate_step[OF k(1)] Cons.prems(2) by (simp add: counts_of_snoc)
  qed
  have "staged_row rid job producer ?m" by (simp add: staged_row_def manifest_row_of_def)
  moreover have "sigs_ok (map sig (manifests k))"
    using stage_candidate_sigs[OF Cons.prems(4), of c rid job producer] Cons.prems(2,5) k(3)
    by (simp add: fresh_candidates_def)
  ultimately show ?case
    using Cons.IH[OF k(2) k(3)] Cons.prems(3,5) by (auto simp: fresh_candidates_def)
qed

section \<open>Invariants\<close>

abbreviation producer_key :: "producer_row \<Rightarrow> string \<times> string" where
  "producer_key p \<equiv> (p_run_id p, p_producer_id p)"

definition acks_ok :: "journal \<Rightarrow> bool" where
  "acks_ok j \<longleftrightarrow> (\<forall>m \<in> set (manifests j).
     (m_acked m \<longleftrightarrow> m_disposition m = StagedUnique \<and> m_job_id m \<in> done_jobs j) \<and>
     m_graph_verified m = m_acked m \<and> (m_job_id m, m_run_id m) \<in> job_runs j)"

definition emitted_by :: "producer_row \<Rightarrow> manifest_row \<Rightarrow> bool" where
  "emitted_by p m \<longleftrightarrow> m_run_id m = p_run_id p \<and> m_producer_id m = p_producer_id p"

definition producer_ok :: "manifest_row list \<Rightarrow> producer_row \<Rightarrow> bool" where
  "producer_ok ms p \<longleftrightarrow> (p_emitted p, p_count p) = counts_of (filter (emitted_by p) ms)"

definition producers_ok :: "journal \<Rightarrow> bool" where
  "producers_ok j \<longleftrightarrow> distinct (map producer_key (producers j)) \<and> list_all (producer_ok (manifests j)) (producers j) \<and>
     (\<forall>m \<in> set (manifests j). (m_run_id m, m_producer_id m) \<in> producer_key ` set (producers j))"

definition complete_ok :: "journal \<Rightarrow> bool" where
  "complete_ok j \<longleftrightarrow> (\<forall>rid. production_complete rid j \<longrightarrow> invalid_rows rid j = 0 \<and>
     (\<forall>p \<in> set (producers j). p_run_id p = rid \<longrightarrow> p_status p = ProducerComplete))"

definition minv :: "journal \<Rightarrow> bool" where
  "minv j \<longleftrightarrow> sigs_ok (map sig (manifests j)) \<and> acks_ok j \<and> producers_ok j \<and> complete_ok j"

lemma minv_empty: "minv empty_journal"
  by (simp add: minv_def sigs_ok_def acks_ok_def producers_ok_def complete_ok_def empty_journal_def
      production_complete_def find_producer_def)

lemma minv_quiet:
  assumes "minv j" "quiet j j'"
  shows "minv j'"
  using assms unfolding minv_def quiet_def acks_ok_def producers_ok_def complete_ok_def production_complete_def
    find_producer_def invalid_rows_def by auto

section \<open>Acknowledging\<close>

lemma done_jobs_acked:
  assumes "jinv j" "acked_state b j k"
  shows "done_jobs k = insert (b_job_id b) (done_jobs j) \<and> job_runs k = job_runs j"
proof -
  obtain c where c: "b \<in> set (batches j)" "in_flight b" "same_batch b c" "b_status c = Done"
    "batches k = replace_batch b c (batches j)"
    using assms(2) unfolding acked_state_def by blast
  have set_k: "set (batches k) = insert c (set (batches j) - {b})"
    unfolding c(5) by (rule set_replace_batch[OF _ c(1)]) (use assms(1) in \<open>simp add: jinv_def\<close>)
  have "b_status b \<noteq> Done" using c(2) by (auto simp: in_flight_def)
  then have "{d \<in> set (batches k). b_status d = Done} = insert c {d \<in> set (batches j). b_status d = Done}"
    using set_k c(4) by auto
  moreover have "b_job_id c = b_job_id b" "b_run_id c = b_run_id b" using c(3) by (simp_all add: same_batch_def)
  ultimately show ?thesis
    using set_k c(1) by (auto simp: done_jobs_def job_runs_def insert_image image_iff)
qed

lemma counts_of_update_where:
  assumes "\<And>m. m_kind (f m) = m_kind m \<and> m_disposition (f m) = m_disposition m \<and> m_run_id (f m) = m_run_id m \<and>
     m_producer_id (f m) = m_producer_id m"
  shows "counts_of (filter (emitted_by p) (update_where q f ms)) = counts_of (filter (emitted_by p) ms)"
  using assms by (induction ms) (auto simp: counts_of_def emitted_by_def fun_eq_iff)

lemma minv_acked:
  assumes "minv j" "jinv j" "acked_state b j k"
  shows "minv k"
proof -
  let ?p = "\<lambda>m. m_job_id m = b_job_id b \<and> m_disposition m = StagedUnique"
  let ?f = "\<lambda>m. m\<lparr>m_acked := True, m_graph_verified := True\<rparr>"
  have tabs: "manifests k = update_where ?p ?f (manifests j)" "producers k = producers j" "runs k = runs j"
    using assms(3) by (simp_all add: acked_state_def same_tables_def)
  note dj = done_jobs_acked[OF assms(2,3)]
  have "map sig (manifests k) = map sig (manifests j)"
    unfolding tabs(1) by (rule map_update_where_key) (simp add: sig_def ident_def)
  moreover have "acks_ok k"
    using assms(1) dj unfolding acks_ok_def minv_def tabs(1) by (auto simp: set_update_where)
  moreover have "list_all (producer_ok (manifests k)) (producers k)"
    using assms(1) counts_of_update_where[of ?f _ ?p "manifests j"]
    by (simp add: minv_def producers_ok_def producer_ok_def tabs list_all_iff)
  then have "producers_ok k"
    using assms(1) unfolding producers_ok_def minv_def tabs by (auto simp: set_update_where)
  moreover have "complete_ok k"
  proof -
    have "invalid_rows rid k = invalid_rows rid j" for rid
      unfolding invalid_rows_def tabs(1) count_where_update_where by (rule count_where_cong) auto
    then show ?thesis
      using assms(1) by (simp add: minv_def complete_ok_def production_complete_def find_producer_def tabs)
  qed
  ultimately show ?thesis using assms(1) by (simp add: minv_def)
qed

section \<open>Completing and purging\<close>

lemma complete_producers_effect:
  assumes "complete_producers_body e rid j = Inr (n, j')" "j' \<noteq> j"
  shows "invalid_rows rid j = 0" "find_producer rid producers_complete_id j = None"
    "producers j' = update_where (\<lambda>p. p_run_id p = rid \<and> p_status p = ProducerOpen) (\<lambda>p. p\<lparr>p_status := ProducerComplete\<rparr>)
       (producers j) @ [\<lparr>p_run_id = rid, p_producer_id = producers_complete_id, p_status = ProducerComplete,
         p_emitted = (\<lambda>_. 0), p_count = (\<lambda>_ _. 0)\<rparr>]"
    "manifests j' = manifests j" "batches j' = batches j"
  using assms by (auto simp: complete_producers_body_def Let_def split: if_splits)

lemma find_producer_None: "find_producer rid pid j = None \<longleftrightarrow> (rid, pid) \<notin> producer_key ` set (producers j)"
  by (auto simp: find_producer_def find_None_iff')

lemma minv_complete_body:
  assumes "minv j" "complete_producers_body e rid j = Inr (n, j')"
  shows "minv j'"
proof (cases "j' = j")
  case False
  note eff = complete_producers_effect[OF assms(2) False]
  let ?u = "update_where (\<lambda>p. p_run_id p = rid \<and> p_status p = ProducerOpen) (\<lambda>p. p\<lparr>p_status := ProducerComplete\<rparr>) (producers j)"
  let ?c = "\<lparr>p_run_id = rid, p_producer_id = producers_complete_id, p_status = ProducerComplete,
         p_emitted = (\<lambda>_. 0), p_count = (\<lambda>_ _. 0)\<rparr> :: producer_row"
  have inv: "distinct (map producer_key (producers j))" "list_all (producer_ok (manifests j)) (producers j)"
    "\<forall>m \<in> set (manifests j). (m_run_id m, m_producer_id m) \<in> producer_key ` set (producers j)" "complete_ok j"
    using assms(1) by (auto simp: minv_def producers_ok_def)
  have keys: "map producer_key ?u = map producer_key (producers j)" by (rule map_update_where_key) simp
  have new: "(rid, producers_complete_id) \<notin> producer_key ` set (producers j)" using eff(2) by (simp add: find_producer_None)
  have "filter (emitted_by ?c) (manifests j) = []"
    unfolding filter_empty_conv emitted_by_def using inv(3) new by (metis producer_row.select_convs(1,2))
  then have "producer_ok (manifests j) ?c"
    by (simp add: producer_ok_def counts_of_Nil zero_counts_def)
  moreover have "list_all (producer_ok (manifests j)) ?u"
    using inv(2) by (auto simp: list_all_iff set_update_where producer_ok_def emitted_by_def[abs_def])
  moreover have keyset: "producer_key ` set (producers j') = insert (rid, producers_complete_id) (producer_key ` set (producers j))"
    using arg_cong[OF keys, of set] by (simp add: eff(3) image_Un)
  ultimately have "producers_ok j'"
    using inv(1,3) new keys unfolding producers_ok_def keyset eff(4) by (auto simp: eff(3) simp flip: set_map)
  moreover have "complete_ok j'"
  proof -
    have "production_complete r j" if "production_complete r j'" "r \<noteq> rid" for r
      using that by (auto simp: production_complete_def find_producer_def eff(3) find_append find_update_where
          dest: find_SomeD split: option.splits if_splits)
    then show ?thesis
      using inv(4) eff(1) producer_status.exhaust unfolding complete_ok_def
      by (auto simp: eff(3,4) set_update_where invalid_rows_def)
  qed
  ultimately show ?thesis
    using assms(1) by (simp add: minv_def acks_ok_def done_jobs_def job_runs_def eff(4,5))
qed (use assms(1) in simp)

lemma minv_complete: "minv j \<Longrightarrow> minv (snd (complete_producers e rid j))"
  unfolding complete_producers_def by (rule snd_transactionI) (auto intro: minv_complete_body)

lemma sigs_ok_filter:
  assumes "sigs_ok (map sig ms)" "\<And>m n. ident m = ident n \<Longrightarrow> p m = p n"
  shows "sigs_ok (map sig (filter p ms))"
proof -
  have A: "distinct (map fst (filter (\<lambda>x. fst (snd x) = StagedUnique) (map sig (filter p ms))))"
  proof -
    have "distinct (map ident (filter (\<lambda>m. m_disposition m = StagedUnique) ms))"
      using assms(1) by (simp add: sigs_ok_def filter_map o_def sig_def)
    then have "distinct (map ident (filter p (filter (\<lambda>m. m_disposition m = StagedUnique) ms)))" by (rule distinct_map_filter)
    then show ?thesis by (simp add: filter_map o_def sig_def conj_commute)
  qed
  have B: "(i, StagedUnique, g) \<in> set (map sig (filter p ms))"
    if dup: "(i, DeclaredDuplicate, g) \<in> set (map sig (filter p ms))" for i g
  proof -
    obtain m where m: "m \<in> set (filter p ms)" "sig m = (i, DeclaredDuplicate, g)"
      using dup by (metis imageE list.set_map)
    then have "(i, DeclaredDuplicate, g) \<in> set (map sig ms)" by (metis filter_is_subset imageI list.set_map subsetD)
    then have "(i, StagedUnique, g) \<in> set (map sig ms)" by (rule sigs_okD[OF assms(1)]) simp
    then obtain u where u: "u \<in> set ms" "sig u = (i, StagedUnique, g)" by (metis imageE list.set_map)
    then have "ident u = ident m" using m(2) by (simp add: sig_def)
    then have "p u = p m" by (rule assms(2))
    then have "u \<in> set (filter p ms)" using u(1) m(1) by simp
    then show ?thesis using u(2) by (metis imageI list.set_map)
  qed
  show ?thesis unfolding sigs_ok_def by (intro conjI allI impI A B)
qed

lemma find_delete_where: "(\<And>x. p x \<Longrightarrow> \<not> q x) \<Longrightarrow> List.find p (delete_where q xs) = List.find p xs"
  by (induction xs) (auto simp: delete_where_def)

lemma minv_delete:
  assumes "minv j" "keys_ok j"
  shows "minv (delete_run rid j)"
proof -
  let ?k = "delete_run rid j"
  have inv: "sigs_ok (map sig (manifests j))" "acks_ok j" "distinct (map producer_key (producers j))"
    "list_all (producer_ok (manifests j)) (producers j)"
    "\<forall>m \<in> set (manifests j). (m_run_id m, m_producer_id m) \<in> producer_key ` set (producers j)" "complete_ok j"
    using assms(1) by (auto simp: minv_def producers_ok_def)
  have "sigs_ok (map sig (manifests ?k))"
    unfolding delete_run_tables delete_where_def by (rule sigs_ok_filter[OF inv(1)]) (simp add: ident_def)
  moreover have "acks_ok ?k"
  proof -
    have "m_job_id m \<in> done_jobs ?k \<longleftrightarrow> m_job_id m \<in> done_jobs j" "(m_job_id m, m_run_id m) \<in> job_runs ?k"
      if m: "m \<in> set (manifests j)" "m_run_id m \<noteq> rid" for m
    proof -
      obtain b where b: "b \<in> set (batches j)" "b_job_id b = m_job_id m" "b_run_id b = m_run_id m"
        using inv(2) m(1) by (force simp: acks_ok_def job_runs_def)
      have "b_run_id d \<noteq> rid" if "d \<in> set (batches j)" "b_job_id d = m_job_id m" for d
        using same_job_eq[OF assms(2) that(1) b(1)] that(2) b m(2) by simp
      then show "m_job_id m \<in> done_jobs ?k \<longleftrightarrow> m_job_id m \<in> done_jobs j" by (auto simp: done_jobs_def)
      show "(m_job_id m, m_run_id m) \<in> job_runs ?k"
        unfolding job_runs_def by (rule image_eqI[of _ _ b]) (use b m(2) in auto)
    qed
    then show ?thesis using inv(2) by (auto simp: acks_ok_def)
  qed
  moreover have "producers_ok ?k"
  proof -
    have "filter (emitted_by p) (delete_where (\<lambda>m. m_run_id m = rid) (manifests j)) = filter (emitted_by p) (manifests j)"
      if "p_run_id p \<noteq> rid" for p
      using that by (auto simp: delete_where_def emitted_by_def intro: filter_cong)
    then show ?thesis
      using inv(3-5) by (force simp: producers_ok_def producer_ok_def list_all_iff distinct_map_delete_where)
  qed
  moreover have "complete_ok ?k"
  proof -
    have "production_complete r j \<and> r \<noteq> rid" if pc: "production_complete r ?k" for r
    proof -
      have "r \<noteq> rid"
        using pc by (auto simp: production_complete_def find_producer_def dest: find_SomeD split: option.splits)
      moreover from this have "find_producer r pid ?k = find_producer r pid j" for pid
        unfolding find_producer_def delete_run_tables by (intro find_delete_where) auto
      ultimately show ?thesis using pc by (simp add: production_complete_def)
    qed
    moreover have "invalid_rows r ?k = invalid_rows r j" if "r \<noteq> rid" for r
      unfolding invalid_rows_def delete_run_tables by (rule count_where_delete_where) (use that in auto)
    ultimately show ?thesis using inv(6) by (auto simp: complete_ok_def)
  qed
  ultimately show ?thesis by (simp add: minv_def)
qed

section \<open>Enqueueing\<close>

lemma counts_of_append:
  "counts_of (xs @ ys) = ((\<lambda>k. fst (counts_of xs) k + fst (counts_of ys) k),
     (\<lambda>k d. snd (counts_of xs) k d + snd (counts_of ys) k d))"
  by (simp add: counts_of_def fun_eq_iff)

lemma register_producer_ok:
  assumes "producers_ok j"
  shows "producers_ok (register_producer rid pid j)" "manifests (register_producer rid pid j) = manifests j"
    "(rid, pid) \<in> producer_key ` set (producers (register_producer rid pid j))"
proof -
  let ?p = "\<lparr>p_run_id = rid, p_producer_id = pid, p_status = ProducerOpen, p_emitted = (\<lambda>_. 0), p_count = (\<lambda>_ _. 0)\<rparr> :: producer_row"
  have inv: "distinct (map producer_key (producers j))" "list_all (producer_ok (manifests j)) (producers j)"
    "\<forall>m \<in> set (manifests j). (m_run_id m, m_producer_id m) \<in> producer_key ` set (producers j)"
    using assms by (auto simp: producers_ok_def)
  show "manifests (register_producer rid pid j) = manifests j" by (simp add: register_producer_def)
  show "(rid, pid) \<in> producer_key ` set (producers (register_producer rid pid j))"
    by (auto simp: register_producer_def find_producer_None[THEN iffD1])
      (metis find_producer_None option.distinct(1))
  show "producers_ok (register_producer rid pid j)"
  proof (cases "find_producer rid pid j")
    case None
    then have new: "(rid, pid) \<notin> producer_key ` set (producers j)" by (simp add: find_producer_None)
    have "filter (emitted_by ?p) (manifests j) = []"
      unfolding filter_empty_conv emitted_by_def using inv(3) new by (metis producer_row.select_convs(1,2))
    then have "producer_ok (manifests j) ?p" by (simp add: producer_ok_def counts_of_Nil zero_counts_def)
    then show ?thesis using inv new None by (auto simp: producers_ok_def register_producer_def)
  qed (use assms in \<open>simp add: register_producer_def\<close>)
qed

lemma list_all_update_where:
  "list_all P xs \<Longrightarrow> (\<And>x. P x \<Longrightarrow> Q (if q x then f x else x)) \<Longrightarrow> list_all Q (update_where q f xs)"
  by (induction xs) auto

lemma count_producer_ok:
  assumes "producers_ok j" "manifests k = manifests j @ new" "producers k = producers j"
    "list_all (staged_row rid job pid) new" "(rid, pid) \<in> producer_key ` set (producers j)"
  shows "producers_ok (count_producer rid pid (counts_of new) k)"
proof -
  let ?q = "\<lambda>p. p_run_id p = rid \<and> p_producer_id p = pid"
  let ?f = "\<lambda>p. p\<lparr>p_emitted := (\<lambda>k. p_emitted p k + fst (counts_of new) k), p_count := (\<lambda>k d. p_count p k d + snd (counts_of new) k d)\<rparr>"
  have ps: "producers (count_producer rid pid (counts_of new) k) = update_where ?q ?f (producers j)"
    by (simp add: count_producer_def assms(3))
  have keys: "map producer_key (update_where ?q ?f (producers j)) = map producer_key (producers j)"
    by (rule map_update_where_key) simp
  have inv: "distinct (map producer_key (producers j))" "list_all (producer_ok (manifests j)) (producers j)"
    "\<forall>m \<in> set (manifests j). (m_run_id m, m_producer_id m) \<in> producer_key ` set (producers j)"
    using assms(1) by (auto simp: producers_ok_def)
  have "producer_ok (manifests j @ new) (if ?q p then ?f p else p)" if "producer_ok (manifests j) p" for p
  proof (cases "?q p")
    case True
    then have "filter (emitted_by (?f p)) new = new" "emitted_by (?f p) = emitted_by p"
      using assms(4) by (auto simp: filter_id_conv list_all_iff staged_row_def emitted_by_def)
    then show ?thesis using that True by (simp add: producer_ok_def counts_of_append prod_eq_iff)
  next
    case False
    then have "filter (emitted_by p) new = []"
      using assms(4) by (auto simp: filter_empty_conv list_all_iff staged_row_def emitted_by_def)
    then show ?thesis unfolding if_not_P[OF False] using that by (simp add: producer_ok_def)
  qed
  then have "list_all (producer_ok (manifests k)) (update_where ?q ?f (producers j))"
    unfolding assms(2) by (rule list_all_update_where[OF inv(2)])
  moreover have "producer_key ` set (update_where ?q ?f (producers j)) = producer_key ` set (producers j)"
    using arg_cong[OF keys, of set] by simp
  moreover have "(m_run_id m, m_producer_id m) \<in> producer_key ` set (producers j)" if "m \<in> set (manifests k)" for m
    using that inv(3) assms(2,4,5) by (auto simp: list_all_iff staged_row_def)
  ultimately show ?thesis
    using inv(1) keys by (simp only: producers_ok_def ps) (simp add: count_producer_def)
qed

lemma count_producer_tables [simp]: "manifests (count_producer rid pid ct j) = manifests j"
  by (simp add: count_producer_def)

lemma manifest_failure_Nil:
  "manifest_failure (counts_of ms) = [] \<longleftrightarrow> (\<forall>m \<in> set ms. m_disposition m \<notin> {Conflict, Rejected})"
proof -
  have "manifest_failure (counts_of ms) = [] \<longleftrightarrow>
      (\<forall>k. \<forall>d \<in> {Conflict, Rejected}. count_where (\<lambda>m. m_kind m = k \<and> m_disposition m = d) ms = 0)"
    by (auto simp: manifest_failure_def counts_of_def all_manifest_kind)
  then show ?thesis by (auto simp: count_where_0_iff)
qed

definition stages :: "string \<Rightarrow> string \<Rightarrow> (string \<times> int) list \<Rightarrow> journal \<Rightarrow> journal \<Rightarrow> bool" where
  "stages rid job failure j j' \<longleftrightarrow> (\<exists>new. manifests j' = manifests j @ new \<and>
     (\<forall>m \<in> set new. m_run_id m = rid \<and> m_job_id m = job \<and> \<not> m_acked m \<and> \<not> m_graph_verified m) \<and>
     (failure = [] \<longleftrightarrow> (\<forall>m \<in> set new. m_disposition m \<notin> {Conflict, Rejected}))) \<and>
   sigs_ok (map sig (manifests j')) \<and> producers_ok j' \<and>
   {p \<in> set (producers j'). p_run_id p \<noteq> rid} = {p \<in> set (producers j). p_run_id p \<noteq> rid}"

lemma stage_batch_stages:
  assumes "stage_batch rid job mc j = Inr (failure, j')" "\<forall>p cs. mc = Some (p, cs) \<longrightarrow> fresh_candidates cs"
    "sigs_ok (map sig (manifests j))" "producers_ok j"
  shows "stages rid job failure j j'"
  using assms(1)
proof (cases rule: stage_batch_cases)
  case plain
  then show ?thesis using assms(3,4) by (auto simp: stages_def)
next
  case (staged producer cs j0 counts k)
  note reg = register_producer_ok[OF assms(4), of rid producer]
  obtain new where new: "manifests k = manifests j @ new" "counts = counts_of new" "list_all (staged_row rid job producer) new"
    "sigs_ok (map sig (manifests k))"
    using stage_candidates_effect[of rid job producer cs "[]" j0 counts k "manifests j"] staged(3,5) reg(2)
      assms(2) staged(1) assms(3) by (auto simp: counts_of_Nil)
  have "producers k = producers j0" using stage_candidates_tables[OF staged(5)] by simp
  then have "producers_ok j'"
    unfolding staged(6) new(2)
    using count_producer_ok[OF reg(1), of k new rid job producer] new(1,3) reg(2,3) staged(3) by simp
  moreover have "{p \<in> set (producers j'). p_run_id p \<noteq> rid} = {p \<in> set (producers j). p_run_id p \<noteq> rid}"
    unfolding staged(6) using \<open>producers k = producers j0\<close>
    by (auto simp: count_producer_def staged(3) register_producer_def set_update_where split: if_splits)
  moreover have "failure = [] \<longleftrightarrow> (\<forall>m \<in> set new. m_disposition m \<notin> {Conflict, Rejected})"
    unfolding staged(2) new(2) by (rule manifest_failure_Nil)
  ultimately show ?thesis
    using new(1,3,4) staged(6) by (auto simp: stages_def list_all_iff staged_row_def)
qed

lemma settle_batch_tables:
  assumes "settle_batch e rid job spec failure j = Inr j'"
  shows "manifests j' = manifests j \<and> producers j' = producers j"
proof (cases "failure = []")
  case True
  have "manifests k = manifests j0" if "rfold (produce_barrier rid) ps j0 = Inr k" for ps j0 k
    using that by (induction ps arbitrary: j0) (auto simp: produce_barrier_def rbind_Inr_iff split: option.splits if_splits)
  then show ?thesis using assms True produce_barriers_producers by (auto simp: settle_batch_def)
next
  case False
  then show ?thesis using assms by (auto simp: settle_batch_def reject_batch_def set_run_error_def)
qed

lemma enqueue_inserted_jobs:
  assumes "batches j' = batches j @ [c]" "b_status c \<noteq> Done"
  shows "done_jobs j' = done_jobs j" "job_runs j' = insert (b_job_id c, b_run_id c) (job_runs j)"
  using assms by (auto simp: done_jobs_def job_runs_def)

lemma minv_enqueue_body:
  assumes "minv j" "enqueue_body e rid job spec mc j = Inr ((b, failure), j')"
    "\<forall>p cs. mc = Some (p, cs) \<longrightarrow> fresh_candidates cs"
  shows "minv j'"
  using assms(2)
proof (cases rule: enqueue_body_cases)
  case (duplicate dup)
  then show ?thesis using assms(1) by simp
next
  case (inserted j1 j2 j3 j4)
  have inv: "sigs_ok (map sig (manifests j))" "acks_ok j" "producers_ok j" "complete_ok j"
    using assms(1) by (auto simp: minv_def)
  have j2: "manifests j2 = manifests j" "producers j2 = producers j"
    using insert_batch_effect(1)[OF inserted(5)] reference_artifact_tables[OF inserted(4)] by simp_all
  have pok: "producers_ok j2" using inv(3) by (simp add: producers_ok_def j2)
  note st = stage_batch_stages[OF inserted(6) assms(3) _ pok, unfolded stages_def j2, OF inv(1)]
  have j': "manifests j' = manifests j3" "producers j' = producers j3"
    using settle_batch_tables[OF inserted(7)] inserted(8) by simp_all
  obtain new where new: "manifests j' = manifests j @ new"
    "\<forall>m \<in> set new. m_run_id m = rid \<and> m_job_id m = job \<and> \<not> m_acked m \<and> \<not> m_graph_verified m"
    using st j'(1) by auto
  obtain c where c: "batches j' = batches j @ [c]" "b_status c \<noteq> Done" "b_job_id c = job" "b_run_id c = rid"
    using enqueue_inserted(1)[OF inserted(1,4,5,6,7)] inserted(8)
    by (auto simp: rejected_row_def new_batch_def)
  note jobs = enqueue_inserted_jobs[OF c(1,2), unfolded c(3,4)]
  have "job \<notin> done_jobs j"
    using inserted(1) by (auto simp: done_jobs_def find_batch_def find_None_iff')
  then have "acks_ok j'"
    using inv(2) new(2) unfolding acks_ok_def new(1) jobs by auto
  moreover have "complete_ok j'"
  proof -
    have pc: "production_complete r j' = production_complete r j" for r
      using stage_batch_complete[OF inserted(6), of r] j' j2 by (simp add: production_complete_def find_producer_def)
    have "invalid_rows r j' = invalid_rows r j" if "r \<noteq> rid" for r
      using that new(2) by (simp add: invalid_rows_def new(1) count_where_0_iff)
    moreover have "p \<in> set (producers j)" if "p \<in> set (producers j')" "p_run_id p \<noteq> rid" for p
      using st that by (auto simp: j'(2))
    ultimately show ?thesis
      using inv(4) inserted(3) pc unfolding complete_ok_def by metis
  qed
  moreover have "producers_ok j'" "sigs_ok (map sig (manifests j'))"
    using st by (simp_all add: producers_ok_def j')
  ultimately show ?thesis by (simp add: minv_def)
qed

lemma minv_enqueue:
  assumes "minv j"
  shows "minv (snd (enqueue_batch e st rid spec j))"
proof -
  have body: "minv j'"
    if "enqueue_body e rid job spec (manifest_candidates h run spec rows job) j = Inr ((b, failure), j')" for h job run rows b failure j'
    using minv_enqueue_body[OF assms that] manifest_candidates_fresh by blast
  have "minv (snd (transaction j (enqueue_body e rid job spec (manifest_candidates h run spec rows job) j)))" for h job run rows
    by (rule snd_transactionI) (use assms body in auto)
  then show ?thesis
    using assms
    by (auto simp: enqueue_batch_def Let_def split: option.splits sum.splits prod.splits)
      (metis snd_conv)+
qed

lemma minv_ack:
  assumes "minv j" "jinv j"
  shows "minv (snd (ack_batch e job token ms j))"
  using ack_batch_step[OF assms(2) refl, where e = e and job = job and token = token and ms = ms]
proof (elim disjE exE conjE)
  fix row k ev
  assume k: "acked_state row j k" and eq: "snd (ack_batch e job token ms j) = refresh_run_status e (b_run_id row) (ev k)"
    and ev: "\<forall>k. same_tables k (ev k) \<and> batches (ev k) = batches k"
  have "quiet k (refresh_run_status e (b_run_id row) (ev k))"
    using ev by (intro quiet_tables) (simp_all add: same_tables_def)
  then show ?thesis unfolding eq by (rule minv_quiet[OF minv_acked[OF assms k]])
qed (use assms in simp)

lemma minv_purge:
  assumes "minv j" "jinv j"
  shows "minv (snd (snd (purge_run e own now rid st j)))"
proof -
  have keys: "keys_ok j" using assms(2) by (simp add: jinv_def)
  have *: "minv k \<and> keys_ok k" if "same_tables j k" "batches k = batches j" for k
    using that assms(1) keys minv_quiet[OF assms(1) quiet_tables, of k] by (simp add: same_tables_def keys_ok_def)
  show ?thesis
    using purge_run_step[OF refl, where e = e and own = own and now = now and rid = rid and st = st and j = j]
  proof (elim disjE exE conjE)
    fix r k
    assume k: "same_tables j k" "batches k = batches j" and eq: "snd (snd (purge_run e own now rid st j)) = delete_run rid k"
    show ?thesis unfolding eq using *[OF k] by (intro minv_delete) simp_all
  qed (use * in simp)
qed

lemma apply_op_minv:
  assumes "jinv j" "minv j"
  shows "minv (apply_op op j)"
proof (cases "touches_manifests op")
  case False
  show ?thesis by (rule minv_quiet[OF assms(2) apply_op_quiet[OF assms(1) False]])
next
  case True
  then show ?thesis
    using minv_enqueue[OF assms(2)] minv_ack[OF assms(2,1)] minv_complete[OF assms(2)] minv_purge[OF assms(2,1)]
    by (cases op) simp_all
qed

lemma reachable_minv: "reachable h j \<Longrightarrow> minv j"
proof -
  assume "reachable h j"
  then have "jinv j \<and> minv j"
    by (drule_tac reachable_reach, elim jsys.reach_invariant[where I = "\<lambda>j. jinv j \<and> minv j"])
      (auto elim!: jstepE simp: apply_op_jinv apply_op_minv jinv_empty minv_empty)
  then show ?thesis ..
qed

section \<open>Conservation\<close>

lemma in_done_jobs: "job \<in> done_jobs j \<longleftrightarrow> (\<exists>b \<in> set (batches j). b_job_id b = job \<and> b_status b = Done)"
  by (auto simp: done_jobs_def)

lemma duplicate_has_unique:
  assumes "reachable h j" "m \<in> set (manifests j)" "m_disposition m \<in> {StagedUnique, DeclaredDuplicate}"
  obtains u where "u \<in> set (manifests j)" "m_disposition u = StagedUnique" "ident u = ident m" "m_payload_digest u = m_payload_digest m"
proof -
  have ok: "sigs_ok (map sig (manifests j))" using reachable_minv[OF assms(1)] by (simp add: minv_def)
  have "(ident m, m_disposition m, m_payload_digest m) \<in> set (map sig (manifests j))" using assms(2) by (auto simp: sig_def)
  from sigs_okD[OF ok this assms(3)] show ?thesis using that by (auto simp: image_iff sig_def)
qed

text \<open>
  One write per identity. In a reachable journal at most one manifest row is staged as
  unique for a run, scope, shape and typed identity, and every row declared a duplicate carries
  the payload digest of the unique row of its identity: two different payloads for one identity
  are never both accepted.
\<close>

theorem staged_identity_unique:
  assumes "reachable h j"
  shows "length (filter (\<lambda>m. m_disposition m = StagedUnique \<and> ident m = i) (manifests j)) \<le> 1 \<and>
    (\<forall>m \<in> set (manifests j). m_disposition m = DeclaredDuplicate \<longrightarrow>
       (\<exists>u \<in> set (manifests j). m_disposition u = StagedUnique \<and> ident u = ident m \<and>
          m_payload_digest u = m_payload_digest m))"
proof
  have ok: "sigs_ok (map sig (manifests j))" using reachable_minv[OF assms] by (simp add: minv_def)
  show "length (filter (\<lambda>m. m_disposition m = StagedUnique \<and> ident m = i) (manifests j)) \<le> 1"
  proof (rule unique_key_length)
    have "distinct (map ident (filter (\<lambda>m. m_disposition m = StagedUnique) (manifests j)))"
      using ok by (simp add: sigs_ok_def filter_map o_def sig_def)
    then have "distinct (map ident (filter (\<lambda>m. ident m = i) (filter (\<lambda>m. m_disposition m = StagedUnique) (manifests j))))"
      by (rule distinct_map_filter)
    then show "distinct (map ident (filter (\<lambda>m. m_disposition m = StagedUnique \<and> ident m = i) (manifests j)))"
      by (simp add: conj_commute)
  qed simp
  show "\<forall>m \<in> set (manifests j). m_disposition m = DeclaredDuplicate \<longrightarrow>
       (\<exists>u \<in> set (manifests j). m_disposition u = StagedUnique \<and> ident u = ident m \<and> m_payload_digest u = m_payload_digest m)"
    using duplicate_has_unique[OF assms] by (metis insertCI)
qed

theorem staged_identity_unique_witness:
  "length (filter (\<lambda>m. m_disposition m = StagedUnique \<and> ident m = ident node_manifest) (manifests sample_queued)) = 1"
proof -
  have "filter (\<lambda>m. m_disposition m = StagedUnique \<and> ident m = ident node_manifest) (manifests sample_queued) \<noteq> []" by code_simp
  then show ?thesis using staged_identity_unique[OF sample_reachable(3), of "ident node_manifest"] by (simp add: le_Suc_eq)
qed

text \<open>
  Acknowledged means done. Every manifest row of a reachable journal belongs to a batch of
  its run, and it is marked acknowledged and verified exactly when it is the unique row of its
  identity and that batch is done.
\<close>

theorem acked_iff_done:
  assumes "reachable h j" "m \<in> set (manifests j)"
  shows "\<exists>b \<in> set (batches j). b_job_id b = m_job_id m \<and> b_run_id b = m_run_id m \<and>
    (m_acked m \<longleftrightarrow> m_disposition m = StagedUnique \<and> b_status b = Done) \<and> m_graph_verified m = m_acked m"
proof -
  have ok: "acks_ok j" using reachable_minv[OF assms(1)] by (simp add: minv_def)
  obtain b where b: "b \<in> set (batches j)" "b_job_id b = m_job_id m" "b_run_id b = m_run_id m"
    using ok assms(2) by (force simp: acks_ok_def job_runs_def)
  have "m_job_id m \<in> done_jobs j \<longleftrightarrow> b_status b = Done"
    unfolding in_done_jobs using same_job_eq[OF reachable_invs(1)[OF assms(1)] _ b(1)] b by metis
  then show ?thesis using ok assms(2) b unfolding acks_ok_def by blast
qed

theorem acked_iff_done_witness:
  "let m = hd (manifests sample_acked) in manifests sample_acked \<noteq> [] \<and> m_acked m \<and>
     (\<exists>b \<in> set (batches sample_acked). b_job_id b = m_job_id m \<and> b_status b = Done)"
proof -
  let ?m = "hd (manifests sample_acked)"
  have "manifests sample_acked \<noteq> [] \<and> m_acked ?m" by code_simp
  then show ?thesis using acked_iff_done[OF sample_reachable(5), of ?m] hd_in_set unfolding Let_def by blast
qed

text \<open>
  Producer counters are exact. The counters a producer row keeps are the numbers of
  manifest rows it emitted, in total per kind and per disposition, in every reachable journal.
\<close>

theorem producer_counters_exact:
  assumes "reachable h j" "p \<in> set (producers j)"
  shows "p_emitted p k = int (length (filter (\<lambda>m. emitted_by p m \<and> m_kind m = k) (manifests j))) \<and>
    p_count p k d = int (length (filter (\<lambda>m. emitted_by p m \<and> m_kind m = k \<and> m_disposition m = d) (manifests j)))"
proof -
  have "producer_ok (manifests j) p"
    using reachable_minv[OF assms(1)] assms(2) by (auto simp: minv_def producers_ok_def list_all_iff)
  then show ?thesis
    by (simp add: producer_ok_def counts_of_def count_where_def fun_eq_iff conj_commute conj_left_commute)
qed

theorem producer_counters_exact_witness:
  "let p = hd (producers sample_queued) in producers sample_queued \<noteq> [] \<and> p_emitted p NodeKind = 1 \<and>
     int (length (filter (\<lambda>m. emitted_by p m \<and> m_kind m = NodeKind) (manifests sample_queued))) = 1"
proof -
  let ?p = "hd (producers sample_queued)"
  have "producers sample_queued \<noteq> [] \<and> p_emitted ?p NodeKind = 1" by code_simp
  then show ?thesis
    using producer_counters_exact[OF sample_reachable(3), of ?p NodeKind StagedUnique] hd_in_set unfolding Let_def by metis
qed

lemma count_where_split_disposition:
  "length rows = count_where (\<lambda>m. m_disposition m = StagedUnique) rows + count_where (\<lambda>m. m_disposition m = DeclaredDuplicate) rows +
     count_where (\<lambda>m. m_disposition m = Conflict) rows + count_where (\<lambda>m. m_disposition m = Rejected) rows"
proof (induction rows)
  case (Cons m rows)
  then show ?case by (cases "m_disposition m") simp_all
qed simp

lemma totals_law:
  assumes "reachable h j"
  shows "t_emitted (totals_of k rid j) = t_staged_unique (totals_of k rid j) + t_declared_duplicate (totals_of k rid j) +
      t_conflict (totals_of k rid j) + t_rejected (totals_of k rid j)"
    "t_graph_verified (totals_of k rid j) = t_acked (totals_of k rid j)"
    "t_acked (totals_of k rid j) \<le> t_staged_unique (totals_of k rid j)"
    "t_conserved (totals_of k rid j) \<longleftrightarrow>
      (\<forall>m \<in> set (manifests_of k rid j). m_disposition m = StagedUnique \<longrightarrow> m_job_id m \<in> done_jobs j)"
proof -
  let ?rows = "manifests_of k rid j"
  have ok: "\<forall>m \<in> set ?rows. (m_acked m \<longleftrightarrow> m_disposition m = StagedUnique \<and> m_job_id m \<in> done_jobs j) \<and> m_graph_verified m = m_acked m"
    using reachable_minv[OF assms] by (auto simp: minv_def acks_ok_def manifests_of_def)
  have ver: "count_where m_graph_verified ?rows = count_where m_acked ?rows" by (rule count_where_cong) (use ok in simp)
  have le: "count_where m_acked ?rows \<le> count_where (\<lambda>m. m_disposition m = StagedUnique) ?rows"
    by (rule count_where_mono) (use ok in simp)
  have "count_where (\<lambda>m. m_disposition m = StagedUnique) ?rows = count_where m_acked ?rows \<longleftrightarrow>
      (\<forall>m \<in> set ?rows. m_disposition m = StagedUnique \<longrightarrow> m_job_id m \<in> done_jobs j)"
  proof
    assume "count_where (\<lambda>m. m_disposition m = StagedUnique) ?rows = count_where m_acked ?rows"
    then have "m_acked m" if "m \<in> set ?rows" "m_disposition m = StagedUnique" for m
      using count_where_eq_imp_all[of m_acked ?rows "\<lambda>m. m_disposition m = StagedUnique" m] that ok by simp
    then show "\<forall>m \<in> set ?rows. m_disposition m = StagedUnique \<longrightarrow> m_job_id m \<in> done_jobs j" using ok by blast
  qed (intro count_where_cong, use ok in auto)
  then show "t_conserved (totals_of k rid j) \<longleftrightarrow>
      (\<forall>m \<in> set ?rows. m_disposition m = StagedUnique \<longrightarrow> m_job_id m \<in> done_jobs j)"
    using ver count_where_split_disposition[of ?rows] by (simp add: totals_of_def Let_def)
  show "t_emitted (totals_of k rid j) = t_staged_unique (totals_of k rid j) + t_declared_duplicate (totals_of k rid j) +
      t_conflict (totals_of k rid j) + t_rejected (totals_of k rid j)"
    "t_graph_verified (totals_of k rid j) = t_acked (totals_of k rid j)"
    "t_acked (totals_of k rid j) \<le> t_staged_unique (totals_of k rid j)"
    using ver le count_where_split_disposition[of ?rows] by (simp_all add: totals_of_def Let_def)
qed

text \<open>
  C32. Conservation law. In a reachable journal the totals of a run account for every emitted row
  exactly once, what is acknowledged is verified and at most what was staged, and the summary
  reports a kind as conserved exactly when every batch with a unique row of that kind is done.
\<close>

theorem conservation_law:
  assumes "reachable h j"
  shows "let t = totals_of k rid j in
    t_emitted t = t_staged_unique t + t_declared_duplicate t + t_conflict t + t_rejected t \<and>
    t_graph_verified t = t_acked t \<and> t_acked t \<le> t_staged_unique t \<and>
    (t_conserved t \<longleftrightarrow> (\<forall>m \<in> set (manifests_of k rid j). m_disposition m = StagedUnique \<longrightarrow>
       (\<exists>b \<in> set (batches j). b_job_id b = m_job_id m \<and> b_status b = Done)))"
  using totals_law[OF assms, of k rid] unfolding Let_def in_done_jobs by blast

theorem conservation_law_witness:
  "\<not> t_conserved (totals_of NodeKind ''run_251'' sample_queued) \<and> t_conserved (totals_of NodeKind ''run_251'' sample_acked)"
proof -
  have "\<not> (\<forall>m \<in> set (manifests_of NodeKind ''run_251'' sample_queued). m_disposition m = StagedUnique \<longrightarrow>
       (\<exists>b \<in> set (batches sample_queued). b_job_id b = m_job_id m \<and> b_status b = Done))" by code_simp
  moreover have "\<forall>m \<in> set (manifests_of NodeKind ''run_251'' sample_acked). m_disposition m = StagedUnique \<longrightarrow>
       (\<exists>b \<in> set (batches sample_acked). b_job_id b = m_job_id m \<and> b_status b = Done)" by code_simp
  ultimately show ?thesis
    using conservation_law[OF sample_reachable(3), of NodeKind "''run_251''"]
      conservation_law[OF sample_reachable(5), of NodeKind "''run_251''"] unfolding Let_def by blast
qed

text \<open>
  The producer boundary holds. Once the producers of a run are complete, a reachable journal
  has no rejected or conflicting row of that run and no open producer, and every further
  \<open>enqueue_batch\<close> for it raises and changes nothing.
\<close>

theorem producer_boundary:
  assumes "reachable h j" "production_complete rid j"
  shows "(\<forall>m \<in> set (manifests j). m_run_id m = rid \<longrightarrow> m_disposition m \<in> {StagedUnique, DeclaredDuplicate}) \<and>
    list_open_producers rid j = [] \<and> (\<exists>x. enqueue_batch e st rid spec j = (Inl x, j))"
proof -
  have ok: "invalid_rows rid j = 0" "\<forall>p \<in> set (producers j). p_run_id p = rid \<longrightarrow> p_status p = ProducerComplete"
    using reachable_minv[OF assms(1)] assms(2) by (auto simp: minv_def complete_ok_def)
  have "m_disposition m \<in> {StagedUnique, DeclaredDuplicate}" if "m \<in> set (manifests j)" "m_run_id m = rid" for m
    using ok(1) that by (cases "m_disposition m") (auto simp: invalid_rows_def count_where_0_iff)
  moreover have "list_open_producers rid j = []"
  proof -
    have "filter (\<lambda>p. p_run_id p = rid \<and> p_status p = ProducerOpen \<and> p_producer_id p \<noteq> producers_complete_id) (producers j) = []"
      using ok(2) by (auto simp: filter_empty_conv)
    then show ?thesis by (simp only: list_open_producers_def list.map sort_key_simps)
  qed
  moreover have "enqueue_body e rid job spec mc j = Inl (JournalError InvalidTransition)" for job mc
    using assms(2) by (simp add: enqueue_body_def)
  then have "\<exists>x. enqueue_batch e st rid spec j = (Inl x, j)"
    by (auto simp: enqueue_batch_def Let_def split: option.splits sum.splits)
  ultimately show ?thesis by blast
qed

theorem producer_boundary_witness:
  "production_complete ''run_251'' sample_leased \<and>
   (\<exists>x. enqueue_batch (sample_env 106 ''x'') sample_store ''run_251'' node_spec sample_leased = (Inl x, sample_leased))"
proof -
  have "production_complete ''run_251'' sample_leased" by code_simp
  then show ?thesis using producer_boundary[OF sample_reachable(4)] by blast
qed

text \<open>
  C33. A sealed audit is sound. Sealing the endpoint audit of a run of a reachable journal succeeds only
  after the producers are complete, and then no row of the run is conflicting or rejected and every node
  that a row of the run names, uniquely staged or declared as a duplicate, has been written: the
  uniquely staged row of the same identity and payload belongs to a batch of the run that is done. So edges are audited
  against nodes that exist. Batches without a uniquely staged node may still be pending.
\<close>

theorem sealed_audit_sound:
  assumes "reachable h j" "seal_endpoint_audit e rid d n a j = (Inr x, j')"
  shows "production_complete rid j \<and> x = Sealed \<and>
    (\<forall>m \<in> set (manifests j). m_run_id m = rid \<longrightarrow> m_disposition m \<in> {StagedUnique, DeclaredDuplicate} \<and>
       (m_kind m = NodeKind \<longrightarrow>
          (\<exists>u \<in> set (manifests j). \<exists>b \<in> set (batches j). ident u = ident m \<and> m_payload_digest u = m_payload_digest m \<and>
             m_disposition u = StagedUnique \<and> b_job_id b = m_job_id u \<and> b_run_id b = rid \<and> b_status b = Done)))"
proof -
  obtain s where "validate_endpoint_audit_boundary (e_sha e) rid (find_audit rid j) j = Inr s"
    using assms(2) by (auto simp: seal_endpoint_audit_def transaction_def rbind_Inr_iff split: if_splits sum.splits)
  then have v: "production_complete rid j" "t_conserved (totals_of NodeKind rid j)"
    by (auto simp: validate_endpoint_audit_boundary_def conservation_summary_def Let_def split: if_splits)
  have "invalid_rows rid j = 0" using reachable_minv[OF assms(1)] v(1) by (auto simp: minv_def complete_ok_def)
  then have disp: "m_disposition m \<in> {StagedUnique, DeclaredDuplicate}" if "m \<in> set (manifests j)" "m_run_id m = rid" for m
    using that by (cases "m_disposition m") (auto simp: invalid_rows_def count_where_0_iff)
  have "\<exists>u \<in> set (manifests j). \<exists>b \<in> set (batches j). ident u = ident m \<and> m_payload_digest u = m_payload_digest m \<and>
      m_disposition u = StagedUnique \<and> b_job_id b = m_job_id u \<and> b_run_id b = rid \<and> b_status b = Done"
    if m: "m \<in> set (manifests j)" "m_run_id m = rid" "m_kind m = NodeKind" for m
  proof -
    obtain u where u: "u \<in> set (manifests j)" "m_disposition u = StagedUnique" "ident u = ident m" "m_payload_digest u = m_payload_digest m"
      using duplicate_has_unique[OF assms(1) m(1) disp[OF m(1,2)]] by blast
    then have "m_run_id u = rid" "m_kind u = NodeKind" using m by (simp_all add: ident_def)
    then have "m_job_id u \<in> done_jobs j"
      using totals_law(4)[OF assms(1), of NodeKind rid] v(2) u by (simp add: manifests_of_def)
    moreover obtain b where "b \<in> set (batches j)" "b_job_id b = m_job_id u" "b_run_id b = rid"
      using acked_iff_done[OF assms(1) u(1)] \<open>m_run_id u = rid\<close> by blast
    ultimately show ?thesis
      unfolding in_done_jobs using u same_job_eq[OF reachable_invs(1)[OF assms(1)]] by metis
  qed
  moreover have "x = Sealed" by (cases x)
  ultimately show ?thesis using v(1) disp by blast
qed

theorem sealed_audit_sound_witness:
  "\<exists>x j'. seal_endpoint_audit (sample_env 110 ''x'') ''run_251'' None None None sample_done = (Inr x, j') \<and>
     x = Sealed \<and> production_complete ''run_251'' sample_done \<and>
     list_ex (\<lambda>m. m_run_id m = ''run_251'' \<and> m_kind m = NodeKind) (manifests sample_done) \<and>
     (\<exists>b \<in> set (batches sample_done). b_run_id b = ''run_251'' \<and> b_status b = Done)"
proof -
  let ?r = "seal_endpoint_audit (sample_env 110 ''x'') ''run_251'' None None None sample_done"
  have "case fst ?r of Inr _ \<Rightarrow> True | Inl _ \<Rightarrow> False" by code_simp
  then obtain x j' where r: "?r = (Inr x, j')" by (cases ?r) (auto split: sum.splits)
  have n: "list_ex (\<lambda>m. m_run_id m = ''run_251'' \<and> m_kind m = NodeKind) (manifests sample_done)" by code_simp
  then obtain m where "m \<in> set (manifests sample_done)" "m_run_id m = ''run_251''" "m_kind m = NodeKind" by (auto simp: list_ex_iff)
  then show ?thesis using sealed_audit_sound[OF sample_reachable(7) r] r n by blast
qed

end
