(* ===== verification/Graph_Schema.thy ===== *)
theory Graph_Schema
  imports Journal_Operation
begin

text \<open>
  \<open>schema/manifest.py\<close>: the identifiers that may be written into Cypher text, the indexes the
  ingestion contract requires, and the registry \<open>CODE_GRAPH_SCHEMA\<close> itself. The query compilers
  accept an endpoint label only if this registry has an identity index for it.
\<close>

section \<open>Identifiers\<close>

definition cypher_identifier :: "string \<Rightarrow> bool" where
  "cypher_identifier s \<longleftrightarrow> s \<noteq> [] \<and> word_start (hd s) \<and> list_all word_char (tl s)"

definition validate_cypher_identifier :: "string \<Rightarrow> exc + string" where
  "validate_cypher_identifier value = (if cypher_identifier value then Inr value else Inl ValueError)"

lemma validate_cypher_identifier_Inr [simp]:
  "validate_cypher_identifier s = Inr t \<longleftrightarrow> cypher_identifier s \<and> t = s"
  by (auto simp: validate_cypher_identifier_def)

section \<open>Indexes\<close>

record schema_index =
  si_label :: string
  si_properties :: "string list"
  si_index_type :: string
  si_entity_type :: string
  si_required :: bool

definition schema_index_init :: "schema_index \<Rightarrow> exc + schema_index" where
  "schema_index_init i =
     rbind (validate_cypher_identifier (si_label i)) (\<lambda>_.
     rbind (guard (si_properties i \<noteq> []) ValueError) (\<lambda>_.
     rbind (rmap validate_cypher_identifier (si_properties i)) (\<lambda>_.
     rbind (guard (si_index_type i \<in> {''range'', ''fulltext''}) ValueError) (\<lambda>_.
     rbind (guard (si_entity_type i = ''node'') ValueError) (\<lambda>_. Inr i)))))"

text \<open>\<open>SchemaIndex(label, properties)\<close> with the defaults of the other fields.\<close>

definition required_index :: "string \<Rightarrow> string list \<Rightarrow> schema_index" where
  "required_index l ps =
     \<lparr>si_label = l, si_properties = ps, si_index_type = ''range'', si_entity_type = ''node'', si_required = True\<rparr>"

type_synonym index_identity = "string \<times> string list \<times> string \<times> string"

definition index_key :: "schema_index \<Rightarrow> index_identity" where
  "index_key i = (si_label i, si_properties i, si_index_type i, si_entity_type i)"

definition as_driver_dict :: "schema_index \<Rightarrow> dict" where
  "as_driver_dict i =
     [(''label'', JStr (si_label i)),
      (''property'', if length (si_properties i) = 1 then JStr (si_properties i ! 0) else JArr (map JStr (si_properties i))),
      (''type'', JStr (si_index_type i))]"

section \<open>Manifests\<close>

type_synonym relationship_type = "string \<times> string list \<times> string list \<times> bool"

record graph_schema_manifest =
  gs_name :: string
  gs_version :: int
  gs_indexes :: "schema_index list"
  gs_relationship_types :: "relationship_type list"

definition graph_schema_manifest_init :: "graph_schema_manifest \<Rightarrow> exc + graph_schema_manifest" where
  "graph_schema_manifest_init m =
     rbind (validate_cypher_identifier (gs_name m)) (\<lambda>_.
     rbind (guard (1 \<le> gs_version m) ValueError) (\<lambda>_.
     rbind (guard (distinct (map index_key (gs_indexes m))) ValueError) (\<lambda>_.
     rbind (guard (distinct (map fst (gs_relationship_types m))) ValueError) (\<lambda>_.
     rbind (rmap (\<lambda>rel. validate_cypher_identifier (fst rel)) (gs_relationship_types m)) (\<lambda>_. Inr m)))))"

text \<open>
  The fingerprint. \<open>json.dumps\<close> escapes non-ASCII text here and \<open>canonical_json\<close> does not; the
  two agree on the ASCII names a manifest is made of.
\<close>

definition index_order :: "schema_index \<Rightarrow> string \<times> string list \<times> string \<times> string \<times> bool" where
  "index_order i = (si_label i, si_properties i, si_index_type i, si_entity_type i, si_required i)"

definition fingerprint_payload :: "graph_schema_manifest \<Rightarrow> json" where
  "fingerprint_payload m = JObj
     [(''name'', JStr (gs_name m)),
      (''version'', JInt (gs_version m)),
      (''indexes'', JArr (map (\<lambda>i. JObj
         [(''label'', JStr (si_label i)), (''properties'', JArr (map JStr (si_properties i))),
          (''type'', JStr (si_index_type i)), (''entity_type'', JStr (si_entity_type i)),
          (''required'', JBool (si_required i))]) (sort_key index_order (gs_indexes m)))),
      (''relationship_types'', JArr (map (\<lambda>(t, sources, targets, policy). JObj
         [(''type'', JStr t), (''source_labels'', JArr (map JStr sources)),
          (''target_labels'', JArr (map JStr targets)), (''endpoint_policy'', JBool policy)])
         (sort (gs_relationship_types m))))]"

definition schema_fingerprint_of :: "(string \<Rightarrow> string) \<Rightarrow> graph_schema_manifest \<Rightarrow> string" where
  "schema_fingerprint_of h m = take 16 (h (canonical_json (fingerprint_payload m)))"

definition driver_indexes :: "graph_schema_manifest \<Rightarrow> schema_index list option \<Rightarrow> dict list" where
  "driver_indexes m indexes = map as_driver_dict (case indexes of None \<Rightarrow> gs_indexes m | Some is \<Rightarrow> is)"

definition has_identity_index :: "graph_schema_manifest \<Rightarrow> string \<Rightarrow> string \<Rightarrow> bool" where
  "has_identity_index m l prop \<longleftrightarrow>
     (\<exists>i \<in> set (gs_indexes m). si_label i = l \<and> si_properties i = [prop] \<and> si_index_type i = ''range'' \<and> si_required i)"

section \<open>The code graph schema\<close>

definition id_indexes :: "string list \<Rightarrow> schema_index list" where
  "id_indexes labels = map (\<lambda>l. required_index l [''id'']) labels"

definition code_graph_labels :: "string list" where
  "code_graph_labels =
     [
      ''Alias'', ''Action'', ''Advice'', ''AndroidComponent'', ''AndroidAnnotation'',
      ''AndroidHandlerMessage'', ''AndroidIntentAction'', ''AndroidManifest'', ''AndroidNavRoute'',
      ''AndroidResource'', ''ApiEndpoint'', ''ApplicationEvent'', ''AspNetAnalysisState'', ''Aspect'',
      ''AsyncBoundary'', ''AuthenticationScheme'', ''Authority'', ''AuthorizationPolicy'',
      ''BuildConfiguration'', ''BuildDescriptor'', ''CacheOperation'', ''CacheRegion'', ''CallSite'',
      ''Class'', ''CobolCicsCommand'', ''CobolCopybook'', ''CobolDataItem'', ''CobolFile'',
      ''CobolParagraph'', ''CobolProgram'', ''CobolSection'', ''CobolSqlStatement'', ''Constant'',
      ''ConfigurationKey'', ''Control'', ''Controller'', ''DataRepository'', ''Database'',
      ''DatabaseColumn'', ''DatabaseTable'', ''Delegate'', ''Dependency'', ''Directory'', ''Document'',
      ''Enum'', ''ErrorPage'', ''Event'', ''Field'', ''File'', ''Filter'', ''FilterMapping'',
      ''FrameworkInstance'', ''Function'', ''FunctionType'', ''GradleDependency'', ''GradleModule'',
      ''GrpcEndpoint'', ''GrpcService'', ''GraphWriteReceipt'', ''HttpEndpoint'', ''HttpHandler'',
      ''HttpModule'', ''Interface'', ''InfraNode'', ''JSPView'', ''JpaEntity'', ''Jp1Unit'',
      ''JspExpression'', ''JspTag'', ''Layout'', ''LifecycleEvent'', ''Listener'', ''Message'',
      ''MessageDestination'', ''MessageEndpoint'', ''Middleware'', ''Model'', ''MyBatisArtifact'',
      ''MyBatisCache'', ''MyBatisConfig'', ''MyBatisDynamicNode'', ''MyBatisExtension'',
      ''MyBatisInclude'', ''MyBatisJavaProperty'', ''MyBatisMapper'', ''MyBatisMapperMethod'',
      ''MyBatisModule'', ''MyBatisParameter'', ''MyBatisResultMap'', ''MyBatisResultMapping'',
      ''MyBatisSpringBridge'', ''MyBatisSqlFragment'', ''MyBatisSqlJoin'', ''MyBatisSqlParameter'',
      ''MyBatisSqlProvider'', ''MyBatisSqlStatement'', ''MyBatisStatement'', ''MyBatisXmlDocument'',
      ''Namespace'', ''Navigator'', ''Package'', ''PageHandler'', ''Paragraph'', ''ParseRun'',
      ''PartialView'', ''Pointcut'', ''Procedure'', ''ProjectModule'', ''Property'', ''RazorPage'',
      ''Repository'', ''Resource'', ''Result'', ''RouteParam'', ''Route'', ''ScheduledTask'',
      ''SemanticCoverage'', ''SecurityConstraint'', ''SecurityFilterChain'', ''SecurityRule'',
      ''Service'', ''BatchProgram'', ''ShellFunction'', ''ShellInvocation'', ''ShellScript'',
      ''Servlet'', ''ServletJspAnalysisState'', ''ServletJspModule'', ''ServletMapping'',
      ''SessionState'', ''SqlCursor'', ''SqlDirective'', ''SqlHostVariable'', ''SqlStatement'',
      ''SpringApplication'', ''SpringBean'', ''SpringConfiguration'', ''SpringModule'', ''StateSlot'',
      ''Table'', ''Template'', ''TransactionBoundary'', ''Type'', ''UIControl'', ''UnknownFunction'',
      ''ValidationConstraint'', ''ValidationRule'', ''Variable'', ''View'', ''ViewModel'',
      ''WebConfiguration'', ''WebDescriptor'', ''WebFormPage'', ''WebTarget'', ''WelcomePage'']"

definition leading_indexes :: "(string \<times> string) list" where
  "leading_indexes = [(''Project'', ''project_id''), (''Repository'', ''name''), (''Workflow'', ''workflow_id'')]"

definition trailing_indexes :: "(string \<times> string) list" where
  "trailing_indexes =
     [(''ApiEndpoint'', ''symbol_id''), (''Controller'', ''symbol_id''), (''DataRepository'', ''symbol_id''),
      (''Database'', ''symbol_id''), (''Middleware'', ''symbol_id''), (''Service'', ''symbol_id''),
      (''BuildConfiguration'', ''config_fingerprint''), (''CallSite'', ''site_id''),
      (''SemanticCoverage'', ''tu_key''), (''SemanticCoverage'', ''fingerprint'')]"

definition code_graph_schema :: graph_schema_manifest where
  "code_graph_schema =
     \<lparr>gs_name = ''code_graph'', gs_version = 2,
      gs_indexes =
        map (\<lambda>(l, p). required_index l [p]) leading_indexes @
        id_indexes code_graph_labels @
        map (\<lambda>(l, p). required_index l [p]) trailing_indexes,
      gs_relationship_types =
       [
        (''HAS_CALLSITE'', [''Function''], [''CallSite''], True),
        (''RESOLVES_TO'', [''CallSite''], [''Function''], True),
        (''OBSERVED_AS'', [''CallSite''], [''Function''], False),
        (''IN_CONFIGURATION'', [''CallSite''], [''BuildConfiguration''], True),
        (''MAPS_TO_SOURCE'', [''CallSite''], [''File''], False),
        (''EXECUTES_SQL'', [''Function''], [''SqlStatement''], False),
        (''RESOLVES_HOST_DECLARATION'', [''SqlHostVariable''], [''Function'', ''Variable'', ''Field''], False)]\<rparr>"

section \<open>The registry is valid and complete for the writers\<close>

definition indexed_pairs :: "(string \<times> string) list" where
  "indexed_pairs = leading_indexes @ map (\<lambda>l. (l, ''id'')) code_graph_labels @ trailing_indexes"

lemma gs_indexes_code_graph: "gs_indexes code_graph_schema = map (\<lambda>(l, p). required_index l [p]) indexed_pairs"
  by (simp add: code_graph_schema_def id_indexes_def indexed_pairs_def)

lemma has_identity_index_code_graph: "has_identity_index code_graph_schema l p \<longleftrightarrow> (l, p) \<in> set indexed_pairs"
  by (force simp: has_identity_index_def gs_indexes_code_graph required_index_def)

lemma indexed_pairs_identifiers: "list_all (\<lambda>(l, p). cypher_identifier l \<and> cypher_identifier p) indexed_pairs"
  by code_simp

lemma distinct_indexed_pairs: "distinct indexed_pairs"
proof -
  have "distinct code_graph_labels" by (simp add: code_graph_labels_def)
  then show ?thesis
    by (auto simp: indexed_pairs_def leading_indexes_def trailing_indexes_def distinct_map inj_on_def)
qed

lemma code_graph_schema_init: "graph_schema_manifest_init code_graph_schema = Inr code_graph_schema"
proof -
  have "distinct (map index_key (gs_indexes code_graph_schema))"
    using distinct_indexed_pairs
    by (auto simp: gs_indexes_code_graph distinct_map index_key_def required_index_def inj_on_def)
  moreover have "validate_cypher_identifier (gs_name code_graph_schema) = Inr ''code_graph''" "gs_version code_graph_schema = 2"
    "distinct (map fst (gs_relationship_types code_graph_schema))"
    "\<exists>xs. rmap (\<lambda>rel. validate_cypher_identifier (fst rel)) (gs_relationship_types code_graph_schema) = Inr xs"
    by (simp_all add: code_graph_schema_def validate_cypher_identifier_def cypher_identifier_def word_char_def
        word_start_def is_digit_def)
  ultimately show ?thesis by (auto simp: graph_schema_manifest_init_def rbind_Inr_iff)
qed

lemma has_identity_index_identifier:
  assumes "has_identity_index code_graph_schema l p"
  shows "cypher_identifier l" "cypher_identifier p"
  using assms indexed_pairs_identifiers by (auto simp: has_identity_index_code_graph list_all_iff)

text \<open>
  The node contracts \<open>param_lists\<close>, \<open>workflows\<close> and \<open>workflow_steps\<close> merge nodes on an \<open>id\<close> that no
  required index covers.
\<close>

lemma node_contracts_unindexed:
  "list_all (\<lambda>(l, nl). map_option fst (map_of node_contracts l) = Some nl \<and> \<not> has_identity_index code_graph_schema nl ''id'')
     [(''param_lists'', ''ParamList''), (''workflows'', ''Workflow''), (''workflow_steps'', ''WorkflowStep'')]"
  by (simp add: node_contracts_def has_identity_index_code_graph indexed_pairs_def leading_indexes_def
      trailing_indexes_def code_graph_labels_def)

end
