(* ===== verification/Journal_Config.thy ===== *)
theory Journal_Config
  imports Journal_Conservation Graph_Schema
begin

text \<open>
  \<open>journal/config.py\<close> and the scope identity of \<open>tools/common/sync_scope.py\<close>: reading a journal
  configuration from environment variables, handing one to a child process through them, and
  closing the production of a run after the child. An environment is a map from names to texts
  and the journal files are a map from paths to journals. Expanding, resolving and canonicalising
  a path are questions to the operating system and arguments of the model; a path is absolute
  when its text starts with a slash. Opening a file checks and migrates its schema, which is not
  modelled.
\<close>

section \<open>Configuration\<close>

record journal_config =
  cfg_mode :: string
  cfg_path :: string
  cfg_metadata :: run_metadata
  cfg_limits :: journal_limits
  cfg_auto_resume :: bool
  cfg_lease_seconds :: int
  cfg_max_attempts :: int
  cfg_retry_base_seconds :: int
  cfg_retry_max_seconds :: int

definition cfg_required :: "journal_config \<Rightarrow> bool" where
  "cfg_required c \<longleftrightarrow> cfg_mode c = ''required''"

definition cfg_shadow :: "journal_config \<Rightarrow> bool" where
  "cfg_shadow c \<longleftrightarrow> cfg_mode c = ''shadow''"

type_synonym environ = "string \<rightharpoonup> string"

record host_paths =
  hp_expanduser :: "string \<Rightarrow> string"
  hp_resolve :: "string \<Rightarrow> string"
  hp_canonical_root :: "string \<Rightarrow> string"

definition mode_env :: string where "mode_env = ''CORTEX_GRAPH_JOURNAL_MODE''"
definition path_env :: string where "path_env = ''CORTEX_GRAPH_JOURNAL_PATH''"
definition metadata_env :: string where "metadata_env = ''CORTEX_GRAPH_JOURNAL_METADATA''"
definition generation_env :: string where "generation_env = ''CORTEX_GRAPH_JOURNAL_GENERATION''"
definition auto_resume_env :: string where "auto_resume_env = ''CORTEX_GRAPH_JOURNAL_AUTO_RESUME''"
definition lease_seconds_env :: string where "lease_seconds_env = ''CORTEX_GRAPH_JOURNAL_LEASE_SECONDS''"
definition max_attempts_env :: string where "max_attempts_env = ''CORTEX_GRAPH_JOURNAL_MAX_ATTEMPTS''"
definition retry_base_seconds_env :: string where
  "retry_base_seconds_env = ''CORTEX_GRAPH_JOURNAL_RETRY_BASE_SECONDS''"
definition retry_max_seconds_env :: string where
  "retry_max_seconds_env = ''CORTEX_GRAPH_JOURNAL_RETRY_MAX_SECONDS''"

text \<open>\<open>_LIMIT_ENV\<close>, in the order of the fields of \<open>JournalLimits\<close>, with their defaults.\<close>

definition limit_env :: "(string \<times> int) list" where
  "limit_env =
     [(''CORTEX_GRAPH_JOURNAL_MAX_BATCHES'', max_batches_per_run default_limits),
      (''CORTEX_GRAPH_JOURNAL_MAX_PAYLOAD_BYTES'', max_payload_bytes_per_run default_limits),
      (''CORTEX_GRAPH_JOURNAL_MAX_ARTIFACT_BYTES'', max_artifact_bytes default_limits),
      (''CORTEX_GRAPH_JOURNAL_MAX_DATABASE_BYTES'', max_journal_bytes default_limits),
      (''CORTEX_GRAPH_JOURNAL_MIN_FREE_BYTES'', min_free_bytes default_limits),
      (''CORTEX_GRAPH_JOURNAL_RETENTION_SECONDS'', retention_seconds default_limits),
      (''CORTEX_GRAPH_JOURNAL_BUSY_TIMEOUT_MS'', busy_timeout_ms default_limits),
      (''CORTEX_GRAPH_JOURNAL_WAL_CHECKPOINT_PAGES'', wal_autocheckpoint_pages default_limits)]"

text \<open>\<open>source.get(name) or ""\<close>.\<close>

definition env_text :: "environ \<Rightarrow> string \<Rightarrow> string" where
  "env_text source name = (case source name of None \<Rightarrow> [] | Some s \<Rightarrow> s)"

definition positive_int :: "environ \<Rightarrow> string \<Rightarrow> int \<Rightarrow> exc + int" where
  "positive_int source name dflt =
     (let raw = strip (env_text source name) in
      if raw = [] then Inr dflt
      else case py_int (JStr raw) of
        Inl _ \<Rightarrow> Inl (JournalError InvalidContract)
      | Inr v \<Rightarrow> if v \<le> 0 then Inl (JournalError InvalidContract) else Inr v)"

definition boolean_env :: "environ \<Rightarrow> string \<Rightarrow> bool \<Rightarrow> exc + bool" where
  "boolean_env source name dflt =
     (let raw = casefold (strip (env_text source name)) in
      if raw = [] then Inr dflt
      else if raw \<in> {''1'', ''true'', ''yes'', ''on''} then Inr True
      else if raw \<in> {''0'', ''false'', ''no'', ''off''} then Inr False
      else Inl (JournalError InvalidContract))"

definition normalize_mode :: "string option \<Rightarrow> exc + string" where
  "normalize_mode raw =
     (let v = casefold (strip (case raw of None \<Rightarrow> [] | Some s \<Rightarrow> s)) in
      if v \<in> {'''', ''0'', ''false'', ''off'', ''disabled''} then Inr ''off''
      else if v \<in> {''shadow'', ''shared-shadow'', ''cplus-canary''} then Inr ''shadow''
      else if v \<in> {''required'', ''shared-required''} then Inr ''required''
      else Inl (JournalError InvalidContract))"

section \<open>Metadata\<close>

definition metadata_keys :: "string list" where
  "metadata_keys =
     [''project_id'', ''scope_id'', ''source_revision'', ''source_snapshot'', ''physical_target'', ''generation'',
      ''parser'', ''parser_version'', ''schema_fingerprint'', ''query_shape_version'']"

text \<open>
  \<open>dict(value)\<close> of the persisted versions: an object, or a list of pairs with string keys. The
  constructor refuses versions that are not integers (Booleans count as integers).
\<close>

definition pair_of :: "json \<Rightarrow> exc + string \<times> json" where
  "pair_of v = (case v of JArr [JStr k, x] \<Rightarrow> Inr (k, x) | _ \<Rightarrow> Inl ValueError)"

definition version_of :: "string \<times> json \<Rightarrow> exc + string \<times> int" where
  "version_of = (\<lambda>(k, v). case v of
       JInt i \<Rightarrow> Inr (k, i)
     | JBool b \<Rightarrow> Inr (k, if b then 1 else 0)
     | _ \<Rightarrow> Inl ValueError)"

definition versions_of :: "json \<Rightarrow> exc + (string \<times> int) list" where
  "versions_of v =
     (if \<not> json_truthy v then Inr []
      else rbind (case v of
            JObj d \<Rightarrow> Inr d
          | JArr xs \<Rightarrow> rbind (rmap pair_of xs) (\<lambda>kvs. Inr (dict_of_pairs kvs))
          | JStr _ \<Rightarrow> Inl ValueError
          | _ \<Rightarrow> Inl TypeError) (rmap version_of))"

definition metadata_from_mapping :: "dict \<Rightarrow> exc + run_metadata" where
  "metadata_from_mapping d =
     (if list_ex (\<lambda>k. map_of d k = None) metadata_keys then Inl KeyError
      else
        let text = (\<lambda>k. py_str (dict_get d k)) in
        rbind (versions_of (dict_get d ''operation_versions'')) (\<lambda>vs.
        rbind (py_int (json_or (dict_get d ''contract_version'') (JInt 1))) (\<lambda>cv.
        run_metadata_init
          \<lparr>project_id = text ''project_id'', scope_id = text ''scope_id'',
           source_revision = text ''source_revision'', source_snapshot = text ''source_snapshot'',
           physical_target = text ''physical_target'', generation = text ''generation'',
           parser = text ''parser'', parser_version = text ''parser_version'',
           schema_fingerprint = text ''schema_fingerprint'',
           query_shape_version = text ''query_shape_version'', operation_versions = vs,
           contract_version = cv\<rparr>)))"

text \<open>The guarded part of \<open>journal_config_from_env\<close>: any failure is an invalid contract.\<close>

definition parse_metadata :: "string \<Rightarrow> exc + run_metadata" where
  "parse_metadata s =
     (case json_loads s of
        Some (JObj d) \<Rightarrow>
          (case metadata_from_mapping d of Inl _ \<Rightarrow> Inl (JournalError InvalidContract) | Inr m \<Rightarrow> Inr m)
      | _ \<Rightarrow> Inl (JournalError InvalidContract))"

definition limits_from_env :: "environ \<Rightarrow> exc + journal_limits" where
  "limits_from_env source =
     rbind (rmap (\<lambda>(name, dflt). positive_int source name dflt) limit_env) (\<lambda>vs.
     journal_limits_init
       \<lparr>max_batches_per_run = vs ! 0, max_payload_bytes_per_run = vs ! 1, max_artifact_bytes = vs ! 2,
        max_journal_bytes = vs ! 3, min_free_bytes = vs ! 4, retention_seconds = vs ! 5,
        busy_timeout_ms = vs ! 6, wal_autocheckpoint_pages = vs ! 7\<rparr>)"

definition journal_config_from_env :: "host_paths \<Rightarrow> environ \<Rightarrow> exc + journal_config option" where
  "journal_config_from_env hp source =
     rbind (normalize_mode (source mode_env)) (\<lambda>mode.
     if mode = ''off'' then Inr None
     else
       let path_text = strip (env_text source path_env);
           metadata_text = strip (env_text source metadata_env)
       in if path_text = [] \<or> metadata_text = [] then Inl (JournalError InvalidContract)
          else
            rbind (parse_metadata metadata_text) (\<lambda>metadata.
            rbind (limits_from_env source) (\<lambda>limits.
            rbind (positive_int source lease_seconds_env 300) (\<lambda>lease.
            rbind (positive_int source max_attempts_env 5) (\<lambda>attempts.
            rbind (positive_int source retry_base_seconds_env 1) (\<lambda>base.
            rbind (positive_int source retry_max_seconds_env 60) (\<lambda>maxs.
            if base > maxs then Inl (JournalError InvalidContract)
            else
              let path = hp_expanduser hp path_text in
              if \<not> startswith path ''/'' then Inl (JournalError InvalidContract)
              else
                rbind (boolean_env source auto_resume_env True) (\<lambda>resume.
                Inr (Some \<lparr>cfg_mode = mode, cfg_path = hp_resolve hp path, cfg_metadata = metadata,
                  cfg_limits = limits, cfg_auto_resume = resume, cfg_lease_seconds = lease,
                  cfg_max_attempts = attempts, cfg_retry_base_seconds = base,
                  cfg_retry_max_seconds = maxs\<rparr>)))))))))"

section \<open>Handing a configuration to a child process\<close>

definition scan_scope_id :: "(string \<Rightarrow> string) \<Rightarrow> host_paths \<Rightarrow> string \<Rightarrow> string \<Rightarrow> string" where
  "scan_scope_id h hp project dir = take 24 (h (project @ [chr 0] @ hp_canonical_root hp dir))"

definition legacy_physical_target_from_env :: "environ \<Rightarrow> string" where
  "legacy_physical_target_from_env source =
     (let value = (\<lambda>k dflt. case source k of None \<Rightarrow> dflt | Some s \<Rightarrow> s);
          first = (\<lambda>ks dflt. case filter (\<lambda>s. s \<noteq> []) (map (env_text source) ks) of [] \<Rightarrow> dflt | s # _ \<Rightarrow> s);
          provider = casefold (first [''CODE_GRAPH_PROVIDER'', ''GRAPH_PROVIDER''] ''falkordb'')
      in if provider \<in> {''neo4j'', ''neo''} then
           ''neo4j:'' @ value ''NEO4J_URI'' [] @ '':'' @ value ''NEO4J_DB'' ''neo4j''
         else if provider \<in> {''ladybug'', ''ladybugdb'', ''ladybug-db''} then
           ''ladybug:'' @ value ''LADYBUG_PATH'' [] @ '':'' @ value ''FALKORDB_GRAPH'' ''hyper_graph''
         else
           ''falkordb:'' @ first [''FALKORDB_PATH''] ''embedded'' @ '':'' @
           first [''FALKORDB_GRAPH'', ''FALKORDB_DATABASE''] ''hyper_graph'')"

definition snapshot_for_paths :: "(string \<Rightarrow> string) \<Rightarrow> string \<Rightarrow> string list \<Rightarrow> string list \<Rightarrow> string" where
  "snapshot_for_paths h revision changed deleted =
     h (canonical_json (JObj [(''source_revision'', JStr revision), (''changed'', JArr (map JStr (sort changed))),
       (''deleted'', JArr (map JStr (sort deleted)))]))"

record journal_request =
  jq_root :: string
  jq_project_id :: string
  jq_parser :: string
  jq_source_revision :: string
  jq_source_snapshot :: string
  jq_physical_target :: string
  jq_cache_dir :: "string option"
  jq_mode :: string
  jq_generation :: "string option"

definition node_first_query_shape :: string where
  "node_first_query_shape = ''language-writer-node-first-v1''"

text \<open>Parser names are ASCII, where the characters kept are the word characters and the dash.\<close>

definition safe_parser :: "string \<Rightarrow> string" where
  "safe_parser p = map (\<lambda>c. if word_char c \<or> c = CHR ''-'' then c else CHR ''_'') p"

definition request_scope :: "(string \<Rightarrow> string) \<Rightarrow> host_paths \<Rightarrow> journal_request \<Rightarrow> string" where
  "request_scope h hp rq = scan_scope_id h hp (jq_project_id rq) (hp_resolve hp (hp_expanduser hp (jq_root rq)))"

definition request_path :: "(string \<Rightarrow> string) \<Rightarrow> host_paths \<Rightarrow> journal_request \<Rightarrow> string" where
  "request_path h hp rq =
     (case jq_cache_dir rq of
        None \<Rightarrow> hp_resolve hp (hp_expanduser hp (jq_root rq)) @ ''/.cache''
      | Some c \<Rightarrow> if c = [] then hp_resolve hp (hp_expanduser hp (jq_root rq)) @ ''/.cache''
                  else hp_resolve hp (hp_expanduser hp c)) @
     ''/graph-write-journal/'' @ request_scope h hp rq @ ''/'' @ safe_parser (jq_parser rq) @ ''.sqlite3''"

definition request_generation :: "journal_request \<Rightarrow> environ \<Rightarrow> string" where
  "request_generation rq source =
     (case filter (\<lambda>s. s \<noteq> []) [case jq_generation rq of None \<Rightarrow> [] | Some g \<Rightarrow> g, env_text source generation_env] of
        [] \<Rightarrow> jq_source_snapshot rq
      | g # _ \<Rightarrow> g)"

definition request_metadata :: "(string \<Rightarrow> string) \<Rightarrow> host_paths \<Rightarrow> journal_request \<Rightarrow> environ \<Rightarrow> exc + run_metadata" where
  "request_metadata h hp rq source =
     (let node_first = casefold (jq_parser rq) = ''cplus'' in
      run_metadata_init
        \<lparr>project_id = jq_project_id rq, scope_id = request_scope h hp rq,
         source_revision = (if jq_source_revision rq = [] then jq_source_snapshot rq else jq_source_revision rq),
         source_snapshot = jq_source_snapshot rq, physical_target = jq_physical_target rq,
         generation = request_generation rq source, parser = jq_parser rq, parser_version = ''1'',
         schema_fingerprint = schema_fingerprint_of h code_graph_schema,
         query_shape_version = (if node_first then node_first_query_shape else ''language-writer-v1''),
         operation_versions = (''graph-write'', 1) # (if node_first then [(''node-first'', 1)] else []),
         contract_version = 1\<rparr>)"

definition metadata_text :: "run_metadata \<Rightarrow> string" where
  "metadata_text m = canonical_json (JObj (run_metadata_to_dict m))"

definition request_env :: "string \<Rightarrow> string \<Rightarrow> run_metadata \<Rightarrow> environ \<Rightarrow> environ" where
  "request_env mode path m source =
     source(mode_env \<mapsto> mode, path_env \<mapsto> path, generation_env \<mapsto> generation m, metadata_env \<mapsto> metadata_text m)"

definition read_back_config :: "host_paths \<Rightarrow> environ \<Rightarrow> exc + journal_config" where
  "read_back_config hp source =
     rbind (journal_config_from_env hp source) (\<lambda>c. case c of None \<Rightarrow> Inl AssertionError | Some cfg \<Rightarrow> Inr cfg)"

text \<open>
  \<open>configure_journal_env\<close>. The environment and the journal files are returned as they are left,
  also when an exception ends the call.
\<close>

definition configure_journal_env ::
  "env \<Rightarrow> host_paths \<Rightarrow> journal_request \<Rightarrow> environ \<Rightarrow> (string \<rightharpoonup> journal) \<Rightarrow>
   (exc + journal_config) \<times> environ \<times> (string \<rightharpoonup> journal)" where
  "configure_journal_env e hp rq source files =
     (case normalize_mode (Some (jq_mode rq)) of
        Inl x \<Rightarrow> (Inl x, source, files)
      | Inr mode \<Rightarrow>
          if mode = ''off'' then (Inl ValueError, source, files)
          else case request_metadata (e_sha e) hp rq source of
            Inl x \<Rightarrow> (Inl x, source, files)
          | Inr m \<Rightarrow>
              let path = request_path (e_sha e) hp rq; source1 = request_env mode path m source in
              case read_back_config hp source1 of
                Inl x \<Rightarrow> (Inl x, source1, files)
              | Inr cfg \<Rightarrow>
                  (case (if mode = ''required'' then files path else None) of
                     None \<Rightarrow> (Inr cfg, source1, files)
                   | Some j \<Rightarrow>
                       let j1 = snd (quarantine_legacy_targets e m [legacy_physical_target_from_env source1] j);
                           files1 = files(path \<mapsto> j1)
                       in case find_resumable_run m j1 of
                            None \<Rightarrow> (Inr cfg, source1, files1)
                          | Some r \<Rightarrow>
                              if \<not> cfg_auto_resume cfg then (Inl (JournalError InvalidTransition), source1, files1)
                              else
                                let source2 = source1(generation_env \<mapsto> generation (r_metadata r),
                                                      metadata_env \<mapsto> metadata_text (r_metadata r))
                                in (read_back_config hp source2, source2, files1)))"

section \<open>After the child\<close>

text \<open>The gate a node-first run has to pass before its production is closed.\<close>

definition node_first_gate :: "env \<Rightarrow> string \<Rightarrow> journal \<Rightarrow> exc + unit" where
  "node_first_gate e rid j =
     rbind (endpoint_audit_status (e_sha e) rid j) (\<lambda>audit.
     if audit \<noteq> Some Sealed then Inl (JournalError InvalidTransition)
     else if cs_producers_open (conservation_summary (e_sha e) rid j) \<noteq> 0 \<or>
             \<not> cs_conserved (conservation_summary (e_sha e) rid j)
     then Inl (JournalError InvalidContract) else Inr ())"

definition finalize_run :: "env \<Rightarrow> journal_config \<Rightarrow> journal \<Rightarrow> (exc + run_status) \<times> journal" where
  "finalize_run e cfg j =
     (let rid = run_id (e_sha e) (cfg_metadata cfg) in
      if get_run rid j = None then (Inl (JournalError InvalidTransition), j)
      else case (if query_shape_version (cfg_metadata cfg) = node_first_query_shape
                 then node_first_gate e rid j else Inr ()) of
        Inl x \<Rightarrow> (Inl x, j)
      | Inr _ \<Rightarrow>
          (case close_run_production e rid j of
             (Inl x, j') \<Rightarrow> (Inl x, j')
           | (Inr r, j') \<Rightarrow> (Inr (r_status r), j')))"

definition finalize_journal_from_env ::
  "env \<Rightarrow> host_paths \<Rightarrow> environ \<Rightarrow> (string \<rightharpoonup> journal) \<Rightarrow> (exc + run_status option) \<times> (string \<rightharpoonup> journal)" where
  "finalize_journal_from_env e hp source files =
     (case journal_config_from_env hp source of
        Inl x \<Rightarrow> (Inl x, files)
      | Inr None \<Rightarrow> (Inr None, files)
      | Inr (Some cfg) \<Rightarrow>
          if cfg_shadow cfg then (Inr None, files)
          else case files (cfg_path cfg) of
            None \<Rightarrow> (Inl (JournalError InvalidTransition), files)
          | Some j \<Rightarrow>
              (case finalize_run e cfg j of
                 (Inl x, j') \<Rightarrow> (Inl x, files(cfg_path cfg \<mapsto> j'))
               | (Inr st, j') \<Rightarrow> (Inr (Some st), files(cfg_path cfg \<mapsto> j'))))"

definition journal_status_from_env ::
  "env \<Rightarrow> int \<Rightarrow> host_paths \<Rightarrow> environ \<Rightarrow> (string \<rightharpoonup> journal) \<Rightarrow> exc + status_report option" where
  "journal_status_from_env e journal_bytes hp source files =
     rbind (journal_config_from_env hp source) (\<lambda>c. case c of
       None \<Rightarrow> Inr None
     | Some cfg \<Rightarrow>
         if cfg_shadow cfg then Inr None
         else case files (cfg_path cfg) of
           None \<Rightarrow> Inr None
         | Some j \<Rightarrow>
             let rid = run_id (e_sha e) (cfg_metadata cfg) in
             if get_run rid j = None then Inr None
             else rbind (status_summary e journal_bytes rid j) (\<lambda>s. Inr (Some s)))"

section \<open>Metadata survives the environment\<close>

lemma metadata_from_mapping_cong: "map_of d = map_of d' \<Longrightarrow> metadata_from_mapping d = metadata_from_mapping d'"
  by (simp add: metadata_from_mapping_def dict_get_def)

lemma versions_of_versions_json: "versions_of (versions_json vs) = Inr vs"
proof -
  have "rmap version_of (map (\<lambda>(n, v). (n, JInt v)) vs) = Inr vs"
    by (induction vs) (auto simp: version_of_def)
  then show ?thesis by (auto simp: versions_of_def versions_json_def json_truthy_def)
qed

lemma metadata_from_to_dict:
  assumes "metadata_ok m"
  shows "metadata_from_mapping (run_metadata_to_dict m) = Inr m"
proof -
  have "run_metadata_init m = Inr m" using assms by (simp add: metadata_ok_def)
  moreover from this have "contract_version m \<noteq> 0" by (auto simp: run_metadata_init_def split: if_splits)
  ultimately show ?thesis
    by (cases m) (simp add: metadata_from_mapping_def run_metadata_to_dict_versions metadata_keys_def dict_get_def py_str_def
        versions_of_versions_json json_or_def json_truthy_def py_int_def)
qed

lemma distinct_metadata_keys: "distinct (map fst (run_metadata_to_dict m))"
  by (simp add: run_metadata_to_dict_def)

lemma parse_metadata_text:
  assumes "metadata_ok m"
  shows "parse_metadata (metadata_text m) = Inr m"
proof -
  let ?d = "sort_key fst (map (\<lambda>(k, v). (k, sort_keys v)) (run_metadata_to_dict m))"
  have wf: "wf_json (JObj (run_metadata_to_dict m))"
    using assms by (simp add: run_metadata_to_dict_versions metadata_ok_def wf_versions)
  have "map (\<lambda>(k, v). (k, sort_keys v)) (run_metadata_to_dict m) = run_metadata_to_dict m"
    by (simp add: run_metadata_to_dict_versions sort_keys_versions[OF metadata_ok_sorted[OF assms]])
  then have "map_of ?d = map_of (run_metadata_to_dict m)" by (simp add: sort_key_map_of[OF distinct_metadata_keys])
  then have "metadata_from_mapping ?d = Inr m"
    using metadata_from_mapping_cong metadata_from_to_dict[OF assms] by metis
  then show ?thesis using json_loads_canonical[OF wf] by (simp add: parse_metadata_def metadata_text_def)
qed

lemma strip_delimited:
  assumes "\<not> py_isspace c" "\<not> py_isspace d"
  shows "strip (c # s @ [d]) = c # s @ [d]"
  using assms by (simp add: strip_def lstrip_def rstrip_def)

lemma strip_metadata_text: "strip (metadata_text m) = metadata_text m" "metadata_text m \<noteq> []"
proof -
  have "\<not> py_isspace (CHR ''{'')" "\<not> py_isspace (CHR ''}'')" by code_simp+
  then show "strip (metadata_text m) = metadata_text m" "metadata_text m \<noteq> []"
    by (simp_all add: metadata_text_def canonical_json_def strip_delimited)
qed

lemma metadata_from_env:
  assumes "metadata_ok m" "source metadata_env = Some (metadata_text m)" "journal_config_from_env hp source = Inr (Some cfg)"
  shows "cfg_metadata cfg = m"
  using assms strip_metadata_text[of m] parse_metadata_text[OF assms(1)]
  by (auto simp: journal_config_from_env_def env_text_def Let_def rbind_Inr_iff split: if_splits)

lemma read_back_config_iff: "read_back_config hp source = Inr cfg \<longleftrightarrow> journal_config_from_env hp source = Inr (Some cfg)"
  by (auto simp: read_back_config_def rbind_Inr_iff split: option.splits)

lemma init_metadata_ok:
  assumes "run_metadata_init m0 = Inr m" "distinct (map fst (operation_versions m0))"
  shows "metadata_ok m"
proof -
  let ?bad = "\<lambda>vs. list_ex (\<lambda>(n, v). strip n = [] \<or> v < (1::int)) vs"
  have m: "m = m0\<lparr>operation_versions := sort_key fst (operation_versions m0)\<rparr>"
    and ok: "\<not> list_ex (\<lambda>v. strip v = []) [project_id m0, scope_id m0, source_revision m0, source_snapshot m0,
      physical_target m0, generation m0, parser m0, parser_version m0, schema_fingerprint m0, query_shape_version m0]"
    "\<not> ?bad (operation_versions m0)" "\<not> contract_version m0 < 1"
    using assms(1) unfolding run_metadata_init_def by (simp_all only: split: if_splits) simp_all
  have "\<not> ?bad (sort_key fst (operation_versions m0))" using ok(2) by (simp only: list_ex_iff set_sort) simp
  moreover have "sort_key fst (sort_key fst (operation_versions m0)) = sort_key fst (operation_versions m0)"
    by (rule sort_key_sorted) simp
  ultimately have "run_metadata_init m = Inr m"
    using ok(1,3) unfolding m run_metadata_init_def by simp
  moreover have "distinct (map fst (operation_versions m))"
    using assms(2) unfolding m by (simp add: distinct_map)
  ultimately show ?thesis by (simp add: metadata_ok_def)
qed

lemma request_metadata_ok:
  assumes "request_metadata h hp rq source = Inr m"
  shows "metadata_ok m"
  by (rule init_metadata_ok[OF assms[unfolded request_metadata_def Let_def]]) simp

lemma quarantine_legacy_metadata:
  assumes "r \<in> set (runs (snd (quarantine_legacy_targets e m ts j)))"
  shows "\<exists>r0 \<in> set (runs j). r_metadata r = r_metadata r0"
proof (cases "legacy_targets m ts = []")
  case True
  then show ?thesis using assms by (auto simp: quarantine_legacy_targets_def)
next
  case False
  then show ?thesis using assms
    by (auto simp: quarantine_legacy_targets_def Let_def quarantine_runs_tables set_update_where quarantine_row_def)
qed

lemma resumable_runD:
  assumes "find_resumable_run m j = Some r"
  shows "r \<in> set (runs j)" "run_active r" "(r_metadata r)\<lparr>generation := []\<rparr> = m\<lparr>generation := []\<rparr>"
  using find_SomeD[OF assms[unfolded find_resumable_run_def]] by auto

lemma request_env_metadata [simp]: "request_env mode path m source metadata_env = Some (metadata_text m)"
  by (simp add: request_env_def)

text \<open>
  C8. A child process reads the identity its parent chose. When \<open>configure_journal_env\<close> returns, the
  environment it leaves reads back as the configuration it returns; its metadata are the requested
  ones, or those of an active run of the journal file that differ in the generation at most, which
  the child then resumes.
\<close>

theorem configured_identity:
  assumes "configure_journal_env e hp rq source files = (Inr cfg, source', files')"
    and "\<forall>j \<in> ran files. \<forall>r \<in> set (runs j). metadata_ok (r_metadata r)"
  shows "journal_config_from_env hp source' = Inr (Some cfg) \<and>
    (\<exists>m. request_metadata (e_sha e) hp rq source = Inr m \<and> (cfg_metadata cfg)\<lparr>generation := []\<rparr> = m\<lparr>generation := []\<rparr> \<and>
      (cfg_metadata cfg = m \<or> (\<exists>j. files' (request_path (e_sha e) hp rq) = Some j \<and>
         (\<exists>r \<in> set (runs j). run_active r \<and> r_metadata r = cfg_metadata cfg))))"
proof -
  let ?path = "request_path (e_sha e) hp rq"
  obtain mode m where m: "normalize_mode (Some (jq_mode rq)) = Inr mode" "mode \<noteq> ''off''"
      "request_metadata (e_sha e) hp rq source = Inr m"
    using assms(1) by (auto simp: configure_journal_env_def split: sum.splits if_splits)
  let ?s = "request_env mode ?path m source"
  obtain cfg1 where cfg1: "journal_config_from_env hp ?s = Inr (Some cfg1)"
    using assms(1) m by (auto simp: configure_journal_env_def Let_def read_back_config_iff split: sum.splits)
  have same: "cfg_metadata cfg1 = m" by (rule metadata_from_env[OF request_metadata_ok[OF m(3)] _ cfg1]) simp
  note eq = assms(1)[unfolded configure_journal_env_def m sum.case Let_def if_not_P[OF m(2)]
      iffD2[OF read_back_config_iff cfg1]]
  show ?thesis
  proof (cases "cfg = cfg1 \<and> source' = ?s")
    case True
    then show ?thesis using cfg1 same m(3) by blast
  next
    case False
    then obtain j r where j: "files ?path = Some j"
      "find_resumable_run m (snd (quarantine_legacy_targets e m [legacy_physical_target_from_env ?s] j)) = Some r"
      using eq by (auto split: option.splits if_splits)
    let ?j = "snd (quarantine_legacy_targets e m [legacy_physical_target_from_env ?s] j)"
    let ?s2 = "?s(generation_env \<mapsto> generation (r_metadata r), metadata_env \<mapsto> metadata_text (r_metadata r))"
    have res: "journal_config_from_env hp ?s2 = Inr (Some cfg)" "source' = ?s2" "files' = files(?path \<mapsto> ?j)"
      using eq j False by (auto simp: read_back_config_iff split: option.splits if_splits)
    obtain r0 where "r0 \<in> set (runs j)" "r_metadata r = r_metadata r0"
      using quarantine_legacy_metadata resumable_runD(1)[OF j(2)] by blast
    then have "metadata_ok (r_metadata r)" using assms(2) ranI[of files, OF j(1)] by auto
    from metadata_from_env[OF this _ res(1)] have "cfg_metadata cfg = r_metadata r" by simp
    then show ?thesis using res m(3) resumable_runD[OF j(2)] by auto
  qed
qed

definition sample_paths :: host_paths where
  "sample_paths = \<lparr>hp_expanduser = id, hp_resolve = id, hp_canonical_root = id\<rparr>"

definition sample_request :: journal_request where
  "sample_request =
     \<lparr>jq_root = ''/r'', jq_project_id = ''p'', jq_parser = ''cplus'', jq_source_revision = [], jq_source_snapshot = ''s'',
      jq_physical_target = ''t'', jq_cache_dir = None, jq_mode = ''shared-required'', jq_generation = None\<rparr>"

definition fixed_env :: env where
  "fixed_env = (sample_env 100 ''a'')\<lparr>e_sha := (\<lambda>_. ''h'')\<rparr>"

definition requested :: run_metadata where
  "requested =
     \<lparr>project_id = ''p'', scope_id = ''h'', source_revision = ''s'', source_snapshot = ''s'', physical_target = ''t'',
      generation = ''s'', parser = ''cplus'', parser_version = ''1'', schema_fingerprint = ''h'',
      query_shape_version = node_first_query_shape,
      operation_versions = [(''graph-write'', 1), (''node-first'', 1)], contract_version = 1\<rparr>"

lemma requested_metadata: "request_metadata (\<lambda>_. ''h'') sample_paths sample_request Map.empty = Inr requested"
proof -
  have "run_metadata_init requested = Inr requested" by code_simp
  moreover have "casefold ''cplus'' = ''cplus''" by code_simp
  ultimately show ?thesis
    by (simp add: request_metadata_def Let_def sample_request_def request_scope_def scan_scope_id_def
        request_generation_def env_text_def schema_fingerprint_of_def requested_def)
qed

definition child_env :: environ where
  "child_env = request_env ''required'' ''/r/.cache/graph-write-journal/h/cplus.sqlite3'' requested Map.empty"

lemma child_limits: "limits_from_env child_env = Inr default_limits"
proof -
  have "positive_int child_env name dflt = Inr dflt" if "(name, dflt) \<in> set limit_env" for name dflt
    using that by (auto simp: limit_env_def positive_int_def child_env_def request_env_def env_text_def mode_env_def path_env_def
        generation_env_def metadata_env_def strip_simps)
  then have "rmap (\<lambda>(name, dflt). positive_int child_env name dflt) limit_env = Inr (map snd limit_env)"
    by (simp add: limit_env_def)
  then show ?thesis
    by (simp add: limits_from_env_def limit_env_def default_limits_def journal_limits_init_def)
qed

lemma child_config:
  "journal_config_from_env sample_paths child_env =
     Inr (Some \<lparr>cfg_mode = ''required'', cfg_path = ''/r/.cache/graph-write-journal/h/cplus.sqlite3'', cfg_metadata = requested,
       cfg_limits = default_limits, cfg_auto_resume = True, cfg_lease_seconds = 300, cfg_max_attempts = 5,
       cfg_retry_base_seconds = 1, cfg_retry_max_seconds = 60\<rparr>)"
proof -
  have absent: "env_text child_env k = []"
    if "k \<in> {auto_resume_env, lease_seconds_env, max_attempts_env, retry_base_seconds_env, retry_max_seconds_env}" for k
    using that by (auto simp: child_env_def request_env_def env_text_def mode_env_def path_env_def generation_env_def
        metadata_env_def auto_resume_env_def lease_seconds_env_def max_attempts_env_def retry_base_seconds_env_def
        retry_max_seconds_env_def)
  have blank: "strip [] = []" "casefold [] = []" by code_simp+
  have dflt: "positive_int child_env k d = Inr d"
    if "k \<in> {lease_seconds_env, max_attempts_env, retry_base_seconds_env, retry_max_seconds_env}" for k d
    using that absent[of k] blank by (auto simp: positive_int_def)
  have resume: "boolean_env child_env auto_resume_env True = Inr True" using absent[of auto_resume_env] blank by (simp add: boolean_env_def)
  have mode: "child_env mode_env = Some ''required''" "normalize_mode (Some ''required'') = Inr ''required''"
    by (simp add: child_env_def request_env_def mode_env_def path_env_def generation_env_def metadata_env_def, code_simp)
  have path: "env_text child_env path_env = ''/r/.cache/graph-write-journal/h/cplus.sqlite3''"
    "strip ''/r/.cache/graph-write-journal/h/cplus.sqlite3'' = ''/r/.cache/graph-write-journal/h/cplus.sqlite3''"
    by (simp add: child_env_def request_env_def env_text_def path_env_def generation_env_def metadata_env_def, code_simp)
  have md: "env_text child_env metadata_env = metadata_text requested" by (simp add: child_env_def env_text_def)
  have "metadata_ok requested" by (rule request_metadata_ok[OF requested_metadata])
  then show ?thesis
    unfolding journal_config_from_env_def mode path md strip_metadata_text Let_def rbind_simps
    by (simp add: parse_metadata_text strip_metadata_text(2) child_limits dflt resume sample_paths_def startswith_def)
qed

theorem configured_identity_witness:
  "journal_config_from_env sample_paths child_env \<noteq> Inr None \<and>
   (\<exists>cfg source' files'. configure_journal_env fixed_env sample_paths sample_request Map.empty Map.empty = (Inr cfg, source', files') \<and>
     journal_config_from_env sample_paths source' = Inr (Some cfg) \<and> cfg_metadata cfg = requested)"
proof -
  have "request_path (\<lambda>_. ''h'') sample_paths sample_request = ''/r/.cache/graph-write-journal/h/cplus.sqlite3''"
    by code_simp
  moreover have "normalize_mode (Some ''shared-required'') = Inr ''required''" by code_simp
  ultimately have "\<exists>cfg. configure_journal_env fixed_env sample_paths sample_request Map.empty Map.empty = (Inr cfg, child_env, Map.empty)"
    using child_config requested_metadata
    by (simp add: configure_journal_env_def fixed_env_def sample_request_def[THEN arg_cong[of _ _ jq_mode]] child_env_def
        read_back_config_def Let_def)
  then obtain cfg where c: "configure_journal_env fixed_env sample_paths sample_request Map.empty Map.empty = (Inr cfg, child_env, Map.empty)" by blast
  have "cfg_metadata cfg = requested" using configured_identity[OF c] requested_metadata by (simp add: fixed_env_def)
  then show ?thesis using c child_config configured_identity[OF c] by auto
qed

section \<open>Publication\<close>

lemma refresh_run_result:
  assumes "find_run rid (refresh_run_status e rid j) = Some r" "find_run rid j = Some r1" "r_status r1 \<in> {RunDraining, RunDrained}"
  shows "r_status r \<in> {RunDraining, RunDrained}"
  using assms by (auto simp: refresh_run_status_def find_run_def find_update_where split: if_splits)

lemma close_production_result:
  assumes "reachable h j" "close_run_production e rid j = (Inr r, j')"
  shows "reachable h j'" "r \<in> set (runs j')" "r_run_id r = rid" "r_status r \<in> {RunDraining, RunDrained}"
    "batches j' = batches j" "manifests j' = manifests j"
proof -
  let ?sel = "\<lambda>r. r_run_id r = rid \<and> r_status r = RunOpen"
  let ?j1 = "update_runs ?sel (\<lambda>r. r\<lparr>r_status := RunDraining, r_updated_at := e_now e\<rparr>) j"
  show "reachable h j'" using reachable_step[OF assms(1), of "CloseRunProduction e rid"] assms(2) by simp
  show "batches j' = batches j" using barrier_ops_batches(3)[of e rid j] assms(2) by simp
  have j': "j' = refresh_run_status e rid ?j1" "find_run rid j' = Some r"
    and ok: "count_where ?sel (runs j) = 1 \<or> (\<exists>r1. find_run rid ?j1 = Some r1 \<and> r_status r1 \<in> {RunDraining, RunDrained})"
    using assms(2) by (auto simp: close_run_production_def transaction_def Let_def split: if_splits option.splits)
  show "r \<in> set (runs j')" "r_run_id r = rid" using find_SomeD[OF j'(2)[unfolded find_run_def]] by simp_all
  show "manifests j' = manifests j" using j'(1) by (auto simp: refresh_run_status_def split: option.splits)
  have "\<exists>r1. find_run rid ?j1 = Some r1 \<and> r_status r1 \<in> {RunDraining, RunDrained}"
  proof (cases "count_where ?sel (runs j) = 1")
    case True
    then obtain r0 where r0: "r0 \<in> set (runs j)" "?sel r0" using count_where_0_iff[of ?sel "runs j"] by auto
    have "find_run rid j = Some r0"
      using find_key_Some[OF keys_okD(1)[OF reachable_invs(1)[OF assms(1)]] r0(1)] r0(2) by (simp add: find_run_def)
    then show ?thesis using r0(2) by (simp add: find_run_def find_update_where)
  qed (use ok in blast)
  then show "r_status r \<in> {RunDraining, RunDrained}" using refresh_run_result j'(2)[unfolded j'(1)] by blast
qed

lemma certified_rows:
  assumes "reachable (e_sha e) j" "node_first_gate e rid j = Inr ()"
  shows "production_complete rid j \<and> (\<forall>m \<in> set (manifests j). m_run_id m = rid \<longrightarrow>
      m_disposition m \<in> {StagedUnique, DeclaredDuplicate} \<and> (m_disposition m = StagedUnique \<longrightarrow> m_acked m))"
proof -
  have complete: "production_complete rid j"
    and cons: "t_conserved (totals_of k rid j)" for k
    using assms(2) by (cases k; auto simp: node_first_gate_def endpoint_audit_status_def validate_endpoint_audit_boundary_def
        conservation_summary_def rbind_Inr_iff Let_def split: if_splits option.splits)+
  note inv = reachable_minv[OF assms(1)]
  have disp: "m_disposition m \<in> {StagedUnique, DeclaredDuplicate}" if "m \<in> set (manifests j)" "m_run_id m = rid" for m
    using inv complete that by (cases "m_disposition m") (auto simp: minv_def complete_ok_def invalid_rows_def count_where_0_iff)
  have "m_acked m" if "m \<in> set (manifests j)" "m_run_id m = rid" "m_disposition m = StagedUnique" for m
    using totals_law(4)[OF assms(1), of "m_kind m" rid] cons[of "m_kind m"] inv that
    by (auto simp: minv_def acks_ok_def manifests_of_def)
  then show ?thesis using complete disp by blast
qed

text \<open>
  C9. What finalisation certifies. When finalising a run on a reachable journal returns, the run is
  draining or drained; if it is drained, every batch of it is done. A node-first run is only
  finalised when its producers are complete and each of its rows was staged once, as unique or as a
  declared duplicate, and every unique row belongs to an acknowledged batch.
\<close>

theorem finalize_certifies:
  assumes "reachable (e_sha e) j" "finalize_run e cfg j = (Inr st, j')"
  shows "reachable (e_sha e) j' \<and> st \<in> {RunDraining, RunDrained} \<and>
    (st = RunDrained \<longrightarrow> (\<forall>b \<in> set (batches j'). b_run_id b = run_id (e_sha e) (cfg_metadata cfg) \<longrightarrow> b_status b = Done)) \<and>
    (query_shape_version (cfg_metadata cfg) = node_first_query_shape \<longrightarrow>
      production_complete (run_id (e_sha e) (cfg_metadata cfg)) j \<and>
      (\<forall>m \<in> set (manifests j'). m_run_id m = run_id (e_sha e) (cfg_metadata cfg) \<longrightarrow>
         m_disposition m \<in> {StagedUnique, DeclaredDuplicate} \<and> (m_disposition m = StagedUnique \<longrightarrow> m_acked m)))"
proof -
  let ?rid = "run_id (e_sha e) (cfg_metadata cfg)"
  obtain r where r: "close_run_production e ?rid j = (Inr r, j')" "r_status r = st"
    and gate: "query_shape_version (cfg_metadata cfg) = node_first_query_shape \<longrightarrow> node_first_gate e ?rid j = Inr ()"
    using assms(2) by (auto simp: finalize_run_def Let_def split: if_splits sum.splits prod.splits)
  note res = close_production_result[OF assms(1) r(1)]
  have "b_status b = Done" if "st = RunDrained" "b \<in> set (batches j')" "b_run_id b = ?rid" for b
    using reachable_invs(3)[OF res(1)] res(2,3) r(2) that by (auto simp: runs_ok_def)
  moreover have "production_complete ?rid j \<and> (\<forall>m \<in> set (manifests j). m_run_id m = ?rid \<longrightarrow>
      m_disposition m \<in> {StagedUnique, DeclaredDuplicate} \<and> (m_disposition m = StagedUnique \<longrightarrow> m_acked m))"
    if "query_shape_version (cfg_metadata cfg) = node_first_query_shape"
    using certified_rows[OF assms(1)] gate that by blast
  ultimately show ?thesis using res r(2) by simp
qed

definition sample_config :: journal_config where
  "sample_config =
     \<lparr>cfg_mode = ''required'', cfg_path = ''/j'', cfg_metadata = sample_metadata, cfg_limits = default_limits,
      cfg_auto_resume = True, cfg_lease_seconds = 60, cfg_max_attempts = 3, cfg_retry_base_seconds = 1,
      cfg_retry_max_seconds = 60\<rparr>"

lemma gate_can_open:
  "node_first_gate (sample_env 111 ''x'') ''run_251''
     (apply_op (SealEndpointAudit (sample_env 110 ''x'') ''run_251'' None None None) sample_done) = Inr ()"
  by code_simp

theorem finalize_certifies_witness:
  "\<exists>j'. finalize_run (sample_env 110 ''x'') sample_config sample_done = (Inr RunDrained, j') \<and>
     batches j' \<noteq> [] \<and> (\<forall>b \<in> set (batches j'). b_status b = Done)"
proof -
  let ?r = "finalize_run (sample_env 110 ''x'') sample_config sample_done"
  have "fst ?r = Inr RunDrained \<and> batches (snd ?r) \<noteq> [] \<and> (\<forall>b \<in> set (batches (snd ?r)). b_run_id b = ''run_251'')" by code_simp
  then have r: "?r = (Inr RunDrained, snd ?r)" "batches (snd ?r) \<noteq> []" "\<forall>b \<in> set (batches (snd ?r)). b_run_id b = ''run_251''"
    by (auto simp: prod_eq_iff)
  have "run_id (e_sha (sample_env 110 ''x'')) (cfg_metadata sample_config) = ''run_251''"
    by (simp add: sample_config_def sample_run_id)
  then show ?thesis using finalize_certifies[OF _ r(1)] sample_reachable(7) r by auto
qed

end
