(* ===== verification/Project_Scope.thy ===== *)
theory Project_Scope
  imports Journal_Operation
begin

text \<open>
  \<open>common/project_scope.py\<close>: how a project or repository scope is normalised, expanded into match
  keys for the vector store, applied to graph parameters, and checked on retrieved candidates.
  The ids the project registry knows are an argument.
\<close>

section \<open>Project ids\<close>

definition normalize_project_id :: "json \<Rightarrow> string option" where
  "normalize_project_id v =
     (if v = JNull then None else let s = strip (py_str v) in if s = [] then None else Some s)"

definition project_id_lookup_key :: "json \<Rightarrow> string option" where
  "project_id_lookup_key v = map_option casefold (normalize_project_id v)"

definition project_id_scope_keys :: "json \<Rightarrow> json list \<Rightarrow> string list option" where
  "project_id_scope_keys v known =
     (case project_id_lookup_key v of
        None \<Rightarrow> None
      | Some q \<Rightarrow> Some (sorted_set (q # List.map_filter (\<lambda>k. case project_id_lookup_key k of
            None \<Rightarrow> None
          | Some key \<Rightarrow> if key \<noteq> [] \<and> startswith key q then Some key else None) known)))"

section \<open>Parameters\<close>

abbreviation normalized_field :: string where
  "normalized_field \<equiv> ''project_id_normalized''"

definition scope_dict :: "dict \<Rightarrow> dict" where
  "scope_dict d =
     (if ''project_id'' \<in> fst ` set d
      then case project_id_lookup_key (dict_get d ''project_id'') of
             Some k \<Rightarrow> dict_set normalized_field (JStr k) d
           | None \<Rightarrow> dict_pop normalized_field d
      else d)"

fun enrich_project_scope :: "json \<Rightarrow> json" where
  "enrich_project_scope (JObj d) = JObj (scope_dict (map (\<lambda>(k, v). (k, enrich_project_scope v)) d))"
| "enrich_project_scope (JArr xs) = JArr (map enrich_project_scope xs)"
| "enrich_project_scope v = v"

definition scope_parameter_keys :: "string list" where
  "scope_parameter_keys = [''project_id'', ''be_project_id'', ''fe_project_id'', ''be_project'', ''fe_project'', ''pid'']"

definition add_normalized :: "string \<Rightarrow> dict \<Rightarrow> dict" where
  "add_normalized key d =
     (if key \<in> fst ` set d
      then dict_set (key @ ''_normalized'') (json_opt (project_id_lookup_key (dict_get d key))) d else d)"

definition prepare_project_scope_parameters :: "string \<Rightarrow> dict \<Rightarrow> dict" where
  "prepare_project_scope_parameters query parameters =
     fold add_normalized scope_parameter_keys
       (scope_dict (map (\<lambda>(k, v). (k, enrich_project_scope v)) parameters))"

definition qdrant_project_filter :: "json \<Rightarrow> json list \<Rightarrow> json option" where
  "qdrant_project_filter v known =
     map_option (\<lambda>keys. JObj [(''must'', JArr [JObj [(''key'', JStr normalized_field),
        (''match'', JObj [(''any'', JArr (map JStr keys))])]])]) (project_id_scope_keys v known)"

definition matches_project_scope :: "dict \<Rightarrow> json \<Rightarrow> bool" where
  "matches_project_scope candidate v =
     (case project_id_lookup_key v of
        None \<Rightarrow> True
      | Some q \<Rightarrow>
          (case project_id_lookup_key (dict_get_default candidate normalized_field (dict_get candidate ''project_id'')) of
             None \<Rightarrow> False
           | Some key \<Rightarrow> key \<noteq> [] \<and> startswith key q))"

section \<open>Repositories\<close>

definition repo_scope_predicate :: "string \<Rightarrow> string" where
  "repo_scope_predicate alias =
     ''($repo = '' @ [CHR 39, CHR 39] @ '' OR '' @ alias @ ''.repo = $repo OR '' @ alias @ ''.repo ENDS WITH $repo_suffix)''"

definition prepare_repo_scope_parameters :: "dict \<Rightarrow> dict" where
  "prepare_repo_scope_parameters parameters =
     (if ''repo'' \<notin> fst ` set parameters then parameters
      else let repo = (case normalize_project_id (dict_get parameters ''repo'') of None \<Rightarrow> [] | Some r \<Rightarrow> r)
           in dict_set ''repo_suffix'' (JStr (if repo = [] then [] else CHR ''/'' # repo))
                (dict_set ''repo'' (JStr repo) parameters))"

definition matches_repo_scope :: "json \<Rightarrow> json \<Rightarrow> bool" where
  "matches_repo_scope value repo =
     (case normalize_project_id repo of
        None \<Rightarrow> True
      | Some requested \<Rightarrow>
          let node_repo = (if value = JNull then [] else py_str value) in
          node_repo \<noteq> [] \<and> (node_repo = requested \<or> endswith node_repo (CHR ''/'' # requested)))"

section \<open>Properties\<close>

lemma startswith_refl [simp]: "startswith s s"
  by (simp add: startswith_def)

lemma lookup_key_nonempty: "project_id_lookup_key v = Some k \<Longrightarrow> k \<noteq> []"
  by (auto simp: project_id_lookup_key_def normalize_project_id_def casefold_def Let_def split: if_splits)

lemma set_map_filter_iff: "y \<in> set (List.map_filter f xs) \<longleftrightarrow> (\<exists>x \<in> set xs. f x = Some y)"
  by (force simp: List.map_filter_def)

lemma set_scope_keys:
  assumes "project_id_lookup_key v = Some q" "project_id_scope_keys v known = Some keys"
  shows "k \<in> set keys \<longleftrightarrow> k = q \<or> (startswith k q \<and> (\<exists>x \<in> set known. project_id_lookup_key x = Some k))"
proof -
  let ?f = "\<lambda>x. case project_id_lookup_key x of None \<Rightarrow> None | Some key \<Rightarrow> if key \<noteq> [] \<and> startswith key q then Some key else None"
  have f: "?f x = Some k \<longleftrightarrow> project_id_lookup_key x = Some k \<and> startswith k q" for x
    using lookup_key_nonempty[of x] by (cases "project_id_lookup_key x") auto
  have "keys = sorted_set (q # List.map_filter ?f known)"
    using assms by (simp add: project_id_scope_keys_def)
  then show ?thesis by (auto simp: set_map_filter_iff f)
qed

definition candidate_id :: "dict \<Rightarrow> json" where
  "candidate_id candidate = dict_get_default candidate normalized_field (dict_get candidate ''project_id'')"

text \<open>
  C39. One scope, two implementations. For a candidate whose project is registered, the check on
  retrieved payloads accepts it exactly when the key set that the vector store filters on has its
  key; an omitted or blank scope filters nothing in either.
\<close>

theorem project_scope_equivalence:
  assumes "candidate_id candidate \<in> set known"
  shows "matches_project_scope candidate v \<longleftrightarrow>
    (case project_id_scope_keys v known of
       None \<Rightarrow> True
     | Some keys \<Rightarrow> \<exists>k \<in> set keys. project_id_lookup_key (candidate_id candidate) = Some k)"
proof (cases "project_id_lookup_key v")
  case None
  then show ?thesis by (simp add: matches_project_scope_def project_id_scope_keys_def)
next
  case (Some q)
  then obtain keys where keys: "project_id_scope_keys v known = Some keys"
    by (simp add: project_id_scope_keys_def)
  show ?thesis
    using Some keys set_scope_keys[OF Some keys] assms lookup_key_nonempty
    by (auto simp: matches_project_scope_def candidate_id_def split: option.splits)
qed

theorem project_scope_equivalence_witness:
  "matches_project_scope [(''project_id'', JStr ''Bank_Cplus'')] (JStr '' bank '') \<and>
   project_id_scope_keys (JStr '' bank '') [JStr ''Bank_Cplus'', JStr ''shop''] = Some [''bank'', ''bank_cplus'']"
proof -
  have k: "project_id_scope_keys (JStr '' bank '') [JStr ''Bank_Cplus'', JStr ''shop''] = Some [''bank'', ''bank_cplus'']"
    "candidate_id [(''project_id'', JStr ''Bank_Cplus'')] = JStr ''Bank_Cplus''"
    "project_id_lookup_key (JStr ''Bank_Cplus'') = Some ''bank_cplus''" by code_simp+
  then show ?thesis
    using project_scope_equivalence[of "[(''project_id'', JStr ''Bank_Cplus'')]" "[JStr ''Bank_Cplus'', JStr ''shop'']" "JStr '' bank ''"]
    by simp
qed

text \<open>
  The meaning of the Cypher fragment \<open>repo_scope_predicate\<close> for a node whose \<open>repo\<close> is a string or
  absent: comparison with an absent property is not true.
\<close>

definition repo_predicate_holds :: "dict \<Rightarrow> string option \<Rightarrow> bool" where
  "repo_predicate_holds parameters node_repo =
     (dict_get parameters ''repo'' = JStr [] \<or>
      (case (node_repo, dict_get parameters ''repo'', dict_get parameters ''repo_suffix'') of
         (Some r, JStr repo, JStr suffix) \<Rightarrow> r = repo \<or> endswith r suffix
       | _ \<Rightarrow> False))"

text \<open>
  The repository predicate and its Python twin agree. On the parameters that
  \<open>prepare_repo_scope_parameters\<close> binds, the Cypher fragment selects exactly the nodes that
  \<open>matches_repo_scope\<close> accepts for the requested repository.
\<close>

theorem repo_scope_equivalence:
  assumes "''repo'' \<in> fst ` set parameters"
  shows "repo_predicate_holds (prepare_repo_scope_parameters parameters) node_repo \<longleftrightarrow>
    matches_repo_scope (json_opt node_repo) (dict_get parameters ''repo'')"
proof (cases "normalize_project_id (dict_get parameters ''repo'')")
  case None
  then show ?thesis using assms
    by (simp add: repo_predicate_holds_def prepare_repo_scope_parameters_def matches_repo_scope_def dict_get_def)
next
  case (Some r)
  then have "r \<noteq> []" by (auto simp: normalize_project_id_def Let_def split: if_splits)
  then show ?thesis using assms Some
    by (auto simp: repo_predicate_holds_def prepare_repo_scope_parameters_def matches_repo_scope_def
        dict_get_def endswith_def json_opt_def py_str_def Let_def split: option.splits)
qed

theorem repo_scope_equivalence_witness:
  "repo_predicate_holds (prepare_repo_scope_parameters [(''repo'', JStr ''s3'')]) (Some ''acme/s3'') \<and>
   \<not> repo_predicate_holds (prepare_repo_scope_parameters [(''repo'', JStr ''s3'')]) (Some ''xs3'')"
proof -
  have "matches_repo_scope (json_opt (Some ''acme/s3'')) (dict_get [(''repo'', JStr ''s3'')] ''repo'')"
    "\<not> matches_repo_scope (json_opt (Some ''xs3'')) (dict_get [(''repo'', JStr ''s3'')] ''repo'')" by code_simp+
  then show ?thesis using repo_scope_equivalence[of "[(''repo'', JStr ''s3'')]"] by simp
qed

lemma in_keys_iff: "k \<in> fst ` set d \<longleftrightarrow> map_of d k \<noteq> None"
  by (metis map_of_eq_None_iff)

lemma map_of_add_normalized:
  "map_of (add_normalized key d) k =
     (if k = key @ ''_normalized'' \<and> map_of d key \<noteq> None
      then Some (json_opt (project_id_lookup_key (dict_get d key))) else map_of d k)"
  by (auto simp: add_normalized_def in_keys_iff)

lemma fold_add_normalized:
  assumes "key \<in> set ks" "distinct ks" "\<forall>k \<in> set ks. \<forall>k' \<in> set ks. k' \<noteq> k @ ''_normalized''" "map_of d key = Some v"
  shows "map_of (fold add_normalized ks d) (key @ ''_normalized'') = Some (json_opt (project_id_lookup_key v))"
  using assms
proof (induction ks arbitrary: d)
  case (Cons k ks)
  have keep: "map_of (fold add_normalized ks' d') k' = map_of d' k'" if "\<forall>k \<in> set ks'. k' \<noteq> k @ ''_normalized''" for ks' d' k'
    using that by (induction ks' arbitrary: d') (auto simp: map_of_add_normalized)
  show ?case
  proof (cases "k = key")
    case True
    then show ?thesis using Cons.prems keep[of ks "key @ ''_normalized''" "add_normalized key d"]
      by (auto simp: map_of_add_normalized dict_get_def)
  next
    case False
    then show ?thesis
      using Cons.prems Cons.IH[of "add_normalized k d"] by (auto simp: map_of_add_normalized)
  qed
qed simp

text \<open>
  Scope parameters are always bound. Every project parameter of a query gets its normalised
  sibling: the lookup key, or null when the value is blank (the query is then unscoped).
\<close>

theorem scope_parameters_bound:
  assumes "key \<in> set scope_parameter_keys" "key \<in> fst ` set parameters"
  shows "map_of (prepare_project_scope_parameters query parameters) (key @ ''_normalized'') =
    Some (json_opt (project_id_lookup_key (enrich_project_scope (dict_get parameters key))))"
proof -
  let ?d = "scope_dict (map (\<lambda>(k, v). (k, enrich_project_scope v)) parameters)"
  have "key \<noteq> normalized_field" using assms(1) by (auto simp: scope_parameter_keys_def)
  moreover obtain v where v: "map_of parameters key = Some v" using assms(2) by (auto simp: in_keys_iff)
  ultimately have "map_of ?d key = Some (enrich_project_scope v)"
    by (auto simp: scope_dict_def map_of_map split: option.splits)
  then have "map_of (fold add_normalized scope_parameter_keys ?d) (key @ ''_normalized'') =
      Some (json_opt (project_id_lookup_key (enrich_project_scope v)))"
    by (intro fold_add_normalized[OF assms(1)]) (simp_all add: scope_parameter_keys_def)
  then show ?thesis using v by (simp add: prepare_project_scope_parameters_def dict_get_def)
qed

theorem scope_parameters_bound_witness:
  "map_of (prepare_project_scope_parameters [] [(''project_id'', JStr '' '')]) ''project_id_normalized'' = Some JNull"
proof -
  have "project_id_lookup_key (enrich_project_scope (dict_get [(''project_id'', JStr '' '')] ''project_id'')) = None"
    by code_simp
  then show ?thesis
    using scope_parameters_bound[of "''project_id''" "[(''project_id'', JStr '' '')]" "[]"]
    by (simp add: scope_parameter_keys_def json_opt_def)
qed

end
