(* ===== verification/Query_Contract.thy ===== *)
theory Query_Contract
  imports Graph_Schema Journal_Manifest Project_Scope
begin

text \<open>
  \<open>writer/query_contract.py\<close>: relationship rows grouped by the shape of their edge, and the Cypher
  text of a shape. A shape is built from identifiers only, each checked against the identifier
  grammar and, for endpoints, against the identity indexes of \<open>CODE_GRAPH_SCHEMA\<close>; row values
  travel as parameters.
\<close>

section \<open>Typed relationships\<close>

record relationship_group =
  rg_source_label :: string
  rg_target_label :: string
  rg_relationship_type :: string

definition relationship_group_init :: "relationship_group \<Rightarrow> exc + relationship_group" where
  "relationship_group_init g =
     rbind (validate_cypher_identifier (rg_source_label g)) (\<lambda>_.
     rbind (validate_cypher_identifier (rg_target_label g)) (\<lambda>_.
     rbind (validate_cypher_identifier (rg_relationship_type g)) (\<lambda>_.
     rbind (guard (has_identity_index code_graph_schema (rg_source_label g) ''id'') ValueError) (\<lambda>_.
     rbind (guard (has_identity_index code_graph_schema (rg_target_label g) ''id'') ValueError) (\<lambda>_. Inr g)))))"

definition relationship_state_key :: "relationship_group \<Rightarrow> string" where
  "relationship_state_key g =
     ''relations:'' @ rg_source_label g @ '':'' @ rg_relationship_type g @ '':'' @ rg_target_label g"

text \<open>\<open>groups[group].append(row)\<close> on a \<open>defaultdict(list)\<close>.\<close>

fun add_to_group :: "'g \<Rightarrow> 'r \<Rightarrow> ('g \<times> 'r list) list \<Rightarrow> ('g \<times> 'r list) list" where
  "add_to_group g r [] = [(g, [r])]"
| "add_to_group g r ((g', rs) # groups) =
     (if g = g' then (g', rs @ [r]) # groups else (g', rs) # add_to_group g r groups)"

definition scoped_row :: "json \<Rightarrow> string \<Rightarrow> dict \<Rightarrow> dict" where
  "scoped_row pid scope row =
     dict_set ''project_id_normalized'' (JStr scope) (dict_set ''project_id'' (JStr (strip (py_str pid))) row)"

definition typed_relation_row :: "json \<Rightarrow> int \<Rightarrow> dict \<Rightarrow> exc + relationship_group \<times> dict" where
  "typed_relation_row default_project_id position relation =
     rbind (guard (json_truthy (dict_get relation ''source_label'') \<and> json_truthy (dict_get relation ''target_label'') \<and>
        json_truthy (dict_get relation ''rel_type'')) ValueError) (\<lambda>_.
     rbind (guard (json_truthy (dict_get relation ''source_id'') \<and> json_truthy (dict_get relation ''target_id'')) ValueError) (\<lambda>_.
     let property_scope = (case dict_get relation ''properties'' of JObj p \<Rightarrow> dict_get p ''project_id'' | _ \<Rightarrow> JNull);
         pid = json_or (json_or (dict_get relation ''project_id'') property_scope) default_project_id
     in case project_id_lookup_key pid of
          None \<Rightarrow> Inl ValueError
        | Some scope \<Rightarrow>
            rbind (relationship_group_init
              \<lparr>rg_source_label = py_str (dict_get relation ''source_label''),
               rg_target_label = py_str (dict_get relation ''target_label''),
               rg_relationship_type = py_str (dict_get relation ''rel_type'')\<rparr>) (\<lambda>g.
            Inr (g, dict_set ''_contract_row_position'' (JInt position) (scoped_row pid scope relation)))))"

definition group_rows ::
  "(int \<Rightarrow> dict \<Rightarrow> exc + 'g \<times> dict) \<Rightarrow> dict list \<Rightarrow> exc + ('g \<times> dict list) list" where
  "group_rows row_of rows =
     rfold (\<lambda>(position, row) groups. rbind (row_of position row) (\<lambda>(g, r). Inr (add_to_group g r groups)))
       (enumerate_from 0 rows) []"

definition group_typed_relations :: "dict list \<Rightarrow> json \<Rightarrow> exc + (relationship_group \<times> dict list) list" where
  "group_typed_relations relations default_project_id = group_rows (typed_relation_row default_project_id) relations"

text \<open>The endpoint pattern every relationship query opens its two nodes with.\<close>

definition endpoint_pattern :: "string \<Rightarrow> string \<Rightarrow> string \<Rightarrow> string \<Rightarrow> string" where
  "endpoint_pattern var lab prop row_key =
     ''('' @ var @ '':'' @ lab @ '' {'' @ prop @ '': row.'' @ row_key @ '', project_id_normalized: row.project_id_normalized}) ''"

definition compile_relationship_upsert :: "relationship_group \<Rightarrow> string" where
  "compile_relationship_upsert g =
     ''UNWIND $rows AS row MATCH '' @ endpoint_pattern ''a'' (rg_source_label g) ''id'' ''source_id'' @
     ''WITH row, a MATCH '' @ endpoint_pattern ''b'' (rg_target_label g) ''id'' ''target_id'' @
     ''MERGE (a)-[r:'' @ rg_relationship_type g @ '']->(b) '' @
     ''SET r += coalesce(row.properties, {}), r.project_id = row.project_id, '' @
     ''r.project_id_normalized = row.project_id_normalized RETURN count(r) AS count''"

definition endpoint_audit_tail :: string where
  "endpoint_audit_tail =
     ''WITH row, source_matches, count(b) AS target_matches '' @
     ''WHERE source_matches <> 1 OR target_matches <> 1 '' @
     ''RETURN row.source_id AS source_id, row.target_id AS target_id, '' @
     ''row.project_id_normalized AS project_id_normalized, source_matches, target_matches LIMIT 20''"

definition compile_relationship_endpoint_audit :: "relationship_group \<Rightarrow> string" where
  "compile_relationship_endpoint_audit g =
     ''UNWIND $rows AS row OPTIONAL MATCH '' @ endpoint_pattern ''a'' (rg_source_label g) ''id'' ''source_id'' @
     ''WITH row, count(a) AS source_matches OPTIONAL MATCH '' @
     endpoint_pattern ''b'' (rg_target_label g) ''id'' ''target_id'' @ endpoint_audit_tail"

section \<open>Evidence edges\<close>

record evidence_edge_group =
  eg_source_label :: string
  eg_source_property :: string
  eg_target_label :: string
  eg_target_property :: string
  eg_relationship_type :: string
  eg_edge_property :: string

definition evidence_edge_group_init :: "evidence_edge_group \<Rightarrow> exc + evidence_edge_group" where
  "evidence_edge_group_init g =
     rbind (rmap validate_cypher_identifier
       [eg_source_label g, eg_target_label g, eg_relationship_type g, eg_source_property g, eg_target_property g]) (\<lambda>_.
     rbind (if eg_edge_property g \<noteq> [] then validate_cypher_identifier (eg_edge_property g) else Inr []) (\<lambda>_.
     rbind (guard (has_identity_index code_graph_schema (eg_source_label g) (eg_source_property g)) ValueError) (\<lambda>_.
     rbind (guard (has_identity_index code_graph_schema (eg_target_label g) (eg_target_property g)) ValueError) (\<lambda>_. Inr g))))"

definition evidence_state_key :: "evidence_edge_group \<Rightarrow> string" where
  "evidence_state_key g =
     ''call_evidence:edges:'' @ eg_source_label g @ '':'' @ eg_source_property g @ '':'' @ eg_relationship_type g @ '':'' @
     eg_target_label g @ '':'' @ eg_target_property g @
     (if eg_edge_property g \<noteq> [] then CHR '':'' # eg_edge_property g else [])"

definition str_or_empty :: "dict \<Rightarrow> string \<Rightarrow> string" where
  "str_or_empty d k = py_str (json_or (dict_get d k) (JStr []))"

definition evidence_edge_row_fields :: "string list" where
  "evidence_edge_row_fields = [''source_label'', ''source_property'', ''target_label'', ''target_property'', ''rel_type'']"

text \<open>\<open>(row.get("props") or {}).get("project_id")\<close>; a value without \<open>get\<close> raises \<open>AttributeError\<close>.\<close>

definition props_project_id :: "dict \<Rightarrow> exc + json" where
  "props_project_id row =
     (case json_or (dict_get row ''props'') (JObj []) of JObj p \<Rightarrow> Inr (dict_get p ''project_id'') | _ \<Rightarrow> Inl OtherException)"

definition evidence_edge_row :: "int \<Rightarrow> dict \<Rightarrow> exc + evidence_edge_group \<times> dict" where
  "evidence_edge_row position edge =
     rbind (guard (list_all (\<lambda>f. strip (str_or_empty edge f) \<noteq> []) (evidence_edge_row_fields @ [''source_id'', ''target_id'']))
        ValueError) (\<lambda>_.
     rbind (if json_truthy (dict_get edge ''project_id'') then Inr (dict_get edge ''project_id'')
            else props_project_id edge) (\<lambda>pid.
     case project_id_lookup_key pid of
       None \<Rightarrow> Inl ValueError
     | Some scope \<Rightarrow>
         (let row = scoped_row pid scope edge;
              edge_property = str_or_empty edge ''edge_property'';
              edge_id = str_or_empty edge ''edge_id''
          in if edge_property \<noteq> [] \<and> edge_id = [] then Inl ValueError
             else rbind (evidence_edge_group_init
                    \<lparr>eg_source_label = py_str (dict_get edge ''source_label''),
                     eg_source_property = py_str (dict_get edge ''source_property''),
                     eg_target_label = py_str (dict_get edge ''target_label''),
                     eg_target_property = py_str (dict_get edge ''target_property''),
                     eg_relationship_type = py_str (dict_get edge ''rel_type''),
                     eg_edge_property = edge_property\<rparr>) (\<lambda>g.
                  Inr (g, dict_set ''edge_id'' (if edge_id \<noteq> [] then JStr edge_id else dict_get row ''source_id'') row)))))"

definition group_evidence_edges :: "dict list \<Rightarrow> exc + (evidence_edge_group \<times> dict list) list" where
  "group_evidence_edges edges = group_rows evidence_edge_row edges"

definition evidence_edge_pattern :: "evidence_edge_group \<Rightarrow> string" where
  "evidence_edge_pattern g =
     ''-[r:'' @ eg_relationship_type g @
     (if eg_edge_property g \<noteq> [] then '' {'' @ eg_edge_property g @ '': row.edge_id}'' else []) @ '']->''"

definition compile_evidence_edge_upsert :: "evidence_edge_group \<Rightarrow> string" where
  "compile_evidence_edge_upsert g =
     ''UNWIND $rows AS row MATCH '' @ endpoint_pattern ''a'' (eg_source_label g) (eg_source_property g) ''source_id'' @
     ''WITH row, a MATCH '' @ endpoint_pattern ''b'' (eg_target_label g) (eg_target_property g) ''target_id'' @
     ''MERGE (a)'' @ evidence_edge_pattern g @ ''(b) '' @
     ''SET r += coalesce(row.props, {}), r.project_id = row.project_id, r.updated_at = datetime() '' @
     ''RETURN count(r) AS count''"

text \<open>
  In the readback the edge pattern follows the source pattern after a blank, which Cypher ignores.
\<close>

definition compile_evidence_edge_readback :: "evidence_edge_group \<Rightarrow> string" where
  "compile_evidence_edge_readback g =
     ''UNWIND $rows AS row OPTIONAL MATCH '' @
     endpoint_pattern ''a'' (eg_source_label g) (eg_source_property g) ''source_id'' @ evidence_edge_pattern g @
     endpoint_pattern ''b'' (eg_target_label g) (eg_target_property g) ''target_id'' @ ''RETURN count(r) AS count''"

definition compile_evidence_endpoint_audit :: "evidence_edge_group \<Rightarrow> string" where
  "compile_evidence_endpoint_audit g =
     ''UNWIND $rows AS row OPTIONAL MATCH '' @
     endpoint_pattern ''a'' (eg_source_label g) (eg_source_property g) ''source_id'' @
     ''WITH row, count(a) AS source_matches OPTIONAL MATCH '' @
     endpoint_pattern ''b'' (eg_target_label g) (eg_target_property g) ''target_id'' @ endpoint_audit_tail"

section \<open>Grouping is a partition in input order\<close>

lemma map_of_add_to_group:
  "map_of (add_to_group g r groups) k =
     (if k = g then Some ((case map_of groups g of None \<Rightarrow> [] | Some rs \<Rightarrow> rs) @ [r]) else map_of groups k)"
  by (induction g r groups rule: add_to_group.induct) auto

lemma fst_set_add_to_group: "fst ` set (add_to_group g r groups) = insert g (fst ` set groups)"
  by (induction g r groups rule: add_to_group.induct) auto

lemma distinct_add_to_group: "distinct (map fst groups) \<Longrightarrow> distinct (map fst (add_to_group g r groups))"
proof (induction g r groups rule: add_to_group.induct)
  case (2 g r g' rs groups)
  then show ?case using fst_set_add_to_group[of g r groups] by auto
qed simp

abbreviation collect_groups :: "('g \<times> 'r) list \<Rightarrow> ('g \<times> 'r list) list \<Rightarrow> ('g \<times> 'r list) list" where
  "collect_groups ps groups \<equiv> foldl (\<lambda>gs p. add_to_group (fst p) (snd p) gs) groups ps"

lemma distinct_collect_groups: "distinct (map fst groups) \<Longrightarrow> distinct (map fst (collect_groups ps groups))"
  by (induction ps arbitrary: groups) (auto simp: distinct_add_to_group)

lemma map_of_collect_groups:
  "map_of (collect_groups ps groups) g =
     (let rs = (case map_of groups g of None \<Rightarrow> [] | Some rs \<Rightarrow> rs) @ map snd (filter (\<lambda>p. fst p = g) ps)
      in if map_of groups g = None \<and> filter (\<lambda>p. fst p = g) ps = [] then None else Some rs)"
  by (induction ps arbitrary: groups) (auto simp: map_of_add_to_group Let_def split: option.splits)

lemma rfold_groups:
  "rfold (\<lambda>(position, row) groups. rbind (f position row) (\<lambda>(g, r). Inr (add_to_group g r groups))) xs groups =
     rbind (rmap (\<lambda>(position, row). f position row) xs) (\<lambda>ps. Inr (collect_groups ps groups))"
proof (induction xs arbitrary: groups)
  case (Cons x xs)
  then show ?case by (cases x; cases "f (fst x) (snd x)") (auto simp: rbind_def split: sum.splits)
qed simp

lemma rmap_enumerate_nth:
  assumes "rmap (\<lambda>(position, row). f position row) (enumerate_from n rows) = Inr ps"
  shows "length ps = length rows \<and> (\<forall>i < length rows. f (n + int i) (rows ! i) = Inr (ps ! i))"
  using assms
proof (induction rows arbitrary: n ps)
  case (Cons row rows)
  then obtain p ps' where p: "f n row = Inr p" "rmap (\<lambda>(position, row). f position row) (enumerate_from (n + 1) rows) = Inr ps'"
    "ps = p # ps'" by (auto simp: rbind_Inr_iff)
  have "f (n + int i) ((row # rows) ! i) = Inr ((p # ps') ! i)" if "i < length (row # rows)" for i
    using that p(1) Cons.IH[OF p(2)] by (cases i) (auto simp: algebra_simps)
  then show ?case using Cons.IH[OF p(2)] p(3) by auto
qed simp

text \<open>
  \<open>groups\<close> is the partition of \<open>rows\<close> by \<open>row_of\<close>: every row is mapped, the keys are distinct,
  and a key has exactly its rows, in input order.
\<close>

definition partitions :: "(int \<Rightarrow> dict \<Rightarrow> exc + 'g \<times> dict) \<Rightarrow> dict list \<Rightarrow> ('g \<times> dict list) list \<Rightarrow> bool" where
  "partitions row_of rows groups \<longleftrightarrow>
     (\<exists>ps. length ps = length rows \<and> (\<forall>i < length rows. row_of (int i) (rows ! i) = Inr (ps ! i)) \<and>
        distinct (map fst groups) \<and>
        (\<forall>g. map_of groups g = (if g \<in> fst ` set ps then Some (map snd (filter (\<lambda>p. fst p = g) ps)) else None)))"

lemma group_rows_partition:
  assumes "group_rows f rows = Inr groups"
  shows "partitions f rows groups"
proof -
  obtain ps where ps: "rmap (\<lambda>(position, row). f position row) (enumerate_from 0 rows) = Inr ps"
    "groups = collect_groups ps []"
    using assms by (auto simp: group_rows_def rfold_groups rbind_Inr_iff)
  have "map_of groups g = (if g \<in> fst ` set ps then Some (map snd (filter (\<lambda>p. fst p = g) ps)) else None)" for g
    unfolding ps(2) map_of_collect_groups by (auto simp: filter_empty_conv Let_def image_iff)
  then show ?thesis unfolding partitions_def
    using rmap_enumerate_nth[OF ps(1)] distinct_collect_groups[of "[]" ps] ps(2) by (intro exI[of _ ps]) simp
qed

lemma group_rows_single:
  assumes "group_rows f rows = Inr [(g, rs)]"
  shows "length rs = length rows \<and> (\<forall>i < length rows. f (int i) (rows ! i) = Inr (g, rs ! i))"
proof -
  obtain ps where ps: "length ps = length rows" "\<forall>i < length rows. f (int i) (rows ! i) = Inr (ps ! i)"
    "\<And>g'. map_of [(g, rs)] g' = (if g' \<in> fst ` set ps then Some (map snd (filter (\<lambda>p. fst p = g') ps)) else None)"
    using group_rows_partition[OF assms] unfolding partitions_def by blast
  have one: "fst p = g" if "p \<in> set ps" for p using ps(3)[of "fst p"] that by (auto split: if_splits)
  then have all: "filter (\<lambda>p. fst p = g) ps = ps" by (simp add: filter_id_conv)
  have "rs = map snd ps" using ps(3)[of g] all by (auto split: if_splits)
  moreover have "ps ! i = (g, snd (ps ! i))" if "i < length rows" for i
    using one[of "ps ! i"] that ps(1) by (simp add: prod_eq_iff)
  ultimately show ?thesis using ps(1,2) by auto
qed

text \<open>
  Grouping loses nothing. When the rows of a relationship batch are grouped, every row got its
  shape and its scope, the shapes are distinct, and the group of a shape has exactly the rows of
  that shape in input order; the same holds for evidence edges.
\<close>

theorem grouping_partition:
  "(group_typed_relations rows pid = Inr groups \<longrightarrow> partitions (typed_relation_row pid) rows groups) \<and>
   (group_evidence_edges rows = Inr egroups \<longrightarrow> partitions evidence_edge_row rows egroups)"
  unfolding group_typed_relations_def group_evidence_edges_def
  using group_rows_partition[of "typed_relation_row pid"] group_rows_partition[of evidence_edge_row] by blast

definition sample_relation :: "string \<Rightarrow> string \<Rightarrow> dict" where
  "sample_relation rel target =
     [(''source_label'', JStr ''File''), (''target_label'', JStr ''Function''), (''rel_type'', JStr rel),
      (''source_id'', JStr ''f''), (''target_id'', JStr target), (''project_id'', JStr '' P '')]"

lemmas contract_row_simps =
  dict_get_def json_or_def json_truthy_def py_str_def validate_cypher_identifier_def cypher_identifier_def
  word_start_def word_char_def is_digit_def has_identity_index_code_graph indexed_pairs_def code_graph_labels_def
  project_id_lookup_key_def normalize_project_id_def strip_simps guard_def Let_def

theorem grouping_partition_witness:
  "\<exists>groups. group_typed_relations [sample_relation ''HAS'' ''a'', sample_relation ''USES'' ''b'', sample_relation ''HAS'' ''c''] JNull =
       Inr groups \<and> map (length \<circ> snd) groups = [2, 1] \<and>
     partitions (typed_relation_row JNull)
       [sample_relation ''HAS'' ''a'', sample_relation ''USES'' ''b'', sample_relation ''HAS'' ''c''] groups"
proof -
  let ?rows = "[sample_relation ''HAS'' ''a'', sample_relation ''USES'' ''b'', sample_relation ''HAS'' ''c'']"
  have "case group_typed_relations ?rows JNull of Inr groups \<Rightarrow> map (length \<circ> snd) groups = [2, 1] | Inl _ \<Rightarrow> False"
    by (simp add: group_typed_relations_def group_rows_def typed_relation_row_def sample_relation_def
        relationship_group_init_def contract_row_simps)
  then obtain groups where r: "group_typed_relations ?rows JNull = Inr groups" "map (length \<circ> snd) groups = [2, 1]"
    by (auto split: sum.splits)
  show ?thesis
    by (intro exI[of _ groups] conjI r) (rule grouping_partition[THEN conjunct1, THEN mp, OF r(1)])
qed

end
