(* ===== verification/Journal_Compile.thy ===== *)
theory Journal_Compile
  imports Query_Contract
begin

text \<open>
  \<open>journal/executor.py\<close> and \<open>journal/reconcile.py\<close>: the only way from a persisted descriptor and
  its payload to Cypher. \<open>compile_persisted_mutation\<close> gives the mutation,
  \<open>compile_reconciliation_readback\<close> the query that decides an ambiguous write, and
  \<open>compile_endpoint_audit\<close> the read-only check of edge endpoints. Each returns the text and its
  parameters.
\<close>

type_synonym cypher = "string \<times> dict"

definition rows_parameter :: "dict list \<Rightarrow> dict" where
  "rows_parameter rows = [(''rows'', JArr (map JObj rows))]"

definition given :: "string option \<Rightarrow> bool" where
  "given s \<longleftrightarrow> s \<noteq> None \<and> s \<noteq> Some []"

section \<open>Mutations\<close>

definition unsupported_operation :: exc where
  "unsupported_operation = JournalError InvalidContract"

definition compile_node_mutation :: "graph_write_operation \<Rightarrow> dict list \<Rightarrow> exc + cypher" where
  "compile_node_mutation g rows =
     (if \<not> given (node_label g) \<or> \<not> given (identity_property g) then Inl unsupported_operation
      else
        rbind (validate_cypher_identifier (the (node_label g))) (\<lambda>_.
        rbind (validate_cypher_identifier (the (identity_property g))) (\<lambda>_.
        rbind (validate_cypher_identifier (row_identity_property g)) (\<lambda>_.
        rbind (if given (row_properties_property g) then validate_cypher_identifier (the (row_properties_property g)) else Inr []) (\<lambda>_.
        Inr (''UNWIND $rows AS row '' @ (if mutation_kind g = ''merge'' then ''MERGE'' else ''MATCH'') @
               '' (n:'' @ the (node_label g) @ '' {'' @ the (identity_property g) @ '': row.'' @ row_identity_property g @ ''}) '' @
               ''SET n += '' @
               (if given (row_properties_property g) then ''coalesce(row.'' @ the (row_properties_property g) @ '', {})'' else ''row'') @
               '', n.updated_at = datetime() RETURN count(n) AS count'',
             rows_parameter rows))))))"

text \<open>An edge batch must have one shape.\<close>

definition single_group :: "exc \<Rightarrow> exc + ('g \<times> dict list) list \<Rightarrow> exc + 'g \<times> dict list" where
  "single_group err groups =
     rbind groups (\<lambda>gs. case gs of [(g, rows)] \<Rightarrow> Inr (g, rows) | _ \<Rightarrow> Inl err)"

definition call_match :: string where
  "call_match =
     ''UNWIND $rows AS row MATCH '' @ endpoint_pattern ''caller'' ''Function'' ''id'' ''caller_id'' @
     ''MATCH '' @ endpoint_pattern ''callee'' ''Function'' ''id'' ''callee_id''"

definition repository_file_mutation :: string where
  "repository_file_mutation =
     ''UNWIND $rows AS row MATCH '' @ endpoint_pattern ''repository'' ''Repository'' ''name'' ''repo'' @
     ''MATCH '' @ endpoint_pattern ''file'' ''File'' ''id'' ''id'' @
     ''MERGE (repository)-[edge:HAS_FILE]->(file) RETURN count(edge) AS count''"

definition call_edge_mutation :: string where
  "call_edge_mutation =
     call_match @ ''MERGE (caller)-[edge:CALLS]->(callee) '' @
     ''SET edge.count = row.count, edge.call_type = row.call_type, edge.project_id = row.project_id, '' @
     ''edge.project_id_normalized = row.project_id_normalized, edge.updated_at = datetime() '' @
     ''RETURN count(edge) AS count''"

definition call_site_mutation :: "string \<Rightarrow> string" where
  "call_site_mutation rel =
     call_match @ ''MERGE (caller)-[edge:'' @ rel @ '' {site_id: row.site_id}]->(callee) '' @
     ''SET edge += coalesce(row.props, {}) RETURN count(edge) AS count''"

definition empty_text :: string where
  "empty_text = [CHR 39, CHR 39]"

definition file_cleanup_mutation :: "string \<Rightarrow> string" where
  "file_cleanup_mutation lab =
     ''UNWIND $rows AS row OPTIONAL MATCH (n:'' @ lab @ '') WHERE n.project_id = row.project_id '' @
     ''AND (coalesce(n.file_path, '' @ empty_text @ '') IN row.paths OR coalesce(n.path, '' @ empty_text @
     '') IN row.paths OR (n:File AND n.id IN row.paths)) WITH row, collect(DISTINCT n) AS nodes '' @
     ''FOREACH (node IN nodes | DETACH DELETE node) RETURN count(*) AS count''"

definition orphan_cleanup_mutation :: string where
  "orphan_cleanup_mutation =
     ''UNWIND $rows AS row OPTIONAL MATCH (u:UnknownFunction) WHERE u.project_id = row.project_id '' @
     ''AND NOT ()-[:UNKNOWN_CALL]->(u) WITH row, collect(u) AS nodes '' @
     ''FOREACH (node IN nodes | DETACH DELETE node) RETURN count(*) AS count''"

definition compile_persisted_mutation :: "graph_write_operation \<Rightarrow> dict list \<Rightarrow> exc + cypher" where
  "compile_persisted_mutation g rows =
     (let r = reconciliation g in
      if r = ''node_identity'' then compile_node_mutation g rows
      else if r = ''typed_relationship'' then
        rbind (single_group (JournalError InvalidContract) (group_typed_relations rows JNull)) (\<lambda>(grp, grouped).
        Inr (compile_relationship_upsert grp, rows_parameter grouped))
      else if r = ''evidence_edge'' then
        rbind (single_group (JournalError InvalidContract) (group_evidence_edges rows)) (\<lambda>(grp, grouped).
        Inr (compile_evidence_edge_upsert grp, rows_parameter grouped))
      else if r = ''repository_file'' then Inr (repository_file_mutation, rows_parameter rows)
      else if r = ''call_edge'' then Inr (call_edge_mutation, rows_parameter rows)
      else if r = ''call_site'' then Inr (call_site_mutation ''CALLS'', rows_parameter rows)
      else if r = ''possible_call_site'' then Inr (call_site_mutation ''POSSIBLE_CALLS'', rows_parameter rows)
      else if r = ''file_cleanup'' then
        if version g \<noteq> 2 \<or> \<not> given (node_label g) then Inl unsupported_operation
        else rbind (validate_cypher_identifier (the (node_label g))) (\<lambda>lab.
             Inr (file_cleanup_mutation lab, rows_parameter rows))
      else if r = ''orphan_unknown_cleanup'' then
        if version g \<noteq> 2 then Inl unsupported_operation else Inr (orphan_cleanup_mutation, rows_parameter rows)
      else Inl unsupported_operation)"

text \<open>
  \<open>int(records[0].get("count", 0)) if records else 0\<close>; \<open>readback_count\<close> of \<open>reconcile.py\<close> is the
  same expression.
\<close>

definition result_count :: "dict list \<Rightarrow> exc + int" where
  "result_count records = (case records of [] \<Rightarrow> Inr 0 | r # _ \<Rightarrow> py_int (dict_get_default r ''count'' (JInt 0)))"

definition readback_count :: "dict list \<Rightarrow> exc + int" where
  "readback_count records = (case records of [] \<Rightarrow> Inr 0 | r # _ \<Rightarrow> py_int (dict_get_default r ''count'' (JInt 0)))"

section \<open>Endpoint audits\<close>

definition function_audit_tail :: string where
  "function_audit_tail =
     ''WITH row, source_matches, count(b) AS target_matches WHERE source_matches <> 1 OR target_matches <> 1 ''"

definition repository_file_audit :: string where
  "repository_file_audit =
     ''UNWIND $rows AS row OPTIONAL MATCH '' @ endpoint_pattern ''a'' ''Repository'' ''name'' ''repo'' @
     ''WITH row, count(a) AS source_matches OPTIONAL MATCH '' @ endpoint_pattern ''b'' ''File'' ''id'' ''id'' @
     function_audit_tail @
     ''RETURN row.repo AS source_id, row.id AS target_id, source_matches, target_matches LIMIT 20''"

definition call_audit :: string where
  "call_audit =
     ''UNWIND $rows AS row OPTIONAL MATCH '' @ endpoint_pattern ''a'' ''Function'' ''id'' ''caller_id'' @
     ''WITH row, count(a) AS source_matches OPTIONAL MATCH '' @ endpoint_pattern ''b'' ''Function'' ''id'' ''callee_id'' @
     function_audit_tail @
     ''RETURN row.caller_id AS source_id, row.callee_id AS target_id, source_matches, target_matches LIMIT 20''"

definition compile_endpoint_audit :: "graph_write_operation \<Rightarrow> dict list \<Rightarrow> exc + cypher option" where
  "compile_endpoint_audit g rows =
     (let r = reconciliation g in
      if r = ''typed_relationship'' then
        rbind (single_group ValueError (group_typed_relations rows JNull)) (\<lambda>(grp, grouped).
        Inr (Some (compile_relationship_endpoint_audit grp, rows_parameter grouped)))
      else if r = ''repository_file'' then Inr (Some (repository_file_audit, rows_parameter rows))
      else if r \<in> {''call_edge'', ''call_site'', ''possible_call_site''} then Inr (Some (call_audit, rows_parameter rows))
      else if r = ''evidence_edge'' then
        rbind (single_group ValueError (group_evidence_edges rows)) (\<lambda>(grp, grouped).
        Inr (Some (compile_evidence_endpoint_audit grp, rows_parameter grouped)))
      else if op_phase g \<in> {PhaseRelationships, PhaseCalls} then Inl ValueError
      else Inr None)"

section \<open>Readbacks\<close>

text \<open>
  With a job id the readback looks for the receipt of exactly this job, operation, count, payload,
  run and generation; without one it counts the effects themselves.
\<close>

definition receipt_readback :: "graph_write_operation \<Rightarrow> nat \<Rightarrow> string \<Rightarrow> string \<Rightarrow> string \<Rightarrow> string \<Rightarrow> cypher" where
  "receipt_readback g count job sha rid gen =
     (''MATCH (receipt:GraphWriteReceipt {id: $job_id}) WHERE receipt.operation_key = $operation_key '' @
      ''AND receipt.row_count = $expected_count AND receipt.artifact_sha256 = $artifact_sha256 '' @
      ''AND receipt.run_id = $run_id AND receipt.generation = $generation RETURN count(receipt) AS count'',
      [(''job_id'', JStr job), (''operation_key'', JStr (operation_key g)), (''expected_count'', JInt (int count)),
       (''artifact_sha256'', JStr sha), (''run_id'', JStr rid), (''generation'', JStr gen)])"

definition effect_readback :: "graph_write_operation \<Rightarrow> dict list \<Rightarrow> exc + cypher option" where
  "effect_readback g rows =
     (let r = reconciliation g in
      if r = ''node_identity'' then
        if given (node_label g) \<and> given (identity_property g) then
          Inr (Some (''UNWIND $rows AS row OPTIONAL MATCH (n:'' @ the (node_label g) @ '' {'' @ the (identity_property g) @
            '': row.'' @ row_identity_property g @ ''}) RETURN count(n) AS count'', rows_parameter rows))
        else Inl AssertionError
      else if r = ''typed_relationship'' then
        rbind (single_group ValueError (group_typed_relations rows JNull)) (\<lambda>(grp, _).
        Inr (Some (''UNWIND $rows AS row OPTIONAL MATCH (a:'' @ rg_source_label grp @ '' {id: row.source_id})-[r:'' @
          rg_relationship_type grp @ '']->(b:'' @ rg_target_label grp @ '' {id: row.target_id}) RETURN count(r) AS count'',
          rows_parameter rows)))
      else if r = ''evidence_edge'' then
        rbind (single_group ValueError (group_evidence_edges rows)) (\<lambda>(grp, _).
        Inr (Some (compile_evidence_edge_readback grp, rows_parameter rows)))
      else if r = ''repository_file'' then
        Inr (Some (''UNWIND $rows AS row OPTIONAL MATCH (r:Repository {name: row.repo, '' @
          ''project_id_normalized: row.project_id_normalized})-[edge:HAS_FILE]->(f:File {id: row.id, '' @
          ''project_id_normalized: row.project_id_normalized}) RETURN count(edge) AS count'', rows_parameter rows))
      else if r = ''call_edge'' then
        Inr (Some (''UNWIND $rows AS row OPTIONAL MATCH (caller:Function {id: row.caller_id, '' @
          ''project_id_normalized: row.project_id_normalized})-[r:CALLS]->(callee:Function {id: row.callee_id, '' @
          ''project_id_normalized: row.project_id_normalized}) WHERE r.count = row.count AND r.call_type = row.call_type '' @
          ''RETURN count(r) AS count'', rows_parameter rows))
      else if r = ''call_site'' then
        Inr (Some (''UNWIND $rows AS row OPTIONAL MATCH (caller:Function {id: row.caller_id, '' @
          ''project_id_normalized: row.project_id_normalized})-[r:CALLS {site_id: row.site_id}]->'' @
          ''(callee:Function {id: row.callee_id, project_id_normalized: row.project_id_normalized}) '' @
          ''RETURN count(r) AS count'', rows_parameter rows))
      else Inr None)"

definition compile_reconciliation_readback ::
  "graph_write_operation \<Rightarrow> dict list \<Rightarrow> string option \<Rightarrow> string \<Rightarrow> string \<Rightarrow> string \<Rightarrow> exc + cypher option" where
  "compile_reconciliation_readback g rows job sha rid gen =
     (if given job then Inr (Some (receipt_readback g (length rows) (the job) sha rid gen)) else effect_readback g rows)"

section \<open>Words of a query\<close>

text \<open>
  The maximal runs of word characters of a text: what \<open>\b\<close> delimits in the regular expressions of
  the guard.
\<close>

fun words_from :: "string \<Rightarrow> string \<Rightarrow> string list" where
  "words_from acc [] = (if acc = [] then [] else [acc])"
| "words_from acc (c # s) =
     (if word_char c then words_from (acc @ [c]) s
      else (if acc = [] then [] else [acc]) @ words_from [] s)"

definition words :: "string \<Rightarrow> string list" where
  "words s = words_from [] s"

lemma words_from_word [simp]: "list_all word_char w \<Longrightarrow> words_from acc (w @ s) = words_from (acc @ w) s"
  by (induction w arbitrary: acc) auto

lemma cypher_identifier_word_chars: "cypher_identifier s \<Longrightarrow> list_all word_char s"
  by (cases s) (auto simp: cypher_identifier_def word_char_def)

lemma words_from_identifier [simp]: "cypher_identifier w \<Longrightarrow> words_from acc (w @ s) = words_from (acc @ w) s"
  by (simp add: cypher_identifier_word_chars)

lemma words_from_split: "\<not> word_char c \<Longrightarrow> words_from acc (s @ c # t) = words_from acc (s @ [c]) @ words_from [] t"
  by (induction s arbitrary: acc) auto

definition mutation_keywords :: "string list" where
  "mutation_keywords = [''create'', ''delete'', ''detach'', ''drop'', ''merge'', ''remove'', ''set'']"

definition mutation_word :: "string \<Rightarrow> bool" where
  "mutation_word w \<longleftrightarrow> casefold w \<in> set mutation_keywords"

lemmas words_eval = words_def word_class_bits

lemma cypher_identifier_Nil [simp]: "\<not> cypher_identifier []"
  by (simp add: cypher_identifier_def)

lemma cypher_identifier_nonempty [simp]: "cypher_identifier s \<Longrightarrow> s \<noteq> []"
  by auto

text \<open>Every word the compilers write themselves, and the characters between words.\<close>

definition cypher_vocabulary :: "string list" where
  "cypher_vocabulary =
     [''UNWIND'', ''rows'', ''AS'', ''row'', ''OPTIONAL'', ''MATCH'', ''MERGE'', ''SET'', ''WITH'', ''WHERE'', ''RETURN'',
      ''AND'', ''OR'', ''NOT'', ''IN'', ''DISTINCT'', ''FOREACH'', ''DETACH'', ''DELETE'', ''count'', ''coalesce'', ''collect'',
      ''datetime'', ''a'', ''b'', ''n'', ''r'', ''u'', ''edge'', ''node'', ''nodes'', ''caller'', ''callee'', ''repository'', ''file'',
      ''id'', ''name'', ''repo'', ''source_id'', ''target_id'', ''caller_id'', ''callee_id'', ''site_id'', ''edge_id'', ''props'',
      ''properties'', ''paths'', ''path'', ''file_path'', ''project_id'', ''project_id_normalized'', ''updated_at'', ''call_type'',
      ''Function'', ''Repository'', ''File'', ''UnknownFunction'', ''HAS_FILE'', ''CALLS'', ''POSSIBLE_CALLS'', ''UNKNOWN_CALL'']"

definition query_char :: "char \<Rightarrow> bool" where
  "query_char c \<longleftrightarrow> word_char c \<or> c \<in> set '' $(){}[]:,.+-<>=*|'' \<or> c = CHR 39"

definition trusted_text :: "string list \<Rightarrow> string \<Rightarrow> bool" where
  "trusted_text ids q \<longleftrightarrow> list_all query_char q \<and> set (words q) \<subseteq> set cypher_vocabulary \<union> set ids"

text \<open>The identifiers a descriptor, or the shape of an edge row, contributes to the text.\<close>

definition node_identifiers :: "graph_write_operation \<Rightarrow> string list" where
  "node_identifiers g =
     [the (node_label g), the (identity_property g), row_identity_property g] @
     (if given (row_properties_property g) then [the (row_properties_property g)] else [])"

definition shape_identifiers :: "graph_write_operation \<Rightarrow> dict \<Rightarrow> string list" where
  "shape_identifiers g row =
     (if reconciliation g = ''typed_relationship''
      then map (\<lambda>k. py_str (dict_get row k)) [''source_label'', ''target_label'', ''rel_type'']
      else if reconciliation g = ''evidence_edge''
      then map (\<lambda>k. py_str (dict_get row k)) [''source_label'', ''source_property'', ''target_label'', ''target_property'', ''rel_type''] @
           (if str_or_empty row ''edge_property'' \<noteq> [] then [str_or_empty row ''edge_property''] else [])
      else [])"

lemma query_char_word [simp]: "cypher_identifier s \<Longrightarrow> list_all query_char s"
  using cypher_identifier_word_chars by (auto simp: list_all_iff query_char_def)

lemma query_char_Char:
  "query_char (Char b0 b1 b2 b3 b4 b5 b6 b7) \<longleftrightarrow>
     word_char (Char b0 b1 b2 b3 b4 b5 b6 b7) \<or> Char b0 b1 b2 b3 b4 b5 b6 b7 \<in> set '' $(){}[]:,.+-<>=*|'' \<or>
     Char b0 b1 b2 b3 b4 b5 b6 b7 = CHR 39"
  by (simp add: query_char_def)

lemmas text_eval = trusted_text_def words_eval query_char_Char cypher_vocabulary_def endpoint_pattern_def

lemma trusted_constants:
  "trusted_text [] repository_file_mutation" "trusted_text [] call_edge_mutation"
  "trusted_text [] (call_site_mutation ''CALLS'')" "trusted_text [] (call_site_mutation ''POSSIBLE_CALLS'')"
  "trusted_text [] orphan_cleanup_mutation"
  by code_simp+

lemma trusted_cleanup: "cypher_identifier lab \<Longrightarrow> trusted_text [lab] (file_cleanup_mutation lab)"
  by (simp add: text_eval file_cleanup_mutation_def empty_text_def)

lemma trusted_relationship_upsert:
  assumes "cypher_identifier (rg_source_label g)" "cypher_identifier (rg_target_label g)" "cypher_identifier (rg_relationship_type g)"
  shows "trusted_text [rg_source_label g, rg_target_label g, rg_relationship_type g] (compile_relationship_upsert g)"
  using assms by (simp add: text_eval compile_relationship_upsert_def)

lemma trusted_evidence_upsert:
  assumes "cypher_identifier (eg_source_label g)" "cypher_identifier (eg_source_property g)"
    "cypher_identifier (eg_target_label g)" "cypher_identifier (eg_target_property g)" "cypher_identifier (eg_relationship_type g)"
    "eg_edge_property g = [] \<or> cypher_identifier (eg_edge_property g)"
  shows "trusted_text ([eg_source_label g, eg_source_property g, eg_target_label g, eg_target_property g, eg_relationship_type g] @
      (if eg_edge_property g \<noteq> [] then [eg_edge_property g] else [])) (compile_evidence_edge_upsert g)"
proof (cases "eg_edge_property g = []")
  case True
  then show ?thesis using assms by (simp add: text_eval compile_evidence_edge_upsert_def evidence_edge_pattern_def)
next
  case False
  then show ?thesis using assms by (simp add: text_eval compile_evidence_edge_upsert_def evidence_edge_pattern_def)
qed

lemma node_mutation_trusted:
  assumes "compile_node_mutation g rows = Inr (q, ps)"
  shows "trusted_text (node_identifiers g) q \<and> list_all cypher_identifier (node_identifiers g) \<and> ps = rows_parameter rows"
proof -
  have ids: "list_all cypher_identifier (node_identifiers g)"
    using assms by (auto simp: compile_node_mutation_def node_identifiers_def rbind_Inr_iff split: if_splits)
  then have "trusted_text (node_identifiers g) q"
    using assms
    by (cases "given (row_properties_property g)")
      (auto simp: compile_node_mutation_def node_identifiers_def rbind_Inr_iff text_eval split: if_splits)
  then show ?thesis
    using ids assms by (auto simp: compile_node_mutation_def rbind_Inr_iff split: if_splits)
qed

section \<open>What compilation guarantees\<close>

definition scope_fields :: "string list" where
  "scope_fields = [''project_id'', ''project_id_normalized'', ''_contract_row_position'', ''edge_id'']"

text \<open>A row as bound: the submitted row, with the scope columns filled in.\<close>

definition scope_extends :: "dict \<Rightarrow> dict \<Rightarrow> bool" where
  "scope_extends row row' \<longleftrightarrow> (\<forall>k. k \<notin> set scope_fields \<longrightarrow> map_of row' k = map_of row k)"

lemma scope_extends_refl [simp]: "scope_extends row row"
  by (simp add: scope_extends_def)

lemma list_all2_scope_refl [simp]: "list_all2 scope_extends rows rows"
  by (simp add: list_all2_same)

lemma typed_relation_row_Inr:
  assumes "typed_relation_row pid i row = Inr (g, row')" "reconciliation op = ''typed_relationship''"
  shows "shape_identifiers op row = [rg_source_label g, rg_target_label g, rg_relationship_type g]"
    "list_all cypher_identifier (shape_identifiers op row)" "scope_extends row row'"
  using assms
  by (auto simp: typed_relation_row_def relationship_group_init_def shape_identifiers_def rbind_Inr_iff scope_extends_def
      scope_fields_def scoped_row_def Let_def split: option.splits)

definition evidence_shape :: "dict \<Rightarrow> evidence_edge_group" where
  "evidence_shape edge =
     \<lparr>eg_source_label = py_str (dict_get edge ''source_label''), eg_source_property = py_str (dict_get edge ''source_property''),
      eg_target_label = py_str (dict_get edge ''target_label''), eg_target_property = py_str (dict_get edge ''target_property''),
      eg_relationship_type = py_str (dict_get edge ''rel_type''), eg_edge_property = str_or_empty edge ''edge_property''\<rparr>"

lemma evidence_edge_row_shape:
  assumes "evidence_edge_row i row = Inr (g, row')"
  shows "evidence_edge_group_init (evidence_shape row) = Inr g \<and>
    (\<exists>pid scope v. row' = dict_set ''edge_id'' v (scoped_row pid scope row))"
proof -
  obtain pid scope v where "evidence_edge_group_init (evidence_shape row) = Inr g" "row' = dict_set ''edge_id'' v (scoped_row pid scope row)"
    using assms unfolding evidence_edge_row_def rbind_Inr_iff Let_def evidence_shape_def
    by (auto split: option.splits if_split_asm simp: rbind_Inr_iff)
  then show ?thesis by blast
qed

lemma evidence_edge_group_init_Inr:
  assumes "evidence_edge_group_init g = Inr g'"
  shows "g' = g" "cypher_identifier (eg_source_label g)" "cypher_identifier (eg_source_property g)"
    "cypher_identifier (eg_target_label g)" "cypher_identifier (eg_target_property g)" "cypher_identifier (eg_relationship_type g)"
    "eg_edge_property g = [] \<or> cypher_identifier (eg_edge_property g)"
  using assms by (auto simp: evidence_edge_group_init_def rbind_Inr_iff split: if_splits)

lemma evidence_edge_row_Inr:
  assumes "evidence_edge_row i row = Inr (g, row')" "reconciliation op = ''evidence_edge''"
  shows "shape_identifiers op row =
      [eg_source_label g, eg_source_property g, eg_target_label g, eg_target_property g, eg_relationship_type g] @
      (if eg_edge_property g \<noteq> [] then [eg_edge_property g] else [])"
    "list_all cypher_identifier (shape_identifiers op row)" "scope_extends row row'"
proof -
  have shape: "evidence_edge_group_init (evidence_shape row) = Inr g" using evidence_edge_row_shape[OF assms(1)] by blast
  note ids = evidence_edge_group_init_Inr[OF shape]
  show ids': "shape_identifiers op row =
      [eg_source_label g, eg_source_property g, eg_target_label g, eg_target_property g, eg_relationship_type g] @
      (if eg_edge_property g \<noteq> [] then [eg_edge_property g] else [])"
    using ids(1) assms(2) by (simp add: shape_identifiers_def evidence_shape_def)
  show "list_all cypher_identifier (shape_identifiers op row)" unfolding ids' using ids by auto
  show "scope_extends row row'"
    using evidence_edge_row_shape[OF assms(1)] by (auto simp: scope_extends_def scope_fields_def scoped_row_def)
qed

lemma single_group_Inr: "single_group err m = Inr (g, rows) \<longleftrightarrow> m = Inr [(g, rows)]"
  by (auto simp: single_group_def rbind_def split: sum.splits list.splits prod.splits)

lemma single_group_rows:
  assumes "single_group err (group_rows f rows) = Inr (g, rows')"
  obtains row rest where "rows = row # rest" "f 0 row = Inr (g, hd rows')"
    "length rows' = length rows" "\<And>i. i < length rows \<Longrightarrow> f (int i) (rows ! i) = Inr (g, rows' ! i)"
proof -
  have gr: "group_rows f rows = Inr [(g, rows')]"
    using assms by (simp add: single_group_Inr)
  have rows: "length rows' = length rows" "\<forall>i < length rows. f (int i) (rows ! i) = Inr (g, rows' ! i)"
    using group_rows_single[OF gr] by auto
  have "rows \<noteq> []" using gr by (auto simp: group_rows_def)
  then obtain row rest where r: "rows = row # rest" by (cases rows) auto
  then have "f (int 0) (rows ! 0) = Inr (g, rows' ! 0)" using rows(2) by (metis length_greater_0_conv list.discI)
  moreover have "hd rows' = rows' ! 0" using r rows(1) by (cases rows') auto
  ultimately show thesis using that[OF r _ rows(1)] r rows(2) by simp
qed

definition descriptor_identifiers :: "graph_write_operation \<Rightarrow> string list" where
  "descriptor_identifiers g =
     (if reconciliation g = ''node_identity'' then node_identifiers g
      else if reconciliation g = ''file_cleanup'' then [the (node_label g)] else [])"

definition text_identifiers :: "graph_write_operation \<Rightarrow> dict list \<Rightarrow> string list" where
  "text_identifiers g rows = descriptor_identifiers g @ (case rows of [] \<Rightarrow> [] | row # _ \<Rightarrow> shape_identifiers g row)"

lemma compile_typed:
  assumes "compile_persisted_mutation g rows = Inr (q, ps)" "reconciliation g = ''typed_relationship''"
  obtains grp row rest rows' where "rows = row # rest" "shape_identifiers g row = [rg_source_label grp, rg_target_label grp, rg_relationship_type grp]"
    "list_all cypher_identifier (shape_identifiers g row)" "q = compile_relationship_upsert grp" "ps = rows_parameter rows'"
    "list_all2 scope_extends rows rows'"
proof -
  obtain grp rows' where sg: "single_group (JournalError InvalidContract) (group_rows (typed_relation_row JNull) rows) = Inr (grp, rows')"
    and q: "q = compile_relationship_upsert grp" "ps = rows_parameter rows'"
    using assms by (auto simp: compile_persisted_mutation_def group_typed_relations_def rbind_Inr_iff)
  obtain row rest where r: "rows = row # rest" "typed_relation_row JNull 0 row = Inr (grp, hd rows')"
    "length rows' = length rows" "\<And>i. i < length rows \<Longrightarrow> typed_relation_row JNull (int i) (rows ! i) = Inr (grp, rows' ! i)"
    using single_group_rows[OF sg] by metis
  have "list_all2 scope_extends rows rows'"
    unfolding list_all2_conv_all_nth using r(3,4) typed_relation_row_Inr(3)[OF _ assms(2)] by metis
  then show thesis using that r(1) typed_relation_row_Inr[OF r(2) assms(2)] q by blast
qed

lemma compile_evidence:
  assumes "compile_persisted_mutation g rows = Inr (q, ps)" "reconciliation g = ''evidence_edge''"
  obtains grp row rest rows' where "rows = row # rest"
    "shape_identifiers g row =
       [eg_source_label grp, eg_source_property grp, eg_target_label grp, eg_target_property grp, eg_relationship_type grp] @
       (if eg_edge_property grp \<noteq> [] then [eg_edge_property grp] else [])"
    "list_all cypher_identifier (shape_identifiers g row)" "q = compile_evidence_edge_upsert grp" "ps = rows_parameter rows'"
    "list_all2 scope_extends rows rows'"
proof -
  obtain grp rows' where sg: "single_group (JournalError InvalidContract) (group_rows evidence_edge_row rows) = Inr (grp, rows')"
    and q: "q = compile_evidence_edge_upsert grp" "ps = rows_parameter rows'"
    using assms by (auto simp: compile_persisted_mutation_def group_evidence_edges_def rbind_Inr_iff)
  obtain row rest where r: "rows = row # rest" "evidence_edge_row 0 row = Inr (grp, hd rows')"
    "length rows' = length rows" "\<And>i. i < length rows \<Longrightarrow> evidence_edge_row (int i) (rows ! i) = Inr (grp, rows' ! i)"
    using single_group_rows[OF sg] by metis
  have "list_all2 scope_extends rows rows'"
    unfolding list_all2_conv_all_nth using r(3,4) evidence_edge_row_Inr(3)[OF _ assms(2)] by metis
  then show thesis using that r(1) evidence_edge_row_Inr[OF r(2) assms(2)] q by blast
qed

lemma trusted_text_mono: "trusted_text ids q \<Longrightarrow> set ids \<subseteq> set ids' \<Longrightarrow> trusted_text ids' q"
  by (auto simp: trusted_text_def)

text \<open>
  C36. Persisted work cannot carry Cypher. The text compiled from a descriptor and its rows consists
  of the compiler's own vocabulary, of harmless delimiters, and of identifiers that the
  descriptor or the shape of the first row names and that match the identifier grammar; the bound
  rows are the submitted rows, in order, with their scope columns filled in.
\<close>

theorem compiled_mutation_trusted:
  assumes "compile_persisted_mutation g rows = Inr (q, ps)"
  shows "trusted_text (text_identifiers g rows) q \<and> list_all cypher_identifier (text_identifiers g rows) \<and>
    (\<exists>rows'. ps = rows_parameter rows' \<and> list_all2 scope_extends rows rows')"
proof -
  let ?ok = "\<lambda>ids. trusted_text ids q \<and> list_all cypher_identifier ids \<and> (\<exists>rows'. ps = rows_parameter rows' \<and> list_all2 scope_extends rows rows')"
  consider (node) "reconciliation g = ''node_identity''" | (typed) "reconciliation g = ''typed_relationship''"
    | (evidence) "reconciliation g = ''evidence_edge''" | (cleanup) "reconciliation g = ''file_cleanup''"
    | (other) "reconciliation g \<notin> {''node_identity'', ''typed_relationship'', ''evidence_edge'', ''file_cleanup''}" by auto
  then show ?thesis
  proof cases
    case node
    then have "text_identifiers g rows = node_identifiers g"
      by (simp add: text_identifiers_def descriptor_identifiers_def shape_identifiers_def split: list.splits)
    then show ?thesis
      using assms node node_mutation_trusted[of g rows q ps] list_all2_scope_refl by (auto simp: compile_persisted_mutation_def)
  next
    case typed
    obtain grp row rest rows' where t: "rows = row # rest" "shape_identifiers g row = [rg_source_label grp, rg_target_label grp, rg_relationship_type grp]"
      "list_all cypher_identifier (shape_identifiers g row)" "q = compile_relationship_upsert grp" "ps = rows_parameter rows'"
      "list_all2 scope_extends rows rows'" by (rule compile_typed[OF assms typed])
    have "text_identifiers g rows = shape_identifiers g row" using t(1) typed by (simp add: text_identifiers_def descriptor_identifiers_def)
    then show ?thesis using trusted_relationship_upsert[of grp] t(2-6) by auto
  next
    case evidence
    obtain grp row rest rows' where t: "rows = row # rest" "shape_identifiers g row =
         [eg_source_label grp, eg_source_property grp, eg_target_label grp, eg_target_property grp, eg_relationship_type grp] @
         (if eg_edge_property grp \<noteq> [] then [eg_edge_property grp] else [])"
      "list_all cypher_identifier (shape_identifiers g row)" "q = compile_evidence_edge_upsert grp" "ps = rows_parameter rows'"
      "list_all2 scope_extends rows rows'" by (rule compile_evidence[OF assms evidence])
    have "text_identifiers g rows = shape_identifiers g row" using t(1) evidence by (simp add: text_identifiers_def descriptor_identifiers_def)
    then show ?thesis using trusted_evidence_upsert[of grp] t(2-6) by (auto split: if_splits)
  next
    case cleanup
    then have "text_identifiers g rows = [the (node_label g)]"
      by (simp add: text_identifiers_def descriptor_identifiers_def shape_identifiers_def split: list.splits)
    then show ?thesis
      using assms cleanup trusted_cleanup[of "the (node_label g)"] list_all2_scope_refl
      by (auto simp: compile_persisted_mutation_def rbind_Inr_iff split: if_splits)
  next
    case other
    then have "text_identifiers g rows = []"
      by (simp add: text_identifiers_def descriptor_identifiers_def shape_identifiers_def split: list.splits)
    then show ?thesis
      using assms other trusted_constants list_all2_scope_refl by (auto simp: compile_persisted_mutation_def Let_def split: if_splits)
  qed
qed

definition relations_operation :: graph_write_operation where
  "relations_operation = (gwo_default ''relations:f'' PhaseRelationships)\<lparr>reconciliation := ''typed_relationship''\<rparr>"

lemma sample_relation_compiles:
  assumes "cypher_identifier rel" "t \<noteq> []"
  shows "\<exists>q ps. compile_persisted_mutation relations_operation [sample_relation rel t] = Inr (q, ps)"
proof -
  have "\<exists>r. typed_relation_row JNull 0 (sample_relation rel t) = Inr r"
    using assms
    by (simp add: typed_relation_row_def sample_relation_def relationship_group_init_def dict_get_def json_or_def json_truthy_def
        py_str_def validate_cypher_identifier_def has_identity_index_code_graph indexed_pairs_def code_graph_labels_def
        project_id_lookup_key_def normalize_project_id_def strip_simps Let_def)
      (simp add: cypher_identifier_def word_char_def word_start_def is_digit_def)
  then show ?thesis
    by (auto simp: compile_persisted_mutation_def relations_operation_def gwo_default_def single_group_def
        group_typed_relations_def group_rows_def)
qed

lemma for_relations: "for_label ''relations:f'' = Inr relations_operation"
  by code_simp

lemma identifier_HAS: "cypher_identifier ''HAS''"
  by (simp add: cypher_identifier_def word_char_def word_start_def is_digit_def)

theorem compiled_mutation_trusted_witness:
  "\<exists>q ps. compile_persisted_mutation relations_operation [sample_relation ''HAS'' ''a''] = Inr (q, ps) \<and>
     trusted_text [''File'', ''Function'', ''HAS''] q"
proof -
  obtain q ps where q: "compile_persisted_mutation relations_operation [sample_relation ''HAS'' ''a''] = Inr (q, ps)"
    using sample_relation_compiles[OF identifier_HAS] by blast
  have "text_identifiers relations_operation [sample_relation ''HAS'' ''a''] = [''File'', ''Function'', ''HAS'']"
    by (simp add: text_identifiers_def descriptor_identifiers_def relations_operation_def gwo_default_def shape_identifiers_def
        sample_relation_def dict_get_def py_str_def)
  then show ?thesis using compiled_mutation_trusted[OF q] q by auto
qed

text \<open>
  Row values never reach the text. Two batches of one descriptor whose first rows have the same
  shape compile to the same text, whatever else their rows hold.
\<close>

theorem compiled_text_row_independent:
  assumes "compile_persisted_mutation g rows = Inr (q, ps)" "compile_persisted_mutation g rows' = Inr (q', ps')"
    and "text_identifiers g rows = text_identifiers g rows'"
  shows "q = q'"
proof -
  consider (typed) "reconciliation g = ''typed_relationship''" | (evidence) "reconciliation g = ''evidence_edge''"
    | (other) "reconciliation g \<notin> {''typed_relationship'', ''evidence_edge''}" by auto
  then show ?thesis
  proof cases
    case typed
    show ?thesis
      by (rule compile_typed[OF assms(1) typed], rule compile_typed[OF assms(2) typed])
        (use assms(3) typed in \<open>auto simp: text_identifiers_def descriptor_identifiers_def compile_relationship_upsert_def\<close>)
  next
    case evidence
    show ?thesis
      by (rule compile_evidence[OF assms(1) evidence], rule compile_evidence[OF assms(2) evidence])
        (use assms(3) evidence in \<open>auto simp: text_identifiers_def descriptor_identifiers_def compile_evidence_edge_upsert_def
          evidence_edge_pattern_def split: if_splits\<close>)
  next
    case other
    then show ?thesis using assms(1,2)
      by (auto simp: compile_persisted_mutation_def compile_node_mutation_def Let_def rbind_Inr_iff split: if_splits)
  qed
qed

theorem compiled_text_row_independent_witness:
  "\<exists>q ps ps'. compile_persisted_mutation relations_operation [sample_relation ''HAS'' ''a''] = Inr (q, ps) \<and>
     compile_persisted_mutation relations_operation [sample_relation ''HAS'' ''}) DETACH DELETE n //''] = Inr (q, ps')"
proof -
  let ?r = "\<lambda>t. [sample_relation ''HAS'' t]" and ?t = "''}) DETACH DELETE n //''"
  obtain q ps where q: "compile_persisted_mutation relations_operation (?r ''a'') = Inr (q, ps)"
    using sample_relation_compiles[OF identifier_HAS] by blast
  obtain q' ps' where q': "compile_persisted_mutation relations_operation (?r ?t) = Inr (q', ps')"
    using sample_relation_compiles[OF identifier_HAS] by blast
  have "text_identifiers relations_operation (?r ''a'') = text_identifiers relations_operation (?r ?t)"
    by (simp add: text_identifiers_def shape_identifiers_def sample_relation_def dict_get_def relations_operation_def gwo_default_def)
  then show ?thesis using compiled_text_row_independent[OF q q'] q q' by auto
qed

section \<open>Read-only queries\<close>

definition mutates :: "string \<Rightarrow> bool" where
  "mutates q \<longleftrightarrow> list_ex mutation_word (words q)"

lemmas mutates_eval = mutates_def words_eval mutation_word_def mutation_keywords_def casefold_def fold_char_bits

lemma mutates_constants:
  "mutates repository_file_mutation" "mutates call_edge_mutation" "mutates (call_site_mutation ''CALLS'')"
  "mutates (call_site_mutation ''POSSIBLE_CALLS'')" "mutates orphan_cleanup_mutation"
  by code_simp+

lemma mutates_identifiers:
  "cypher_identifier lab \<Longrightarrow> mutates (file_cleanup_mutation lab)"
  "list_all cypher_identifier [rg_source_label g, rg_target_label g, rg_relationship_type g] \<Longrightarrow> mutates (compile_relationship_upsert g)"
  by (simp_all add: mutates_eval file_cleanup_mutation_def compile_relationship_upsert_def endpoint_pattern_def empty_text_def)

lemma mutates_evidence:
  assumes "list_all cypher_identifier ([eg_source_label g, eg_source_property g, eg_target_label g, eg_target_property g,
      eg_relationship_type g] @ (if eg_edge_property g \<noteq> [] then [eg_edge_property g] else []))"
  shows "mutates (compile_evidence_edge_upsert g)"
  using assms
  by (cases "eg_edge_property g = []")
    (simp_all add: mutates_eval compile_evidence_edge_upsert_def evidence_edge_pattern_def endpoint_pattern_def)

lemma mutates_node:
  assumes "compile_node_mutation g rows = Inr (q, ps)"
  shows "mutates q"
proof -
  have "list_all cypher_identifier (node_identifiers g)" using node_mutation_trusted[OF assms] by blast
  then show ?thesis
    using assms
    by (cases "given (row_properties_property g)"; cases "mutation_kind g = ''merge''")
      (auto simp: compile_node_mutation_def node_identifiers_def rbind_Inr_iff mutates_eval split: if_splits)
qed

lemma compiled_mutation_mutates:
  assumes "compile_persisted_mutation g rows = Inr (q, ps)"
  shows "mutates q"
proof -
  consider (node) "reconciliation g = ''node_identity''" | (typed) "reconciliation g = ''typed_relationship''"
    | (evidence) "reconciliation g = ''evidence_edge''"
    | (other) "reconciliation g \<notin> {''node_identity'', ''typed_relationship'', ''evidence_edge''}" by auto
  then show ?thesis
  proof cases
    case node
    then show ?thesis using assms mutates_node by (simp add: compile_persisted_mutation_def)
  next
    case typed
    show ?thesis by (rule compile_typed[OF assms typed]) (use mutates_identifiers(2) in auto)
  next
    case evidence
    show ?thesis by (rule compile_evidence[OF assms evidence]) (use mutates_evidence in metis)
  next
    case other
    then show ?thesis using assms mutates_constants mutates_identifiers(1)
      by (auto simp: compile_persisted_mutation_def Let_def rbind_Inr_iff split: if_splits)
  qed
qed

lemma receipt_readback_reads: "\<not> mutates (fst (receipt_readback g n job sha rid gen))"
  by (simp add: receipt_readback_def mutates_eval)

lemma audit_constants_read: "\<not> mutates repository_file_audit" "\<not> mutates call_audit"
  by code_simp+

lemma mutation_word_length:
  "6 < length w \<Longrightarrow> \<not> mutation_word w"
  "length w \<le> 6 \<Longrightarrow> mutation_word w \<longleftrightarrow> casefold w \<in> set mutation_keywords"
proof -
  show "\<not> mutation_word w" if "6 < length w"
  proof
    assume "mutation_word w"
    then have "length (casefold w) \<in> length ` set mutation_keywords" unfolding mutation_word_def by (rule imageI)
    then show False using that by (auto simp: mutation_keywords_def casefold_def)
  qed
qed (simp add: mutation_word_def)

lemma indexed_pairs_read: "list_all (\<lambda>(l, p). \<not> mutation_word l \<and> \<not> mutation_word p) indexed_pairs"
  by (simp add: indexed_pairs_def leading_indexes_def trailing_indexes_def code_graph_labels_def mutation_word_length
      mutation_keywords_def casefold_def fold_char_bits)

lemma indexed_reads:
  assumes "has_identity_index code_graph_schema l p"
  shows "cypher_identifier l" "cypher_identifier p" "\<not> mutation_word l" "\<not> mutation_word p"
  using assms has_identity_index_identifier[OF assms] indexed_pairs_read
  by (auto simp: has_identity_index_code_graph list_all_iff)

lemma relationship_audit_reads:
  assumes "relationship_group_init g = Inr g'"
  shows "\<not> mutates (compile_relationship_endpoint_audit g)"
proof -
  have "has_identity_index code_graph_schema (rg_source_label g) ''id''" "has_identity_index code_graph_schema (rg_target_label g) ''id''"
    using assms by (auto simp: relationship_group_init_def rbind_Inr_iff)
  note ids = indexed_reads[OF this(1)] indexed_reads[OF this(2)]
  then show ?thesis
    by (simp add: compile_relationship_endpoint_audit_def endpoint_pattern_def endpoint_audit_tail_def mutates_eval)
qed

lemma evidence_audit_reads:
  assumes "evidence_edge_group_init g = Inr g'"
  shows "\<not> mutates (compile_evidence_endpoint_audit g)"
proof -
  have "has_identity_index code_graph_schema (eg_source_label g) (eg_source_property g)"
    "has_identity_index code_graph_schema (eg_target_label g) (eg_target_property g)"
    using assms by (auto simp: evidence_edge_group_init_def rbind_Inr_iff split: if_splits)
  note ids = indexed_reads[OF this(1)] indexed_reads[OF this(2)]
  then show ?thesis
    by (simp add: compile_evidence_endpoint_audit_def endpoint_pattern_def endpoint_audit_tail_def mutates_eval)
qed

lemma typed_relation_group_checked:
  "typed_relation_row pid i row = Inr (g, row') \<Longrightarrow> relationship_group_init g = Inr g"
  by (auto simp: typed_relation_row_def relationship_group_init_def rbind_Inr_iff Let_def split: option.splits)

lemma evidence_group_checked: "evidence_edge_row i row = Inr (g, row') \<Longrightarrow> evidence_edge_group_init g = Inr g"
  using evidence_edge_row_shape[of i row g row'] evidence_edge_group_init_Inr(1)[of "evidence_shape row" g] by auto

lemma endpoint_audit_reads:
  assumes "compile_endpoint_audit g rows = Inr (Some (q, ps))"
  shows "\<not> mutates q"
proof -
  consider (typed) grp rows' where "single_group ValueError (group_rows (typed_relation_row JNull) rows) = Inr (grp, rows')"
      "q = compile_relationship_endpoint_audit grp"
    | (evidence) grp rows' where "single_group ValueError (group_rows evidence_edge_row rows) = Inr (grp, rows')"
      "q = compile_evidence_endpoint_audit grp"
    | (other) "q \<in> {repository_file_audit, call_audit}"
    using assms
    by (auto simp: compile_endpoint_audit_def group_typed_relations_def group_evidence_edges_def Let_def rbind_Inr_iff
        split: if_splits)
  then show ?thesis
  proof cases
    case typed
    then show ?thesis using single_group_rows[OF typed(1)] typed_relation_group_checked relationship_audit_reads by metis
  next
    case evidence
    then show ?thesis using single_group_rows[OF evidence(1)] evidence_group_checked evidence_audit_reads by metis
  next
    case other
    then show ?thesis using audit_constants_read by auto
  qed
qed

end
