(* ===== verification/Journal_Runtime.thy ===== *)
theory Journal_Runtime
  imports Journal_World Journal_Config Journal_Compile
begin

text \<open>
  \<open>journal/runtime.py\<close>: the producer and inline consumer a language writer drives. It turns rows
  into a payload and a batch with barriers, hands out tickets that say whether to execute, and
  settles them. The journal and the payload files are the world; the map \<open>_node_barriers\<close> is the
  state of the process.
\<close>

section \<open>Tickets and barriers\<close>

definition node_phase_barrier :: string where "node_phase_barrier = ''phase:nodes''"
definition endpoint_audit_barrier :: string where "endpoint_audit_barrier = ''audit:endpoints''"

record journal_ticket =
  tk_batch :: batch_record
  tk_execute :: bool
  tk_operation :: graph_write_operation
  tk_rows :: "dict list"
  tk_reconcile :: bool

type_synonym node_key = "string \<times> string \<times> string \<times> string"
type_synonym node_barriers = "node_key \<rightharpoonup> string"

record runtime =
  rt_config :: journal_config
  rt_run :: run_record
  rt_node_first :: bool

definition runtime_init :: "host \<Rightarrow> journal_config \<Rightarrow> (node_barriers, runtime) prog" where
  "runtime_init hs cfg =
     seq (call hs (\<lambda>e. open_run e (cfg_metadata cfg) 0 0)) (\<lambda>run.
     seq (call hs (\<lambda>e. recover_run_leases_as_ambiguous e (r_run_id run))) (\<lambda>_.
     let rt = \<lparr>rt_config = cfg, rt_run = run,
               rt_node_first = (query_shape_version (cfg_metadata cfg) = node_first_query_shape)\<rparr>
     in if rt_node_first rt
        then seq (call hs (\<lambda>_. open_barrier (r_run_id run) node_phase_barrier)) (\<lambda>_.
             seq (call hs (\<lambda>_. open_barrier (r_run_id run) endpoint_audit_barrier)) (\<lambda>_. ret rt))
        else ret rt))"

text \<open>
  The scope of a row, and the identities of the nodes its edge ends in. Only rows of the listed
  reconciliations have endpoints.
\<close>

definition barrier_scope :: "run_metadata \<Rightarrow> dict \<Rightarrow> string" where
  "barrier_scope md row =
     py_str (json_or (dict_get row ''project_id_normalized'')
       (json_or (dict_get row ''project_id'') (JStr (casefold (project_id md)))))"

definition typed_key :: "run_metadata \<Rightarrow> dict \<Rightarrow> string \<times> string \<times> string \<Rightarrow> node_key" where
  "typed_key md row = (\<lambda>(label_key, property_key, identity_key).
     (barrier_scope md row, py_str (dict_get row label_key), py_str (json_or (dict_get row property_key) (JStr ''id'')),
      canonical_json (dict_get row identity_key)))"

definition endpoint_keys :: "string \<Rightarrow> run_metadata \<Rightarrow> dict \<Rightarrow> node_key list" where
  "endpoint_keys kind md row =
     (if kind \<in> {''typed_relationship'', ''evidence_edge''} then
        map (typed_key md row)
          [(''source_label'', ''source_property'', ''source_id''), (''target_label'', ''target_property'', ''target_id'')]
      else if kind = ''repository_file'' then
        [(barrier_scope md row, ''File'', ''id'', canonical_json (dict_get row ''id''))]
      else if kind \<in> {''call_edge'', ''call_site'', ''possible_call_site''} then
        map (\<lambda>k. (barrier_scope md row, ''Function'', ''id'', canonical_json (dict_get row k))) [''caller_id'', ''callee_id'']
      else [])"

definition node_batch :: "graph_write_operation \<Rightarrow> bool" where
  "node_batch g \<longleftrightarrow> reconciliation g = ''node_identity'' \<and> given (node_label g) \<and> given (identity_property g)"

definition node_barrier :: "graph_write_operation \<Rightarrow> int \<Rightarrow> string \<Rightarrow> string" where
  "node_barrier g sequence sha =
     ''node:'' @ the (node_label g) @ '':'' @ show_int sequence @ '':'' @ take 16 sha"

definition note_node :: "run_metadata \<Rightarrow> graph_write_operation \<Rightarrow> string \<Rightarrow> dict \<Rightarrow> node_barriers \<Rightarrow> node_barriers" where
  "note_node md g barrier row nb =
     (let identity = dict_get row (row_identity_property g) in
      if identity = JNull then nb
      else nb((barrier_scope md row, the (node_label g), the (identity_property g), canonical_json identity) \<mapsto> barrier))"

definition dependencies :: "run_metadata \<Rightarrow> graph_write_operation \<Rightarrow> dict list \<Rightarrow> node_barriers \<Rightarrow> string list" where
  "dependencies md g rows nb =
     concat (map (\<lambda>row. filter (\<lambda>b. b \<noteq> [])
       (concat (map (\<lambda>k. case nb k of None \<Rightarrow> [] | Some b \<Rightarrow> [b]) (endpoint_keys (reconciliation g) md row)))) rows)"

definition barrier_contract ::
  "runtime \<Rightarrow> graph_write_operation \<Rightarrow> dict list \<Rightarrow> int \<Rightarrow> string \<Rightarrow> node_barriers \<Rightarrow>
   (string list \<times> string list) \<times> node_barriers" where
  "barrier_contract rt g rows sequence sha nb =
     (let md = r_metadata (rt_run rt); barrier = node_barrier g sequence sha;
          produced = (if node_batch g then [barrier] else []);
          nb' = (if node_batch g then fold (note_node md g barrier) rows nb else nb);
          required = (if node_batch g then [] else dependencies md g rows nb)
      in if rt_node_first rt then
           if op_phase g = PhaseNodes
           then ((sorted_set required, sorted_set (produced @ [node_phase_barrier])), nb')
           else ((sorted_set (required @ [node_phase_barrier, endpoint_audit_barrier]), produced), nb')
         else ((sorted_set required, produced), nb'))"

section \<open>Preparing a batch\<close>

definition make_artifact :: "host \<Rightarrow> string \<Rightarrow> dict list \<Rightarrow> ('x, artifact_ref) prog" where
  "make_artifact hs rid rows w =
     (case create_artifact (env_at hs (w_tick w)) (w_store w) rid (map JObj rows) (w_journal w) of
        Inl x \<Rightarrow> (Inl x, w\<lparr>w_tick := Suc (w_tick w)\<rparr>)
      | Inr (ref, st) \<Rightarrow> (Inr ref, w\<lparr>w_store := st, w_tick := Suc (w_tick w)\<rparr>))"

definition barrier_contract_prog ::
  "runtime \<Rightarrow> graph_write_operation \<Rightarrow> dict list \<Rightarrow> int \<Rightarrow> string \<Rightarrow> (node_barriers, string list \<times> string list) prog" where
  "barrier_contract_prog rt g rows sequence sha w =
     (case barrier_contract rt g rows sequence sha (w_process w) of (c, nb) \<Rightarrow> (Inr c, w\<lparr>w_process := nb\<rparr>))"

definition enqueue :: "host \<Rightarrow> string \<Rightarrow> batch_spec \<Rightarrow> ('x, batch_record) prog" where
  "enqueue hs rid spec w = call hs (\<lambda>e. enqueue_batch e (w_store w) rid spec) w"

definition ticket :: "batch_record \<Rightarrow> bool \<Rightarrow> graph_write_operation \<Rightarrow> dict list \<Rightarrow> bool \<Rightarrow> journal_ticket" where
  "ticket b execute g rows reconcile =
     \<lparr>tk_batch = b, tk_execute = execute, tk_operation = g, tk_rows = rows, tk_reconcile = reconcile\<rparr>"

text \<open>The part of \<open>prepare\<close> that writes: payload, barriers, batch.\<close>

definition submit ::
  "host \<Rightarrow> runtime \<Rightarrow> graph_write_operation \<Rightarrow> dict list \<Rightarrow> int \<Rightarrow> string list \<Rightarrow> (node_barriers, batch_record) prog" where
  "submit hs rt g rows sequence additional =
     (let rid = r_run_id (rt_run rt) in
      seq (make_artifact hs rid rows) (\<lambda>art.
      seq (barrier_contract_prog rt g rows sequence (sha256 art)) (\<lambda>(required, produced).
      seq (lift (batch_spec_init
             \<lparr>sp_phase = op_phase g, sp_operation_key = operation_key g, sp_sequence = sequence, sp_artifact = art,
              sp_expected_count = int (length rows), sp_required_barriers = sorted_set (required @ additional),
              sp_produced_barriers = produced, sp_max_attempts = cfg_max_attempts (rt_config rt),
              sp_operation = gwo_to_dict g\<rparr>)) (\<lambda>spec.
      seq (enqueue hs rid spec) (\<lambda>batch.
      seq (for_each (\<lambda>barrier. seq (call hs (\<lambda>e. close_barrier e rid barrier)) (\<lambda>_. ret ()))
             (filter (\<lambda>b. b \<noteq> node_phase_barrier) produced)) (\<lambda>_.
      ret batch))))))"

text \<open>The part of \<open>prepare\<close> that turns the batch as it is now into a ticket.\<close>

definition claimed_ticket_or_done ::
  "graph_write_operation \<Rightarrow> dict list \<Rightarrow> string \<Rightarrow> batch_record option \<Rightarrow> (node_barriers, journal_ticket) prog" where
  "claimed_ticket_or_done g rows job r =
     (if r \<noteq> None \<and> given (b_fencing_token (the r)) then ret (ticket (the r) True g rows False)
      else
        seq (look (get_batch job)) (\<lambda>current.
        if current \<noteq> None \<and> b_status (the current) = Done then ret (ticket (the current) False g rows False)
        else raise (JournalError InvalidTransition)))"

definition redeem ::
  "host \<Rightarrow> runtime \<Rightarrow> bool \<Rightarrow> graph_write_operation \<Rightarrow> dict list \<Rightarrow> batch_record \<Rightarrow> (node_barriers, journal_ticket) prog" where
  "redeem hs rt defer g rows batch =
     (let lease = cfg_lease_seconds (rt_config rt); job = b_job_id batch in
      if (defer \<or> rt_node_first rt \<and> op_phase g \<noteq> PhaseNodes) \<and> b_status batch \<noteq> Done
      then ret (ticket batch False g rows False)
      else if b_status batch = Done then ret (ticket batch False g rows False)
      else if b_status batch \<in> {Blocked, DeadLetter}
      then raise (JournalError (case b_error_code batch of None \<Rightarrow> InvalidTransition | Some c \<Rightarrow> c))
      else if b_status batch = Reconciling then
        seq (call hs (\<lambda>e. claim_reconciling_job e job lease)) (\<lambda>r.
        case r of
          None \<Rightarrow> raise (JournalError InvalidTransition)
        | Some c \<Rightarrow> if given (b_fencing_token c) then ret (ticket c False g rows True)
                    else raise (JournalError InvalidTransition))
      else
        seq (call hs (\<lambda>e. claim_job e job lease)) (claimed_ticket_or_done g rows job))"

definition prepare ::
  "host \<Rightarrow> runtime \<Rightarrow> string \<Rightarrow> dict list \<Rightarrow> int \<Rightarrow> graph_write_operation option \<Rightarrow> string list \<Rightarrow> bool \<Rightarrow>
   (node_barriers, journal_ticket) prog" where
  "prepare hs rt lab rows sequence operation additional defer =
     seq (case operation of Some g \<Rightarrow> ret g | None \<Rightarrow> lift (for_label lab)) (\<lambda>g.
     if cfg_shadow (rt_config rt) then raise RuntimeError
     else if reconciliation g = ''unsupported'' then raise (JournalError InvalidContract)
     else seq (submit hs rt g rows sequence additional) (redeem hs rt defer g rows))"

section \<open>Settling a ticket\<close>

definition close_node_production :: "host \<Rightarrow> runtime \<Rightarrow> (node_barriers, unit) prog" where
  "close_node_production hs rt =
     (if \<not> rt_node_first rt then ret ()
      else seq (call hs (\<lambda>e. complete_producers e (r_run_id (rt_run rt)))) (\<lambda>_.
           seq (call hs (\<lambda>e. close_barrier e (r_run_id (rt_run rt)) node_phase_barrier)) (\<lambda>_. ret ())))"

definition rt_open_barrier :: "host \<Rightarrow> runtime \<Rightarrow> string \<Rightarrow> (node_barriers, unit) prog" where
  "rt_open_barrier hs rt name = seq (call hs (\<lambda>_. open_barrier (r_run_id (rt_run rt)) name)) (\<lambda>_. ret ())"

definition rt_close_barrier :: "host \<Rightarrow> runtime \<Rightarrow> string \<Rightarrow> (node_barriers, unit) prog" where
  "rt_close_barrier hs rt name = seq (call hs (\<lambda>e. close_barrier e (r_run_id (rt_run rt)) name)) (\<lambda>_. ret ())"

definition claim_deferred :: "host \<Rightarrow> runtime \<Rightarrow> journal_ticket \<Rightarrow> (node_barriers, journal_ticket) prog" where
  "claim_deferred hs rt t =
     (let job = b_job_id (tk_batch t); again = (\<lambda>b x. ticket b x (tk_operation t) (tk_rows t) False) in
      seq (look (get_batch job)) (\<lambda>current.
      if current \<noteq> None \<and> b_status (the current) = Done then ret (again (the current) False)
      else
        seq (call hs (\<lambda>e. claim_job e job (cfg_lease_seconds (rt_config rt)))) (\<lambda>claimed.
        case claimed of
          Some c \<Rightarrow> ret (again c True)
        | None \<Rightarrow>
            seq (look (get_batch job)) (\<lambda>current.
            if current \<noteq> None \<and> b_status (the current) \<in> {Pending, RetryWait} then ret (again (the current) False)
            else raise (JournalError InvalidTransition)))))"

definition resolve_reconciliation ::
  "host \<Rightarrow> runtime \<Rightarrow> journal_ticket \<Rightarrow> bool option \<Rightarrow> (node_barriers, journal_ticket) prog" where
  "resolve_reconciliation hs rt t applied =
     (let job = b_job_id (tk_batch t); token = the (b_fencing_token (tk_batch t));
          again = (\<lambda>b x. ticket b x (tk_operation t) (tk_rows t) False)
      in if \<not> tk_reconcile t \<or> \<not> given (b_fencing_token (tk_batch t)) then raise ValueError
         else case applied of
           Some True \<Rightarrow>
             seq (call hs (\<lambda>e. ack_batch e job token None)) (\<lambda>completed. ret (again completed False))
         | None \<Rightarrow>
             seq (call hs (\<lambda>e. block_batch e job token Integrity InvalidContract)) (\<lambda>_.
             raise (JournalError InvalidContract))
         | Some False \<Rightarrow>
             seq (clock hs) (\<lambda>now.
             seq (call hs (\<lambda>e. schedule_retry e job token now Ambiguous InvalidTransition)) (\<lambda>_.
             seq (call hs (\<lambda>e. claim_job e job (cfg_lease_seconds (rt_config rt)))) (\<lambda>claimed.
             case claimed of
               None \<Rightarrow> raise (JournalError InvalidTransition)
             | Some c \<Rightarrow> ret (again c True)))))"

definition defer_reconciliation_error ::
  "host \<Rightarrow> runtime \<Rightarrow> journal_ticket \<Rightarrow> exc \<Rightarrow> (node_barriers, unit) prog" where
  "defer_reconciliation_error hs rt t err =
     (let job = b_job_id (tk_batch t); token = the (b_fencing_token (tk_batch t)); cfg = rt_config rt in
      if \<not> tk_reconcile t \<or> \<not> given (b_fencing_token (tk_batch t)) then raise ValueError
      else if classify_error err = Transient then
        seq (retry_at hs (b_attempt (tk_batch t)) (cfg_retry_base_seconds cfg) (cfg_retry_max_seconds cfg)) (\<lambda>t'.
        seq (call hs (\<lambda>e. schedule_reconciliation_retry e job token t' InvalidTransition)) (\<lambda>_. ret ()))
      else
        seq (call hs (\<lambda>e. block_batch e job token (classify_error err)
               (case err of JournalError c \<Rightarrow> c | _ \<Rightarrow> InvalidContract))) (\<lambda>_. ret ()))"

definition block_integrity :: "host \<Rightarrow> runtime \<Rightarrow> journal_ticket \<Rightarrow> (node_barriers, unit) prog" where
  "block_integrity hs rt t =
     (if \<not> tk_execute t \<or> \<not> given (b_fencing_token (tk_batch t)) then ret ()
      else seq (call hs (\<lambda>e. block_batch e (b_job_id (tk_batch t)) (the (b_fencing_token (tk_batch t)))
                  Integrity InvalidContract)) (\<lambda>_. ret ()))"

definition acknowledge :: "host \<Rightarrow> runtime \<Rightarrow> journal_ticket \<Rightarrow> int \<Rightarrow> int \<Rightarrow> (node_barriers, unit) prog" where
  "acknowledge hs rt t count elapsed_ms =
     (if count \<noteq> b_expected_count (tk_batch t)
      then seq (block_integrity hs rt t) (\<lambda>_. raise (JournalError InvalidContract))
      else case b_fencing_token (tk_batch t) of
        None \<Rightarrow> raise AssertionError
      | Some token \<Rightarrow>
          seq (call hs (\<lambda>e. ack_batch e (b_job_id (tk_batch t)) token (Some elapsed_ms))) (\<lambda>_. ret ()))"

definition renew :: "host \<Rightarrow> runtime \<Rightarrow> journal_ticket \<Rightarrow> (node_barriers, unit) prog" where
  "renew hs rt t =
     (if tk_execute t \<and> given (b_fencing_token (tk_batch t))
      then seq (call hs (\<lambda>e. renew_lease e (b_job_id (tk_batch t)) (the (b_fencing_token (tk_batch t)))
                  (cfg_lease_seconds (rt_config rt)))) (\<lambda>_. ret ())
      else ret ())"

definition mark_ambiguous :: "host \<Rightarrow> runtime \<Rightarrow> journal_ticket \<Rightarrow> (node_barriers, unit) prog" where
  "mark_ambiguous hs rt t =
     (if \<not> tk_execute t \<or> \<not> given (b_fencing_token (tk_batch t)) then ret ()
      else
        seq (look (get_batch (b_job_id (tk_batch t)))) (\<lambda>current.
        if current \<noteq> None \<and> b_status (the current) = Leased
        then seq (call hs (\<lambda>e. mark_reconciling e (b_job_id (tk_batch t)) (the (b_fencing_token (tk_batch t)))
                    (Some InvalidTransition))) (\<lambda>_. ret ())
        else ret ()))"

section \<open>Sessions\<close>

text \<open>
  A session of a writer: the runtime is built, then called in any order with any arguments; the
  writer may go on after an exception.
\<close>

datatype runtime_call =
    Prepare string "dict list" int "graph_write_operation option" "string list" bool
  | RtOpenBarrier string
  | RtCloseBarrier string
  | CloseNodeProduction
  | ClaimDeferred journal_ticket
  | ResolveReconciliation journal_ticket "bool option"
  | DeferReconciliationError journal_ticket exc
  | Acknowledge journal_ticket int int
  | Renew journal_ticket
  | MarkAmbiguous journal_ticket
  | BlockIntegrity journal_ticket

fun perform :: "host \<Rightarrow> runtime \<Rightarrow> runtime_call \<Rightarrow> (node_barriers, unit) prog" where
  "perform hs rt (Prepare lab rows n g add defer) = seq (prepare hs rt lab rows n g add defer) (\<lambda>_. ret ())"
| "perform hs rt (RtOpenBarrier name) = rt_open_barrier hs rt name"
| "perform hs rt (RtCloseBarrier name) = rt_close_barrier hs rt name"
| "perform hs rt CloseNodeProduction = close_node_production hs rt"
| "perform hs rt (ClaimDeferred t) = seq (claim_deferred hs rt t) (\<lambda>_. ret ())"
| "perform hs rt (ResolveReconciliation t a) = seq (resolve_reconciliation hs rt t a) (\<lambda>_. ret ())"
| "perform hs rt (DeferReconciliationError t x) = defer_reconciliation_error hs rt t x"
| "perform hs rt (Acknowledge t n ms) = acknowledge hs rt t n ms"
| "perform hs rt (Renew t) = renew hs rt t"
| "perform hs rt (MarkAmbiguous t) = mark_ambiguous hs rt t"
| "perform hs rt (BlockIntegrity t) = block_integrity hs rt t"

definition session :: "host \<Rightarrow> journal_config \<Rightarrow> runtime_call list \<Rightarrow> (node_barriers, unit) prog" where
  "session hs cfg calls =
     seq (runtime_init hs cfg) (\<lambda>rt. for_each (\<lambda>c. catch (perform hs rt c) (\<lambda>_. ret ())) calls)"

lemma follows_parts [follows_intros]:
  "follows (ho_sha hs) (make_artifact hs rid rows)"
  "follows h (barrier_contract_prog rt g rows n sha)"
  by (auto intro!: follows_unchanged simp: make_artifact_def barrier_contract_prog_def split: sum.splits prod.splits)

lemma follows_enqueue [follows_intros]: "follows (ho_sha hs) (enqueue hs rid spec)"
  using follows_operations(2) by (fastforce simp: stays_def enqueue_def)

lemma follows_runtime_init: "follows (ho_sha hs) (runtime_init hs cfg)"
  unfolding runtime_init_def Let_def by (intro follows_intros)

lemma follows_prepare: "follows (ho_sha hs) (prepare hs rt lab rows n g add defer)"
  unfolding prepare_def submit_def redeem_def claimed_ticket_or_done_def Let_def by (intro follows_intros)

lemmas settle_defs = rt_open_barrier_def rt_close_barrier_def close_node_production_def claim_deferred_def
  resolve_reconciliation_def defer_reconciliation_error_def acknowledge_def renew_def mark_ambiguous_def block_integrity_def

lemma follows_perform: "follows (ho_sha hs) (perform hs rt c)"
proof (cases c)
  case Prepare
  then show ?thesis by (simp only: perform.simps) (intro follows_intros follows_prepare)
qed (simp only: perform.simps settle_defs Let_def; intro follows_intros)+

interpretation writer: journal_client "ho_sha hs" "session hs cfg calls" for hs cfg calls
  by unfold_locales (unfold session_def, intro follows_intros follows_runtime_init follows_perform)

text \<open>
  A session of the writer loses nothing. From a reachable journal, every batch that was done,
  blocked or dead-lettered before is unchanged after it, and every other batch is still there with
  the same work.
\<close>

theorem session_keeps_work:
  assumes "reachable (ho_sha hs) (w_journal w)" "b \<in> set (batches (w_journal w))"
  shows "\<exists>c \<in> set (batches (w_journal (snd (session hs cfg calls w)))). same_batch b c \<and>
    (b_status b \<in> {Done, Blocked, DeadLetter} \<longrightarrow> c = b)"
proof (cases "final_status (b_status b)")
  case True
  then show ?thesis using writer.outcome_kept[OF assms] by (intro bexI[of _ b]) auto
next
  case False
  then show ?thesis using writer.work_kept[OF assms] by (auto simp: final_status_def)
qed

section \<open>Barrier contracts\<close>

text \<open>
  The contracts one runtime makes, in order, and what \<open>_node_barriers\<close> is after them: the barrier of the most recent
  node batch with a row of that identity. A later node batch of the same identity replaces the
  earlier one.
\<close>

type_synonym contract = "graph_write_operation \<times> dict list \<times> int \<times> string"

definition noted :: "runtime \<Rightarrow> contract list \<Rightarrow> node_barriers" where
  "noted rt cs = fold (\<lambda>(g, rows, n, sha) nb. snd (barrier_contract rt g rows n sha nb)) cs Map.empty"

definition row_key :: "run_metadata \<Rightarrow> graph_write_operation \<Rightarrow> dict \<Rightarrow> node_key" where
  "row_key md g row = (barrier_scope md row, the (node_label g), the (identity_property g), canonical_json (dict_get row (row_identity_property g)))"

definition writes_node :: "run_metadata \<Rightarrow> node_key \<Rightarrow> contract \<Rightarrow> bool" where
  "writes_node md k = (\<lambda>(g, rows, n, sha).
     node_batch g \<and> list_ex (\<lambda>row. dict_get row (row_identity_property g) \<noteq> JNull \<and> row_key md g row = k) rows)"

definition latest_writer :: "run_metadata \<Rightarrow> node_key \<Rightarrow> contract list \<Rightarrow> contract option" where
  "latest_writer md k cs = List.find (writes_node md k) (rev cs)"

lemma note_nodes:
  "fold (note_node md g bar) rows nb k =
     (if list_ex (\<lambda>row. dict_get row (row_identity_property g) \<noteq> JNull \<and> row_key md g row = k) rows then Some bar else nb k)"
  by (induction rows arbitrary: nb) (auto simp: note_node_def row_key_def Let_def)

lemma contract_notes:
  "snd (barrier_contract rt g rows n sha nb) k =
     (if writes_node (r_metadata (rt_run rt)) k (g, rows, n, sha) then Some (node_barrier g n sha) else nb k)"
  by (simp add: barrier_contract_def writes_node_def note_nodes Let_def)

lemma noted_latest:
  "noted rt cs k = map_option (\<lambda>(g, rows, n, sha). node_barrier g n sha) (latest_writer (r_metadata (rt_run rt)) k cs)"
proof (induction cs rule: rev_induct)
  case (snoc c cs)
  obtain g rows n sha where c: "c = (g, rows, n, sha)" by (cases c)
  then have "noted rt (cs @ [c]) k = snd (barrier_contract rt g rows n sha (noted rt cs)) k" by (simp add: noted_def)
  then show ?case using snoc.IH by (simp add: contract_notes c latest_writer_def)
qed (simp add: noted_def latest_writer_def)

lemma contract_required:
  assumes "barrier_contract rt g rows n sha nb = ((required, produced), nb')"
  shows "node_batch g \<Longrightarrow> node_barrier g n sha \<in> set produced"
    and "\<not> node_batch g \<Longrightarrow> set required = set (dependencies (r_metadata (rt_run rt)) g rows nb) \<union>
      (if rt_node_first rt \<and> op_phase g \<noteq> PhaseNodes then {node_phase_barrier, endpoint_audit_barrier} else {})"
  using assms by (auto simp: barrier_contract_def Let_def split: if_splits)

lemma noted_iff:
  "noted rt cs k = Some b \<longleftrightarrow> (\<exists>h rs i s. latest_writer (r_metadata (rt_run rt)) k cs = Some (h, rs, i, s) \<and> b = node_barrier h i s)"
  by (auto simp: noted_latest)

lemma node_barrier_nonempty [simp]: "node_barrier g n sha \<noteq> []"
  by (simp add: node_barrier_def)

lemma set_dependencies:
  "set (dependencies md g rows nb) = {b. b \<noteq> [] \<and> (\<exists>row \<in> set rows. \<exists>k \<in> set (endpoint_keys (reconciliation g) md row). nb k = Some b)}"
  by (auto simp: dependencies_def split: option.splits) force+

text \<open>
  C6. Edges wait for their endpoints. After any sequence of contracts of one runtime, the contract of a batch that is
  not a node batch requires exactly the barriers of the most recent node batches that wrote the identities
  its rows name at their ends, an identity nobody wrote giving none; and in a node-first run, outside the node
  phase, also the node phase and the endpoint audit. A node batch produces its barrier. Only the
  most recent node batch of an identity is required: an earlier one may still be pending.
\<close>

theorem edges_wait_for_endpoints:
  assumes "barrier_contract rt g rows n sha (noted rt cs) = ((required, produced), nb)"
  shows "(node_batch g \<longrightarrow> node_barrier g n sha \<in> set produced) \<and>
    (\<not> node_batch g \<longrightarrow> set required =
      {node_barrier h i s | row k h rs i s. row \<in> set rows \<and> k \<in> set (endpoint_keys (reconciliation g) (r_metadata (rt_run rt)) row) \<and>
         latest_writer (r_metadata (rt_run rt)) k cs = Some (h, rs, i, s)} \<union>
      (if rt_node_first rt \<and> op_phase g \<noteq> PhaseNodes then {node_phase_barrier, endpoint_audit_barrier} else {}))"
proof -
  let ?md = "r_metadata (rt_run rt)"
  have "set (dependencies ?md g rows (noted rt cs)) =
      {node_barrier h i s | row k h rs i s. row \<in> set rows \<and> k \<in> set (endpoint_keys (reconciliation g) ?md row) \<and>
         latest_writer ?md k cs = Some (h, rs, i, s)}"
    unfolding set_dependencies noted_iff using node_barrier_nonempty by (intro Collect_cong iffI) metis+
  then show ?thesis using contract_required[OF assms] by blast
qed

section \<open>Tickets\<close>

text \<open>A record handed out by the store is a row of the journal.\<close>

definition held :: "batch_record \<Rightarrow> journal \<Rightarrow> bool" where
  "held x j \<longleftrightarrow> (\<exists>b \<in> set (batches j). batch_record.truncate b = x)"

lemma held_get_batch: "get_batch job j = Some x \<Longrightarrow> held x j"
  by (auto simp: get_batch_def held_def dest: find_batch_Some)

lemma truncate_simps [simp]:
  "b_status (batch_record.truncate b) = b_status b" "b_fencing_token (batch_record.truncate b) = b_fencing_token b"
  "b_job_id (batch_record.truncate b) = b_job_id b" "b_run_id (batch_record.truncate b) = b_run_id b"
  "b_required_barriers (batch_record.truncate b) = b_required_barriers b"
  "b_expected_count (batch_record.truncate b) = b_expected_count b"
  by (simp_all add: batch_record.defs)

lemma enqueued_held:
  assumes "enqueue_batch e st rid spec j = (Inr x, j')"
  shows "held x j'"
proof -
  have "\<exists>row. find_batch job j' = Some row \<and> x = batch_record.truncate row"
    if "enqueue_body e rid job spec mc j = Inr ((x, f), j')" for job mc f
    using that by (auto simp: enqueue_body_def Let_def rbind_Inr_iff split: if_splits option.splits)
  then have "held x j'" if "enqueue_body e rid job spec mc j = Inr ((x, f), j')" for job mc f
    using that find_batch_Some unfolding held_def by blast
  then show ?thesis using assms
    by (auto simp: enqueue_batch_def Let_def transaction_def split: option.splits if_splits sum.splits prod.splits)
qed

lemma close_all_batches:
  "for_each (\<lambda>b. seq (call hs (\<lambda>e. close_barrier e rid b)) (\<lambda>_. ret ())) bs w = (Inr (), w') \<Longrightarrow>
     batches (w_journal w') = batches (w_journal w)"
  using barrier_ops_batches(2)
  by (induction bs arbitrary: w) (fastforce simp: prog_iffs dest: arg_cong[of _ _ "\<lambda>x. batches (snd x)"])+

lemma submitted_held:
  assumes "submit hs rt g rows n add w = (Inr x, w')"
  shows "held x (w_journal w')"
  using assms enqueued_held close_all_batches
  by (fastforce simp: submit_def Let_def prog_iffs enqueue_def held_def split: prod.splits)

lemma claimed_ticket:
  assumes "reachable h j" "(Inr (Some x), j') \<in> {claim_batch e rid n j, claim_job e job n j}"
  shows "held x j' \<and> b_status x = Leased \<and> b_fencing_token x = Some (e_token e) \<and>
    list_all (\<lambda>name. barrier_drained (b_run_id x) name j') (b_required_barriers x)"
proof -
  note inv = reachable_jinv[OF assms(1)]
  obtain b k where b: "x = batch_record.truncate (leased_row e n b)" "jinv k" "b \<in> set (batches k)"
    "claimable (e_now e) k b" "batches j' = replace_batch b (leased_row e n b) (batches k)" "same_tables k j'"
    using claimed_row[OF assms(2) inv] .
  then have "held x j'" using set_replace_batch[OF _ b(3)] by (auto simp: held_def jinv_def)
  moreover have "list_all (\<lambda>name. barrier_drained (b_run_id b) name j') (b_required_barriers b)"
    using claimed_dependencies[OF b(2-4) _ b(5,6)] by (simp add: list_all_iff)
  ultimately show ?thesis using b(1) by (simp add: leased_row_def)
qed

lemma reconciling_ticket:
  assumes "reachable h j" "claim_reconciling_job e job n j = (Inr (Some x), j')"
  shows "held x j' \<and> b_status x = Reconciling \<and> b_fencing_token x = Some (e_token e)"
proof -
  let ?el = "\<lambda>now j b. b_job_id b = job \<and> reconcilable now j b"
  have n: "0 < n" using assms(2) by (auto simp: claim_reconciling_job_def claim_where_def split: if_splits)
  obtain b where b: "x = batch_record.truncate (reconciling_row e n b)" "claims ?el (reconciling_row e n) e j b j'"
    using claim_where_result[where eligible = ?el and lease = lease_reconciling and e = e and f = "reconciling_row e n",
        OF reachable_jinv[OF assms(1)] _ lease_reconciling_row _ n] assms(2)
    by (auto simp: claim_reconciling_job_def reconcilable_def)
  let ?k = "snd (recover_expired (e_now e) j)"
  have "keys_ok ?k" using recover_expired_jinv[OF reachable_jinv[OF assms(1)]] by (auto simp: jinv_def)
  then have "held x j'" using b set_replace_batch[of ?k b] by (auto simp: held_def claims_def Let_def)
  then show ?thesis using b by (auto simp: reconciling_row_def claims_def reconcilable_def Let_def)
qed

lemma redeem_cases:
  assumes "redeem hs rt defer g rows b w = (Inr t, w')"
  obtains (given_back) "t = ticket b False g rows False" "w' = w"
    | (fenced) c e j where "claim_reconciling_job e (b_job_id b) (cfg_lease_seconds (rt_config rt)) (w_journal w) = (Inr (Some c), j)"
        "t = ticket c False g rows True" "w_journal w' = j"
    | (leased) c e j where "claim_job e (b_job_id b) (cfg_lease_seconds (rt_config rt)) (w_journal w) = (Inr (Some c), j)"
        "t = ticket c True g rows False" "w_journal w' = j"
    | (finished) c where "get_batch (b_job_id b) (w_journal w') = Some c" "t = ticket c False g rows False"
proof (cases "(defer \<or> rt_node_first rt \<and> op_phase g \<noteq> PhaseNodes) \<and> b_status b \<noteq> Done \<or> b_status b = Done")
  case True
  then show thesis using assms given_back by (auto simp: redeem_def Let_def split: if_splits)
next
  case False
  note no_shortcut = False
  show thesis
  proof (cases "b_status b = Reconciling")
    case True
    then show thesis using assms no_shortcut fenced
      by (auto simp: redeem_def Let_def seq_Inr_iff call_iff split: if_splits option.splits)
  next
    case False
    then obtain r j where c: "claim_job (env_at hs (w_tick w)) (b_job_id b) (cfg_lease_seconds (rt_config rt)) (w_journal w) = (Inr r, j)"
      and rest: "claimed_ticket_or_done g rows (b_job_id b) r (w\<lparr>w_journal := j, w_tick := Suc (w_tick w)\<rparr>) = (Inr t, w')"
      using assms no_shortcut by (auto simp: redeem_def Let_def seq_Inr_iff call_iff split: if_split_asm)
    show thesis
    proof (cases "r \<noteq> None \<and> given (b_fencing_token (the r))")
      case True
      then show thesis using leased[of "env_at hs (w_tick w)" "the r" j] c rest by (auto simp: claimed_ticket_or_done_def)
    next
      case False
      then show thesis using rest finished by (auto simp: claimed_ticket_or_done_def seq_Inr_iff split: if_split_asm)
    qed
  qed
qed

text \<open>
  C5. What a ticket grants. A ticket that \<open>prepare\<close> returns on a reachable journal carries the
  submitted rows and a batch as it stands in the journal. A ticket to execute is for a leased batch
  under a fencing token with every required barrier drained; a ticket to reconcile is for a fenced
  ambiguous batch; no ticket grants both.
\<close>

theorem ticket_sound:
  assumes "reachable (ho_sha hs) (w_journal w)" "prepare hs rt lab rows n op add defer w = (Inr t, w')"
  shows "held (tk_batch t) (w_journal w') \<and> tk_rows t = rows \<and> \<not> (tk_execute t \<and> tk_reconcile t) \<and>
    (tk_execute t \<longrightarrow> b_status (tk_batch t) = Leased \<and> b_fencing_token (tk_batch t) \<noteq> None \<and>
       list_all (\<lambda>name. barrier_drained (b_run_id (tk_batch t)) name (w_journal w')) (b_required_barriers (tk_batch t))) \<and>
    (tk_reconcile t \<longrightarrow> b_status (tk_batch t) = Reconciling \<and> b_fencing_token (tk_batch t) \<noteq> None)"
proof -
  obtain g b w1 where sub: "submit hs rt g rows n add w = (Inr b, w1)" "redeem hs rt defer g rows b w1 = (Inr t, w')"
    using assms(2) by (auto simp: prepare_def prog_iffs split: if_splits option.splits)
  have "follows (ho_sha hs) (submit hs rt g rows n add)"
    unfolding submit_def Let_def by (intro follows_intros)
  from staysD[OF this sub(1)] have "(cstep (ho_sha hs))\<^sup>*\<^sup>* (w_journal w) (w_journal w1)" by (simp add: journal_steps_def)
  then have w1: "reachable (ho_sha hs) (w_journal w1)" using csteps_reachable assms(1) by blast
  from sub(2) show ?thesis
  proof (cases rule: redeem_cases)
    case (fenced c e j)
    then show ?thesis using reconciling_ticket[OF w1 fenced(1)] by (simp add: ticket_def)
  next
    case (leased c e j)
    have "held c j \<and> b_status c = Leased \<and> b_fencing_token c = Some (e_token e) \<and>
        list_all (\<lambda>name. barrier_drained (b_run_id c) name j) (b_required_barriers c)"
      by (rule claimed_ticket[OF w1, where job = "b_job_id b" and n = "cfg_lease_seconds (rt_config rt)"]) (simp add: leased(1))
    then show ?thesis using leased(2,3) by (simp add: ticket_def)
  qed (use submitted_held[OF sub(1)] held_get_batch in \<open>auto simp: ticket_def\<close>)
qed

text \<open>
  C7. Only an exact count acknowledges. \<open>acknowledge\<close> returns on a reachable journal only when the
  reported count is the expected one, and then the batch is done; with any other count it raises,
  no batch becomes done, and no batch becomes executable.
\<close>

theorem acknowledge_exact:
  assumes "reachable (ho_sha hs) (w_journal w)" "acknowledge hs rt t n ms w = (r, w')"
  shows "if n = b_expected_count (tk_batch t)
    then r = Inr () \<longrightarrow> (\<exists>c \<in> set (batches (w_journal w')). b_job_id c = b_job_id (tk_batch t) \<and> b_status c = Done)
    else r \<noteq> Inr () \<and> rows_under {} {} (w_journal w) (w_journal w')"
proof (cases "n = b_expected_count (tk_batch t)")
  case True
  have "\<exists>c \<in> set (batches j'). b_job_id c = job \<and> b_status c = Done"
    if ack: "ack_batch e job token el (w_journal w) = (Inr x, j')" for e job token el x j'
  proof (cases "owned_row [Leased, Reconciling] job token (e_now e) (w_journal w)")
    case (Inl y)
    then show ?thesis using ack by (simp add: ack_batch_def owned_transition_def)
  next
    case (Inr row)
    then show ?thesis using ack_batch_succeeds[OF reachable_jinv[OF assms(1)] Inr, of el] ack by auto
  qed
  then show ?thesis using True assms(2) by (fastforce simp: acknowledge_def prog_iffs split: option.splits)
next
  case False
  have "rows_under {} {} (w_journal w) (w_journal (snd (block_integrity hs rt t w)))"
    using rows_under_quiet(6)[OF reachable_jinv[OF assms(1)]]
    by (simp add: block_integrity_def rows_under_same seq_def call_def split: prod.splits sum.splits)
       (metis snd_conv)
  then show ?thesis using False assms(2)
    by (auto simp: acknowledge_def seq_def split: prod.splits sum.splits)
qed

section \<open>A sample session\<close>

definition sample_host :: host where
  "sample_host =
     \<lparr>ho_sha = sample_hash, ho_limits = default_limits, ho_env = (\<lambda>n. sample_env (200 + int n) ''t''), ho_jitter = (\<lambda>a b. a)\<rparr>"

definition sample_runtime :: runtime where
  "sample_runtime = \<lparr>rt_config = sample_config, rt_run = sample_run, rt_node_first = False\<rparr>"

definition node_world :: "journal \<Rightarrow> node_barriers world" where
  "node_world j = \<lparr>w_journal = j, w_store = sample_store, w_tick = 0, w_process = Map.empty\<rparr>"

definition sample_row :: dict where
  "sample_row = [(''id'', JStr ''a'')]"

theorem session_keeps_work_witness:
  "hd (batches sample_acked) \<in>
     set (batches (w_journal (snd (session sample_host sample_config [RtOpenBarrier ''x''] (node_world sample_acked)))))"
proof -
  let ?b = "hd (batches sample_acked)"
  have "batches sample_acked \<noteq> [] \<and> b_status ?b = Done" by code_simp
  then show ?thesis
    using session_keeps_work[of sample_host "node_world sample_acked" ?b sample_config "[RtOpenBarrier ''x'']"] sample_reachable(5)
    by (auto simp: sample_host_def node_world_def)
qed

theorem ticket_sound_witness:
  "\<exists>t w'. prepare sample_host sample_runtime ''functions'' [sample_row] 1 None [] False (node_world sample_opened) = (Inr t, w') \<and>
     tk_execute t \<and> b_status (tk_batch t) = Leased"
proof -
  let ?p = "prepare sample_host sample_runtime ''functions'' [sample_row] 1 None [] False (node_world sample_opened)"
  have "case fst ?p of Inl _ \<Rightarrow> False | Inr t \<Rightarrow> tk_execute t" by code_simp
  then obtain t w' where p: "?p = (Inr t, w')" "tk_execute t" by (cases ?p) (auto split: sum.splits)
  have "reachable (ho_sha sample_host) (w_journal (node_world sample_opened))"
    using sample_reachable(1) by (simp add: sample_host_def node_world_def)
  from ticket_sound[OF this p(1)] show ?thesis using p by blast
qed

definition sample_node_op :: graph_write_operation where
  "sample_node_op = (gwo_default ''functions'' PhaseNodes)\<lparr>reconciliation := ''node_identity'', node_label := Some ''Function'',
     identity_property := Some ''id''\<rparr>"

definition sample_call_op :: graph_write_operation where
  "sample_call_op = (gwo_default ''calls'' PhaseCalls)\<lparr>reconciliation := ''call_edge''\<rparr>"

theorem edges_wait_for_endpoints_witness:
  "for_label ''functions'' = Inr sample_node_op \<and> for_label ''calls'' = Inr sample_call_op \<and>
   set (fst (fst (barrier_contract sample_runtime sample_call_op [[(''caller_id'', JStr ''a''), (''callee_id'', JStr ''b'')]] 3 ''34''
     (noted sample_runtime [(sample_node_op, [sample_row], 1, ''11''), (sample_node_op, [sample_row], 2, ''22'')])))) =
   {''node:Function:2:22''}"
proof -
  let ?cs = "[(sample_node_op, [sample_row], 1, ''11''), (sample_node_op, [sample_row], 2, ''22'')]"
  let ?e = "[(''caller_id'', JStr ''a''), (''callee_id'', JStr ''b'')]" and ?md = "r_metadata (rt_run sample_runtime)"
  let ?c = "barrier_contract sample_runtime sample_call_op [?e] 3 ''34'' (noted sample_runtime ?cs)"
  have c: "?c = ((fst (fst ?c), snd (fst ?c)), snd ?c)" by simp
  have g: "for_label ''functions'' = Inr sample_node_op" "for_label ''calls'' = Inr sample_call_op" "\<not> node_batch sample_call_op"
    by code_simp+
  obtain k1 k2 where k: "endpoint_keys (reconciliation sample_call_op) ?md ?e = [k1, k2]"
    "latest_writer ?md k1 ?cs = Some (sample_node_op, [sample_row], 2, ''22'')" "latest_writer ?md k2 ?cs = None"
  proof
    show "endpoint_keys (reconciliation sample_call_op) ?md ?e =
        [hd (endpoint_keys (reconciliation sample_call_op) ?md ?e), last (endpoint_keys (reconciliation sample_call_op) ?md ?e)]" by code_simp
    show "latest_writer ?md (hd (endpoint_keys (reconciliation sample_call_op) ?md ?e)) ?cs = Some (sample_node_op, [sample_row], 2, ''22'')"
      by code_simp
    show "latest_writer ?md (last (endpoint_keys (reconciliation sample_call_op) ?md ?e)) ?cs = None" by code_simp
  qed
  have "node_barrier sample_node_op 2 ''22'' = ''node:Function:2:22''" by code_simp
  then have "set (fst (fst ?c)) = {''node:Function:2:22''}"
    using edges_wait_for_endpoints[OF c] g(3) k
    by (simp add: sample_runtime_def conj_disj_distribL conj_disj_distribR ex_disj_distrib del: split_paired_Ex)
  then show ?thesis using g by simp
qed

definition sample_ticket :: journal_ticket where
  "sample_ticket =
     ticket (batch_record.truncate (hd (batches sample_leased))) True (gwo_default ''functions'' PhaseNodes) [sample_row] False"

theorem acknowledge_exact_witness:
  "\<exists>w'. acknowledge sample_host sample_runtime sample_ticket 1 7 (node_world sample_leased) = (Inr (), w') \<and>
     (\<exists>c \<in> set (batches (w_journal w')). b_job_id c = b_job_id (tk_batch sample_ticket) \<and> b_status c = Done) \<and>
     fst (acknowledge sample_host sample_runtime sample_ticket 2 7 (node_world sample_leased)) \<noteq> Inr ()"
proof -
  let ?a = "\<lambda>n. acknowledge sample_host sample_runtime sample_ticket n 7 (node_world sample_leased)"
  have r: "reachable (ho_sha sample_host) (w_journal (node_world sample_leased))"
    using sample_reachable(4) by (simp add: sample_host_def node_world_def)
  have "fst (?a 1) = Inr () \<and> b_expected_count (tk_batch sample_ticket) = 1" by code_simp
  then have "?a 1 = (Inr (), snd (?a 1))" "b_expected_count (tk_batch sample_ticket) = 1" by (auto simp: prod_eq_iff)
  then show ?thesis
    using acknowledge_exact[OF r, of sample_runtime sample_ticket 1 7 "Inr ()" "snd (?a 1)"]
      acknowledge_exact[OF r, of sample_runtime sample_ticket 2 7 "fst (?a 2)" "snd (?a 2)"] by auto
qed

end
