(* ===== verification/Journal_Guard.thy ===== *)
theory Journal_Guard
  imports Journal_Compile
begin

text \<open>
  \<open>journal/guard.py\<close>: the wrapper around a driver's \<open>execute_query\<close> that lets reads through,
  refuses mutations outside a journaled operation, and stamps every journaled mutation with a
  receipt node that identifies its job. The context variable is an argument of \<open>guarded\<close>; a call
  of the driver is its query, positional and keyword arguments. Queries are ASCII text, on which
  the classes \<open>\w\<close> and \<open>\s\<close> and the case folding of the patterns are the ones below.
\<close>

section \<open>Searching\<close>

text \<open>
  \<open>re.search\<close>: a pattern is tried at every position, told whether the character before it is a
  word character.
\<close>

fun search :: "(bool \<Rightarrow> string \<Rightarrow> bool) \<Rightarrow> bool \<Rightarrow> string \<Rightarrow> bool" where
  "search p prev [] = p prev []"
| "search p prev (c # s) = (p prev (c # s) \<or> search p (word_char c) s)"

definition word_next :: "string \<Rightarrow> bool" where
  "word_next s \<longleftrightarrow> s \<noteq> [] \<and> word_char (hd s)"

text \<open>\<open>\bkw\b\<close>, ignoring case, for a keyword of word characters.\<close>

definition keyword_here :: "string \<Rightarrow> bool \<Rightarrow> string \<Rightarrow> bool" where
  "keyword_here kw prev s \<longleftrightarrow> \<not> prev \<and> startswith (casefold s) kw \<and> \<not> word_next (drop (length kw) s)"

definition is_mutation :: "string \<Rightarrow> bool" where
  "is_mutation q \<longleftrightarrow> search (\<lambda>prev s. \<exists>kw \<in> set mutation_keywords. keyword_here kw prev s) False q"

definition has_return :: "string \<Rightarrow> bool" where
  "has_return q \<longleftrightarrow> search (keyword_here ''return'') False q"

text \<open>\<open>\bRETURN\b[\s\S]*\bAS\s+count\b\<close>.\<close>

definition as_count_here :: "bool \<Rightarrow> string \<Rightarrow> bool" where
  "as_count_here prev s \<longleftrightarrow> \<not> prev \<and>
     (case re_match [RE_lit ''AS'', RE_ws1, RE_lit ''count''] Map.empty s of
        None \<Rightarrow> False
      | Some (_, t) \<Rightarrow> \<not> word_next t)"

definition returns_count :: "string \<Rightarrow> bool" where
  "returns_count q \<longleftrightarrow>
     search (\<lambda>prev s. keyword_here ''return'' prev s \<and> search as_count_here True (drop 6 s)) False q"

section \<open>Receipts\<close>

text \<open>
  \<open>\bRETURN\s+count\((?P<value>\*|[A-Za-z_]\w*)\)\s+AS\s+count\s*$\<close> from a position on; the result
  is the captured value. Each item starts with a character the item before it cannot take, so
  matching from the left needs no backtracking.
\<close>

definition count_value :: "string \<Rightarrow> (string \<times> string) option" where
  "count_value s =
     (if s = [] then None
      else if hd s = CHR ''*'' then Some (''*'', tl s)
      else if word_start (hd s) then Some (takeWhile word_char s, dropWhile word_char s)
      else None)"

definition count_return :: "string \<Rightarrow> string option" where
  "count_return s =
     (case re_match [RE_lit ''RETURN'', RE_ws1, RE_lit ''count(''] Map.empty s of
        None \<Rightarrow> None
      | Some (_, t) \<Rightarrow>
          (case count_value t of
             None \<Rightarrow> None
           | Some (v, u) \<Rightarrow>
               (case re_match [RE_lit '')'', RE_ws1, RE_lit ''AS'', RE_ws1, RE_lit ''count'', RE_ws0] Map.empty u of
                  Some (_, []) \<Rightarrow> Some v
                | _ \<Rightarrow> None)))"

text \<open>\<open>re.subn\<close> with \<open>count=1\<close>: the first match, which reaches to the end, is replaced.\<close>

fun sub_count_return :: "bool \<Rightarrow> string \<Rightarrow> string option" where
  "sub_count_return prev [] = None"
| "sub_count_return prev (c # s) =
     (case (if prev then None else count_return (c # s)) of
        Some v \<Rightarrow> Some (''WITH count('' @ v @ '') AS __journal_count'')
      | None \<Rightarrow> map_option (Cons c) (sub_count_return (word_char c) s))"

definition receipt_tail :: string where
  "receipt_tail =
     '' MERGE (receipt:GraphWriteReceipt {id: $__journal_job_id}) '' @
     ''SET receipt.operation_key = $__journal_operation_key, receipt.row_count = __journal_count, '' @
     ''receipt.artifact_sha256 = $__journal_artifact_sha256, receipt.run_id = $__journal_run_id, '' @
     ''receipt.generation = $__journal_generation, receipt.applied_at = datetime() '' @
     ''RETURN __journal_count AS count''"

text \<open>\<open>query.strip().rstrip(";")\<close>.\<close>

definition clean_query :: "string \<Rightarrow> string" where
  "clean_query q = rev (dropWhile (\<lambda>c. c = CHR '';'') (rev (strip q)))"

definition receipt_of_count :: "string \<Rightarrow> exc + string" where
  "receipt_of_count q =
     (case sub_count_return False (clean_query q) of
        None \<Rightarrow> Inl (JournalError InvalidContract)
      | Some source \<Rightarrow> Inr (source @ receipt_tail))"

definition receipt_query :: "string \<Rightarrow> bool \<Rightarrow> exc + string" where
  "receipt_query q counts =
     (if counts then receipt_of_count q
      else if has_return (clean_query q) then Inl (JournalError InvalidContract)
      else receipt_of_count (clean_query q @ '' RETURN count(*) AS count''))"

section \<open>The guarded driver call\<close>

type_synonym mutation_context = "(string \<times> string \<times> string \<times> string \<times> string) option"

definition journaled_mutation :: "string option \<Rightarrow> string \<Rightarrow> string \<Rightarrow> string \<Rightarrow> string \<Rightarrow> mutation_context" where
  "journaled_mutation job key sha rid gen = Some (if given job then the job else ''schema'', key, sha, rid, gen)"

record graph_call =
  gc_query :: string
  gc_args :: "json list"
  gc_kwargs :: dict

text \<open>\<open>dict(value or {})\<close> of a JSON value, and \<open>len(value)\<close>.\<close>

definition as_parameters :: "json \<Rightarrow> exc + dict" where
  "as_parameters v = (if \<not> json_truthy v then Inr [] else case v of JObj d \<Rightarrow> Inr d | _ \<Rightarrow> Inl TypeError)"

definition py_len :: "json \<Rightarrow> exc + int" where
  "py_len v = (case v of JArr xs \<Rightarrow> Inr (int (length xs)) | JObj d \<Rightarrow> Inr (int (length d)) | JStr s \<Rightarrow> Inr (int (length s))
     | _ \<Rightarrow> Inl TypeError)"

definition stamp_parameters :: "string \<times> string \<times> string \<times> string \<times> string \<Rightarrow> dict \<Rightarrow> exc + dict" where
  "stamp_parameters = (\<lambda>(job, key, sha, rid, gen) d.
     rbind (py_len (dict_get_default d ''rows'' (JArr []))) (\<lambda>n.
     let supplied = dict_get d ''__journal_operation_key'';
         d1 = dict_pop ''__journal_operation_key'' (dict_set ''__journal_job_id'' (JStr job) d)
     in case supplied of
          JArr _ \<Rightarrow> Inl TypeError
        | JObj _ \<Rightarrow> Inl TypeError
        | _ \<Rightarrow>
            if supplied \<noteq> JNull \<and> supplied \<noteq> JStr key then Inl (JournalError InvalidContract)
            else Inr (fold (\<lambda>(k, v). dict_set k v)
              [(''__journal_operation_key'', JStr key), (''__journal_expected_count'', JInt (if n = 0 then 1 else n)),
               (''__journal_artifact_sha256'', JStr sha), (''__journal_run_id'', JStr rid), (''__journal_generation'', JStr gen)] d1)))"

definition guarded :: "mutation_context \<Rightarrow> graph_call \<Rightarrow> exc + graph_call" where
  "guarded ctx call =
     (if \<not> is_mutation (gc_query call) then Inr call
      else case ctx of
        None \<Rightarrow> Inl (JournalError InvalidContract)
      | Some m \<Rightarrow>
          if fst m = ''schema'' then Inr call
          else
            rbind (as_parameters (case gc_args call of p # _ \<Rightarrow> p | [] \<Rightarrow> dict_get (gc_kwargs call) ''parameters'')) (\<lambda>d.
            rbind (stamp_parameters m d) (\<lambda>d'.
            rbind (receipt_query (gc_query call) (returns_count (gc_query call))) (\<lambda>q.
            Inr (case gc_args call of
                   _ # rest \<Rightarrow> call\<lparr>gc_query := q, gc_args := JObj d' # rest\<rparr>
                 | [] \<Rightarrow> call\<lparr>gc_query := q, gc_kwargs := dict_set ''parameters'' (JObj d') (gc_kwargs call)\<rparr>)))))"

section \<open>The patterns in terms of words\<close>

lemma words_from_eq:
  "words_from acc s =
     (if acc @ takeWhile word_char s = [] then [] else [acc @ takeWhile word_char s]) @
     (case dropWhile word_char s of [] \<Rightarrow> [] | c # t \<Rightarrow> words_from [] t)"
  by (induction acc s rule: words_from.induct) auto

lemma search_in_word:
  assumes "\<And>s. \<not> p True s"
  shows "search p True s = (case dropWhile word_char s of [] \<Rightarrow> False | c # t \<Rightarrow> search p False t)"
  using assms by (induction s) auto

lemma keyword_here_iff:
  assumes "kw \<noteq> []" "list_all word_char kw"
  shows "keyword_here kw False s \<longleftrightarrow> casefold (takeWhile word_char s) = kw"
proof -
  have fold: "word_char (fold_char c) = word_char c" for c
    by (auto simp: word_char_def word_start_def is_digit_def fold_char_def Let_def)
  have "startswith (casefold s) kw \<and> \<not> word_next (drop (length kw) s) \<longleftrightarrow> casefold (takeWhile word_char s) = kw"
    using assms(2)
  proof (induction kw arbitrary: s)
    case Nil
    then show ?case by (cases s) (auto simp: startswith_def word_next_def casefold_def)
  next
    case (Cons k kw)
    then show ?case
    proof (cases s)
      case (Cons c t)
      then show ?thesis using Cons.IH[of t] Cons.prems fold[of c]
        by (cases "word_char c") (auto simp: startswith_def casefold_def)
    qed (auto simp: startswith_def casefold_def)
  qed
  then show ?thesis by (simp add: keyword_here_def)
qed

lemma search_keywords_words:
  assumes "list_all (\<lambda>kw. kw \<noteq> [] \<and> list_all word_char kw) kws"
  shows "search (\<lambda>prev s. \<exists>kw \<in> set kws. keyword_here kw prev s) False s \<longleftrightarrow> (\<exists>w \<in> set (words s). casefold w \<in> set kws)"
proof (induction s rule: length_induct)
  case (1 s)
  let ?p = "\<lambda>prev s. \<exists>kw \<in> set kws. keyword_here kw prev s"
  have np: "\<not> ?p True t" for t by (simp add: keyword_here_def)
  have p: "?p False t \<longleftrightarrow> casefold (takeWhile word_char t) \<in> set kws" for t
    using assms by (auto simp: keyword_here_iff list_all_iff)
  have ne: "casefold [] \<notin> set kws" using assms by (auto simp: list_all_iff casefold_def)
  have cont: "search ?p False s \<longleftrightarrow> ?p False s \<or> (case dropWhile word_char s of [] \<Rightarrow> False | c # t \<Rightarrow> search ?p False t)"
    using search_in_word[of ?p "tl s", OF np] by (cases s) auto
  have ws: "set (words s) = (if takeWhile word_char s = [] then {} else {takeWhile word_char s}) \<union>
      (case dropWhile word_char s of [] \<Rightarrow> {} | c # t \<Rightarrow> set (words t))"
    unfolding words_def words_from_eq[of "[]" s]
    by (cases "dropWhile word_char s") (simp_all only: list.case append_Nil append_Nil2 set_append list.set Un_empty_right if_distrib[of set] split: if_split)
  have first: "?p False s \<longleftrightarrow> (\<exists>w \<in> (if takeWhile word_char s = [] then {} else {takeWhile word_char s}). casefold w \<in> set kws)"
    unfolding p using ne by auto
  show ?case
  proof (cases "dropWhile word_char s")
    case Nil
    show ?thesis unfolding cont first ws Nil list.case by blast
  next
    case (Cons c t)
    then have "length t < length s" by (metis length_dropWhile_le length_Cons Suc_le_eq)
    then have "search ?p False t \<longleftrightarrow> (\<exists>w \<in> set (words t). casefold w \<in> set kws)" using 1 by blast
    then show ?thesis unfolding cont first ws Cons list.case by blast
  qed
qed

lemma is_mutation_mutates: "is_mutation q \<longleftrightarrow> mutates q"
proof -
  have "list_all (\<lambda>kw. kw \<noteq> [] \<and> list_all word_char kw) mutation_keywords" by code_simp
  then show ?thesis
    unfolding is_mutation_def mutates_def using search_keywords_words by (simp add: list_ex_iff mutation_word_def)
qed

section \<open>Compiled mutations pass the guard\<close>

definition parens :: "string \<Rightarrow> nat" where
  "parens s = length (filter (\<lambda>c. c = CHR ''('') s)"

lemma parens_simps [simp]: "parens [] = 0" "parens (c # s) = (if c = CHR ''('' then Suc (parens s) else parens s)"
  "parens (s @ t) = parens s + parens t"
  by (simp_all add: parens_def)

lemma parens_blank: "list_all py_isspace s \<Longrightarrow> parens s = 0"
  by (auto simp: parens_def filter_empty_conv list_all_iff py_isspace_def)

lemma parens_lstrip [simp]: "parens (lstrip s) = parens s"
proof -
  have "parens s = parens (takeWhile py_isspace s) + parens (dropWhile py_isspace s)"
    by (metis parens_simps(3) takeWhile_dropWhile_id)
  then show ?thesis using parens_blank[of "takeWhile py_isspace s"] by (auto simp: lstrip_def list_all_iff dest: set_takeWhileD)
qed

lemma parens_word: "list_all word_char s \<Longrightarrow> parens s = 0"
  by (auto simp: parens_def filter_empty_conv list_all_iff word_char_def word_start_def is_digit_def)

lemma parens_dropWhile_word [simp]: "parens (dropWhile word_char s) = parens s"
proof -
  have "parens s = parens (takeWhile word_char s) + parens (dropWhile word_char s)"
    by (metis parens_simps(3) takeWhile_dropWhile_id)
  then show ?thesis using parens_word[of "takeWhile word_char s"] by (auto simp: list_all_iff dest: set_takeWhileD)
qed

lemma parens_casefold [simp]: "parens (casefold s) = parens s"
  by (induction s) (auto simp: casefold_def fold_char_def chr_eq_iff)

lemma parens_lit: "startswith (casefold s) (casefold l) \<Longrightarrow> parens s = parens l + parens (drop (length l) s)"
proof -
  assume "startswith (casefold s) (casefold l)"
  then have "casefold (take (length l) s) = casefold l" by (simp add: startswith_def casefold_def take_map)
  then have "parens (take (length l) s) = parens l" by (metis parens_casefold)
  then show ?thesis by (metis append_take_drop_id parens_simps(3))
qed

fun simple_item :: "re_item \<Rightarrow> bool" where
  "simple_item (RE_word n) = False"
| "simple_item (RE_back n) = False"
| "simple_item item = True"

fun item_parens :: "re_item \<Rightarrow> nat" where
  "item_parens (RE_lit l) = parens l"
| "item_parens item = 0"

lemma re_match_parens:
  "re_match items caps s = Some (caps', t) \<Longrightarrow> list_all simple_item items \<Longrightarrow> parens s = sum_list (map item_parens items) + parens t"
  by (induction items caps s rule: re_match.induct) (auto simp: parens_lit split: if_splits)

lemma count_return_one_paren:
  assumes "count_return s = Some v"
  shows "parens s = 1"
proof -
  obtain caps t where t: "re_match [RE_lit ''RETURN'', RE_ws1, RE_lit ''count(''] Map.empty s = Some (caps, t)"
    using assms by (auto simp: count_return_def split: option.splits)
  obtain u where v: "count_value t = Some (v, u)"
    using assms t by (auto simp: count_return_def split: option.splits list.splits)
  obtain caps' where u: "re_match [RE_lit '')'', RE_ws1, RE_lit ''AS'', RE_ws1, RE_lit ''count'', RE_ws0] Map.empty u = Some (caps', [])"
    using assms t v by (auto simp: count_return_def split: option.splits list.splits)
  have "parens u = 0" using re_match_parens[OF u] by simp
  moreover have "parens t = parens u"
    using v by (cases t) (auto simp: count_value_def simp del: dropWhile.simps split: if_splits)
  ultimately show ?thesis using re_match_parens[OF t] by simp
qed

lemma sub_count_return_prefix:
  assumes "2 \<le> parens t" "t = c # t'"
  shows "sub_count_return prev (p @ t) =
    map_option ((@) p) (sub_count_return (if p = [] then prev else word_char (last p)) t)"
proof (induction p arbitrary: prev)
  case (Cons x p)
  have "count_return (x # p @ t) = None"
  proof (rule ccontr)
    assume "count_return (x # p @ t) \<noteq> None"
    then have "parens (x # p @ t) = 1" using count_return_one_paren by blast
    then show False using assms(1) by (auto split: if_splits)
  qed
  then show ?case using Cons.IH[of "word_char x"] by (simp add: option.map_comp o_def option.map_ident)
next
  case Nil
  have "(@) [] = (\<lambda>x. x)" by auto
  then show ?case by (simp add: option.map_ident)
qed

text \<open>The text from the last opening parenthesis before \<open>RETURN\<close> on, and the value counted.\<close>

definition counted_tails :: "(string \<times> string) list" where
  "counted_tails =
     [(''() '', ''n''), (''() '', ''r''), (''() '', ''edge''), (''(file) '', ''edge''), (''(row.props, {}) '', ''edge''),
      (''(row.properties, {}), r.project_id = row.project_id, r.project_id_normalized = row.project_id_normalized '', ''r''),
      (''(node IN nodes | DETACH DELETE node) '', ''*'')]"

abbreviation return_count :: "string \<Rightarrow> string" where
  "return_count v \<equiv> ''RETURN count('' @ v @ '') AS count''"

abbreviation with_count :: "string \<Rightarrow> string" where
  "with_count v \<equiv> ''WITH count('' @ v @ '') AS __journal_count''"

abbreviation count_search :: "bool \<Rightarrow> string \<Rightarrow> bool" where
  "count_search \<equiv> search (\<lambda>prev s. keyword_here ''return'' prev s \<and> search as_count_here True (drop 6 s))"

lemma startswith_Cons [simp]:
  "startswith (x # xs) (y # ys) \<longleftrightarrow> x = y \<and> startswith xs ys" "startswith xs []" "\<not> startswith [] (y # ys)"
  by (auto simp: startswith_def)

lemma casefold_simps [simp]: "casefold [] = []" "casefold (c # s) = fold_char c # casefold s"
  by (simp_all add: casefold_def)

lemma search_append: "search p (if xs = [] then prev else word_char (last xs)) s \<Longrightarrow> search p prev (xs @ s)"
proof (induction xs arbitrary: prev)
  case (Cons x xs)
  then show ?case by (cases xs) auto
qed simp

text \<open>A text without \<open>re\<close> has no \<open>RETURN\<close>.\<close>

fun no_re :: "string \<Rightarrow> bool" where
  "no_re (c # d # s) = (\<not> (fold_char c = CHR ''r'' \<and> fold_char d = CHR ''e'') \<and> no_re (d # s))"
| "no_re s = True"

lemma fold_RE: "fold_char CHR ''R'' = CHR ''r''" "fold_char CHR ''E'' = CHR ''e''"
  by code_simp+

lemma count_return_re:
  "fold_char c \<noteq> CHR ''r'' \<Longrightarrow> count_return (c # s) = None"
  "fold_char d \<noteq> CHR ''e'' \<Longrightarrow> count_return (c # d # s) = None"
  by (simp_all add: count_return_def fold_RE)

lemma sub_count_return_no_re:
  assumes "no_re (xs @ [CHR '' ''])"
  shows "sub_count_return prev (xs @ CHR '' '' # s) = map_option (\<lambda>r. xs @ CHR '' '' # r) (sub_count_return False s)"
  using assms
proof (induction xs arbitrary: prev)
  case Nil
  have "fold_char CHR '' '' \<noteq> CHR ''r''" "\<not> word_char CHR '' ''" by code_simp+
  then show ?case by (simp add: count_return_re)
next
  case (Cons c xs)
  have "fold_char CHR '' '' \<noteq> CHR ''e''" by code_simp
  then have "count_return (c # xs @ CHR '' '' # s) = None" "no_re (xs @ [CHR '' ''])"
    using Cons.prems by (cases xs; auto simp: count_return_re dest: count_return_re)+
  then show ?case using Cons.IH by (simp add: option.map_comp o_def)
qed

definition counted_value :: "string \<Rightarrow> bool" where
  "counted_value v \<longleftrightarrow> v = ''*'' \<or> cypher_identifier v"

lemma count_value_append:
  assumes "counted_value v"
  shows "count_value (v @ CHR '')'' # s) = Some (v, CHR '')'' # s)"
proof (cases "v = ''*''")
  case False
  then have v: "cypher_identifier v" "list_all word_char v"
    using assms cypher_identifier_word_chars by (auto simp: counted_value_def)
  obtain c w where cw: "v = c # w" "word_start c" using v(1) by (cases v) (auto simp: cypher_identifier_def)
  have "c \<noteq> CHR ''*''" "\<not> word_char CHR '')''" using cw(2) by (auto simp: word_start_def word_class_bits)
  then show ?thesis using v(2) cw by (auto simp: count_value_def list_all_iff takeWhile_append dropWhile_append)
qed (simp add: count_value_def)

lemma count_return_return_count:
  assumes "counted_value v"
  shows "count_return (return_count v) = Some v"
  using count_value_append[OF assms, of "'' AS count''"]
  by (simp add: count_return_def lstrip_def py_isspace_def)

lemma count_search_return_count: "count_search False (return_count v)"
proof -
  have "keyword_here ''return'' False (return_count v)"
  proof -
    have "casefold ''RETURN'' = ''return''" "\<not> word_char CHR '' ''" by code_simp+
    then show ?thesis by (simp add: keyword_here_def word_next_def)
  qed
  moreover have "search as_count_here True (('' count('' @ v @ '') '') @ ''AS count'')"
  proof (rule search_append)
    have "as_count_here False ''AS count''"
      by (simp add: as_count_here_def word_next_def lstrip_def py_isspace_def)
    moreover have "\<not> word_char CHR '' ''" by code_simp
    ultimately show "search as_count_here (if '' count('' @ v @ '') '' = [] then True else word_char (last ('' count('' @ v @ '') ''))) ''AS count''"
      by simp
  qed
  ultimately show ?thesis by simp
qed

lemma counted_tails_ok:
  "list_all (\<lambda>(lit, v). no_re lit \<and> last lit = CHR '' '' \<and> lit \<noteq> [] \<and> counted_value v \<and> 2 \<le> parens (lit @ return_count v)) counted_tails"
  by code_simp

lemma counted_tails_match:
  assumes "(lit, v) \<in> set counted_tails"
  shows "2 \<le> parens (lit @ return_count v)" "lit \<noteq> []"
    "sub_count_return prev (lit @ return_count v) = Some (lit @ with_count v)"
    "count_search prev (lit @ return_count v)"
proof -
  have ok: "no_re lit" "last lit = CHR '' ''" "lit \<noteq> []" "counted_value v" "2 \<le> parens (lit @ return_count v)"
    using counted_tails_ok assms by (auto simp: list_all_iff)
  then show "2 \<le> parens (lit @ return_count v)" "lit \<noteq> []" by blast+
  obtain xs where xs: "lit = xs @ [CHR '' '']" using ok(2,3) by (metis append_butlast_last_id)
  have "sub_count_return False (return_count v) = Some (with_count v)"
    using count_return_return_count[OF ok(4)] by simp
  then show "sub_count_return prev (lit @ return_count v) = Some (lit @ with_count v)"
    using ok(1) sub_count_return_no_re[of xs prev "return_count v"] unfolding xs append_assoc by simp
  show "count_search prev (lit @ return_count v)"
  proof (rule search_append)
    have "\<not> word_char CHR '' ''" by code_simp
    then show "count_search (if lit = [] then prev else word_char (last lit)) (return_count v)"
      using ok(2,3) count_search_return_count[of v] by simp
  qed
qed

lemma clean_query_id:
  assumes "s \<noteq> []" "\<not> py_isspace (hd s)" "\<not> py_isspace (last s)" "last s \<noteq> CHR '';''"
  shows "clean_query s = s"
proof -
  have "lstrip s = s" using assms(1,2) by (cases s) (auto simp: lstrip_def)
  moreover have "rstrip s = s" using assms(1,3) by (cases s rule: rev_cases) (auto simp: rstrip_def)
  moreover have "rev (dropWhile (\<lambda>c. c = CHR '';'') (rev s)) = s" using assms(1,4) by (cases s rule: rev_cases) auto
  ultimately show ?thesis by (simp add: clean_query_def strip_def)
qed

lemma receipt_query_counted:
  assumes "(lit, v) \<in> set counted_tails" "pre \<noteq> []" "\<not> py_isspace (hd pre)" "q = pre @ lit @ return_count v"
  shows "returns_count q" "receipt_query q (returns_count q) = Inr (pre @ lit @ with_count v @ receipt_tail)"
proof -
  let ?t = "lit @ return_count v"
  note t = counted_tails_match[OF assms(1)]
  obtain c t' where ct: "?t = c # t'" using t(2) by (cases lit) auto
  show r: "returns_count q"
    unfolding returns_count_def assms(4) by (rule search_append) (rule t(4))
  have "clean_query q = q"
    unfolding assms(4) using assms(2,3) by (intro clean_query_id) (auto simp: py_isspace_def)
  moreover have "sub_count_return False q = Some (pre @ lit @ with_count v)"
    unfolding assms(4) sub_count_return_prefix[OF t(1) ct] t(3) by simp
  ultimately show "receipt_query q (returns_count q) = Inr (pre @ lit @ with_count v @ receipt_tail)"
    using r by (simp add: receipt_query_def receipt_of_count_def)
qed

definition counted :: "string \<Rightarrow> bool" where
  "counted q \<longleftrightarrow> (\<exists>pre lit v. (lit, v) \<in> set counted_tails \<and> pre \<noteq> [] \<and> \<not> py_isspace (hd pre) \<and> q = pre @ lit @ return_count v)"

lemma countedI:
  assumes "q = (CHR ''U'' # pre) @ lit @ return_count v" "(lit, v) \<in> set counted_tails"
  shows "counted q"
proof -
  have "\<not> py_isspace CHR ''U''" by code_simp
  then show ?thesis
    unfolding counted_def using assms by (intro exI[of _ "CHR ''U'' # pre"] exI[of _ lit] exI[of _ v] conjI) simp_all
qed

abbreviation endpoints :: "string \<Rightarrow> string \<Rightarrow> string \<Rightarrow> string \<Rightarrow> string" where
  "endpoints la pa lb pb \<equiv>
     ''NWIND $rows AS row MATCH '' @ endpoint_pattern ''a'' la pa ''source_id'' @ ''WITH row, a MATCH '' @
     endpoint_pattern ''b'' lb pb ''target_id''"

lemma counted_relationship: "counted (compile_relationship_upsert g)"
  by (rule countedI[of _ "endpoints (rg_source_label g) ''id'' (rg_target_label g) ''id'' @ ''MERGE (a)-[r:'' @ rg_relationship_type g @
        '']->(b) SET r += coalesce''"
        "''(row.properties, {}), r.project_id = row.project_id, r.project_id_normalized = row.project_id_normalized ''" "''r''"])
    (simp_all add: compile_relationship_upsert_def counted_tails_def)

lemma counted_evidence: "counted (compile_evidence_edge_upsert g)"
  by (rule countedI[of _ "endpoints (eg_source_label g) (eg_source_property g) (eg_target_label g) (eg_target_property g) @
        ''MERGE (a)'' @ evidence_edge_pattern g @ ''(b) SET r += coalesce(row.props, {}), r.project_id = row.project_id, r.updated_at = datetime''"
        "''() ''" "''r''"])
    (simp_all add: compile_evidence_edge_upsert_def counted_tails_def)

lemma counted_node: "compile_node_mutation g rows = Inr (q, ps) \<Longrightarrow> counted q"
  by (rule countedI[of _ "''NWIND $rows AS row '' @ (if mutation_kind g = ''merge'' then ''MERGE'' else ''MATCH'') @
        '' (n:'' @ the (node_label g) @ '' {'' @ the (identity_property g) @ '': row.'' @ row_identity_property g @ ''}) SET n += '' @
        (if given (row_properties_property g) then ''coalesce(row.'' @ the (row_properties_property g) @ '', {})'' else ''row'') @
        '', n.updated_at = datetime''" "''() ''" "''n''"])
    (auto simp: compile_node_mutation_def rbind_Inr_iff counted_tails_def split: if_splits)

lemma counted_call_site: "counted (call_site_mutation rel)"
  by (rule countedI[of _ "tl call_match @ ''MERGE (caller)-[edge:'' @ rel @ '' {site_id: row.site_id}]->(callee) SET edge += coalesce''"
        "''(row.props, {}) ''" "''edge''"])
    (simp_all add: call_site_mutation_def call_match_def counted_tails_def)

lemma counted_call_edge: "counted call_edge_mutation"
  by (rule countedI[of _ "tl call_match @ ''MERGE (caller)-[edge:CALLS]->(callee) SET edge.count = row.count, edge.call_type = row.call_type, '' @
        ''edge.project_id = row.project_id, edge.project_id_normalized = row.project_id_normalized, edge.updated_at = datetime''" "''() ''" "''edge''"])
    (simp_all add: call_edge_mutation_def call_match_def counted_tails_def)

lemma counted_repository_file: "counted repository_file_mutation"
  by (rule countedI[of _ "''NWIND $rows AS row MATCH '' @ endpoint_pattern ''repository'' ''Repository'' ''name'' ''repo'' @
        ''MATCH '' @ endpoint_pattern ''file'' ''File'' ''id'' ''id'' @ ''MERGE (repository)-[edge:HAS_FILE]->''" "''(file) ''" "''edge''"])
    (simp_all add: repository_file_mutation_def counted_tails_def)

lemma counted_cleanup: "counted (file_cleanup_mutation lab)" "counted orphan_cleanup_mutation"
proof -
  show "counted (file_cleanup_mutation lab)"
    by (rule countedI[of _ "''NWIND $rows AS row OPTIONAL MATCH (n:'' @ lab @ '') WHERE n.project_id = row.project_id '' @
        ''AND (coalesce(n.file_path, '' @ empty_text @ '') IN row.paths OR coalesce(n.path, '' @ empty_text @
        '') IN row.paths OR (n:File AND n.id IN row.paths)) WITH row, collect(DISTINCT n) AS nodes FOREACH ''"
        "''(node IN nodes | DETACH DELETE node) ''" "''*''"])
      (simp_all add: file_cleanup_mutation_def counted_tails_def)
  show "counted orphan_cleanup_mutation"
    by (rule countedI[of _ "''NWIND $rows AS row OPTIONAL MATCH (u:UnknownFunction) WHERE u.project_id = row.project_id '' @
        ''AND NOT ()-[:UNKNOWN_CALL]->(u) WITH row, collect(u) AS nodes FOREACH ''"
        "''(node IN nodes | DETACH DELETE node) ''" "''*''"])
      (simp_all add: orphan_cleanup_mutation_def counted_tails_def)
qed

lemma compiled_mutation_counted:
  assumes "compile_persisted_mutation g rows = Inr (q, ps)"
  shows "counted q"
proof (cases "reconciliation g = ''node_identity''")
  case True
  then show ?thesis using assms counted_node by (simp add: compile_persisted_mutation_def)
next
  case False
  then show ?thesis
    using assms counted_relationship counted_evidence counted_call_site counted_call_edge counted_repository_file counted_cleanup
    by (auto simp: compile_persisted_mutation_def Let_def rbind_Inr_iff split: if_splits)
qed

section \<open>Theorems\<close>

text \<open>The parameters a call hands to the driver.\<close>

definition call_parameters :: "graph_call \<Rightarrow> json" where
  "call_parameters call = (case gc_args call of p # _ \<Rightarrow> p | [] \<Rightarrow> dict_get (gc_kwargs call) ''parameters'')"

definition stamped :: "string \<times> string \<times> string \<times> string \<times> string \<Rightarrow> graph_call \<Rightarrow> bool" where
  "stamped = (\<lambda>(job, key, sha, rid, gen) call. endswith (gc_query call) receipt_tail \<and>
     (case call_parameters call of
        JObj d \<Rightarrow>
          map_of d ''__journal_job_id'' = Some (JStr job) \<and> map_of d ''__journal_operation_key'' = Some (JStr key) \<and>
          map_of d ''__journal_artifact_sha256'' = Some (JStr sha) \<and> map_of d ''__journal_run_id'' = Some (JStr rid) \<and>
          map_of d ''__journal_generation'' = Some (JStr gen)
      | _ \<Rightarrow> False))"

lemma stamp_parameters_Inr:
  assumes "stamp_parameters (job, key, sha, rid, gen) d = Inr d'"
  shows "map_of d' ''__journal_job_id'' = Some (JStr job)" "map_of d' ''__journal_operation_key'' = Some (JStr key)"
    "map_of d' ''__journal_artifact_sha256'' = Some (JStr sha)" "map_of d' ''__journal_run_id'' = Some (JStr rid)"
    "map_of d' ''__journal_generation'' = Some (JStr gen)" "map_of d' ''rows'' = map_of d ''rows''"
proof -
  let ?stamps = "\<lambda>n. [(''__journal_operation_key'', JStr key), (''__journal_expected_count'', JInt n),
    (''__journal_artifact_sha256'', JStr sha), (''__journal_run_id'', JStr rid), (''__journal_generation'', JStr gen)]"
  obtain n where "d' = fold (\<lambda>(k, v). dict_set k v) (?stamps n)
      (dict_pop ''__journal_operation_key'' (dict_set ''__journal_job_id'' (JStr job) d))"
    using assms unfolding stamp_parameters_def prod.case rbind_Inr_iff Let_def
    by (cases "dict_get d ''__journal_operation_key''") (simp_all split: if_split_asm, blast+)
  then show "map_of d' ''__journal_job_id'' = Some (JStr job)" "map_of d' ''__journal_operation_key'' = Some (JStr key)"
    "map_of d' ''__journal_artifact_sha256'' = Some (JStr sha)" "map_of d' ''__journal_run_id'' = Some (JStr rid)"
    "map_of d' ''__journal_generation'' = Some (JStr gen)" "map_of d' ''rows'' = map_of d ''rows''"
    by simp_all
qed

lemma receipt_query_tail: "receipt_query q counts = Inr q' \<Longrightarrow> endswith q' receipt_tail"
  by (auto simp: receipt_query_def receipt_of_count_def endswith_def split: if_splits option.splits)

lemma compiled_parameters: "compile_persisted_mutation g rows = Inr (q, ps) \<Longrightarrow> \<exists>rows'. ps = rows_parameter rows'"
  by (auto simp: compile_persisted_mutation_def compile_node_mutation_def Let_def rbind_Inr_iff split: if_splits)

lemma guarded_compiled:
  assumes "compile_persisted_mutation g rows = Inr (q, ps)" "job \<noteq> []" "job \<noteq> ''schema''"
  shows "\<exists>body v d. q = body @ return_count v \<and>
    guarded (journaled_mutation (Some job) key sha rid gen)
      \<lparr>gc_query = q, gc_args = [JObj (dict_set ''__journal_operation_key'' (JStr key) ps), db], gc_kwargs = []\<rparr> =
      Inr \<lparr>gc_query = body @ with_count v @ receipt_tail, gc_args = [JObj d, db], gc_kwargs = []\<rparr> \<and>
    map_of d ''rows'' = map_of ps ''rows''"
proof -
  let ?p = "dict_set ''__journal_operation_key'' (JStr key) ps" and ?m = "(job, key, sha, rid, gen)"
  obtain pre lit v where q: "(lit, v) \<in> set counted_tails" "pre \<noteq> []" "\<not> py_isspace (hd pre)" "q = pre @ lit @ return_count v"
    using compiled_mutation_counted[OF assms(1)] by (auto simp: counted_def)
  obtain rows' where ps: "ps = rows_parameter rows'" using compiled_parameters[OF assms(1)] by blast
  then have "\<exists>d. stamp_parameters ?m ?p = Inr d"
    by (simp add: stamp_parameters_def rows_parameter_def dict_get_default_def dict_get_def py_len_def Let_def)
  then obtain d where d: "stamp_parameters ?m ?p = Inr d" by blast
  have "as_parameters (JObj ?p) = Inr ?p"
    using ps by (simp add: as_parameters_def json_truthy_def rows_parameter_def)
  then have "guarded (journaled_mutation (Some job) key sha rid gen) \<lparr>gc_query = q, gc_args = [JObj ?p, db], gc_kwargs = []\<rparr> =
      Inr \<lparr>gc_query = (pre @ lit) @ with_count v @ receipt_tail, gc_args = [JObj d, db], gc_kwargs = []\<rparr>"
    using d assms(2,3) receipt_query_counted(2)[OF q] compiled_mutation_mutates[OF assms(1)]
    by (simp add: guarded_def is_mutation_mutates journaled_mutation_def given_def)
  moreover have "map_of d ''rows'' = map_of ps ''rows''" using stamp_parameters_Inr(6)[OF d] by simp
  ultimately show ?thesis using q(4) by (intro exI[of _ "pre @ lit"] exI[of _ v] exI[of _ d]) simp
qed

lemma guard_result:
  assumes "guarded ctx call = Inr call'"
  shows "(\<not> mutates (gc_query call) \<and> call' = call) \<or>
    (\<exists>m. ctx = Some m \<and> (if fst m = ''schema'' then call' = call else stamped m call'))"
proof (cases "mutates (gc_query call)")
  case True
  then obtain job key sha rid gen where m: "ctx = Some (job, key, sha, rid, gen)"
    using assms by (cases ctx) (auto simp: guarded_def is_mutation_mutates)
  show ?thesis
  proof (cases "job = ''schema''")
    case False
    then obtain d d' q where d: "stamp_parameters (job, key, sha, rid, gen) d = Inr d'"
      "receipt_query (gc_query call) (returns_count (gc_query call)) = Inr q"
      and call': "call' = (case gc_args call of
                   _ # rest \<Rightarrow> call\<lparr>gc_query := q, gc_args := JObj d' # rest\<rparr>
                 | [] \<Rightarrow> call\<lparr>gc_query := q, gc_kwargs := dict_set ''parameters'' (JObj d') (gc_kwargs call)\<rparr>)"
      using assms True m by (auto simp: guarded_def is_mutation_mutates rbind_Inr_iff)
    then have "call_parameters call' = JObj d'" "gc_query call' = q"
      by (auto simp: call_parameters_def dict_get_def split: list.splits)
    then have "stamped (job, key, sha, rid, gen) call'"
      using stamp_parameters_Inr[OF d(1)] receipt_query_tail[OF d(2)] by (simp add: stamped_def)
    then show ?thesis using m False by auto
  qed (use assms True m in \<open>auto simp: guarded_def is_mutation_mutates\<close>)
qed (use assms in \<open>auto simp: guarded_def is_mutation_mutates\<close>)

text \<open>
  C34. No mutation escapes the journal. A call that passes the guard either does not mutate and is
  passed on as it is, or was made under the schema context, or was made inside a journaled
  operation and then reaches the driver with the receipt clause appended and the job, operation,
  payload, run and generation of that operation bound.
\<close>

theorem guard_stamps_mutations:
  assumes "guarded ctx call = Inr call'"
  shows "(\<not> mutates (gc_query call) \<and> call' = call) \<or>
    (\<exists>m. ctx = Some m \<and> (if fst m = ''schema'' then call' = call else stamped m call'))"
  by (rule guard_result[OF assms])

definition calls_operation :: graph_write_operation where
  "calls_operation = (gwo_default ''calls'' PhaseCalls)\<lparr>reconciliation := ''call_edge''\<rparr>"

lemma compile_calls: "compile_persisted_mutation calls_operation rows = Inr (call_edge_mutation, rows_parameter rows)"
  by (simp add: compile_persisted_mutation_def calls_operation_def gwo_default_def)

abbreviation sample_call :: graph_call where
  "sample_call \<equiv> \<lparr>gc_query = call_edge_mutation,
     gc_args = [JObj (dict_set ''__journal_operation_key'' (JStr ''k'') (rows_parameter [])), JNull], gc_kwargs = []\<rparr>"

theorem guard_stamps_mutations_witness:
  "\<exists>call'. guarded (journaled_mutation (Some ''job_1'') ''k'' ''sha'' ''run'' ''gen'') sample_call = Inr call' \<and>
     stamped (''job_1'', ''k'', ''sha'', ''run'', ''gen'') call'"
proof -
  obtain call' where c: "guarded (journaled_mutation (Some ''job_1'') ''k'' ''sha'' ''run'' ''gen'') sample_call = Inr call'"
    using guarded_compiled[OF compile_calls[of "[]"], where job = "''job_1''" and key = "''k''" and sha = "''sha''" and rid = "''run''" and
      gen = "''gen''" and db = JNull] by auto
  have "mutates call_edge_mutation" by (rule mutates_constants)
  then show ?thesis
    using guard_stamps_mutations[OF c] c by (auto simp: journaled_mutation_def given_def)
qed

text \<open>
  C35. Replayed work passes the guard. Whatever \<open>compile_persisted_mutation\<close> returns is recognised
  as a mutation and accepted inside a journaled operation with the same operation key: its final
  \<open>RETURN\<close> becomes the count the receipt stores, everything before it is kept, and the rows are
  passed on.
\<close>

theorem guard_accepts_compiled:
  assumes "compile_persisted_mutation g rows = Inr (q, ps)" "job \<noteq> []" "job \<noteq> ''schema''"
  shows "\<exists>body v d. q = body @ return_count v \<and>
    guarded (journaled_mutation (Some job) key sha rid gen)
      \<lparr>gc_query = q, gc_args = [JObj (dict_set ''__journal_operation_key'' (JStr key) ps), db], gc_kwargs = []\<rparr> =
      Inr \<lparr>gc_query = body @ with_count v @ receipt_tail, gc_args = [JObj d, db], gc_kwargs = []\<rparr> \<and>
    map_of d ''rows'' = map_of ps ''rows''"
  by (rule guarded_compiled[OF assms])

theorem guard_accepts_compiled_witness:
  "\<exists>body v d. call_edge_mutation = body @ return_count v \<and>
     guarded (journaled_mutation (Some ''job_1'') ''k'' ''sha'' ''run'' ''gen'') sample_call =
       Inr \<lparr>gc_query = body @ with_count v @ receipt_tail, gc_args = [JObj d, JNull], gc_kwargs = []\<rparr>"
  using guard_accepts_compiled[OF compile_calls[of "[]"], where job = "''job_1''" and key = "''k''" and sha = "''sha''" and rid = "''run''" and
      gen = "''gen''" and db = JNull] by auto

end
