(* ===== verification/Journal_Consumer.thy ===== *)
theory Journal_Consumer
  imports Journal_Runtime Journal_Guard
begin

text \<open>
  \<open>journal/consumer.py\<close>: the autonomous consumer, which drains a run from its persisted
  descriptors and payloads alone. The graph driver is an argument: it answers a call from the
  state of the graph and may change it; that state is the process part of the world. Every call
  passes the write guard the consumer installs. Interrupts that are not exceptions are not
  modelled, and elapsed times are read from the same clock as the rest.
\<close>

section \<open>The consumer\<close>

record 'g graph_driver =
  gd_database :: "string option"
  gd_execute :: "graph_call \<Rightarrow> 'g \<Rightarrow> (exc + dict list) \<times> 'g"
  gd_ensure_schema :: "('g \<Rightarrow> (exc + string option) \<times> 'g) option"

record consumer =
  cn_config :: journal_config
  cn_run_id :: string

definition execute_query ::
  "'g graph_driver \<Rightarrow> mutation_context \<Rightarrow> string \<Rightarrow> dict \<Rightarrow> ('g, dict list) prog" where
  "execute_query drv ctx q params w =
     (case guarded ctx \<lparr>gc_query = q, gc_args = [JObj params, json_opt (gd_database drv)], gc_kwargs = []\<rparr> of
        Inl x \<Rightarrow> (Inl x, w)
      | Inr c \<Rightarrow> (case gd_execute drv c (w_process w) of (r, g) \<Rightarrow> (r, w\<lparr>w_process := g\<rparr>)))"

definition consumer_init :: "host \<Rightarrow> journal_config \<Rightarrow> bool \<Rightarrow> ('g, consumer) prog" where
  "consumer_init hs cfg schema_ready =
     (if \<not> cfg_required cfg then raise ValueError
      else if \<not> schema_ready then raise (JournalError InvalidTransition)
      else
        let rid = run_id (ho_sha hs) (cfg_metadata cfg) in
        seq (look (get_run rid)) (\<lambda>run.
        if run = None then raise (JournalError InvalidTransition)
        else seq (call hs (\<lambda>e. recover_run_leases_as_ambiguous e rid)) (\<lambda>_.
             ret \<lparr>cn_config = cfg, cn_run_id = rid\<rparr>)))"

text \<open>\<open>_load\<close>: the descriptor and the rows of a batch, checked against it.\<close>

definition object_of :: "json \<Rightarrow> exc + dict" where
  "object_of v = (case v of JObj d \<Rightarrow> Inr d | _ \<Rightarrow> Inl ValueError)"

definition load_batch ::
  "(string \<Rightarrow> string) \<Rightarrow> artifact_store \<Rightarrow> batch_record \<Rightarrow> exc + graph_write_operation \<times> dict list" where
  "load_batch h st b =
     (case rbind (gwo_from_dict (b_operation b)) (\<lambda>g.
           if operation_key g \<noteq> b_operation_key b then Inl ValueError
           else rbind (read_jsonl h st (b_artifact b)) (\<lambda>raw.
                rbind (rmap object_of raw) (\<lambda>rows. Inr (g, rows)))) of
        Inl x \<Rightarrow> Inl (if x \<in> {KeyError, TypeError, ValueError} then JournalError InvalidContract else x)
      | Inr (g, rows) \<Rightarrow>
          if int (length rows) \<noteq> b_expected_count b then Inl (JournalError ArtifactHashMismatch) else Inr (g, rows))"

definition load :: "host \<Rightarrow> batch_record \<Rightarrow> ('g, graph_write_operation \<times> dict list) prog" where
  "load hs b w = (load_batch (ho_sha hs) (w_store w) b, w)"

definition block :: "host \<Rightarrow> batch_record \<Rightarrow> retry_class \<Rightarrow> terminal_error_code \<Rightarrow> exc \<Rightarrow> ('g, 'a) prog" where
  "block hs b rc code x =
     seq (call hs (\<lambda>e. block_batch e (b_job_id b) (the (b_fencing_token b)) rc code)) (\<lambda>_. raise x)"

section \<open>Reconciling\<close>

definition compile_readback :: "host \<Rightarrow> consumer \<Rightarrow> batch_record \<Rightarrow> ('g, cypher) prog" where
  "compile_readback hs cn b =
     catch
       (seq (load hs b) (\<lambda>(g, rows).
        seq (lift (compile_reconciliation_readback g rows (Some (b_job_id b)) (sha256 (b_artifact b)) (b_run_id b)
               (generation (cfg_metadata (cn_config cn))))) (\<lambda>q.
        case q of None \<Rightarrow> raise (JournalError InvalidContract) | Some c \<Rightarrow> ret c)))
       (\<lambda>x. case x of
          JournalError c \<Rightarrow> block hs b (classify_error x) c x
        | _ \<Rightarrow> if x \<in> {AssertionError, TypeError, ValueError}
               then block hs b Incompatible InvalidContract (JournalError InvalidContract) else raise x)"

definition read_receipts :: "host \<Rightarrow> consumer \<Rightarrow> 'g graph_driver \<Rightarrow> batch_record \<Rightarrow> cypher \<Rightarrow> ('g, dict list) prog" where
  "read_receipts hs cn drv b c =
     catch (execute_query drv None (fst c) (snd c))
       (\<lambda>x. if classify_error x = Transient
          then seq (retry_at hs (b_attempt b) (cfg_retry_base_seconds (cn_config cn)) (cfg_retry_max_seconds (cn_config cn))) (\<lambda>t.
               seq (call hs (\<lambda>e. schedule_reconciliation_retry e (b_job_id b) (the (b_fencing_token b)) t InvalidTransition)) (\<lambda>_.
               raise x))
          else block hs b (classify_error x) InvalidContract x)"

definition count_receipts :: "host \<Rightarrow> batch_record \<Rightarrow> dict list \<Rightarrow> ('g, int) prog" where
  "count_receipts hs b records =
     catch (lift (readback_count records))
       (\<lambda>x. if x \<in> {TypeError, ValueError}
          then block hs b Integrity InvalidContract (JournalError InvalidContract) else raise x)"

definition settle_ambiguous :: "host \<Rightarrow> batch_record \<Rightarrow> int \<Rightarrow> ('g, unit) prog" where
  "settle_ambiguous hs b n =
     (let job = b_job_id b; token = the (b_fencing_token b) in
      if n = 1 then seq (call hs (\<lambda>e. ack_batch e job token None)) (\<lambda>_. ret ())
      else if n \<noteq> 0 then block hs b Integrity InvalidContract (JournalError InvalidContract)
      else seq (clock hs) (\<lambda>now.
           seq (call hs (\<lambda>e. schedule_retry e job token now Ambiguous InvalidTransition)) (\<lambda>_. ret ())))"

definition reconcile_one :: "host \<Rightarrow> consumer \<Rightarrow> 'g graph_driver \<Rightarrow> batch_record \<Rightarrow> ('g, unit) prog" where
  "reconcile_one hs cn drv b =
     (if \<not> given (b_fencing_token b) then raise AssertionError
      else
        seq (compile_readback hs cn b) (\<lambda>c.
        seq (read_receipts hs cn drv b c) (\<lambda>records.
        seq (count_receipts hs b records) (settle_ambiguous hs b))))"

section \<open>Executing\<close>

definition compile_mutation :: "host \<Rightarrow> batch_record \<Rightarrow> ('g, graph_write_operation \<times> cypher) prog" where
  "compile_mutation hs b =
     catch
       (seq (load hs b) (\<lambda>(g, rows). seq (lift (compile_persisted_mutation g rows)) (\<lambda>c. ret (g, c))))
       (\<lambda>x. case x of JournalError c \<Rightarrow> block hs b Incompatible c x | _ \<Rightarrow> raise x)"

definition mutate :: "consumer \<Rightarrow> 'g graph_driver \<Rightarrow> batch_record \<Rightarrow> graph_write_operation \<Rightarrow> cypher \<Rightarrow> ('g, dict list) prog" where
  "mutate cn drv b g c =
     execute_query drv
       (journaled_mutation (Some (b_job_id b)) (operation_key g) (sha256 (b_artifact b)) (b_run_id b)
          (generation (cfg_metadata (cn_config cn))))
       (fst c) (dict_set ''__journal_operation_key'' (JStr (operation_key g)) (snd c))"

definition confirm :: "host \<Rightarrow> batch_record \<Rightarrow> int \<Rightarrow> dict list \<Rightarrow> ('g, unit) prog" where
  "confirm hs b started records =
     seq (lift (result_count records)) (\<lambda>n.
     if n \<noteq> b_expected_count b then block hs b Integrity InvalidContract (JournalError InvalidContract)
     else
       seq (clock hs) (\<lambda>now.
       seq (call hs (\<lambda>e. ack_batch e (b_job_id b) (the (b_fencing_token b)) (Some ((now - started) div 1000)))) (\<lambda>_.
       ret ())))"

definition execute_one :: "host \<Rightarrow> consumer \<Rightarrow> 'g graph_driver \<Rightarrow> batch_record \<Rightarrow> ('g, unit) prog" where
  "execute_one hs cn drv b =
     (if \<not> given (b_fencing_token b) then raise AssertionError
      else
        seq (compile_mutation hs b) (\<lambda>(g, c).
        seq (clock hs) (\<lambda>started.
        catch (seq (mutate cn drv b g c) (confirm hs b started))
          (\<lambda>x. case x of
             JournalError _ \<Rightarrow> raise x
           | _ \<Rightarrow> seq (call hs (\<lambda>e. mark_reconciling e (b_job_id b) (the (b_fencing_token b)) (Some InvalidTransition))) (\<lambda>_.
                  raise x)))))"

section \<open>The endpoint audit\<close>

fun audit_batches :: "host \<Rightarrow> 'g graph_driver \<Rightarrow> batch_record list \<Rightarrow> int \<Rightarrow> ('g, int) prog" where
  "audit_batches hs drv [] n = ret n"
| "audit_batches hs drv (b # bs) n =
     (if b_phase b \<notin> {PhaseRelationships, PhaseCalls} then audit_batches hs drv bs n
      else
        seq (load hs b) (\<lambda>(g, rows).
        seq (lift (compile_endpoint_audit g rows)) (\<lambda>audit.
        case audit of
          None \<Rightarrow> audit_batches hs drv bs n
        | Some c \<Rightarrow>
            seq (execute_query drv None (fst c) (snd c)) (\<lambda>records.
            if records \<noteq> [] then raise (JournalError InvalidContract)
            else audit_batches hs drv bs (n + int (length rows))))))"

definition seal_endpoint_audit_if_ready :: "host \<Rightarrow> consumer \<Rightarrow> 'g graph_driver \<Rightarrow> ('g, unit) prog" where
  "seal_endpoint_audit_if_ready hs cn drv =
     (let rid = cn_run_id cn;
          close = seq (call hs (\<lambda>e. close_barrier e rid endpoint_audit_barrier)) (\<lambda>_. ret ())
      in if query_shape_version (cfg_metadata (cn_config cn)) \<noteq> node_first_query_shape then ret ()
         else
           seq (look (endpoint_audit_status (ho_sha hs) rid)) (\<lambda>status.
           seq (lift status) (\<lambda>audit.
           if audit = Some Sealed then close
           else
             seq (look (get_barrier rid node_phase_barrier)) (\<lambda>nodes.
             if nodes = None \<or> bar_status (the nodes) \<noteq> BarrierDrained then ret ()
             else
               seq (look (list_batches rid)) (\<lambda>bs.
               seq (audit_batches hs drv bs 0) (\<lambda>n.
               seq (call hs (\<lambda>e. seal_endpoint_audit e rid None None (Some n))) (\<lambda>_. close)))))))"

section \<open>Draining\<close>

definition execute_pending :: "host \<Rightarrow> consumer \<Rightarrow> 'g graph_driver \<Rightarrow> ('g, bool) prog \<Rightarrow> ('g, bool) prog" where
  "execute_pending hs cn drv otherwise =
     seq (call hs (\<lambda>e. claim_batch e (Some (cn_run_id cn)) (cfg_lease_seconds (cn_config cn)))) (\<lambda>pending.
     case pending of
       Some b \<Rightarrow> seq (execute_one hs cn drv b) (\<lambda>_. ret True)
     | None \<Rightarrow> otherwise)"

text \<open>One round of the loop: true to go on, false to return.\<close>

definition drain_round :: "host \<Rightarrow> consumer \<Rightarrow> 'g graph_driver \<Rightarrow> ('g, bool) prog" where
  "drain_round hs cn drv =
     seq (call hs (\<lambda>e. claim_reconciling e (Some (cn_run_id cn)) (cfg_lease_seconds (cn_config cn)))) (\<lambda>ambiguous.
     case ambiguous of
       Some b \<Rightarrow> seq (reconcile_one hs cn drv b) (\<lambda>_. ret True)
     | None \<Rightarrow>
         execute_pending hs cn drv
           (seq (seal_endpoint_audit_if_ready hs cn drv) (\<lambda>_. execute_pending hs cn drv (ret False))))"

text \<open>
  A loop that counts its rounds, with fuel: \<open>None\<close> says that the fuel ran out. The locale gives its
  termination from a weight that every completed round lowers.
\<close>

fun repeat_rounds :: "nat \<Rightarrow> ('s \<Rightarrow> (exc + bool) \<times> 's) \<Rightarrow> nat \<Rightarrow> 's \<Rightarrow> ((exc + nat) \<times> 's) option" where
  "repeat_rounds 0 body n s = None"
| "repeat_rounds (Suc fuel) body n s =
     (case body s of
        (Inl x, s') \<Rightarrow> Some (Inl x, s')
      | (Inr False, s') \<Rightarrow> Some (Inr n, s')
      | (Inr True, s') \<Rightarrow> repeat_rounds fuel body (Suc n) s')"

definition drain :: "nat \<Rightarrow> host \<Rightarrow> consumer \<Rightarrow> 'g graph_driver \<Rightarrow> 'g world \<Rightarrow> ((exc + nat) \<times> 'g world) option" where
  "drain fuel hs cn drv w =
     (case seal_endpoint_audit_if_ready hs cn drv w of
        (Inl x, w') \<Rightarrow> Some (Inl x, w')
      | (Inr _, w') \<Rightarrow> repeat_rounds fuel (drain_round hs cn drv) 0 w')"

section \<open>Resuming\<close>

definition ensure_recovery_schema :: "host \<Rightarrow> journal_config \<Rightarrow> 'g graph_driver \<Rightarrow> ('g, unit) prog" where
  "ensure_recovery_schema hs cfg drv w =
     (let expected = schema_fingerprint_of (ho_sha hs) code_graph_schema in
      if schema_fingerprint (cfg_metadata cfg) \<noteq> expected then (Inl (JournalError IncompatibleSchema), w)
      else case gd_ensure_schema drv of
        None \<Rightarrow> (Inl (JournalError InvalidContract), w)
      | Some ensure \<Rightarrow>
          (case ensure (w_process w) of
             (Inl x, g) \<Rightarrow> (Inl x, w\<lparr>w_process := g\<rparr>)
           | (Inr actual, g) \<Rightarrow>
               if actual \<noteq> Some expected then (Inl (JournalError IncompatibleSchema), w\<lparr>w_process := g\<rparr>)
               else (Inr (), w\<lparr>w_process := g\<rparr>)))"

text \<open>\<open>is_file\<close> says whether the journal file is there.\<close>

definition resume_journal ::
  "nat \<Rightarrow> bool \<Rightarrow> host \<Rightarrow> journal_config \<Rightarrow> 'g graph_driver \<Rightarrow> 'g world \<Rightarrow> ((exc + nat) \<times> 'g world) option" where
  "resume_journal fuel is_file hs cfg drv w =
     (if \<not> cfg_required cfg \<or> \<not> is_file then Some (Inr 0, w)
      else if get_run (run_id (ho_sha hs) (cfg_metadata cfg)) (w_journal w) = None then Some (Inr 0, w)
      else case seq (ensure_recovery_schema hs cfg drv) (\<lambda>_. consumer_init hs cfg True) w of
        (Inl x, w') \<Rightarrow> Some (Inl x, w')
      | (Inr cn, w') \<Rightarrow> drain fuel hs cn drv w')"

section \<open>Loops\<close>

lemma repeat_rounds_invariant:
  assumes "\<And>s. I s \<Longrightarrow> I (snd (body s))" "I s" "repeat_rounds fuel body n s = Some (r, s')"
  shows "I s'"
  using assms(2,3)
proof (induction fuel arbitrary: n s)
  case (Suc fuel)
  then show ?case using assms(1)[of s] by (cases "body s") (auto split: sum.splits bool.splits)
qed simp

locale work_loop =
  fixes body :: "'s \<Rightarrow> (exc + bool) \<times> 's" and inv :: "'s \<Rightarrow> bool" and weight :: "'s \<Rightarrow> nat"
  assumes body_inv: "inv s \<Longrightarrow> inv (snd (body s))"
    and body_progress: "inv s \<Longrightarrow> body s = (Inr True, s') \<Longrightarrow> weight s' < weight s"
begin

lemma terminates: "inv s \<Longrightarrow> weight s < fuel \<Longrightarrow> \<exists>r. repeat_rounds fuel body n s = Some r"
proof (induction fuel arbitrary: n s)
  case (Suc fuel)
  obtain r s' where b: "body s = (r, s')" by fastforce
  show ?case
  proof (cases "r = Inr True")
    case True
    then have "inv s'" "weight s' < fuel" using Suc.prems b body_inv[of s] body_progress[of s s'] by auto
    then show ?thesis using Suc.IH[of s' "Suc n"] b True by simp
  next
    case False
    then show ?thesis using b by (auto split: sum.splits bool.splits)
  qed
qed simp

lemma last_round:
  "inv s \<Longrightarrow> repeat_rounds fuel body n s = Some (Inr m, s') \<Longrightarrow> \<exists>t. inv t \<and> body t = (Inr False, s') \<and> m + weight t \<le> n + weight s"
proof (induction fuel arbitrary: n s)
  case (Suc fuel)
  obtain r s1 where b: "body s = (r, s1)" by fastforce
  show ?case
  proof (cases "r = Inr True")
    case True
    then have "inv s1" "weight s1 < weight s" using Suc.prems b body_inv[of s] body_progress[of s s1] by auto
    moreover from this obtain t where "inv t" "body t = (Inr False, s')" "m + weight t \<le> Suc n + weight s1"
      using Suc.IH[of s1 "Suc n"] Suc.prems(2) b True by auto
    ultimately show ?thesis by (intro exI[of _ t]) auto
  next
    case False
    then show ?thesis using Suc.prems b by (auto split: sum.splits bool.splits)
  qed
qed simp

end

section \<open>The consumer is a client of the journal\<close>

lemma follows_execute_query [follows_intros]: "follows h (execute_query drv ctx q p)"
  by (rule follows_unchanged) (auto simp: execute_query_def split: sum.splits prod.splits)

lemma follows_load [follows_intros]: "follows h (load hs b)"
  by (rule follows_unchanged) (simp add: load_def)

lemma follows_block [follows_intros]: "follows (ho_sha hs) (block hs b rc code x)"
  unfolding block_def by (intro follows_intros)

lemma follows_reconcile_one: "follows (ho_sha hs) (reconcile_one hs cn drv b)"
  unfolding reconcile_one_def compile_readback_def read_receipts_def count_receipts_def settle_ambiguous_def Let_def
  by (intro follows_intros)

lemma follows_execute_one: "follows (ho_sha hs) (execute_one hs cn drv b)"
  unfolding execute_one_def compile_mutation_def mutate_def confirm_def by (intro follows_intros)

lemma follows_audit_batches [follows_intros]: "follows (ho_sha hs) (audit_batches hs drv bs n)"
proof (induction bs arbitrary: n)
  case (Cons b bs)
  then show ?case by (simp only: audit_batches.simps) (intro follows_intros)
qed (simp only: audit_batches.simps follows_intros)

lemma follows_seal: "follows (ho_sha hs) (seal_endpoint_audit_if_ready hs cn drv)"
  unfolding seal_endpoint_audit_if_ready_def Let_def by (intro follows_intros)

interpretation round: journal_client "ho_sha hs" "drain_round hs cn drv" for hs cn drv
  by unfold_locales
    (unfold drain_round_def execute_pending_def, intro follows_intros follows_reconcile_one follows_execute_one follows_seal)

interpretation seal: journal_client "ho_sha hs" "seal_endpoint_audit_if_ready hs cn drv" for hs cn drv
  by unfold_locales (rule follows_seal)

section \<open>Progress\<close>

fun row_weight :: "batch_status \<Rightarrow> nat" where
  "row_weight Leased = 3"
| "row_weight Reconciling = 2"
| "row_weight Pending = 1"
| "row_weight RetryWait = 1"
| "row_weight _ = 0"

definition work_left :: "journal \<Rightarrow> nat" where
  "work_left j = sum_list (map (\<lambda>b. row_weight (b_status b)) (batches j))"

lemma sum_replace:
  assumes "distinct (map b_job_id bs)" "b \<in> set bs"
  shows "sum_list (map f (replace_batch b c bs)) + f b = sum_list (map f bs) + (f c :: nat)"
  using assms
proof (induction bs)
  case (Cons x bs)
  show ?case
  proof (cases "x = b")
    case True
    then have "replace_batch b c bs = bs" using Cons.prems(1) unfolding replace_batch_def
      by (intro update_where_none) (auto simp: image_iff)
    then show ?thesis using True by (simp add: replace_batch_def)
  next
    case False
    then have "b_job_id x \<noteq> b_job_id b" using Cons.prems by (auto simp: image_iff)
    then show ?thesis using Cons False by (simp add: replace_batch_def)
  qed
qed simp

lemma work_left_replace:
  assumes "keys_ok k" "b \<in> set (batches k)" "batches j = replace_batch b c (batches k)"
  shows "work_left j + row_weight (b_status b) = work_left k + row_weight (b_status c)"
  using sum_replace[OF keys_okD(2)[OF assms(1)] assms(2), of "\<lambda>b. row_weight (b_status b)" c] by (simp add: work_left_def assms(3))

lemma work_left_update:
  "(\<And>b. p b \<Longrightarrow> row_weight (b_status (f b)) \<le> row_weight (b_status b)) \<Longrightarrow> work_left (update_batches p f j) \<le> work_left j"
  unfolding work_left_def by (simp add: update_where_map comp_def) (rule sum_list_mono, simp)

lemma work_left_add_event [simp]: "work_left (add_event rid ty job c a el er now j) = work_left j"
  by (simp add: work_left_def)

lemma work_left_foldl:
  "(\<And>j x. work_left (f j x) \<le> work_left j) \<Longrightarrow> work_left (foldl f j xs) \<le> work_left j"
  by (induction xs arbitrary: j) (auto intro: order_trans)

lemma recover_expired_weight: "work_left (snd (recover_expired now j)) \<le> work_left j"
proof -
  have "work_left (recover_leased now rows j) \<le> work_left j" for rows j
    unfolding recover_leased_def
    by (rule work_left_foldl) (auto simp: to_reconciling_def intro!: work_left_update)
  moreover have "work_left (recover_reconciling ev now rows j) \<le> work_left j" for ev rows j
    unfolding recover_reconciling_def
    by (rule work_left_foldl) (auto simp: drop_reconciling_fence_def intro!: work_left_update)
  ultimately show ?thesis unfolding recover_expired_def Let_def snd_conv using order_trans by blast
qed

text \<open>What a claim for execution and a claim for reconciliation hand out.\<close>

definition claimed :: "batch_status \<Rightarrow> env \<Rightarrow> batch_record \<Rightarrow> journal \<Rightarrow> bool" where
  "claimed st e x j \<longleftrightarrow> (\<exists>b \<in> set (batches j). batch_record.truncate b = x \<and> b_status b = st \<and> b_fencing_token b = Some (e_token e))"

lemma claims_weight:
  assumes "jinv j" "claims el f e j b j'" "\<And>b. b_job_id (f b) = b_job_id b"
  shows "work_left j' + row_weight (b_status b) \<le> work_left j + row_weight (b_status (f b)) \<and> f b \<in> set (batches j')"
proof -
  let ?k = "snd (recover_expired (e_now e) j)"
  have k: "keys_ok ?k" using recover_expired_jinv[OF assms(1)] by (auto simp: jinv_def)
  have b: "b \<in> set (batches ?k)" "batches j' = replace_batch b (f b) (batches ?k)"
    using assms(2) by (auto simp: claims_def Let_def)
  show ?thesis
    using work_left_replace[OF k b] recover_expired_weight[of "e_now e" j] b(2) set_replace_batch[OF k b(1)] by auto
qed

lemma claim_batch_claimed:
  assumes "jinv j" "claim_batch e (Some rid) n j = (Inr x, j')"
  shows "case x of None \<Rightarrow> work_left j' \<le> work_left j \<and> (\<forall>b \<in> set (batches j'). \<not> (claimable (e_now e) j' b \<and> b_run_id b = rid))
    | Some b \<Rightarrow> work_left j' \<le> work_left j + 2 \<and> claimed Leased e b j' \<and> b_run_id b = rid"
proof -
  have n: "0 < n" using assms(2) claim_positive by blast
  from claim_batch_result[OF assms(1) n, of e "Some rid"] show ?thesis
  proof (elim disjE exE conjE)
    fix b k
    assume eq: "claim_batch e (Some rid) n j = (Inr (Some (batch_record.truncate (leased_row e n b))), k)"
      and c: "claims (\<lambda>now j b. claimable now j b \<and> in_run (Some rid) b) (leased_row e n) e j b k"
    have b: "executable b" "b_run_id b = rid" using c by (auto simp: claims_def claimable_def in_run_def Let_def)
    have "claimed Leased e (batch_record.truncate (leased_row e n b)) k"
      using claims_weight[OF assms(1) c] unfolding claimed_def
      by (intro bexI[of _ "leased_row e n b"]) (simp_all add: leased_row_def)
    moreover have "work_left k \<le> work_left j + 2"
      using claims_weight[OF assms(1) c] b(1) by (auto simp: leased_row_def executable_def)
    ultimately show ?thesis using eq assms(2) b(2) by auto
  qed (use assms(2) recover_expired_weight[of "e_now e" j] in \<open>auto simp: in_run_def\<close>)
qed

lemma claim_reconciling_claimed:
  assumes "jinv j" "claim_reconciling e (Some rid) n j = (Inr x, j')"
  shows "work_left j' \<le> work_left j \<and> (case x of None \<Rightarrow> True | Some b \<Rightarrow> claimed Reconciling e b j' \<and> b_run_id b = rid)"
proof -
  let ?el = "\<lambda>now j b. reconcilable now j b \<and> in_run (Some rid) b"
  have n: "0 < n" using assms(2) by (auto simp: claim_reconciling_def claim_where_def split: if_splits)
  have "(\<exists>b k. claim_reconciling e (Some rid) n j = (Inr (Some (batch_record.truncate (reconciling_row e n b))), k) \<and>
      claims ?el (reconciling_row e n) e j b k) \<or>
    claim_reconciling e (Some rid) n j = (Inr None, snd (recover_expired (e_now e) j))"
    using claim_where_result[where eligible = ?el and lease = lease_reconciling and e = e and f = "reconciling_row e n",
        OF assms(1) _ lease_reconciling_row _ n]
    by (auto simp: claim_reconciling_def reconcilable_def)
  then show ?thesis
  proof (elim disjE exE conjE)
    fix b k
    assume eq: "claim_reconciling e (Some rid) n j = (Inr (Some (batch_record.truncate (reconciling_row e n b))), k)"
      and c: "claims ?el (reconciling_row e n) e j b k"
    have b: "b_status b = Reconciling" "b_run_id b = rid" using c by (auto simp: claims_def reconcilable_def in_run_def Let_def)
    have "claimed Reconciling e (batch_record.truncate (reconciling_row e n b)) k"
      using claims_weight[OF assms(1) c] b(1) unfolding claimed_def
      by (intro bexI[of _ "reconciling_row e n b"]) (simp_all add: reconciling_row_def)
    moreover have "work_left k \<le> work_left j" using claims_weight[OF assms(1) c] by (simp add: reconciling_row_def)
    ultimately show ?thesis using eq assms(2) b(2) by (auto simp: reconciling_row_def)
  qed (use assms(2) recover_expired_weight[of "e_now e" j] in auto)
qed

text \<open>Settling a claimed batch takes its row out of flight.\<close>

lemma ack_lowers:
  assumes "jinv j" "ack_batch e job token ms j = (Inr x, j')" "b \<in> set (batches j)" "b_job_id b = job"
  shows "work_left j' + row_weight (b_status b) = work_left j"
proof -
  obtain row where row: "owned_row [Leased, Reconciling] job token (e_now e) j = Inr row"
    using assms(2) by (cases "owned_row [Leased, Reconciling] job token (e_now e) j") (auto simp: ack_batch_def owned_transition_def)
  have keys: "keys_ok j" using assms(1) by (simp add: jinv_def)
  note own = in_flight_owned[OF row]
  have "row = b" using same_job_eq[OF keys _ assms(3)] own assms(4) by auto
  have "j' \<noteq> j"
  proof
    assume "j' = j"
    then obtain c where "c \<in> set (batches j)" "b_job_id c = job" "b_status c = Done"
      using ack_batch_succeeds[OF assms(1) row, of ms] assms(2) by auto
    then show False using same_job_eq[OF keys, of c row] own by (auto simp: in_flight_def)
  qed
  then obtain k ev where k: "acked_state row j k" "j' = refresh_run_status e (b_run_id row) (ev k)"
      "\<forall>k. same_tables k (ev k) \<and> batches (ev k) = batches k"
    using ack_batch_step[OF assms(1), of j' e job token ms] assms(2) row by auto
  obtain c where c: "b_status c = Done" "batches k = replace_batch row c (batches j)"
    using k(1) unfolding acked_state_def by blast
  have "batches j' = replace_batch row c (batches j)" using k(2,3) c(2) by (auto simp: refresh_run_status_def split: option.splits)
  from work_left_replace[OF keys _ this] own show ?thesis using c(1) \<open>row = b\<close> by simp
qed

lemma retry_lowers:
  assumes "jinv j" "schedule_retry e job token t rc code j = (Inr x, j')" "b \<in> set (batches j)" "b_job_id b = job"
  shows "work_left j' + row_weight (b_status b) \<le> work_left j + 1"
proof -
  obtain row where row: "owned_row [Leased, Reconciling] job token (e_now e) j = Inr row"
    using assms(2) by (cases "owned_row [Leased, Reconciling] job token (e_now e) j") (auto simp: schedule_retry_def owned_transition_def)
  have keys: "keys_ok j" using assms(1) by (simp add: jinv_def)
  note own = in_flight_owned[OF row]
  have "row = b" using same_job_eq[OF keys _ assms(3)] own assms(4) by auto
  let ?st = "if b_max_attempts row \<le> b_attempt row then DeadLetter else RetryWait"
  obtain f where f: "batches j' = batches (release_owned job token f j)" "b_status (f row) = ?st"
    using assms(2) row
    by (auto simp: schedule_retry_def owned_transition_def transaction_def read_back_def Let_def set_run_error_def
        split: option.splits if_splits)
  have "batches j' = replace_batch row ((f row)\<lparr>b_fencing_token := None, b_lease_until := None\<rparr>) (batches j)"
    using f(1) release_owned_batches[OF keys row] by simp
  from work_left_replace[OF keys _ this] own show ?thesis using f(2) \<open>row = b\<close> by (simp split: if_splits)
qed

section \<open>Rounds\<close>

lemma load_iff: "load hs b w = (r, w') \<longleftrightarrow> load_batch (ho_sha hs) (w_store w) b = r \<and> w' = w"
  by (auto simp: load_def)

lemma block_raises: "block hs b rc code x w \<noteq> (Inr y, w')"
  by (simp add: block_def seq_Inr_iff)

lemma handler_raises:
  "(\<And>c. f c w \<noteq> (Inr y, w')) \<Longrightarrow> m w \<noteq> (Inr y, w') \<Longrightarrow> (case x of JournalError c \<Rightarrow> f c | _ \<Rightarrow> m) w \<noteq> (Inr y, w')"
  by (cases x) simp_all

lemma catch_raising: "(\<And>e w'. f e w' \<noteq> (Inr y, w'')) \<Longrightarrow> catch m f w = (Inr y, w'') \<longleftrightarrow> m w = (Inr y, w'')"
  by (auto simp: catch_Inr_iff)

lemma execute_query_journal: "execute_query drv ctx q p w = (r, w') \<Longrightarrow> w_journal w' = w_journal w"
  by (auto simp: execute_query_def split: sum.splits prod.splits)

lemma compile_readback_Inr:
  "compile_readback hs cn b w = (Inr c, w') \<longleftrightarrow> w' = w \<and>
     (\<exists>g rows. load_batch (ho_sha hs) (w_store w) b = Inr (g, rows) \<and>
        compile_reconciliation_readback g rows (Some (b_job_id b)) (sha256 (b_artifact b)) (b_run_id b)
          (generation (cfg_metadata (cn_config cn))) = Inr (Some c))"
  unfolding compile_readback_def
  by (subst catch_raising) (simp add: handler_raises block_raises, cases c, auto simp: seq_Inr_iff load_iff split: option.splits intro!: exI[of _ "Some c"])

lemma read_receipts_Inr:
  "read_receipts hs cn drv b c w = (Inr records, w') \<longleftrightarrow> execute_query drv None (fst c) (snd c) w = (Inr records, w')"
  by (auto simp: read_receipts_def catch_Inr_iff seq_Inr_iff block_raises split: if_splits)

lemma count_receipts_Inr: "count_receipts hs b records w = (Inr n, w') \<longleftrightarrow> readback_count records = Inr n \<and> w' = w"
  by (auto simp: count_receipts_def catch_Inr_iff block_raises split: if_splits)

lemma compile_mutation_Inr:
  "compile_mutation hs b w = (Inr (g, c), w') \<longleftrightarrow> w' = w \<and>
     (\<exists>rows. load_batch (ho_sha hs) (w_store w) b = Inr (g, rows) \<and> compile_persisted_mutation g rows = Inr c)"
  unfolding compile_mutation_def
  by (subst catch_raising) (simp add: handler_raises block_raises, cases c, auto simp: seq_Inr_iff load_iff)

lemma settle_ambiguous_Inr:
  "settle_ambiguous hs b n w = (Inr (), w') \<longleftrightarrow>
     (\<exists>x j. (n = 1 \<and> ack_batch (env_at hs (w_tick w)) (b_job_id b) (the (b_fencing_token b)) None (w_journal w) = (Inr x, j) \<and>
              w' = w\<lparr>w_journal := j, w_tick := Suc (w_tick w)\<rparr>) \<or>
            (n = 0 \<and> schedule_retry (env_at hs (Suc (w_tick w))) (b_job_id b) (the (b_fencing_token b))
                (e_now (env_at hs (w_tick w))) Ambiguous InvalidTransition (w_journal w) = (Inr x, j) \<and>
              w' = w\<lparr>w_journal := j, w_tick := Suc (Suc (w_tick w))\<rparr>))"
  by (auto simp: settle_ambiguous_def Let_def seq_Inr_iff call_iff clock_iff block_raises)

lemma reconcile_one_Inr:
  assumes "reconcile_one hs cn drv b w = (Inr (), w')"
  obtains g rows c records n w1 where "load_batch (ho_sha hs) (w_store w) b = Inr (g, rows)"
    "compile_reconciliation_readback g rows (Some (b_job_id b)) (sha256 (b_artifact b)) (b_run_id b)
       (generation (cfg_metadata (cn_config cn))) = Inr (Some c)"
    "execute_query drv None (fst c) (snd c) w = (Inr records, w1)" "readback_count records = Inr n"
    "settle_ambiguous hs b n w1 = (Inr (), w')"
  using assms by (auto simp: reconcile_one_def seq_Inr_iff compile_readback_Inr read_receipts_Inr count_receipts_Inr split: if_splits)

lemma confirm_Inr:
  "confirm hs b started records w = (Inr (), w') \<longleftrightarrow> result_count records = Inr (b_expected_count b) \<and>
     (\<exists>x j. ack_batch (env_at hs (Suc (w_tick w))) (b_job_id b) (the (b_fencing_token b))
           (Some ((e_now (env_at hs (w_tick w)) - started) div 1000)) (w_journal w) = (Inr x, j) \<and>
        w' = w\<lparr>w_journal := j, w_tick := Suc (Suc (w_tick w))\<rparr>)"
  by (auto simp: confirm_def seq_Inr_iff call_iff clock_iff block_raises)

lemma execute_one_Inr:
  assumes "execute_one hs cn drv b w = (Inr (), w')"
  obtains g rows c records w1 started where "load_batch (ho_sha hs) (w_store w) b = Inr (g, rows)"
    "compile_persisted_mutation g rows = Inr c" "mutate cn drv b g c (w\<lparr>w_tick := Suc (w_tick w)\<rparr>) = (Inr records, w1)"
    "confirm hs b started records w1 = (Inr (), w')"
proof -
  let ?mark = "\<lambda>x. seq (call hs (\<lambda>e. mark_reconciling e (b_job_id b) (the (b_fencing_token b)) (Some InvalidTransition))) (\<lambda>_. raise x)"
  obtain g c where c: "compile_mutation hs b w = (Inr (g, c), w)"
    "catch (seq (mutate cn drv b g c) (confirm hs b (e_now (env_at hs (w_tick w))))) (\<lambda>x. case x of JournalError _ \<Rightarrow> raise x | _ \<Rightarrow> ?mark x)
       (w\<lparr>w_tick := Suc (w_tick w)\<rparr>) = (Inr (), w')"
    using assms by (auto simp: execute_one_def seq_Inr_iff[of "compile_mutation hs b"] seq_Inr_iff[of "clock hs"] clock_iff
        compile_mutation_Inr split: if_splits)
  from c(2) have "seq (mutate cn drv b g c) (confirm hs b (e_now (env_at hs (w_tick w)))) (w\<lparr>w_tick := Suc (w_tick w)\<rparr>) = (Inr (), w')"
    by (subst (asm) catch_raising) (simp_all add: handler_raises seq_Inr_iff)
  then obtain records w1 where "mutate cn drv b g c (w\<lparr>w_tick := Suc (w_tick w)\<rparr>) = (Inr records, w1)"
    "confirm hs b (e_now (env_at hs (w_tick w))) records w1 = (Inr (), w')" by (auto simp: seq_Inr_iff)
  moreover obtain rows where "load_batch (ho_sha hs) (w_store w) b = Inr (g, rows)" "compile_persisted_mutation g rows = Inr c"
    using c(1) by (auto simp: compile_mutation_Inr)
  ultimately show thesis using that by blast
qed

lemma reconcile_one_settles:
  assumes "reconcile_one hs cn drv b w = (Inr (), w')"
  shows "(\<exists>e x. ack_batch e (b_job_id b) (the (b_fencing_token b)) None (w_journal w) = (Inr x, w_journal w')) \<or>
    (\<exists>e x t. schedule_retry e (b_job_id b) (the (b_fencing_token b)) t Ambiguous InvalidTransition (w_journal w) = (Inr x, w_journal w'))"
proof -
  obtain c records w1 n where w1: "execute_query drv None (fst c) (snd c) w = (Inr records, w1)"
    and s: "settle_ambiguous hs b n w1 = (Inr (), w')" using assms by (rule reconcile_one_Inr)
  show ?thesis using s execute_query_journal[OF w1] unfolding settle_ambiguous_Inr by auto
qed

lemma execute_one_acks:
  assumes "execute_one hs cn drv b w = (Inr (), w')"
  shows "\<exists>e x ms. ack_batch e (b_job_id b) (the (b_fencing_token b)) ms (w_journal w) = (Inr x, w_journal w')"
proof -
  obtain g c records w1 started where w1: "mutate cn drv b g c (w\<lparr>w_tick := Suc (w_tick w)\<rparr>) = (Inr records, w1)"
    and s: "confirm hs b started records w1 = (Inr (), w')" using assms by (rule execute_one_Inr)
  have "w_journal w1 = w_journal w" using execute_query_journal[OF w1[unfolded mutate_def]] by simp
  moreover obtain e x j ms where "ack_batch e (b_job_id b) (the (b_fencing_token b)) ms (w_journal w1) = (Inr x, j)" "w_journal w' = j"
    using s unfolding confirm_Inr by auto
  ultimately show ?thesis by (intro exI[of _ e] exI[of _ x] exI[of _ ms]) simp
qed

text \<open>The audit does not touch the batches.\<close>

definition same_batches :: "'g world \<Rightarrow> 'g world \<Rightarrow> bool" where
  "same_batches w w' \<longleftrightarrow> batches (w_journal w') = batches (w_journal w)"

interpretation untouched: world_relation same_batches
  by unfold_locales (auto simp: same_batches_def)

lemma untouched_call:
  "(\<And>e j. batches (snd (f e j)) = batches j) \<Longrightarrow> stays same_batches (call hs f)"
  by (rule untouched.stays_call) (simp add: same_batches_def)

lemma untouched_query: "stays same_batches (execute_query drv ctx q p)" and untouched_load: "stays same_batches (load hs b)"
  by (auto simp: stays_def same_batches_def execute_query_def load_def split: sum.splits prod.splits)

lemma audit_untouched: "stays same_batches (audit_batches hs drv bs n)"
proof (induction bs arbitrary: n)
  case (Cons b bs)
  then show ?case
    by (simp only: audit_batches.simps) (intro untouched.stays_intros untouched_query untouched_load)
qed (simp only: audit_batches.simps untouched.stays_pure)

lemma seal_untouched: "stays same_batches (seal_endpoint_audit_if_ready hs cn drv)"
  unfolding seal_endpoint_audit_if_ready_def Let_def
  by (intro untouched.stays_intros audit_untouched untouched_call) (simp_all add: barrier_ops_batches seal_batches)

lemma seal_work_left:
  assumes "seal_endpoint_audit_if_ready hs cn drv w = (r, w')"
  shows "work_left (w_journal w') = work_left (w_journal w)"
  using staysD[OF seal_untouched assms] by (simp add: same_batches_def work_left_def)

lemma execute_pending_round:
  assumes "reachable (ho_sha hs) (w_journal w)" "execute_pending hs cn drv m w = (Inr go, w')"
  shows "(go \<and> work_left (w_journal w') < work_left (w_journal w)) \<or>
    (\<exists>w1. reachable (ho_sha hs) (w_journal w1) \<and> work_left (w_journal w1) \<le> work_left (w_journal w) \<and> m w1 = (Inr go, w') \<and>
       (\<exists>k. w_tick w1 = Suc k \<and> (\<forall>b \<in> set (batches (w_journal w1)).
          \<not> (claimable (e_now (env_at hs k)) (w_journal w1) b \<and> b_run_id b = cn_run_id cn))))"
proof -
  let ?e = "env_at hs (w_tick w)" and ?n = "cfg_lease_seconds (cn_config cn)"
  obtain x j where c: "claim_batch ?e (Some (cn_run_id cn)) ?n (w_journal w) = (Inr x, j)"
    and rest: "(case x of Some b \<Rightarrow> seq (execute_one hs cn drv b) (\<lambda>_. ret True) | None \<Rightarrow> m)
      (w\<lparr>w_journal := j, w_tick := Suc (w_tick w)\<rparr>) = (Inr go, w')"
    using assms(2) by (auto simp: execute_pending_def seq_Inr_iff call_iff)
  note inv = reachable_jinv[OF assms(1)] and cl = claim_batch_claimed[OF reachable_jinv[OF assms(1)] c]
  have j: "reachable (ho_sha hs) j" using reachable_step[OF assms(1), of "ClaimBatch ?e (Some (cn_run_id cn)) ?n"] c by simp
  show ?thesis
  proof (cases x)
    case None
    then have "\<forall>b \<in> set (batches j). \<not> (claimable (e_now ?e) j b \<and> b_run_id b = cn_run_id cn)" "work_left j \<le> work_left (w_journal w)"
      using cl by simp_all
    then show ?thesis using rest j None
      by (intro disjI2 exI[of _ "w\<lparr>w_journal := j, w_tick := Suc (w_tick w)\<rparr>"]) simp
  next
    case (Some b)
    then obtain e y ms where ack: "ack_batch e (b_job_id b) (the (b_fencing_token b)) ms j = (Inr y, w_journal w')" and "go"
      using rest execute_one_acks by (fastforce simp: seq_Inr_iff)
    obtain row where "row \<in> set (batches j)" "batch_record.truncate row = b" "b_status row = Leased"
      using cl Some by (auto simp: claimed_def)
    then show ?thesis using ack_lowers[OF reachable_jinv[OF j] ack, of row] cl Some \<open>go\<close> by (auto dest: arg_cong[of _ _ b_job_id])
  qed
qed

lemma drain_round_cases:
  assumes "reachable (ho_sha hs) (w_journal w)" "drain_round hs cn drv w = (Inr go, w')"
  shows "if go then work_left (w_journal w') < work_left (w_journal w)
    else \<exists>k. w_tick w' = Suc k \<and> (\<forall>b \<in> set (batches (w_journal w')).
      \<not> (claimable (e_now (env_at hs k)) (w_journal w') b \<and> b_run_id b = cn_run_id cn))"
proof -
  let ?e = "env_at hs (w_tick w)" and ?n = "cfg_lease_seconds (cn_config cn)"
  let ?w = "\<lambda>j. w\<lparr>w_journal := j, w_tick := Suc (w_tick w)\<rparr>"
  let ?last = "execute_pending hs cn drv (ret False)"
  let ?idle = "seq (seal_endpoint_audit_if_ready hs cn drv) (\<lambda>_. ?last)"
  obtain x j where c: "claim_reconciling ?e (Some (cn_run_id cn)) ?n (w_journal w) = (Inr x, j)"
    and rest: "(case x of Some b \<Rightarrow> seq (reconcile_one hs cn drv b) (\<lambda>_. ret True) | None \<Rightarrow> execute_pending hs cn drv ?idle)
      (w\<lparr>w_journal := j, w_tick := Suc (w_tick w)\<rparr>) = (Inr go, w')"
    using assms(2) by (auto simp: drain_round_def seq_Inr_iff call_iff)
  note cl = claim_reconciling_claimed[OF reachable_jinv[OF assms(1)] c]
  have j: "reachable (ho_sha hs) j" using reachable_step[OF assms(1), of "ClaimReconciling ?e (Some (cn_run_id cn)) ?n"] c by simp
  show ?thesis
  proof (cases x)
    case (Some b)
    then have settle: "(\<exists>e y. ack_batch e (b_job_id b) (the (b_fencing_token b)) None j = (Inr y, w_journal w')) \<or>
        (\<exists>e y t. schedule_retry e (b_job_id b) (the (b_fencing_token b)) t Ambiguous InvalidTransition j = (Inr y, w_journal w'))"
      and "go" using rest reconcile_one_settles[of hs cn drv b "w\<lparr>w_journal := j, w_tick := Suc (w_tick w)\<rparr>" w']
      by (auto simp: seq_Inr_iff)
    obtain row where row: "row \<in> set (batches j)" "b_job_id row = b_job_id b" "b_status row = Reconciling"
      using cl Some by (auto simp: claimed_def)
    from settle have "work_left (w_journal w') < work_left j"
      using ack_lowers[OF reachable_jinv[OF j] _ row(1,2)] retry_lowers[OF reachable_jinv[OF j] _ row(1,2)] row(3) by fastforce
    then show ?thesis using cl \<open>go\<close> by simp
  next
    case None
    then have "execute_pending hs cn drv ?idle (?w j) = (Inr go, w')" "reachable (ho_sha hs) (w_journal (?w j))" using rest j by simp_all
    note first = execute_pending_round[OF this(2,1)]
    consider "go" "work_left (w_journal w') < work_left j" | w1 where "reachable (ho_sha hs) (w_journal w1)"
      "work_left (w_journal w1) \<le> work_left j" "?idle w1 = (Inr go, w')" using first by auto
    then show ?thesis
    proof cases
      case 1
      then show ?thesis using cl by simp
    next
      case 2
      then obtain w2 where w2: "seal_endpoint_audit_if_ready hs cn drv w1 = (Inr (), w2)" "?last w2 = (Inr go, w')"
        by (auto simp: seq_Inr_iff)
      have "reachable (ho_sha hs) (w_journal w2)" using seal.stays_reachable[OF 2(1), of cn drv] w2(1) by simp
      from execute_pending_round[OF this w2(2)] seal_work_left[OF w2(1)] 2(2) cl show ?thesis by auto
    qed
  qed
qed

interpretation drainer: work_loop "drain_round hs cn drv" "\<lambda>w. reachable (ho_sha hs) (w_journal w)" "\<lambda>w. work_left (w_journal w)" for hs cn drv
proof
  show "reachable (ho_sha hs) (w_journal (snd (drain_round hs cn drv s)))" if "reachable (ho_sha hs) (w_journal s)" for s
    using round.stays_reachable[OF that] .
  show "work_left (w_journal s') < work_left (w_journal s)"
    if "reachable (ho_sha hs) (w_journal s)" "drain_round hs cn drv s = (Inr True, s')" for s s'
    using drain_round_cases[OF that] by simp
qed

end
