(* ===== verification/Journal_Delivery.thy ===== *)
theory Journal_Delivery
  imports Journal_Consumer "HOL-Library.Sublist"
begin

text \<open>
  The consumer and the graph together. The only thing assumed of the graph driver is what Cypher
  documents for the receipt clause the guard appends: a mutation that is stamped with a receipt
  either leaves the receipts as they are, which only a failing call may do, or records the
  receipt of its job with the number of rows it counted; reading does not change receipts; and
  the readback counts the receipts that match. From this, draining never acknowledges a batch
  whose receipt is not in the graph and never leaves a batch executable whose receipt is.
\<close>

section \<open>Job names\<close>

text \<open>
  Every job has the name \<open>deterministic_job_id\<close> gives it, so it is neither empty nor the name
  the guard keeps for schema statements.
\<close>

definition named_job :: "string \<Rightarrow> bool" where
  "named_job job \<longleftrightarrow> startswith job ''job_''"

definition jobs_within :: "journal \<Rightarrow> journal \<Rightarrow> bool" where
  "jobs_within j j' \<longleftrightarrow> (\<forall>c \<in> set (batches j'). named_job (b_job_id c) \<or> b_job_id c \<in> b_job_id ` set (batches j))"

lemma jobs_within_same: "batches j' = batches j \<Longrightarrow> jobs_within j j'"
  by (simp add: jobs_within_def)

lemma jobs_within_map: "map b_job_id (batches j') = map b_job_id (batches j) \<Longrightarrow> jobs_within j j'"
  unfolding jobs_within_def by (metis image_eqI set_map)

lemma jobs_within_under: "rows_under D X j j' \<Longrightarrow> jobs_within j j'"
  unfolding jobs_within_def rows_under_def row_under_def using same_batch_job by (metis image_eqI)

lemma jobs_within_quarantine: "jobs_within j (quarantine_runs e rids j)"
  by (rule jobs_within_map) (simp add: quarantine_runs_tables map_update_where_key block_row_def)

lemma enqueue_jobs: "jobs_within j (snd (enqueue_batch e st rid spec j))"
proof -
  let ?j' = "snd (enqueue_batch e st rid spec j)"
  have body: "jobs_within j j'" if "enqueue_body e rid (job_id_of e run spec) spec mc j = Inr ((b, f), j')" for run mc b f j'
    using that
  proof (cases rule: enqueue_body_cases)
    case (inserted j1 j2 j3 j4)
    have "named_job (job_id_of e run spec)" by (simp add: named_job_def job_id_of_def deterministic_job_id_def startswith_def)
    then show ?thesis using enqueue_inserted(1)[OF inserted(1,4,5,6,7)] inserted(8)
      by (auto simp: jobs_within_def new_batch_def rejected_row_def)
  qed (simp add: jobs_within_same)
  show ?thesis
    using enqueue_batch_step[OF refl, where e = e and st = st and rid = rid and spec = spec and j = j]
  proof (elim disjE exE conjE)
    assume "?j' = j"
    then show ?thesis by (simp add: jobs_within_same)
  qed (rule body)
qed

lemma open_run_jobs: "jobs_within j (snd (open_run e m n b j))"
proof -
  have body: "jobs_within j j'" if "open_run_body e m j = Inr (x, j')" for x j'
    using that
    by (cases rule: open_run_body_cases) (use jobs_within_quarantine in \<open>auto simp: Let_def jobs_within_def\<close>)
  show ?thesis
    using jobs_within_same[of j j] body by (cases "open_run_body e m j") (auto simp: open_run_def split: sum.splits)
qed

lemma purge_jobs: "jobs_within j (snd (snd (purge_run e own now rid st j)))"
  using purge_run_step[OF refl, where e = e and own = own and now = now and rid = rid and st = st and j = j]
  by (auto simp: jobs_within_def)

lemma apply_op_jobs:
  assumes "jinv j"
  shows "jobs_within j (apply_op op j)"
proof -
  note under = rows_under_quiet[OF assms] rows_under_ack[OF assms] rows_under_retry[OF assms]
    rows_under_benign[OF renew_lease_benign] rows_under_benign[OF recovers_benign(1)]
  show ?thesis
  proof (cases op)
    case (QuarantineLegacyTargets e m ts)
    then show ?thesis by (simp add: quarantine_legacy_targets_def Let_def jobs_within_quarantine jobs_within_same)
  qed (simp_all add: enqueue_jobs open_run_jobs purge_jobs barrier_ops_batches complete_producers_same jobs_within_same under[THEN jobs_within_under])
qed

lemma reachable_named:
  assumes "reachable h j" "b \<in> set (batches j)"
  shows "named_job (b_job_id b)"
proof -
  have "jinv j \<and> (\<forall>b \<in> set (batches j). named_job (b_job_id b))"
    using reachable_reach[OF assms(1)]
  proof (rule jsys.reach_invariant[where I = "\<lambda>j. jinv j \<and> (\<forall>b \<in> set (batches j). named_job (b_job_id b))"])
    fix j k
    assume "jinv j \<and> (\<forall>b \<in> set (batches j). named_job (b_job_id b))" "jstep h j k"
    then show "jinv k \<and> (\<forall>b \<in> set (batches k). named_job (b_job_id b))"
      using apply_op_jobs apply_op_jinv by (fastforce elim!: jstepE simp: jobs_within_def)
  qed (simp add: jinv_empty, simp add: empty_journal_def)
  then show ?thesis using assms(2) by blast
qed

lemma named_job_stamped: "named_job job \<Longrightarrow> job \<noteq> [] \<and> job \<noteq> ''schema''"
  by (auto simp: named_job_def startswith_def)

section \<open>Receipts\<close>

record receipt =
  rc_operation_key :: string
  rc_row_count :: int
  rc_artifact_sha256 :: string
  rc_run_id :: string
  rc_generation :: string

definition receipt_label :: string where
  "receipt_label = ''GraphWriteReceipt''"

text \<open>
  What is assumed of the driver, for a function \<open>rcv\<close> that reads the receipts of a graph by job:
  calls that do not mutate and the schema check leave the receipts alone; a stamped mutation, whose
  own text does not speak of receipts, sets the receipt of its job to the count it returns, and a
  call that fails may have done so or not; and the readback counts the receipt it describes.
\<close>

definition reads_keep_receipts :: "('g \<Rightarrow> string \<Rightarrow> receipt option) \<Rightarrow> 'g graph_driver \<Rightarrow> bool" where
  "reads_keep_receipts rcv drv \<longleftrightarrow>
     (\<forall>c g. \<not> mutates (gc_query c) \<longrightarrow> rcv (snd (gd_execute drv c g)) = rcv g) \<and>
     (\<forall>ensure g. gd_ensure_schema drv = Some ensure \<longrightarrow> rcv (snd (ensure g)) = rcv g)"

definition mutations_leave_receipts :: "('g \<Rightarrow> string \<Rightarrow> receipt option) \<Rightarrow> 'g graph_driver \<Rightarrow> bool" where
  "mutations_leave_receipts rcv drv \<longleftrightarrow>
     (\<forall>body v job key sha rid gen c g r g'.
        gc_query c = body @ with_count v @ receipt_tail \<longrightarrow> \<not> sublist receipt_label body \<longrightarrow>
        stamped (job, key, sha, rid, gen) c \<longrightarrow> gd_execute drv c g = (r, g') \<longrightarrow>
        (\<exists>n. rcv g' = (rcv g)(job \<mapsto> \<lparr>rc_operation_key = key, rc_row_count = n, rc_artifact_sha256 = sha, rc_run_id = rid,
              rc_generation = gen\<rparr>) \<and> (\<forall>records. r = Inr records \<longrightarrow> result_count records = Inr n)) \<or>
        rcv g' = rcv g \<and> (\<exists>x. r = Inl x))"

definition readback_finds_receipts :: "('g \<Rightarrow> string \<Rightarrow> receipt option) \<Rightarrow> 'g graph_driver \<Rightarrow> bool" where
  "readback_finds_receipts rcv drv \<longleftrightarrow>
     (\<forall>op n job sha rid gen db g records g'.
        gd_execute drv \<lparr>gc_query = fst (receipt_readback op n job sha rid gen),
            gc_args = [JObj (snd (receipt_readback op n job sha rid gen)), db], gc_kwargs = []\<rparr> g = (Inr records, g') \<longrightarrow>
        readback_count records = Inr (if rcv g job = Some \<lparr>rc_operation_key = operation_key op, rc_row_count = int n,
            rc_artifact_sha256 = sha, rc_run_id = rid, rc_generation = gen\<rparr> then 1 else 0))"

definition receipt_contract :: "('g \<Rightarrow> string \<Rightarrow> receipt option) \<Rightarrow> 'g graph_driver \<Rightarrow> bool" where
  "receipt_contract rcv drv \<longleftrightarrow>
     reads_keep_receipts rcv drv \<and> mutations_leave_receipts rcv drv \<and> readback_finds_receipts rcv drv"

text \<open>The journal and the graph agree on a batch: done only with its receipt, executable only without.\<close>

definition delivered :: "('g \<Rightarrow> string \<Rightarrow> receipt option) \<Rightarrow> string \<Rightarrow> 'g \<Rightarrow> batch_row \<Rightarrow> bool" where
  "delivered rcv gen g b \<longleftrightarrow> rcv g (b_job_id b) = Some \<lparr>rc_operation_key = b_operation_key b, rc_row_count = b_expected_count b,
     rc_artifact_sha256 = sha256 (b_artifact b), rc_run_id = b_run_id b, rc_generation = gen\<rparr>"

definition receipt_agrees :: "('g \<Rightarrow> string \<Rightarrow> receipt option) \<Rightarrow> string \<Rightarrow> 'g \<Rightarrow> batch_row \<Rightarrow> bool" where
  "receipt_agrees rcv gen g b \<longleftrightarrow>
     (b_status b = Done \<longrightarrow> delivered rcv gen g b) \<and> (executable b \<longrightarrow> \<not> delivered rcv gen g b)"

definition receipt_free :: "(string \<Rightarrow> string) \<Rightarrow> artifact_store \<Rightarrow> batch_row \<Rightarrow> bool" where
  "receipt_free h st b \<longleftrightarrow>
     (case load_batch h st (batch_record.truncate b) of
        Inl _ \<Rightarrow> True
      | Inr (g, rows) \<Rightarrow>
          (case compile_persisted_mutation g rows of Inl _ \<Rightarrow> True | Inr c \<Rightarrow> \<not> sublist receipt_label (fst c)))"

definition in_step ::
  "('g \<Rightarrow> string \<Rightarrow> receipt option) \<Rightarrow> (string \<Rightarrow> string) \<Rightarrow> string \<Rightarrow> string \<Rightarrow> 'g world \<Rightarrow> bool" where
  "in_step rcv h rid gen w \<longleftrightarrow> reachable h (w_journal w) \<and>
     (\<forall>b \<in> set (batches (w_journal w)). b_run_id b = rid \<longrightarrow>
        receipt_agrees rcv gen (w_process w) b \<and> receipt_free h (w_store w) b)"

lemma truncate_work:
  "b_operation (batch_record.truncate b) = b_operation b" "b_operation_key (batch_record.truncate b) = b_operation_key b"
  "b_artifact (batch_record.truncate b) = b_artifact b" "b_expected_count (batch_record.truncate b) = b_expected_count b"
  by (simp_all add: batch_record.truncate_def)

lemma same_batch_receipts:
  assumes "same_batch b c"
  shows "delivered rcv gen g c = delivered rcv gen g b" "receipt_free h st c = receipt_free h st b"
proof -
  have "load_batch h st (batch_record.truncate c) = load_batch h st (batch_record.truncate b)"
    using assms by (simp only: same_batch_def load_batch_def truncate_work)
  then show "receipt_free h st c = receipt_free h st b" by (simp add: receipt_free_def)
qed (use assms in \<open>simp add: same_batch_def delivered_def\<close>)

lemma in_step_move:
  assumes "in_step rcv h rid gen w" "reachable h j'" "rows_under D X (w_journal w) j'"
    "\<And>b. b \<in> set (batches (w_journal w)) \<Longrightarrow> b_run_id b = rid \<Longrightarrow> b_job_id b \<in> D \<Longrightarrow> delivered rcv gen (w_process w) b"
    "\<And>b. b \<in> set (batches (w_journal w)) \<Longrightarrow> b_run_id b = rid \<Longrightarrow> b_job_id b \<in> X \<Longrightarrow> \<not> delivered rcv gen (w_process w) b"
  shows "in_step rcv h rid gen (w\<lparr>w_journal := j', w_tick := n\<rparr>)"
proof -
  have "receipt_agrees rcv gen (w_process w) c \<and> receipt_free h (w_store w) c" if c: "c \<in> set (batches j')" "b_run_id c = rid" for c
  proof -
    obtain b where b: "b \<in> set (batches (w_journal w))" "row_under D X b c" using assms(3) c(1) by (auto simp: rows_under_def)
    then have rid: "same_batch b c" "b_run_id b = rid" using c(2) by (auto simp: row_under_def same_batch_def)
    have old: "receipt_agrees rcv gen (w_process w) b" "receipt_free h (w_store w) b" using assms(1) b(1) rid(2) by (auto simp: in_step_def)
    show ?thesis
      unfolding receipt_agrees_def same_batch_receipts[OF rid(1)]
      using old b(2) assms(4,5)[OF b(1) rid(2)] unfolding receipt_agrees_def row_under_def by blast
  qed
  then show ?thesis using assms(2) by (simp add: in_step_def)
qed

lemma in_step_receipts: "rcv g' = rcv (w_process w) \<Longrightarrow> in_step rcv h rid gen (w\<lparr>w_process := g'\<rparr>) = in_step rcv h rid gen w"
  by (simp add: in_step_def receipt_agrees_def delivered_def)

definition keeps_step :: "('g \<Rightarrow> string \<Rightarrow> receipt option) \<Rightarrow> (string \<Rightarrow> string) \<Rightarrow> string \<Rightarrow> string \<Rightarrow> 'g world \<Rightarrow> 'g world \<Rightarrow> bool" where
  "keeps_step rcv h rid gen w w' \<longleftrightarrow> (in_step rcv h rid gen w \<longrightarrow> in_step rcv h rid gen w')"

interpretation agreement: world_relation "keeps_step rcv h rid gen" for rcv h rid gen
  by unfold_locales (auto simp: keeps_step_def in_step_def)

lemma keeps_stepD: "stays (keeps_step rcv h rid gen) m \<Longrightarrow> in_step rcv h rid gen w \<Longrightarrow> in_step rcv h rid gen (snd (m w))"
  by (simp add: stays_def keeps_step_def)

lemma quiet_call:
  assumes "\<And>e j. jinv j \<Longrightarrow> rows_under {} {} j (snd (f e j))" "follows (ho_sha hs) (call hs f :: ('g, 'a) prog)"
  shows "stays (keeps_step rcv (ho_sha hs) rid gen) (call hs f :: ('g, 'a) prog)"
  unfolding stays_def keeps_step_def
proof (intro allI impI)
  fix w :: "'g world"
  assume w: "in_step rcv (ho_sha hs) rid gen w"
  then have r: "reachable (ho_sha hs) (w_journal w)" by (simp add: in_step_def)
  obtain x j where j: "f (env_at hs (w_tick w)) (w_journal w) = (x, j)" by fastforce
  have "(cstep (ho_sha hs))\<^sup>*\<^sup>* (w_journal w) j" using assms(2)[unfolded follows_iff] j by (auto simp: call_def dest: spec[of _ w])
  from csteps_reachable[OF this r] show "in_step rcv (ho_sha hs) rid gen (snd (call hs f w))"
    using in_step_move[OF w, of j "{}" "{}" "Suc (w_tick w)"] assms(1)[OF reachable_jinv[OF r], of "env_at hs (w_tick w)"] j
    by (simp add: call_def)
qed

named_theorems agree_intros \<open>programs that keep the journal and the receipts in step\<close>

lemmas [agree_intros] = agreement.stays_intros

lemma quiet_operations [agree_intros]:
  "stays (keeps_step rcv (ho_sha hs) rid gen) (call hs (\<lambda>e. claim_batch e r k))"
  "stays (keeps_step rcv (ho_sha hs) rid gen) (call hs (\<lambda>e. claim_reconciling e r k))"
  "stays (keeps_step rcv (ho_sha hs) rid gen) (call hs (\<lambda>e. mark_reconciling e job token err))"
  "stays (keeps_step rcv (ho_sha hs) rid gen) (call hs (\<lambda>e. block_batch e job token rc code))"
  "stays (keeps_step rcv (ho_sha hs) rid gen) (call hs (\<lambda>e. schedule_reconciliation_retry e job token t code))"
  "stays (keeps_step rcv (ho_sha hs) rid gen) (call hs (\<lambda>e. recover_run_leases_as_ambiguous e r'))"
  "stays (keeps_step rcv (ho_sha hs) rid gen) (call hs (\<lambda>e. close_barrier e r' name))"
  "stays (keeps_step rcv (ho_sha hs) rid gen) (call hs (\<lambda>e. seal_endpoint_audit e r' d c a))"
  by (rule quiet_call, rule rows_under_quiet, assumption, rule follows_operations)+

lemma keeps_query [agree_intros]:
  assumes "receipt_contract rcv drv"
  shows "stays (keeps_step rcv h rid gen) (execute_query drv None q p)"
  unfolding stays_def keeps_step_def
proof (intro allI impI)
  fix w
  assume w: "in_step rcv h rid gen w"
  let ?c = "\<lparr>gc_query = q, gc_args = [JObj p, json_opt (gd_database drv)], gc_kwargs = []\<rparr>"
  show "in_step rcv h rid gen (snd (execute_query drv None q p w))"
  proof (cases "guarded None ?c")
    case (Inl x)
    then show ?thesis using w by (simp add: execute_query_def)
  next
    case (Inr c)
    then have "c = ?c" "\<not> mutates q" using guard_result[of None ?c c] by simp_all
    then have "rcv (snd (gd_execute drv c (w_process w))) = rcv (w_process w)"
      using assms by (auto simp: receipt_contract_def reads_keep_receipts_def)
    then show ?thesis using Inr w in_step_receipts[of rcv _ w] by (auto simp: execute_query_def split: prod.split)
  qed
qed

lemma keeps_load [agree_intros]: "stays (keeps_step rcv h rid gen) (load hs b)"
  by (simp add: stays_def keeps_step_def load_def)

lemma keeps_block [agree_intros]: "stays (keeps_step rcv (ho_sha hs) rid gen) (block hs b rc code x)"
  unfolding block_def by (intro agree_intros)

lemma keeps_audit:
  assumes "receipt_contract rcv drv"
  shows "stays (keeps_step rcv (ho_sha hs) rid gen) (audit_batches hs drv bs n)"
proof (induction bs arbitrary: n)
  case (Cons b bs)
  then show ?case by (simp only: audit_batches.simps) (intro agree_intros assms)
qed (simp only: audit_batches.simps agree_intros)

lemma keeps_seal:
  assumes "receipt_contract rcv drv"
  shows "stays (keeps_step rcv (ho_sha hs) rid gen) (seal_endpoint_audit_if_ready hs cn drv)"
  unfolding seal_endpoint_audit_if_ready_def Let_def by (intro agree_intros keeps_audit assms)

lemma keeps_reading:
  assumes "receipt_contract rcv drv"
  shows "stays (keeps_step rcv (ho_sha hs) rid gen) (compile_readback hs cn b)"
    "stays (keeps_step rcv (ho_sha hs) rid gen) (read_receipts hs cn drv b c)"
    "stays (keeps_step rcv (ho_sha hs) rid gen) (count_receipts hs b records)"
    "stays (keeps_step rcv (ho_sha hs) rid gen) (compile_mutation hs b)"
  unfolding compile_readback_def read_receipts_def count_receipts_def compile_mutation_def by (intro agree_intros assms)+

section \<open>Settling a claimed batch\<close>

lemma keeps_seq:
  assumes "stays (keeps_step rcv h rid gen) m" "in_step rcv h rid gen w"
    "\<And>x w'. m w = (Inr x, w') \<Longrightarrow> in_step rcv h rid gen w' \<Longrightarrow> in_step rcv h rid gen (snd (f x w'))"
  shows "in_step rcv h rid gen (snd (seq m f w))"
  using keeps_stepD[OF assms(1,2)] assms(3) by (cases "m w") (auto simp: seq_def split: sum.splits)

lemma loaded_work:
  assumes "load_batch h st b = Inr (g, rows)"
  shows "operation_key g = b_operation_key b" "int (length rows) = b_expected_count b"
  using assms by (auto simp: load_batch_def rbind_Inr_iff split: sum.splits if_splits prod.splits)

lemma settled_call:
  assumes "in_step rcv (ho_sha hs) rid gen w" "row \<in> set (batches (w_journal w))" "b_job_id row = job"
    "\<And>e. rows_under D X (w_journal w) (snd (f e (w_journal w)))" "D \<union> X \<subseteq> {job}"
    "job \<in> D \<Longrightarrow> delivered rcv gen (w_process w) row" "job \<in> X \<Longrightarrow> \<not> delivered rcv gen (w_process w) row"
    "follows (ho_sha hs) (call hs f :: ('g, 'a) prog)"
  shows "in_step rcv (ho_sha hs) rid gen (snd ((call hs f :: ('g, 'a) prog) w))"
proof -
  have r: "reachable (ho_sha hs) (w_journal w)" using assms(1) by (simp add: in_step_def)
  have only: "b = row" if "b \<in> set (batches (w_journal w))" "b_job_id b \<in> D \<union> X" for b
    using same_job_eq[of "w_journal w" b row] reachable_jinv[OF r] that assms(2,3,5) by (auto simp: jinv_def)
  obtain x j where j: "f (env_at hs (w_tick w)) (w_journal w) = (x, j)" by fastforce
  have "(cstep (ho_sha hs))\<^sup>*\<^sup>* (w_journal w) j" using assms(8)[unfolded follows_iff] j by (auto simp: call_def dest: spec[of _ w])
  from in_step_move[OF assms(1) csteps_reachable[OF this r], of D X "Suc (w_tick w)"]
  show ?thesis using assms(4)[of "env_at hs (w_tick w)"] assms(3,6,7) only j by (auto simp: call_def)
qed

lemma keeps_ack:
  assumes "in_step rcv (ho_sha hs) rid gen w" "row \<in> set (batches (w_journal w))" "b_job_id row = job"
    "delivered rcv gen (w_process w) row"
  shows "in_step rcv (ho_sha hs) rid gen (snd (call hs (\<lambda>e. ack_batch e job token ms) w))"
proof -
  have "jinv (w_journal w)" using assms(1) reachable_jinv by (auto simp: in_step_def)
  then show ?thesis
    by (intro settled_call[where D = "{job}" and X = "{}", OF assms(1-3)]) (auto simp: rows_under_ack assms(4) intro: follows_intros)
qed

lemma keeps_retry:
  assumes "in_step rcv (ho_sha hs) rid gen w" "row \<in> set (batches (w_journal w))" "b_job_id row = job"
    "\<not> delivered rcv gen (w_process w) row"
  shows "in_step rcv (ho_sha hs) rid gen (snd (call hs (\<lambda>e. schedule_retry e job token t rc code) w))"
proof -
  have "jinv (w_journal w)" using assms(1) reachable_jinv by (auto simp: in_step_def)
  then show ?thesis
    by (intro settled_call[where D = "{}" and X = "{job}", OF assms(1-3)]) (auto simp: rows_under_retry assms(4) intro: follows_intros)
qed

lemma in_step_tick: "in_step rcv h rid gen (w\<lparr>w_tick := n\<rparr>) = in_step rcv h rid gen w"
  by (simp add: in_step_def)

lemma snd_seq_ret: "snd (seq m (\<lambda>_. ret ()) w) = snd (m w)"
  by (simp add: seq_def split: prod.splits sum.splits)

lemma keeps_settle:
  assumes "in_step rcv (ho_sha hs) rid gen w" "row \<in> set (batches (w_journal w))" "b_job_id row = b_job_id b"
    "n = 1 \<Longrightarrow> delivered rcv gen (w_process w) row" "n = 0 \<Longrightarrow> \<not> delivered rcv gen (w_process w) row"
  shows "in_step rcv (ho_sha hs) rid gen (snd (settle_ambiguous hs b n w))"
proof -
  consider "n = 1" | "n = 0" | "n \<noteq> 1" "n \<noteq> 0" by blast
  then show ?thesis
  proof cases
    case 1
    then show ?thesis using keeps_ack[OF assms(1-3)] assms(4) by (simp add: settle_ambiguous_def snd_seq_ret)
  next
    case 2
    then show ?thesis using keeps_retry[of rcv hs rid gen "w\<lparr>w_tick := Suc (w_tick w)\<rparr>" row] assms(1-3,5)
      by (simp add: settle_ambiguous_def seq_def[of "clock hs"] clock_def snd_seq_ret in_step_tick)
  next
    case 3
    then show ?thesis using keeps_stepD[OF keeps_block assms(1)] by (simp add: settle_ambiguous_def Let_def)
  qed
qed

lemma readback_decides:
  assumes "receipt_contract rcv drv" "load_batch h st (batch_record.truncate row) = Inr (g, rows)"
    "compile_reconciliation_readback g rows (Some (b_job_id row)) (sha256 (b_artifact row)) (b_run_id row) gen = Inr (Some c)"
    "named_job (b_job_id row)" "execute_query drv None (fst c) (snd c) w = (Inr records, w')" "readback_count records = Inr n"
  shows "n = (if delivered rcv gen (w_process w) row then 1 else 0)" "rcv (w_process w') = rcv (w_process w)"
proof -
  let ?c = "\<lparr>gc_query = fst c, gc_args = [JObj (snd c), json_opt (gd_database drv)], gc_kwargs = []\<rparr>"
  have c: "c = receipt_readback g (length rows) (b_job_id row) (sha256 (b_artifact row)) (b_run_id row) gen"
    using assms(3) named_job_stamped[OF assms(4)] by (simp add: compile_reconciliation_readback_def given_def)
  have "\<not> mutates (fst c)" unfolding c by (rule receipt_readback_reads)
  then have g: "gd_execute drv ?c (w_process w) = (Inr records, w_process w')"
    using assms(5) by (auto simp: execute_query_def guarded_def is_mutation_mutates split: prod.splits)
  have "operation_key g = b_operation_key row" "int (length rows) = b_expected_count row"
    using loaded_work[OF assms(2)] by (simp_all add: truncate_work)
  moreover have "readback_count records = Inr (if rcv (w_process w) (b_job_id row) = Some \<lparr>rc_operation_key = operation_key g,
      rc_row_count = int (length rows), rc_artifact_sha256 = sha256 (b_artifact row), rc_run_id = b_run_id row, rc_generation = gen\<rparr> then 1 else 0)"
    using assms(1) g unfolding receipt_contract_def readback_finds_receipts_def c by blast
  ultimately show "n = (if delivered rcv gen (w_process w) row then 1 else 0)" using assms(6) by (simp add: delivered_def split: if_splits)
  show "rcv (w_process w') = rcv (w_process w)"
    using assms(1) \<open>\<not> mutates (fst c)\<close> g unfolding receipt_contract_def reads_keep_receipts_def by (metis graph_call.select_convs(1) snd_conv)
qed

lemma keeps_reconcile:
  assumes "receipt_contract rcv drv" "in_step rcv (ho_sha hs) (cn_run_id cn) gen w" "gen = generation (cfg_metadata (cn_config cn))"
    "claimed st e b (w_journal w)"
  shows "in_step rcv (ho_sha hs) (cn_run_id cn) gen (snd (reconcile_one hs cn drv b w))"
proof -
  obtain row where row: "row \<in> set (batches (w_journal w))" "batch_record.truncate row = b" using assms(4) by (auto simp: claimed_def)
  have name: "named_job (b_job_id row)" using reachable_named row(1) assms(2) by (auto simp: in_step_def)
  have settle: "in_step rcv (ho_sha hs) (cn_run_id cn) gen (snd (settle_ambiguous hs b n w2))"
    if cr: "compile_readback hs cn b w = (Inr c, w1)" and "read_receipts hs cn drv b c w1 = (Inr records, w2)" "readback_count records = Inr n"
      "in_step rcv (ho_sha hs) (cn_run_id cn) gen w2" for c w1 records w2 n
  proof -
    obtain g rows where w1: "w1 = w" "load_batch (ho_sha hs) (w_store w) b = Inr (g, rows)"
      "compile_reconciliation_readback g rows (Some (b_job_id b)) (sha256 (b_artifact b)) (b_run_id b) gen = Inr (Some c)"
      using cr assms(3) by (auto simp: compile_readback_Inr)
    have q: "execute_query drv None (fst c) (snd c) w = (Inr records, w2)" using that(2) w1(1) by (simp add: read_receipts_Inr)
    note d = readback_decides[OF assms(1), of "ho_sha hs" "w_store w" row g rows gen c, unfolded row(2), OF w1(2) _ name q that(3)]
    have "n = (if delivered rcv gen (w_process w) row then 1 else 0)" "rcv (w_process w2) = rcv (w_process w)"
      using d w1(3) row(2) truncate_simps truncate_work by metis+
    then show ?thesis using that(4) row execute_query_journal[OF q] by (intro keeps_settle[where row = row]) (auto simp: delivered_def split: if_splits)
  qed
  show ?thesis
    unfolding reconcile_one_def
    using assms(2) settle
    by (auto intro!: keeps_seq keeps_reading[OF assms(1)] simp: count_receipts_Inr)
qed

section \<open>Executing a claimed batch\<close>

lemma mutation_leaves_receipt:
  assumes "receipt_contract rcv drv" "gc_query c = body @ with_count v @ receipt_tail" "\<not> sublist receipt_label body"
    "stamped (job, key, sha, rid, gen) c" "gd_execute drv c g = (r, g')"
  shows "(\<exists>n. rcv g' = (rcv g)(job \<mapsto> \<lparr>rc_operation_key = key, rc_row_count = n, rc_artifact_sha256 = sha, rc_run_id = rid,
          rc_generation = gen\<rparr>) \<and> (\<forall>records. r = Inr records \<longrightarrow> result_count records = Inr n)) \<or>
      rcv g' = rcv g \<and> (\<exists>x. r = Inl x)"
  using assms(1)[unfolded receipt_contract_def mutations_leave_receipts_def, THEN conjunct2, THEN conjunct1, rule_format, OF assms(2-5)] .

lemma mutate_stamps:
  assumes "receipt_contract rcv drv" "in_step rcv (ho_sha hs) (cn_run_id cn) gen w" "gen = generation (cfg_metadata (cn_config cn))"
    "row \<in> set (batches (w_journal w))" "b = batch_record.truncate row" "b_run_id b = cn_run_id cn"
    "load_batch (ho_sha hs) (w_store w) b = Inr (g, rows)" "compile_persisted_mutation g rows = Inr c"
    "mutate cn drv b g c w = (r, w')"
  shows "\<exists>g'. w' = w\<lparr>w_process := g'\<rparr> \<and>
    ((\<exists>n. rcv g' = (rcv (w_process w))(b_job_id row \<mapsto> \<lparr>rc_operation_key = b_operation_key row, rc_row_count = n,
          rc_artifact_sha256 = sha256 (b_artifact row), rc_run_id = b_run_id row, rc_generation = gen\<rparr>) \<and>
        (\<forall>records. r = Inr records \<longrightarrow> result_count records = Inr n)) \<or>
     rcv g' = rcv (w_process w) \<and> (\<exists>x. r = Inl x))"
proof -
  let ?job = "b_job_id row" and ?m = "(b_job_id row, b_operation_key row, sha256 (b_artifact row), b_run_id row, gen)"
  let ?p = "dict_set ''__journal_operation_key'' (JStr (b_operation_key row)) (snd c)"
  let ?call = "\<lparr>gc_query = fst c, gc_args = [JObj ?p, json_opt (gd_database drv)], gc_kwargs = []\<rparr>"
  have job: "?job \<noteq> []" "?job \<noteq> ''schema''"
    using named_job_stamped reachable_named assms(2,4) unfolding in_step_def by blast+
  have c: "compile_persisted_mutation g rows = Inr (fst c, snd c)" using assms(8) by simp
  have ctx: "journaled_mutation (Some ?job) (b_operation_key row) (sha256 (b_artifact row)) (b_run_id row) gen = Some ?m"
    using job by (simp add: journaled_mutation_def given_def)
  obtain body v d where q: "fst c = body @ return_count v"
    "guarded (Some ?m) ?call = Inr \<lparr>gc_query = body @ with_count v @ receipt_tail, gc_args = [JObj d, json_opt (gd_database drv)], gc_kwargs = []\<rparr>"
    (is "_ = Inr ?stamped")
    using guarded_compiled[OF c job, of "b_operation_key row" "sha256 (b_artifact row)" "b_run_id row" gen "json_opt (gd_database drv)"]
    unfolding ctx by auto
  have st: "stamped ?m ?stamped"
    using guard_result[OF q(2)] compiled_mutation_mutates[OF c] job(2) by simp
  have "\<not> sublist receipt_label (fst c)"
    using assms(2,4-8) by (auto simp: in_step_def receipt_free_def)
  then have free: "\<not> sublist receipt_label body" unfolding q(1) by (meson sublist_append_rightI sublist_order.order.trans)
  obtain r' g' where e: "gd_execute drv ?stamped (w_process w) = (r', g')" by fastforce
  have "mutate cn drv b g c w = (r', w\<lparr>w_process := g'\<rparr>)"
    using q(2) e loaded_work(1)[OF assms(7)] assms(3,5) ctx by (simp add: mutate_def execute_query_def truncate_work)
  moreover have "(\<exists>n. rcv g' = (rcv (w_process w))(?job \<mapsto> \<lparr>rc_operation_key = b_operation_key row, rc_row_count = n,
          rc_artifact_sha256 = sha256 (b_artifact row), rc_run_id = b_run_id row, rc_generation = gen\<rparr>) \<and>
        (\<forall>records. r' = Inr records \<longrightarrow> result_count records = Inr n)) \<or>
      rcv g' = rcv (w_process w) \<and> (\<exists>x. r' = Inl x)"
    by (rule mutation_leaves_receipt[OF assms(1) _ free st e]) (rule graph_call.select_convs(1))
  ultimately show ?thesis using assms(9) by auto
qed

lemma in_step_stamped:
  assumes "in_step rcv h rid gen w" "row \<in> set (batches (w_journal w))" "b_status row = Leased"
    "rcv g' = (rcv (w_process w))(b_job_id row \<mapsto> x) \<or> rcv g' = rcv (w_process w)"
  shows "in_step rcv h rid gen (w\<lparr>w_process := g'\<rparr>)"
proof -
  have keys: "keys_ok (w_journal w)" using assms(1) reachable_jinv by (auto simp: in_step_def jinv_def)
  have "receipt_agrees rcv gen g' b" if b: "b \<in> set (batches (w_journal w))" "receipt_agrees rcv gen (w_process w) b" for b
  proof (cases "b = row")
    case True
    then show ?thesis using assms(3) by (simp add: receipt_agrees_def executable_def)
  next
    case False
    then have "b_job_id b \<noteq> b_job_id row" using same_job_eq[OF keys b(1) assms(2)] by blast
    then show ?thesis using b(2) assms(4) by (auto simp: receipt_agrees_def delivered_def)
  qed
  then show ?thesis using assms(1) by (simp add: in_step_def)
qed

lemma keeps_confirm:
  assumes "in_step rcv (ho_sha hs) rid gen w" "row \<in> set (batches (w_journal w))" "b = batch_record.truncate row"
    "\<And>n. result_count records = Inr n \<Longrightarrow> n = b_expected_count row \<Longrightarrow> delivered rcv gen (w_process w) row"
  shows "in_step rcv (ho_sha hs) rid gen (snd (confirm hs b started records w))"
proof (cases "result_count records")
  case (Inl x)
  then show ?thesis using assms(1) by (simp add: confirm_def seq_def)
next
  case (Inr n)
  show ?thesis
  proof (cases "n = b_expected_count b")
    case True
    then show ?thesis
      using Inr keeps_ack[of rcv hs rid gen "w\<lparr>w_tick := Suc (w_tick w)\<rparr>" row] assms
      by (simp add: confirm_def seq_def[of "lift _"] seq_def[of "clock hs"] clock_def snd_seq_ret in_step_tick truncate_work)
  next
    case False
    then show ?thesis using Inr keeps_stepD[OF keeps_block assms(1)] by (simp add: confirm_def seq_def[of "lift _"])
  qed
qed

lemma keeps_catch:
  assumes "in_step rcv h rid gen (snd (m w))" "\<And>x. stays (keeps_step rcv h rid gen) (f x)"
  shows "in_step rcv h rid gen (snd (catch m f w))"
  using assms(1) keeps_stepD[OF assms(2)] by (cases "m w") (auto simp: catch_def split: sum.split)

lemma keeps_execute:
  assumes "receipt_contract rcv drv" "in_step rcv (ho_sha hs) (cn_run_id cn) gen w" "gen = generation (cfg_metadata (cn_config cn))"
    "claimed Leased e b (w_journal w)" "b_run_id b = cn_run_id cn"
  shows "in_step rcv (ho_sha hs) (cn_run_id cn) gen (snd (execute_one hs cn drv b w))"
proof -
  let ?I = "in_step rcv (ho_sha hs) (cn_run_id cn) gen"
  obtain row where row: "row \<in> set (batches (w_journal w))" "b = batch_record.truncate row" "b_status row = Leased"
    using assms(4) by (auto simp: claimed_def)
  have run: "?I (snd (seq (mutate cn drv b g c) (confirm hs b started) (w\<lparr>w_tick := t\<rparr>)))"
    if cm: "compile_mutation hs b w = (Inr (g, c), w1)" for g c w1 started t
  proof -
    let ?w = "w\<lparr>w_tick := t\<rparr>"
    obtain rows where l: "load_batch (ho_sha hs) (w_store ?w) b = Inr (g, rows)" "compile_persisted_mutation g rows = Inr c"
      using cm by (auto simp: compile_mutation_Inr)
    obtain r w2 where m: "mutate cn drv b g c ?w = (r, w2)" by fastforce
    have "?I ?w" using assms(2) by (simp add: in_step_tick)
    note st = mutate_stamps[OF assms(1) this assms(3) _ row(2) assms(5) l m]
    obtain g' where w2: "w2 = ?w\<lparr>w_process := g'\<rparr>" and g': "(\<exists>n. rcv g' = (rcv (w_process w))(b_job_id row \<mapsto>
          \<lparr>rc_operation_key = b_operation_key row, rc_row_count = n,
          rc_artifact_sha256 = sha256 (b_artifact row), rc_run_id = b_run_id row, rc_generation = gen\<rparr>) \<and>
        (\<forall>records. r = Inr records \<longrightarrow> result_count records = Inr n)) \<or>
      rcv g' = rcv (w_process w) \<and> (\<exists>x. r = Inl x)"
      using st row(1) by auto
    have I: "?I w2" unfolding w2 using g' in_step_stamped[of rcv "ho_sha hs" "cn_run_id cn" gen ?w row g'] \<open>?I ?w\<close> row by auto
    show ?thesis
    proof (cases r)
      case (Inl x)
      then show ?thesis using m I by (simp add: seq_def)
    next
      case (Inr records)
      then have "?I (snd (confirm hs b started records w2))"
        using g' w2 row by (intro keeps_confirm[OF I _ row(2)]) (auto simp: delivered_def)
      then show ?thesis using m Inr by (simp add: seq_def)
    qed
  qed
  show ?thesis
  proof (cases "given (b_fencing_token b)")
    case True
    show ?thesis
      unfolding execute_one_def using True
      by (simp, intro keeps_seq[OF keeps_reading(4)[OF assms(1)] assms(2)])
        (auto simp: seq_def[of "clock hs"] clock_def compile_mutation_Inr split: prod.split intro!: keeps_catch run agree_intros)
  qed (use assms(2) in \<open>simp add: execute_one_def\<close>)
qed

section \<open>Draining\<close>

lemma keeps_pending:
  assumes "receipt_contract rcv drv" "in_step rcv (ho_sha hs) (cn_run_id cn) gen w" "gen = generation (cfg_metadata (cn_config cn))"
    "\<And>w. in_step rcv (ho_sha hs) (cn_run_id cn) gen w \<Longrightarrow> in_step rcv (ho_sha hs) (cn_run_id cn) gen (snd (m w))"
  shows "in_step rcv (ho_sha hs) (cn_run_id cn) gen (snd (execute_pending hs cn drv m w))"
  unfolding execute_pending_def
proof (rule keeps_seq[OF quiet_operations(1) assms(2)])
  fix x w'
  let ?I = "in_step rcv (ho_sha hs) (cn_run_id cn) gen"
  assume c: "call hs (\<lambda>e. claim_batch e (Some (cn_run_id cn)) (cfg_lease_seconds (cn_config cn))) w = (Inr x, w')" and w': "?I w'"
  show "?I (snd ((case x of Some b \<Rightarrow> seq (execute_one hs cn drv b) (\<lambda>_. ret True) | None \<Rightarrow> m) w'))"
  proof (cases x)
    case (Some b)
    have "claimed Leased (env_at hs (w_tick w)) b (w_journal w')" "b_run_id b = cn_run_id cn"
      using claim_batch_claimed[of "w_journal w"] c Some assms(2) reachable_jinv by (fastforce simp: call_iff in_step_def)+
    from keeps_execute[OF assms(1) w' assms(3) this] show ?thesis
      using Some by (auto simp: seq_def split: prod.splits sum.splits)
  qed (use assms(4) w' in simp)
qed

lemma keeps_round:
  assumes "receipt_contract rcv drv" "in_step rcv (ho_sha hs) (cn_run_id cn) gen w" "gen = generation (cfg_metadata (cn_config cn))"
  shows "in_step rcv (ho_sha hs) (cn_run_id cn) gen (snd (drain_round hs cn drv w))"
  unfolding drain_round_def
proof (rule keeps_seq[OF quiet_operations(2) assms(2)])
  fix x w'
  let ?I = "in_step rcv (ho_sha hs) (cn_run_id cn) gen"
  let ?m = "execute_pending hs cn drv (seq (seal_endpoint_audit_if_ready hs cn drv) (\<lambda>_. execute_pending hs cn drv (ret False)))"
  assume c: "call hs (\<lambda>e. claim_reconciling e (Some (cn_run_id cn)) (cfg_lease_seconds (cn_config cn))) w = (Inr x, w')" and w': "?I w'"
  have pending: "?I (snd (?m w'))"
    by (intro keeps_pending[OF assms(1) w' assms(3)] keeps_seq[OF keeps_seal[OF assms(1)]] keeps_pending[OF assms(1) _ assms(3)]) simp_all
  show "?I (snd ((case x of Some b \<Rightarrow> seq (reconcile_one hs cn drv b) (\<lambda>_. ret True) | None \<Rightarrow> ?m) w'))"
  proof (cases x)
    case (Some b)
    have "claimed Reconciling (env_at hs (w_tick w)) b (w_journal w')"
      using claim_reconciling_claimed[of "w_journal w"] c Some assms(2) reachable_jinv by (fastforce simp: call_iff in_step_def)
    from keeps_reconcile[OF assms(1) w' assms(3) this] show ?thesis
      using Some by (auto simp: seq_def split: prod.splits sum.splits)
  qed (use pending in simp)
qed

lemma keeps_drain:
  assumes "receipt_contract rcv drv" "in_step rcv (ho_sha hs) (cn_run_id cn) gen w" "gen = generation (cfg_metadata (cn_config cn))"
    "drain fuel hs cn drv w = Some (r, w')"
  shows "in_step rcv (ho_sha hs) (cn_run_id cn) gen w'"
proof -
  let ?I = "in_step rcv (ho_sha hs) (cn_run_id cn) gen"
  obtain x w1 where s: "seal_endpoint_audit_if_ready hs cn drv w = (x, w1)" by fastforce
  then have "?I w1" using keeps_stepD[OF keeps_seal[OF assms(1)] assms(2), of cn] by simp
  then show ?thesis
    using s assms(4) repeat_rounds_invariant[of ?I "drain_round hs cn drv" w1 fuel 0 r w'] keeps_round[OF assms(1) _ assms(3)]
    by (auto simp: drain_def split: sum.splits)
qed

lemma keeps_resume:
  assumes "receipt_contract rcv drv"
    "in_step rcv (ho_sha hs) (run_id (ho_sha hs) (cfg_metadata cfg)) (generation (cfg_metadata cfg)) w"
    "resume_journal fuel is_file hs cfg drv w = Some (r, w')"
  shows "in_step rcv (ho_sha hs) (run_id (ho_sha hs) (cfg_metadata cfg)) (generation (cfg_metadata cfg)) w'"
proof -
  let ?I = "in_step rcv (ho_sha hs) (run_id (ho_sha hs) (cfg_metadata cfg)) (generation (cfg_metadata cfg))"
  have schema: "stays (keeps_step rcv (ho_sha hs) rid gen) (ensure_recovery_schema hs cfg drv)" for rid gen
  proof -
    have "rcv g' = rcv g" if "gd_ensure_schema drv = Some ensure" "ensure g = (x, g')" for ensure g x g'
      using assms(1) that unfolding receipt_contract_def reads_keep_receipts_def by (metis snd_conv)
    then show ?thesis
      using in_step_receipts[of rcv]
      by (auto simp: stays_def keeps_step_def ensure_recovery_schema_def Let_def split: option.splits prod.splits sum.splits)
  qed
  have init: "stays (keeps_step rcv (ho_sha hs) rid gen) (consumer_init hs cfg True)" for rid gen
    unfolding consumer_init_def Let_def by (intro agree_intros)
  have cn: "cn_run_id cn = run_id (ho_sha hs) (cfg_metadata cfg) \<and> cn_config cn = cfg"
    if "consumer_init hs cfg True v = (Inr cn, v')" for v v' cn
    using that by (auto simp: consumer_init_def Let_def seq_Inr_iff split: if_splits)
  let ?start = "seq (ensure_recovery_schema hs cfg drv) (\<lambda>_. consumer_init hs cfg True)"
  have start: "?I (snd (?start w))" by (rule keeps_stepD[OF _ assms(2)]) (intro agree_intros schema init)
  show ?thesis
  proof (cases "w' = w")
    case False
    then obtain x w1 where s: "?start w = (x, w1)" "case x of Inl e \<Rightarrow> (r, w') = (Inl e, w1) | Inr cn \<Rightarrow> drain fuel hs cn drv w1 = Some (r, w')"
      using assms(3) by (cases "?start w") (auto simp: resume_journal_def split: if_splits sum.splits)
    show ?thesis
    proof (cases x)
      case (Inr cn)
      then have "cn_run_id cn = run_id (ho_sha hs) (cfg_metadata cfg) \<and> cn_config cn = cfg" using s(1) cn by (auto simp: seq_Inr_iff)
      then show ?thesis using keeps_drain[OF assms(1), of hs cn _ w1 fuel r w'] start s Inr by simp
    qed (use start s in simp)
  qed (use assms(2) in simp)
qed

section \<open>Theorems\<close>

text \<open>
  C2. Draining ends. On a reachable journal, \<open>drain\<close> returns or raises within a number of rounds
  bounded by the work left: three for a leased batch, two for an ambiguous and one for a waiting
  one. It holds for every driver, clock and payload store.
\<close>

theorem drain_terminates:
  assumes "reachable (ho_sha hs) (w_journal w)" "work_left (w_journal w) < fuel"
  shows "\<exists>r w'. drain fuel hs cn drv w = Some (r, w')"
proof -
  obtain r w1 where s: "seal_endpoint_audit_if_ready hs cn drv w = (r, w1)" by fastforce
  have "reachable (ho_sha hs) (w_journal w1)" using seal.stays_reachable[OF assms(1), of cn drv] s by simp
  from drainer.terminates[OF this, of fuel cn drv 0] show ?thesis
    using s seal_work_left[OF s] assms(2) by (auto simp: drain_def split: sum.split)
qed

text \<open>
  C3. Draining is complete. When \<open>drain\<close> returns a number on a reachable journal, the journal is
  again a reachable one and the number of batches settled is at most the work there was. The last
  call it made to the journal was a claim, at the time of that call's clock reading, and every batch of the
  run that is still pending or waiting for a retry has its next attempt after that time, or requires a
  barrier that is not drained, or its run is not active.
\<close>

theorem drain_complete:
  assumes "reachable (ho_sha hs) (w_journal w)" "drain fuel hs cn drv w = Some (Inr n, w')"
  shows "reachable (ho_sha hs) (w_journal w') \<and> n \<le> work_left (w_journal w) \<and>
    (\<exists>k. w_tick w' = Suc k \<and>
      (\<forall>b \<in> set (batches (w_journal w')). b_run_id b = cn_run_id cn \<longrightarrow> b_status b = Pending \<or> b_status b = RetryWait \<longrightarrow>
        (\<exists>t. b_next_attempt_at b = Some t \<and> e_now (env_at hs k) < t) \<or>
        (\<exists>name \<in> set (b_required_barriers b). \<not> barrier_drained (cn_run_id cn) name (w_journal w')) \<or>
        \<not> run_is_active (cn_run_id cn) (w_journal w')))"
proof -
  obtain w1 where s: "seal_endpoint_audit_if_ready hs cn drv w = (Inr (), w1)"
    and r: "repeat_rounds fuel (drain_round hs cn drv) 0 w1 = Some (Inr n, w')"
    using assms(2) by (auto simp: drain_def split: prod.splits sum.splits)
  have "reachable (ho_sha hs) (w_journal w1)" using seal.stays_reachable[OF assms(1), of cn drv] s by simp
  from drainer.last_round[OF this r] obtain t where t: "reachable (ho_sha hs) (w_journal t)"
      "drain_round hs cn drv t = (Inr False, w')" "n + work_left (w_journal t) \<le> work_left (w_journal w1)" by auto
  have "reachable (ho_sha hs) (w_journal w')" using round.stays_reachable[OF t(1), of cn drv] t(2) by simp
  moreover obtain k where "w_tick w' = Suc k"
      "\<forall>b \<in> set (batches (w_journal w')). \<not> (claimable (e_now (env_at hs k)) (w_journal w') b \<and> b_run_id b = cn_run_id cn)"
    using drain_round_cases[OF t(1,2)] by auto
  moreover from this(2) have "(\<exists>t. b_next_attempt_at b = Some t \<and> e_now (env_at hs k) < t) \<or>
      (\<exists>name \<in> set (b_required_barriers b). \<not> barrier_drained (cn_run_id cn) name (w_journal w')) \<or>
      \<not> run_is_active (cn_run_id cn) (w_journal w')"
    if "b \<in> set (batches (w_journal w'))" "b_run_id b = cn_run_id cn" "b_status b = Pending \<or> b_status b = RetryWait" for b
    using that by (auto simp: claimable_def executable_def due_def list_all_iff not_le split: option.splits)
  ultimately show ?thesis using t(3) seal_work_left[OF s] by auto
qed

text \<open>
  C1. Delivery. If the graph keeps the contract of receipts, and before the drain every done batch of
  the run has its receipt in the graph and no waiting one does, then the same holds whenever
  \<open>drain\<close> returns or raises: a batch is acknowledged only after the graph has recorded exactly
  the expected number of rows for it, and it is executed again only if the graph has not. The
  batches must not themselves write receipts.
\<close>

theorem drain_delivers:
  assumes "receipt_contract rcv drv" "in_step rcv (ho_sha hs) (cn_run_id cn) gen w" "gen = generation (cfg_metadata (cn_config cn))"
    "drain fuel hs cn drv w = Some (r, w')"
  shows "in_step rcv (ho_sha hs) (cn_run_id cn) gen w'"
  by (rule keeps_drain[OF assms])

section \<open>An interrupted run\<close>

text \<open>
  A consumer died while its batch was leased. The next one reads the receipts back, finds none,
  executes the batch and acknowledges it. The graph is the map of its receipts.
\<close>

lemma startswith_casefold: "startswith (casefold s) p \<longleftrightarrow> casefold (take (length p) s) = p"
  by (simp add: startswith_def casefold_def take_map)

lemma length_casefold: "length (casefold s) = length s"
  by (simp add: casefold_def)

lemma endswith_suffix: "endswith s p \<longleftrightarrow> suffix p s"
  by (auto simp: endswith_def suffix_def intro: exI[of _ "take (length s - length p) s"])
     (metis append_take_drop_id)

lemma endswith_code [code]: "endswith s p \<longleftrightarrow> prefix (rev p) (rev s)"
  by (simp add: endswith_suffix suffix_to_prefix)

declare is_mutation_mutates [code]

lemma keyword_here_code [code]:
  "keyword_here kw prev s \<longleftrightarrow> (if prev then False else if casefold (take (length kw) s) = kw then \<not> word_next (drop (length kw) s) else False)"
  by (simp add: keyword_here_def startswith_casefold)

lemma re_match_code [code]:
  "re_match [] caps s = Some (caps, s)"
  "re_match (RE_lit l # items) caps s =
     (if casefold (take (length l) s) = casefold l then re_match items caps (drop (length l) s) else None)"
  "re_match (RE_ws0 # items) caps s = re_match items caps (lstrip s)"
  "re_match (RE_ws1 # items) caps s =
     (if s \<noteq> [] \<and> py_isspace (hd s) then re_match items caps (lstrip s) else None)"
  "re_match (RE_word n # items) caps s =
     (if s \<noteq> [] \<and> word_start (hd s)
      then re_match items (caps(n \<mapsto> takeWhile word_char s)) (dropWhile word_char s) else None)"
  "re_match (RE_back n # items) caps s =
     (case caps n of
        None \<Rightarrow> None
      | Some w \<Rightarrow>
          if casefold (take (length w) s) = casefold w then re_match items caps (drop (length w) s) else None)"
  by (simp_all add: startswith_casefold length_casefold split: option.splits)


definition text_parameter :: "dict \<Rightarrow> string \<Rightarrow> string" where
  "text_parameter d k = (case map_of d k of Some (JStr s) \<Rightarrow> s | _ \<Rightarrow> [])"

definition sample_receipt :: "dict \<Rightarrow> string \<Rightarrow> int \<Rightarrow> receipt" where
  "sample_receipt d p n = \<lparr>rc_operation_key = text_parameter d (p @ ''operation_key''), rc_row_count = n,
     rc_artifact_sha256 = text_parameter d (p @ ''artifact_sha256''), rc_run_id = text_parameter d (p @ ''run_id''),
     rc_generation = text_parameter d (p @ ''generation'')\<rparr>"

definition count_record :: "int \<Rightarrow> dict list" where
  "count_record n = [[(''count'', JInt n)]]"

definition sample_driver :: "(string \<Rightarrow> receipt option) graph_driver" where
  "sample_driver =
     \<lparr>gd_database = None,
      gd_execute = (\<lambda>c g. case call_parameters c of
        JObj d \<Rightarrow>
          (if endswith (gc_query c) receipt_tail then
             let n = (case map_of d ''rows'' of Some (JArr rows) \<Rightarrow> int (length rows) | _ \<Rightarrow> 0) in
             (Inr (count_record n), g(text_parameter d ''__journal_job_id'' \<mapsto> sample_receipt d ''__journal_'' n))
           else if map_of d ''job_id'' \<noteq> None then
             let n = (case map_of d ''expected_count'' of Some (JInt n) \<Rightarrow> n | _ \<Rightarrow> 0) in
             (Inr (count_record (if g (text_parameter d ''job_id'') = Some (sample_receipt d [] n) then 1 else 0)), g)
           else (Inr [], g))
      | _ \<Rightarrow> (Inr [], g)),
      gd_ensure_schema = None\<rparr>"

definition replay_spec :: batch_spec where
  "replay_spec = node_spec\<lparr>sp_operation_key := ''graph-write/v1/nodes/functions'', sp_produced_barriers := [],
     sp_operation := [(''label'', JStr ''functions''), (''phase'', JStr ''nodes''),
             (''version'', JInt 1), (''idempotent'', JBool True),
             (''operation_key'', JStr ''graph-write/v1/nodes/functions''),
             (''reconciliation'', JStr ''node_identity''),
             (''node_label'', JStr ''Function''),
             (''identity_property'', JStr ''id''),
             (''row_identity_property'', JStr ''id''),
             (''row_properties_property'', JNull),
             (''mutation_kind'', JStr ''merge''),
             (''query_fingerprint'', JNull)]\<rparr>"

definition interrupted :: journal where
  "interrupted =
     apply_op (RecoverRunLeases (sample_env 106 ''t'') ''run_251'')
       (apply_op (ClaimBatch (sample_env 105 ''t'') (Some ''run_251'') 60)
         (apply_op (EnqueueBatch (sample_env 101 ''a'') sample_store ''run_251'' replay_spec) sample_opened))"

lemma interrupted_eval [code]:
  "interrupted =
     \<lparr>runs = [sample_run],
      artifacts = [\<lparr>a_run_id = ''run_251'', a_ref = sp_artifact node_spec, a_ref_count = 1\<rparr>],
      batches = [(new_batch (sample_env 101 ''a'') ''run_251'' ''job_125'' replay_spec)\<lparr>b_status := Reconciling, b_attempt := 1,
        b_retry_class := Some Ambiguous\<rparr>],
      barriers = [],
      events = [opened_event, enqueued_event 2 ''job_125'' 11 1 101,
        opened_event\<lparr>ev_id := 3, ev_job_id := Some ''job_125'', ev_type := EvBatchLeased, ev_counters := [(''pending'', 1)],
          ev_attempt := Some 1, ev_created_at := 105\<rparr>,
        opened_event\<lparr>ev_id := 4, ev_job_id := Some ''job_125'', ev_type := EvLeaseRecoveredAsAmbiguous,
          ev_counters := [(''pending'', 1)], ev_attempt := Some 1, ev_created_at := 106\<rparr>],
      event_seq = 4,
      producers = [sample_producer ''functions'' NodeKind],
      manifests = [node_manifest\<lparr>m_manifest_id := ''42'', m_job_id := ''job_125''\<rparr>],
      endpoints = [], audits = []\<rparr>"
  by code_simp

definition graph_world :: "journal \<Rightarrow> (string \<Rightarrow> receipt option) world" where
  "graph_world j = \<lparr>w_journal = j, w_store = sample_store, w_tick = 0, w_process = Map.empty\<rparr>"

definition sample_consumer :: consumer where
  "sample_consumer = \<lparr>cn_config = sample_config, cn_run_id = ''run_251''\<rparr>"



lemma drained_eval:
  "case drain 5 sample_host sample_consumer sample_driver (graph_world interrupted) of
     Some (Inr n, w) \<Rightarrow> n = 2 \<and> map b_status (batches (w_journal w)) = [Done] \<and> map b_run_id (batches (w_journal w)) = [''run_251'']
   | _ \<Rightarrow> False"
  by code_simp

lemma interrupted_free: "list_all (receipt_free sample_hash sample_store) (batches interrupted)"
  by code_simp

lemma tail_mutates: "mutates (s @ receipt_tail)"
proof -
  have "list_ex mutation_word (words_from [] (tl receipt_tail))" by code_simp
  moreover have "receipt_tail = CHR '' '' # tl receipt_tail" by (simp add: receipt_tail_def)
  ultimately show ?thesis
    unfolding mutates_def words_def using words_from_split[of "CHR '' ''" "[]" s "tl receipt_tail"] by (simp add: word_char_def word_start_def is_digit_def)
qed

lemma sample_contract: "receipt_contract id sample_driver"
  unfolding receipt_contract_def
proof (intro conjI)
  have reads: "\<not> endswith q receipt_tail" if "\<not> mutates q" for q
    using that tail_mutates by (auto simp: endswith_suffix suffix_def)
  then show "reads_keep_receipts id sample_driver"
    by (auto simp: reads_keep_receipts_def sample_driver_def Let_def split: json.splits)
  show "readback_finds_receipts id sample_driver"
    unfolding readback_finds_receipts_def
  proof (intro allI impI)
    fix op n job sha rid gen db g records g'
    let ?rb = "receipt_readback op n job sha rid gen"
    assume "gd_execute sample_driver \<lparr>gc_query = fst ?rb, gc_args = [JObj (snd ?rb), db], gc_kwargs = []\<rparr> g = (Inr records, g')"
    moreover have "\<not> endswith (fst ?rb) receipt_tail" by (rule reads[OF receipt_readback_reads])
    moreover have "snd ?rb = [(''job_id'', JStr job), (''operation_key'', JStr (operation_key op)), (''expected_count'', JInt (int n)),
        (''artifact_sha256'', JStr sha), (''run_id'', JStr rid), (''generation'', JStr gen)]" by (simp add: receipt_readback_def)
    ultimately show "readback_count records = Inr (if id g job = Some \<lparr>rc_operation_key = operation_key op, rc_row_count = int n,
        rc_artifact_sha256 = sha, rc_run_id = rid, rc_generation = gen\<rparr> then 1 else 0)"
      by (auto simp: sample_driver_def call_parameters_def Let_def text_parameter_def sample_receipt_def readback_count_def
          count_record_def dict_get_default_def py_int_def)
  qed
  show "mutations_leave_receipts id sample_driver"
    unfolding mutations_leave_receipts_def
  proof (intro allI impI disjI1)
    fix body v job key sha rid gen and c :: graph_call and g r and g' :: "string \<Rightarrow> receipt option"
    assume q: "gc_query c = body @ with_count v @ receipt_tail" and st: "stamped (job, key, sha, rid, gen) c"
      and e: "gd_execute sample_driver c g = (r, g')"
    obtain d where d: "call_parameters c = JObj d" using st by (cases "call_parameters c") (auto simp: stamped_def)
    define n where "n = (case map_of d ''rows'' of Some (JArr rows) \<Rightarrow> int (length rows) | _ \<Rightarrow> 0)"
    have "endswith (gc_query c) receipt_tail" using st by (simp add: stamped_def)
    then have "(r, g') = (Inr (count_record n), g(text_parameter d ''__journal_job_id'' \<mapsto> sample_receipt d ''__journal_'' n))"
      using e d by (simp add: sample_driver_def n_def Let_def)
    then have "r = Inr (count_record n)" "g' = g(job \<mapsto> \<lparr>rc_operation_key = key, rc_row_count = n, rc_artifact_sha256 = sha,
        rc_run_id = rid, rc_generation = gen\<rparr>)"
      using st d by (simp_all add: stamped_def text_parameter_def sample_receipt_def)
    then show "\<exists>n. id g' = (id g)(job \<mapsto> \<lparr>rc_operation_key = key, rc_row_count = n, rc_artifact_sha256 = sha, rc_run_id = rid,
        rc_generation = gen\<rparr>) \<and> (\<forall>records. r = Inr records \<longrightarrow> result_count records = Inr n)"
      by (intro exI[of _ n]) (simp add: count_record_def result_count_def dict_get_default_def py_int_def)
  qed
qed

lemma interrupted_reachable: "reachable (ho_sha sample_host) (w_journal (graph_world interrupted))"
proof -
  have "reachable sample_hash interrupted"
    unfolding interrupted_def by (intro reachable_step sample_reachable(1)) simp_all
  then show ?thesis by (simp add: graph_world_def sample_host_def)
qed

lemma interrupted_in_step: "in_step id (ho_sha sample_host) (cn_run_id sample_consumer) ''g'' (graph_world interrupted)"
proof -
  have "list_all (\<lambda>b. b_status b = Reconciling) (batches interrupted)" by code_simp
  then show ?thesis
    using interrupted_reachable interrupted_free
    by (auto simp: in_step_def receipt_agrees_def executable_def list_all_iff graph_world_def sample_host_def)
qed

lemma drained:
  obtains w' where "drain 5 sample_host sample_consumer sample_driver (graph_world interrupted) = Some (Inr 2, w')"
    "map b_status (batches (w_journal w')) = [Done]" "map b_run_id (batches (w_journal w')) = [''run_251'']"
proof -
  have "\<exists>n w. d = Some (Inr n, w) \<and> P n w" if "case d of Some (Inr n, w) \<Rightarrow> P n w | _ \<Rightarrow> False"
    for d :: "((exc + nat) \<times> 'w) option" and P
    using that by (cases d; cases "fst (the d)") (auto split: prod.splits)
  from this[OF drained_eval] obtain n w'
    where "drain 5 sample_host sample_consumer sample_driver (graph_world interrupted) = Some (Inr n, w')" "n = 2"
      "map b_status (batches (w_journal w')) = [Done]" "map b_run_id (batches (w_journal w')) = [''run_251'']"
    by (elim exE conjE)
  then show thesis by (intro that[of w']) (simp_all only:)
qed

theorem drain_terminates_witness:
  "\<exists>r w'. drain 3 sample_host sample_consumer sample_driver (graph_world interrupted) = Some (r, w')"
proof -
  have "work_left interrupted < 3" by code_simp
  then show ?thesis using drain_terminates[OF interrupted_reachable, of 3] by (simp add: graph_world_def)
qed

theorem drain_complete_witness:
  "\<exists>w'. drain 5 sample_host sample_consumer sample_driver (graph_world interrupted) = Some (Inr 2, w') \<and>
     reachable sample_hash (w_journal w') \<and>
     (\<exists>k. w_tick w' = Suc k \<and> list_all (\<lambda>b. b_run_id b = ''run_251'' \<longrightarrow> b_status b = RetryWait \<longrightarrow>
        (\<exists>t. b_next_attempt_at b = Some t \<and> e_now (env_at sample_host k) < t) \<or>
        (\<exists>name \<in> set (b_required_barriers b). \<not> barrier_drained ''run_251'' name (w_journal w')) \<or>
        \<not> run_is_active ''run_251'' (w_journal w')) (batches (w_journal w')))"
proof -
  obtain w' where w': "drain 5 sample_host sample_consumer sample_driver (graph_world interrupted) = Some (Inr 2, w')" by (rule drained)
  have "cn_run_id sample_consumer = ''run_251''" by (simp add: sample_consumer_def)
  from drain_complete[OF interrupted_reachable w', unfolded this] w' show ?thesis
    unfolding list_all_iff by (auto simp: sample_host_def)
qed

theorem drain_delivers_witness:
  "\<exists>w' b. drain 5 sample_host sample_consumer sample_driver (graph_world interrupted) = Some (Inr 2, w') \<and>
     batches (w_journal w') = [b] \<and> b_status b = Done \<and> delivered id ''g'' (w_process w') b"
proof -
  obtain w' where w': "drain 5 sample_host sample_consumer sample_driver (graph_world interrupted) = Some (Inr 2, w')"
    "map b_status (batches (w_journal w')) = [Done]" "map b_run_id (batches (w_journal w')) = [''run_251'']" by (rule drained)
  have "''g'' = generation (cfg_metadata (cn_config sample_consumer))"
    by (simp add: sample_consumer_def sample_config_def sample_metadata_def)
  from drain_delivers[OF sample_contract interrupted_in_step this w'(1)] show ?thesis
    using w' by (auto simp: in_step_def receipt_agrees_def sample_consumer_def)
qed

end
