(* ===== verification/Schema_Preflight.thy ===== *)
theory Schema_Preflight
  imports Graph_Schema
begin

text \<open>
  \<open>schema/preflight.py\<close>: \<open>ensure_schema\<close>, which creates the missing indexes of a manifest and
  polls the driver until every required one is ready. The driver is a parameter: its provider
  name, its \<open>inspect_indexes\<close> (absent when the driver has none) and its \<open>create_indexes\<close>, each
  acting on a driver state. \<open>asyncio.wait_for\<close> shows as a driver call that may answer
  \<open>TimeoutError\<close>. The monotonic clock is a function from the number of readings made so far, in
  microseconds. The lock serialises callers, so one call at a time is what there is to model.
\<close>

section \<open>Index records\<close>

definition upper_char :: "char \<Rightarrow> char" where
  "upper_char c = (if 97 \<le> char_code c \<and> char_code c \<le> 122 then chr (char_code c - 32) else c)"

definition upper :: "string \<Rightarrow> string" where
  "upper s = map upper_char s"

definition ready_states :: "string list" where
  "ready_states = [''ONLINE'', ''OPERATIONAL'', ''READY'']"

definition failed_states :: "string list" where
  "failed_states = [''FAILED'', ''FAILURE'', ''ERROR'']"

definition normalize_properties :: "json \<Rightarrow> string list" where
  "normalize_properties v = (case v of JStr s \<Rightarrow> [s] | JArr xs \<Rightarrow> map py_str xs | _ \<Rightarrow> [])"

definition normalize_index_type :: "json \<Rightarrow> string" where
  "normalize_index_type v =
     (let t = casefold (py_str (json_or v (JStr []))) in if t = ''btree'' then ''range'' else t)"

definition normalize_entity_type :: "json \<Rightarrow> string" where
  "normalize_entity_type v = casefold (py_str (json_or v (JStr ''node'')))"

definition index_record :: "dict \<Rightarrow> index_identity \<times> string" where
  "index_record r =
     (let label_value = dict_get_default r ''label''
            (dict_get_default r ''labelsOrTypes'' (dict_get_default r ''labels_or_types'' (JStr [])));
          label = (case label_value of
              JArr xs \<Rightarrow> (case xs of [] \<Rightarrow> [] | x # _ \<Rightarrow> py_str x)
            | _ \<Rightarrow> py_str (json_or label_value (JStr [])));
          properties = normalize_properties
            (dict_get_default r ''properties'' (dict_get_default r ''property'' (JArr [])));
          index_type = normalize_index_type (dict_get_default r ''index_type'' (dict_get_default r ''type'' (JStr [])));
          entity_type = normalize_entity_type
            (dict_get_default r ''entity_type'' (dict_get_default r ''entityType''
               (dict_get_default r ''entitytype'' (JStr ''node''))));
          status = upper (py_str (json_or (dict_get_default r ''status'' (dict_get_default r ''state'' (JStr []))) (JStr [])))
      in ((label, properties, index_type, entity_type), status))"

definition available_status :: "dict list \<Rightarrow> index_identity \<rightharpoonup> string" where
  "available_status records = foldl (\<lambda>m r. let (k, s) = index_record r in m(k \<mapsto> s)) Map.empty records"

definition status_of :: "(index_identity \<rightharpoonup> string) \<Rightarrow> schema_index \<Rightarrow> string" where
  "status_of available i = (case available (index_key i) of None \<Rightarrow> [] | Some s \<Rightarrow> s)"

definition required_status :: "schema_index list \<Rightarrow> dict list \<Rightarrow> schema_index list \<times> (schema_index \<times> string) list" where
  "required_status indexes records =
     (let available = available_status records; required = filter si_required indexes in
      (filter (\<lambda>i. status_of available i \<notin> set failed_states \<and> status_of available i \<notin> set ready_states) required,
       map (\<lambda>i. (i, status_of available i)) (filter (\<lambda>i. status_of available i \<in> set failed_states) required)))"

section \<open>The driver and its clock\<close>

record 'd schema_driver =
  sd_provider :: string
  sd_inspect :: "(string option \<Rightarrow> 'd \<Rightarrow> (exc + dict list) \<times> 'd) option"
  sd_create :: "dict list \<Rightarrow> string option \<Rightarrow> 'd \<Rightarrow> (exc + unit) \<times> 'd"

record schema_ensure_result =
  er_manifest :: string
  er_fingerprint :: string
  er_database :: "string option"
  er_required_count :: nat
  er_verified_count :: nat
  er_elapsed :: int

type_synonym preflight_cache = "(string \<times> string option \<times> string) \<rightharpoonup> schema_ensure_result"

record 'd preflight =
  pf_driver :: 'd
  pf_reads :: nat
  pf_cache :: preflight_cache

text \<open>\<open>time.monotonic()\<close>.\<close>

definition monotonic :: "(nat \<Rightarrow> int) \<Rightarrow> 'd preflight \<Rightarrow> int \<times> 'd preflight" where
  "monotonic clock w = (clock (pf_reads w), w\<lparr>pf_reads := pf_reads w + 1\<rparr>)"

text \<open>A call of the driver; every failure of it becomes \<open>SchemaPreflightError\<close>, a \<open>RuntimeError\<close>.\<close>

definition driver_call :: "('d \<Rightarrow> (exc + 'a) \<times> 'd) \<Rightarrow> 'd preflight \<Rightarrow> (exc + 'a) \<times> 'd preflight" where
  "driver_call call w =
     (case call (pf_driver w) of
        (Inl x, d) \<Rightarrow> (Inl RuntimeError, w\<lparr>pf_driver := d\<rparr>)
      | (Inr a, d) \<Rightarrow> (Inr a, w\<lparr>pf_driver := d\<rparr>))"

fun create_required ::
  "(nat \<Rightarrow> int) \<Rightarrow> 'd schema_driver \<Rightarrow> graph_schema_manifest \<Rightarrow> string option \<Rightarrow> int \<Rightarrow> schema_index list \<Rightarrow>
   'd preflight \<Rightarrow> (exc + unit) \<times> 'd preflight" where
  "create_required clock drv m db deadline [] w = (Inr (), w)"
| "create_required clock drv m db deadline (i # is) w =
     (let (now, w1) = monotonic clock w in
      if deadline - now \<le> 0 then (Inl RuntimeError, w1)
      else case driver_call (sd_create drv (driver_indexes m (Some [i])) db) w1 of
             (Inl x, w2) \<Rightarrow> (Inl x, w2)
           | (Inr _, w2) \<Rightarrow> create_required clock drv m db deadline is w2)"

text \<open>Optional indexes are best effort: a passed deadline or a failure skips to the next one.\<close>

fun create_optional ::
  "(nat \<Rightarrow> int) \<Rightarrow> 'd schema_driver \<Rightarrow> graph_schema_manifest \<Rightarrow> string option \<Rightarrow> int \<Rightarrow> schema_index list \<Rightarrow>
   'd preflight \<Rightarrow> 'd preflight" where
  "create_optional clock drv m db deadline [] w = w"
| "create_optional clock drv m db deadline (i # is) w =
     (let (now, w1) = monotonic clock w in
      if deadline - now \<le> 0 then create_optional clock drv m db deadline is w1
      else create_optional clock drv m db deadline is
             (snd (driver_call (sd_create drv (driver_indexes m (Some [i])) db) w1)))"

text \<open>
  The polling loop, with fuel for its iterations: \<open>None\<close> when the fuel runs out. The records of
  the first inspection are used again as long as no index was created and every required index
  is still pending; after the first round they are the empty list.
\<close>

definition poll_records ::
  "(nat \<Rightarrow> int) \<Rightarrow> (string option \<Rightarrow> 'd \<Rightarrow> (exc + dict list) \<times> 'd) \<Rightarrow> string option \<Rightarrow> schema_index list \<Rightarrow>
   schema_index list \<Rightarrow> dict list \<Rightarrow> schema_index list \<Rightarrow> 'd preflight \<Rightarrow> (exc + dict list) \<times> 'd preflight" where
  "poll_records clock inspect db required missing initial pending w =
     (if missing = [] \<and> pending = required then (Inr initial, w)
      else driver_call (inspect db) (snd (monotonic clock w)))"

fun poll_indexes ::
  "nat \<Rightarrow> (nat \<Rightarrow> int) \<Rightarrow> (string option \<Rightarrow> 'd \<Rightarrow> (exc + dict list) \<times> 'd) \<Rightarrow> graph_schema_manifest \<Rightarrow> string option \<Rightarrow>
   int \<Rightarrow> schema_index list \<Rightarrow> dict list \<Rightarrow> schema_index list \<Rightarrow> 'd preflight \<Rightarrow> ((exc + unit) \<times> 'd preflight) option" where
  "poll_indexes 0 clock inspect m db deadline missing initial pending w =
     (if pending = [] then Some (Inr (), w) else None)"
| "poll_indexes (Suc fuel) clock inspect m db deadline missing initial pending w =
     (if pending = [] then Some (Inr (), w)
      else case poll_records clock inspect db (filter si_required (gs_indexes m)) missing initial pending w of
             (Inl x, w1) \<Rightarrow> Some (Inl x, w1)
           | (Inr records, w1) \<Rightarrow>
               (let (still, failed) = required_status (gs_indexes m) records in
                if failed \<noteq> [] then Some (Inl RuntimeError, w1)
                else if still = [] then Some (Inr (), w1)
                else let (now, w2) = monotonic clock w1 in
                     if deadline \<le> now then Some (Inl RuntimeError, w2)
                     else poll_indexes fuel clock inspect m db deadline missing [] still w2))"

section \<open>The preflight\<close>

definition cache_key :: "(string \<Rightarrow> string) \<Rightarrow> 'd schema_driver \<Rightarrow> graph_schema_manifest \<Rightarrow> string option \<Rightarrow> string \<times> string option \<times> string" where
  "cache_key h drv m db = (sd_provider drv, db, schema_fingerprint_of h m)"

definition ensure_result ::
  "(string \<Rightarrow> string) \<Rightarrow> graph_schema_manifest \<Rightarrow> string option \<Rightarrow> int \<Rightarrow> schema_ensure_result" where
  "ensure_result h m db elapsed =
     \<lparr>er_manifest = gs_name m, er_fingerprint = schema_fingerprint_of h m, er_database = db,
      er_required_count = length (filter si_required (gs_indexes m)),
      er_verified_count = length (filter si_required (gs_indexes m)), er_elapsed = elapsed\<rparr>"

definition prepare_indexes ::
  "(nat \<Rightarrow> int) \<Rightarrow> 'd schema_driver \<Rightarrow> (string option \<Rightarrow> 'd \<Rightarrow> (exc + dict list) \<times> 'd) \<Rightarrow> graph_schema_manifest \<Rightarrow>
   string option \<Rightarrow> int \<Rightarrow> 'd preflight \<Rightarrow> (exc + schema_index list \<times> dict list) \<times> 'd preflight" where
  "prepare_indexes clock drv inspect m db deadline w =
     (let (now, w1) = monotonic clock w in
      if deadline - now \<le> 0 then (Inl RuntimeError, w1)
      else case driver_call (inspect db) w1 of
        (Inl x, w2) \<Rightarrow> (Inl x, w2)
      | (Inr records, w2) \<Rightarrow>
          (let available = available_status records;
               missing = filter (\<lambda>i. available (index_key i) = None) (gs_indexes m)
           in if \<exists>i \<in> set (gs_indexes m). si_required i \<and> status_of available i \<in> set failed_states
              then (Inl RuntimeError, w2)
              else case create_required clock drv m db deadline (filter si_required missing) w2 of
                     (Inl x, w3) \<Rightarrow> (Inl x, w3)
                   | (Inr _, w3) \<Rightarrow>
                       (Inr (filter si_required missing, records),
                        create_optional clock drv m db deadline (filter (\<lambda>i. \<not> si_required i) missing) w3)))"

definition ensure_schema ::
  "nat \<Rightarrow> (string \<Rightarrow> string) \<Rightarrow> (nat \<Rightarrow> int) \<Rightarrow> int \<Rightarrow> 'd schema_driver \<Rightarrow> graph_schema_manifest \<Rightarrow> string option \<Rightarrow>
   'd preflight \<Rightarrow> ((exc + schema_ensure_result) \<times> 'd preflight) option" where
  "ensure_schema fuel h clock timeout drv m db w =
     (let (started, w1) = monotonic clock w in
      case pf_cache w1 (cache_key h drv m db) of
        Some cached \<Rightarrow> Some (Inr cached, w1)
      | None \<Rightarrow>
          case sd_inspect drv of
            None \<Rightarrow> Some (Inl RuntimeError, w1)
          | Some inspect \<Rightarrow>
              if sd_provider drv = ''falkordb'' \<and> (\<exists>i \<in> set (gs_indexes m). length (si_properties i) \<noteq> 1)
              then Some (Inl RuntimeError, w1)
              else case prepare_indexes clock drv inspect m db (started + timeout) w1 of
                (Inl x, w2) \<Rightarrow> Some (Inl x, w2)
              | (Inr (missing, records), w2) \<Rightarrow>
                  (case poll_indexes fuel clock inspect m db (started + timeout) missing records
                          (filter si_required (gs_indexes m)) w2 of
                     None \<Rightarrow> None
                   | Some (Inl x, w3) \<Rightarrow> Some (Inl x, w3)
                   | Some (Inr _, w3) \<Rightarrow>
                       (let (now, w4) = monotonic clock w3;
                            result = ensure_result h m db (now - started)
                        in Some (Inr result, w4\<lparr>pf_cache := (pf_cache w4)(cache_key h drv m db \<mapsto> result)\<rparr>))))"


section \<open>Properties\<close>

definition all_ready :: "graph_schema_manifest \<Rightarrow> dict list \<Rightarrow> bool" where
  "all_ready m records \<longleftrightarrow>
     (\<forall>i \<in> set (gs_indexes m). si_required i \<longrightarrow> status_of (available_status records) i \<in> set ready_states)"

lemma required_status_ready:
  "required_status (gs_indexes m) records = ([], []) \<longleftrightarrow> all_ready m records"
  by (auto simp: required_status_def Let_def all_ready_def filter_empty_conv failed_states_def ready_states_def)

lemma status_of_none [simp]: "status_of (available_status []) i = []"
  by (simp add: status_of_def available_status_def)

lemma required_status_none [simp]: "required_status indexes [] = (filter si_required indexes, [])"
  by (auto simp: required_status_def Let_def failed_states_def ready_states_def)

lemma driver_call_Inr:
  "driver_call call w = (Inr a, w') \<longleftrightarrow> (\<exists>d. call (pf_driver w) = (Inr a, d) \<and> w' = w\<lparr>pf_driver := d\<rparr>)"
  by (auto simp: driver_call_def split: prod.splits sum.splits)

lemma driver_call_error: "driver_call call w = (Inl x, w') \<Longrightarrow> x = RuntimeError"
  by (auto simp: driver_call_def split: prod.splits sum.splits)

lemma driver_call_reads [simp]: "pf_reads (snd (driver_call call w)) = pf_reads w"
  by (auto simp: driver_call_def split: prod.splits sum.splits)

lemma poll_records_cases:
  assumes "poll_records clock inspect db required missing initial pending w = (Inr records, w')"
  shows "(records = initial \<and> missing = [] \<and> pending = required) \<or> (\<exists>d d'. inspect db d = (Inr records, d'))"
  using assms by (auto simp: poll_records_def driver_call_Inr split: if_splits)

lemma poll_records_reads:
  "poll_records clock inspect db required missing initial pending w = (r, w') \<Longrightarrow> pf_reads w \<le> pf_reads w'"
  by (cases "driver_call (inspect db) (snd (monotonic clock w))")
    (use driver_call_reads[of "inspect db" "snd (monotonic clock w)"] in
      \<open>auto simp: poll_records_def monotonic_def split: if_splits\<close>)

lemma poll_indexes_verified:
  assumes "poll_indexes fuel clock inspect m db deadline missing initial pending w = Some (Inr u, w')"
    and "pending \<noteq> []" and "initial = [] \<or> (\<exists>d d'. inspect db d = (Inr initial, d'))"
  shows "\<exists>records d d'. inspect db d = (Inr records, d') \<and> all_ready m records"
  using assms
proof (induction fuel arbitrary: initial pending w)
  case (Suc fuel)
  let ?req = "filter si_required (gs_indexes m)"
  obtain records w1 where r: "poll_records clock inspect db ?req missing initial pending w = (Inr records, w1)"
    using Suc.prems(1,2) by (auto split: prod.splits sum.splits)
  obtain still failed where st: "required_status (gs_indexes m) records = (still, failed)" by fastforce
  have "failed = []" using Suc.prems(1,2) r st by (auto split: if_splits)
  show ?case
  proof (cases "still = []")
    case True
    then have "all_ready m records" using st \<open>failed = []\<close> required_status_ready by simp
    moreover have "\<exists>d d'. inspect db d = (Inr records, d')"
      using poll_records_cases[OF r] Suc.prems(2,3) st True by auto
    ultimately show ?thesis by blast
  next
    case False
    then show ?thesis
      using Suc.IH[of "[]" still] Suc.prems(1,2) r st \<open>failed = []\<close> by (auto split: if_splits prod.splits)
  qed
qed auto

lemma poll_indexes_terminates:
  assumes "\<And>k. n \<le> k \<Longrightarrow> deadline \<le> clock k" "n < pf_reads w + fuel" "0 < fuel"
  shows "poll_indexes fuel clock inspect m db deadline missing initial pending w \<noteq> None"
  using assms(2,3)
proof (induction fuel arbitrary: initial pending w)
  case (Suc fuel)
  obtain r w1 where r: "poll_records clock inspect db (filter si_required (gs_indexes m)) missing initial pending w = (r, w1)"
    by fastforce
  have le: "pf_reads w \<le> pf_reads w1" using poll_records_reads[OF r] .
  show ?case
  proof (cases "deadline \<le> clock (pf_reads w1)")
    case True
    then show ?thesis using r by (auto simp: monotonic_def Let_def split: sum.splits prod.splits)
  next
    case False
    then have "pf_reads w1 < n" using assms(1) not_le by blast
    then show ?thesis
      using r le Suc.IH Suc.prems by (auto simp: monotonic_def Let_def split: sum.splits prod.splits)
  qed
qed simp

lemma create_required_reads:
  "pf_reads w \<le> pf_reads (snd (create_required clock drv m db deadline is w))"
proof (induction "is" arbitrary: w)
  case (Cons i "is")
  obtain r w2 where c: "driver_call (sd_create drv (driver_indexes m (Some [i])) db) (snd (monotonic clock w)) = (r, w2)"
    by fastforce
  then have "pf_reads w2 = Suc (pf_reads w)"
    using driver_call_reads[of "sd_create drv (driver_indexes m (Some [i])) db" "snd (monotonic clock w)"]
    by (simp add: monotonic_def)
  then show ?case using Cons.IH[of w2] c by (auto simp: monotonic_def Let_def split: sum.splits)
qed simp

lemma create_required_error:
  "create_required clock drv m db deadline is w = (Inl x, w') \<Longrightarrow> x = RuntimeError"
  by (induction clock drv m db deadline "is" w rule: create_required.induct)
    (auto simp: monotonic_def Let_def dest: driver_call_error split: if_splits sum.splits prod.splits)

lemma prepare_indexes_Inr:
  assumes "prepare_indexes clock drv inspect m db deadline w = (Inr (missing, records), w')"
  shows "\<exists>d d'. inspect db d = (Inr records, d')"
  using assms
  by (auto simp: prepare_indexes_def monotonic_def Let_def driver_call_Inr split: if_splits sum.splits prod.splits)

text \<open>
  Polling on answers that name no index: nothing is missing, so every round looks at the same empty
  answer. It ends at the first reading of the clock at or after the deadline.
\<close>

definition raised_at :: "(nat \<Rightarrow> int) \<Rightarrow> int \<Rightarrow> nat \<Rightarrow> nat \<Rightarrow> bool" where
  "raised_at clock deadline first next_read \<longleftrightarrow>
     first < next_read \<and> deadline \<le> clock (next_read - 1) \<and> list_all (\<lambda>k. clock k < deadline) [first..<next_read - 1]"

lemma raised_at_now: "deadline \<le> clock k \<Longrightarrow> raised_at clock deadline k (Suc k)"
  by (simp add: raised_at_def)

lemma raised_at_later:
  assumes "clock k < deadline" "raised_at clock deadline (Suc k) j"
  shows "raised_at clock deadline k j"
proof -
  have "[k..<j - 1] = k # [Suc k..<j - 1]" using assms(2) by (intro upt_conv_Cons) (auto simp: raised_at_def)
  then show ?thesis using assms by (simp add: raised_at_def)
qed

lemma required_status_nothing: "required_status indexes [] = (filter si_required indexes, [])"
  by (simp add: required_status_def available_status_def status_of_def failed_states_def ready_states_def Let_def)

lemma poll_indexes_stuck:
  assumes "filter si_required (gs_indexes m) \<noteq> []" "required_status (gs_indexes m) [] = (filter si_required (gs_indexes m), [])"
    and "required_status (gs_indexes m) initial = (filter si_required (gs_indexes m), [])"
    and "\<forall>k \<ge> n. deadline \<le> clock k" "n < pf_reads w + fuel" "0 < fuel"
  shows "\<exists>w'. poll_indexes fuel clock inspect m db deadline [] initial (filter si_required (gs_indexes m)) w = Some (Inl RuntimeError, w') \<and>
    pf_driver w' = pf_driver w \<and> raised_at clock deadline (pf_reads w) (pf_reads w')"
  using assms(3,5,6)
proof (induction fuel arbitrary: initial w)
  case (Suc fuel)
  let ?req = "filter si_required (gs_indexes m)" and ?w = "w\<lparr>pf_reads := pf_reads w + 1\<rparr>"
  show ?case
  proof (cases "deadline \<le> clock (pf_reads w)")
    case True
    then show ?thesis using assms(1) Suc.prems(1) raised_at_now[of deadline clock "pf_reads w"]
      by (simp add: poll_records_def monotonic_def Let_def)
  next
    case False
    then have "pf_reads w < n" using assms(4) not_le by blast
    then have "n < pf_reads ?w + fuel" "0 < fuel" using Suc.prems(2) by auto
    then obtain w' where "poll_indexes fuel clock inspect m db deadline [] [] ?req ?w = Some (Inl RuntimeError, w')"
      "pf_driver w' = pf_driver w" "raised_at clock deadline (Suc (pf_reads w)) (pf_reads w')"
      using Suc.IH[OF assms(2), of ?w] by auto
    then show ?thesis using False assms(1) Suc.prems(1) raised_at_later[of clock "pf_reads w" deadline]
      by (simp add: poll_records_def monotonic_def Let_def)
  qed
qed simp

text \<open>
  C37. The preflight fails closed. When \<open>ensure_schema\<close> returns a result that it did not take from
  its cache, the driver reported, in one inspection, every required index of the manifest in a
  ready state, and the result carries the fingerprint of the manifest.
\<close>

theorem ensure_schema_verified:
  assumes "ensure_schema fuel h clock timeout drv m db w = Some (Inr result, w')"
    and "pf_cache w (cache_key h drv m db) = None" and "sd_inspect drv = Some inspect"
  shows "er_fingerprint result = schema_fingerprint_of h m \<and>
    (\<exists>records d d'. inspect db d = (Inr records, d') \<and> all_ready m records)"
proof -
  let ?w1 = "w\<lparr>pf_reads := pf_reads w + 1\<rparr>" and ?deadline = "clock (pf_reads w) + timeout"
  let ?req = "filter si_required (gs_indexes m)"
  obtain missing records w2 where prep: "prepare_indexes clock drv inspect m db ?deadline ?w1 = (Inr (missing, records), w2)"
    using assms by (auto simp: ensure_schema_def monotonic_def split: if_splits sum.splits prod.splits)
  obtain u w3 where poll: "poll_indexes fuel clock inspect m db ?deadline missing records ?req w2 = Some (Inr u, w3)"
    using assms prep
    by (auto simp: ensure_schema_def monotonic_def Let_def split: if_splits sum.splits prod.splits option.splits)
  have "er_fingerprint result = schema_fingerprint_of h m"
    using assms prep poll by (auto simp: ensure_schema_def monotonic_def Let_def ensure_result_def split: if_splits)
  moreover have "\<exists>records d d'. inspect db d = (Inr records, d') \<and> all_ready m records"
  proof (cases "?req = []")
    case True
    then show ?thesis using prepare_indexes_Inr[OF prep] by (auto simp: all_ready_def filter_empty_conv)
  next
    case False
    then show ?thesis using poll_indexes_verified[OF poll] prepare_indexes_Inr[OF prep] by blast
  qed
  ultimately show ?thesis ..
qed

text \<open>
  The preflight terminates. Once the clock stays past the deadline from its \<open>n\<close>-th reading on,
  \<open>n + 1\<close> rounds of polling are enough for \<open>ensure_schema\<close> to return or raise, whatever the
  driver answers.
\<close>

theorem ensure_schema_terminates:
  assumes "\<forall>k \<ge> n. clock (pf_reads w) + timeout \<le> clock k"
  shows "ensure_schema (Suc n) h clock timeout drv m db w \<noteq> None"
proof -
  have poll: "(poll_indexes (Suc n) clock inspect m db (clock (pf_reads w) + timeout) missing records pending w' = None) = False"
    for inspect missing records pending w'
    by (rule eq_False[THEN iffD2], rule poll_indexes_terminates[where n = n]) (use assms in auto)
  then show ?thesis
    by (auto simp: poll ensure_schema_def monotonic_def Let_def simp del: poll_indexes.simps
        split: sum.splits prod.splits option.splits)
qed

text \<open>
  C38. Indexes that all start out building are never seen to become ready. If the first inspection
  reports every index of a manifest, none failed and none of the required ones ready yet, then
  \<open>ensure_schema\<close> does not inspect the driver again: the driver stays as that inspection left it, whatever it
  would answer later, and the call raises at the first reading of the clock at or after the
  deadline. The first inspection is made, so the deadline has not passed before it; the clock passes it
  within \<open>n\<close> readings, and then more than \<open>n\<close> rounds of polling are enough.
\<close>

theorem ensure_schema_never_reinspects:
  assumes "pf_cache w (cache_key h drv m db) = None" "sd_inspect drv = Some inspect"
    and "inspect db (pf_driver w) = (Inr records, d)"
    and "filter si_required (gs_indexes m) \<noteq> []"
    and "\<forall>i \<in> set (gs_indexes m). \<exists>s. available_status records (index_key i) = Some s \<and>
           s \<notin> set failed_states \<and> (si_required i \<longrightarrow> s \<notin> set ready_states)"
    and "sd_provider drv = ''falkordb'' \<longrightarrow> (\<forall>i \<in> set (gs_indexes m). length (si_properties i) = 1)"
    and "clock (pf_reads w + 1) < clock (pf_reads w) + timeout"
    and "\<forall>k \<ge> n. clock (pf_reads w) + timeout \<le> clock k" "n < fuel"
  shows "\<exists>w'. ensure_schema fuel h clock timeout drv m db w = Some (Inl RuntimeError, w') \<and> pf_driver w' = d \<and>
    raised_at clock (clock (pf_reads w) + timeout) (pf_reads w + 1) (pf_reads w')"
proof -
  let ?req = "filter si_required (gs_indexes m)" and ?deadline = "clock (pf_reads w) + timeout"
  let ?w = "w\<lparr>pf_driver := d, pf_reads := pf_reads w + 2\<rparr>"
  have none: "filter (\<lambda>i. available_status records (index_key i) = None) (gs_indexes m) = []"
    "\<not> (\<exists>i \<in> set (gs_indexes m). si_required i \<and> status_of (available_status records) i \<in> set failed_states)"
    using assms(5) by (auto simp: filter_empty_conv status_of_def)
  have first: "required_status (gs_indexes m) records = (?req, [])"
    using assms(5) by (auto simp: required_status_def Let_def status_of_def filter_empty_conv intro!: filter_cong)
  have empty: "required_status (gs_indexes m) [] = (?req, [])" by (simp add: required_status_nothing)
  obtain w' where w': "poll_indexes fuel clock inspect m db ?deadline [] records ?req ?w = Some (Inl RuntimeError, w')"
    "pf_driver w' = d" "raised_at clock ?deadline (pf_reads w + 2) (pf_reads w')"
    using poll_indexes_stuck[OF assms(4) empty first assms(8), of ?w fuel] assms(9) by auto
  have "raised_at clock ?deadline (pf_reads w + 1) (pf_reads w')"
    using raised_at_later[of clock "pf_reads w + 1" ?deadline] assms(7) w'(3) by simp
  moreover have "prepare_indexes clock drv inspect m db ?deadline (w\<lparr>pf_reads := pf_reads w + 1\<rparr>) = (Inr ([], records), ?w)"
    using assms(3,7) none by (auto simp: prepare_indexes_def driver_call_def monotonic_def Let_def)
  ultimately show ?thesis using assms(1,2,6) w' by (auto simp: ensure_schema_def monotonic_def Let_def)
qed

subsection \<open>Concrete drivers\<close>

text \<open>
  A driver whose state is the number of inspections made. It reports the one index of a small
  manifest: always ready, or ready from its second inspection on.
\<close>

definition sample_manifest :: graph_schema_manifest where
  "sample_manifest = \<lparr>gs_name = ''m'', gs_version = 1, gs_indexes = [required_index ''File'' [''id'']], gs_relationship_types = []\<rparr>"

definition sample_record :: "string \<Rightarrow> dict" where
  "sample_record status =
     [(''label'', JStr ''File''), (''properties'', JArr [JStr ''id'']), (''type'', JStr ''BTREE''), (''status'', JStr status)]"

definition ready_inspect :: "string option \<Rightarrow> nat \<Rightarrow> (exc + dict list) \<times> nat" where
  "ready_inspect db n = (Inr [sample_record ''online''], n + 1)"

definition building_inspect :: "string option \<Rightarrow> nat \<Rightarrow> (exc + dict list) \<times> nat" where
  "building_inspect db n = (Inr [sample_record (if n = 0 then ''populating'' else ''online'')], n + 1)"

definition sample_driver :: "(string option \<Rightarrow> nat \<Rightarrow> (exc + dict list) \<times> nat) \<Rightarrow> nat schema_driver" where
  "sample_driver inspect = \<lparr>sd_provider = ''neo4j'', sd_inspect = Some inspect, sd_create = (\<lambda>_ _ n. (Inr (), n))\<rparr>"

definition sample_preflight :: "nat preflight" where
  "sample_preflight = \<lparr>pf_driver = 0, pf_reads = 0, pf_cache = Map.empty\<rparr>"

abbreviation sample_ensure where
  "sample_ensure inspect fuel \<equiv>
     ensure_schema fuel (\<lambda>s. ''digest'') int 10 (sample_driver inspect) sample_manifest None sample_preflight"

theorem ensure_schema_verified_witness:
  "\<exists>result w'. sample_ensure ready_inspect 3 = Some (Inr result, w') \<and> er_fingerprint result = ''digest'' \<and>
     (\<exists>records d d'. ready_inspect None d = (Inr records, d') \<and> all_ready sample_manifest records)"
proof -
  have "case sample_ensure ready_inspect 3 of Some (Inr _, _) \<Rightarrow> True | _ \<Rightarrow> False" by code_simp
  then obtain result w' where r: "sample_ensure ready_inspect 3 = Some (Inr result, w')"
    by (auto split: option.splits sum.splits)
  then show ?thesis
    using ensure_schema_verified[OF r]
    by (auto simp: sample_preflight_def sample_driver_def schema_fingerprint_of_def)
qed

theorem ensure_schema_terminates_witness: "sample_ensure building_inspect 11 \<noteq> None"
  using ensure_schema_terminates[of 10 int sample_preflight 10] by (simp add: sample_preflight_def eval_nat_numeral)

theorem ensure_schema_never_reinspects_witness:
  "(\<exists>w'. sample_ensure building_inspect 20 = Some (Inl RuntimeError, w') \<and> pf_driver w' = 1 \<and> raised_at int 10 1 (pf_reads w')) \<and>
     (\<exists>records d d'. building_inspect None d = (Inr records, d') \<and> all_ready sample_manifest records)"
proof -
  have "list_all (\<lambda>i. case available_status [sample_record ''populating''] (index_key i) of None \<Rightarrow> False
      | Some s \<Rightarrow> s \<notin> set failed_states \<and> (si_required i \<longrightarrow> s \<notin> set ready_states)) (gs_indexes sample_manifest)"
    by code_simp
  then have "\<forall>i \<in> set (gs_indexes sample_manifest). \<exists>s. available_status [sample_record ''populating''] (index_key i) = Some s \<and>
      s \<notin> set failed_states \<and> (si_required i \<longrightarrow> s \<notin> set ready_states)"
    by (auto simp: list_all_iff split: option.splits)
  from ensure_schema_never_reinspects[OF _ _ _ _ this, of sample_preflight "\<lambda>s. ''digest''" "sample_driver building_inspect" None
      building_inspect 1 int 10 10 20]
  have "\<exists>w'. sample_ensure building_inspect 20 = Some (Inl RuntimeError, w') \<and> pf_driver w' = 1 \<and> raised_at int 10 1 (pf_reads w')"
    by (simp add: sample_preflight_def sample_driver_def building_inspect_def sample_manifest_def required_index_def)
  moreover have "all_ready sample_manifest [sample_record ''online'']" by code_simp
  ultimately show ?thesis by (auto simp: building_inspect_def intro!: exI[of _ "1::nat"])
qed

end
