(* ===== verification/Store_Generation.thy ===== *)
theory Store_Generation
  imports Journal_Operation "HOL-Library.Multiset"
begin

text \<open>
  \<open>cortex_harness/storage/generation.py\<close> and the contracts it uses: the generations of an embedded
  graph and vector pair. A generation is built in its own directory, published by swapping the
  active manifest, pinned by readers and retired once nobody reads it. The operations run in
  several threads; what one of them does under the publication lock is one step of the system, and
  what it does outside the lock may be interleaved with the steps of the others. A crash drops the
  threads and the memory and keeps the files.

  The files are the active manifest, the compatibility markers, the tombstones and, by generation
  id, the directories with their \<open>generation.json\<close>; the graph and vector data lie in the directory
  and live as long as it. A JSON file is the object it encodes, and objects are compared up to the
  order of their keys. Whether a path is a symbolic link and what a path resolves to are questions to the
  operating system. What the storage topology requires of a generation is an argument.
\<close>

section \<open>Contracts\<close>

datatype generation_state = GenBuilding | GenValidating | GenPublished | GenFailed | GenCancelled | GenRetiring | GenRetired

fun generation_state_value :: "generation_state \<Rightarrow> string" where
  "generation_state_value GenBuilding = ''BUILDING''"
| "generation_state_value GenValidating = ''VALIDATING''"
| "generation_state_value GenPublished = ''PUBLISHED''"
| "generation_state_value GenFailed = ''FAILED''"
| "generation_state_value GenCancelled = ''CANCELLED''"
| "generation_state_value GenRetiring = ''RETIRING''"
| "generation_state_value GenRetired = ''RETIRED''"

definition generation_states :: "generation_state list" where
  "generation_states = [GenBuilding, GenValidating, GenPublished, GenFailed, GenCancelled, GenRetiring, GenRetired]"

definition generation_state_of :: "string \<Rightarrow> exc + generation_state" where
  "generation_state_of s =
     (case List.find (\<lambda>st. generation_state_value st = s) generation_states of None \<Rightarrow> Inl ValueError | Some st \<Rightarrow> Inr st)"

record physical_target_key =
  pt_instance_id :: string
  pt_owner_id :: string
  pt_graph_path :: string
  pt_vector_path :: string

definition target_to_dict :: "physical_target_key \<Rightarrow> dict" where
  "target_to_dict t =
     [(''instance_id'', JStr (pt_instance_id t)), (''owner_id'', JStr (pt_owner_id t)),
      (''graph_path'', JStr (pt_graph_path t)), (''vector_path'', JStr (pt_vector_path t))]"

text \<open>
  \<open>PhysicalTargetKey(**data)\<close>. Parts that are not text make a target that differs from every
  target of a manager; they are refused here already.
\<close>

definition target_from_dict :: "dict \<Rightarrow> exc + physical_target_key" where
  "target_from_dict d =
     (if set (map fst d) \<noteq> {''instance_id'', ''owner_id'', ''graph_path'', ''vector_path''} then Inl TypeError
      else
        case (dict_get d ''instance_id'', dict_get d ''owner_id'', dict_get d ''graph_path'', dict_get d ''vector_path'') of
          (JStr i, JStr ow, JStr g, JStr v) \<Rightarrow>
            Inr \<lparr>pt_instance_id = i, pt_owner_id = ow, pt_graph_path = g, pt_vector_path = v\<rparr>
        | _ \<Rightarrow> Inl ValueError)"

text \<open>The times after the first are \<open>None\<close> or whatever the file has.\<close>

record generation_manifest =
  gm_generation_id :: string
  gm_target :: physical_target_key
  gm_source_revision :: string
  gm_graph_path :: string
  gm_vector_path :: string
  gm_state :: generation_state
  gm_created_at :: string
  gm_validated_at :: json
  gm_published_at :: json
  gm_retired_at :: json
  gm_validation :: dict
  gm_schema_version :: int

definition gm_to_dict :: "generation_manifest \<Rightarrow> dict" where
  "gm_to_dict m =
     [(''generation_id'', JStr (gm_generation_id m)), (''target'', JObj (target_to_dict (gm_target m))),
      (''source_revision'', JStr (gm_source_revision m)), (''graph_path'', JStr (gm_graph_path m)),
      (''vector_path'', JStr (gm_vector_path m)), (''state'', JStr (generation_state_value (gm_state m))),
      (''created_at'', JStr (gm_created_at m)), (''validated_at'', gm_validated_at m),
      (''published_at'', gm_published_at m), (''retired_at'', gm_retired_at m),
      (''validation'', JObj (gm_validation m)), (''schema_version'', JInt (gm_schema_version m))]"

definition mapping_or_empty :: "json \<Rightarrow> exc + dict" where
  "mapping_or_empty v = (if \<not> json_truthy v then Inr [] else case v of JObj d \<Rightarrow> Inr d | _ \<Rightarrow> Inl TypeError)"

definition text_item :: "dict \<Rightarrow> string \<Rightarrow> exc + string" where
  "text_item d k = rbind (dict_item d k) (\<lambda>v. Inr (py_str v))"

definition gm_from_dict :: "dict \<Rightarrow> exc + generation_manifest" where
  "gm_from_dict d =
     (case dict_get d ''target'' of
        JObj td \<Rightarrow>
          rbind (py_int (dict_get_default d ''schema_version'' (JInt 0))) (\<lambda>version.
          if version \<noteq> 1 then Inl ValueError
          else
            rbind (text_item d ''generation_id'') (\<lambda>gid.
            rbind (target_from_dict td) (\<lambda>target.
            rbind (text_item d ''source_revision'') (\<lambda>revision.
            rbind (text_item d ''graph_path'') (\<lambda>graph.
            rbind (text_item d ''vector_path'') (\<lambda>vector.
            rbind (generation_state_of (py_str (dict_get_default d ''state'' (JStr ''PUBLISHED'')))) (\<lambda>state.
            rbind (text_item d ''created_at'') (\<lambda>created.
            rbind (mapping_or_empty (dict_get d ''validation'')) (\<lambda>validation.
            Inr \<lparr>gm_generation_id = gid, gm_target = target, gm_source_revision = revision, gm_graph_path = graph,
              gm_vector_path = vector, gm_state = state, gm_created_at = created,
              gm_validated_at = dict_get d ''validated_at'', gm_published_at = dict_get d ''published_at'',
              gm_retired_at = dict_get d ''retired_at'', gm_validation = validation, gm_schema_version = version\<rparr>)))))))))
      | _ \<Rightarrow> Inl ValueError)"

section \<open>The manager\<close>

record manager =
  mg_root :: string
  mg_target :: physical_target_key
  mg_compatibility :: "string \<Rightarrow> dict"
  mg_symlink :: "string \<Rightarrow> bool"
  mg_resolve :: "string \<Rightarrow> string"

text \<open>\<open>[A-Za-z0-9][A-Za-z0-9._-]{0,127}\<close>.\<close>

definition ascii_alnum :: "char \<Rightarrow> bool" where
  "ascii_alnum c \<longleftrightarrow> word_char c \<and> c \<noteq> CHR ''_''"

definition safe_generation_id :: "string \<Rightarrow> exc + string" where
  "safe_generation_id gid =
     (case gid of
        [] \<Rightarrow> Inl ValueError
      | c # cs \<Rightarrow>
          if ascii_alnum c \<and> length cs \<le> 127 \<and> list_all (\<lambda>x. ascii_alnum x \<or> x \<in> {CHR ''.'', CHR ''_'', CHR ''-''}) cs
          then Inr gid else Inl ValueError)"

definition generations_root :: "manager \<Rightarrow> string" where
  "generations_root mg = mg_root mg @ ''/generations''"

definition generation_root :: "manager \<Rightarrow> generation_manifest \<Rightarrow> exc + string" where
  "generation_root mg m =
     rbind (safe_generation_id (gm_generation_id m)) (\<lambda>gid.
     let lexical = generations_root mg @ ''/'' @ gid in
     if mg_symlink mg lexical then Inl ValueError
     else
       let resolved = mg_resolve mg lexical; base = mg_resolve mg (generations_root mg) in
       if resolved = base \<or> startswith resolved (base @ ''/'') then Inr resolved else Inl ValueError)"

definition validate_paths :: "manager \<Rightarrow> generation_manifest \<Rightarrow> exc + unit" where
  "validate_paths mg m =
     rbind (generation_root mg m) (\<lambda>dir.
     if mg_resolve mg (gm_graph_path m) \<noteq> dir @ ''/graph/data.rdb'' \<or> mg_resolve mg (gm_vector_path m) \<noteq> dir @ ''/vector''
     then Inl ValueError else Inr ())"

definition same_mapping :: "dict \<Rightarrow> dict \<Rightarrow> bool" where
  "same_mapping d e \<longleftrightarrow> sort_keys (JObj d) = sort_keys (JObj e)"

definition validate_storage_target :: "manager \<Rightarrow> generation_manifest \<Rightarrow> exc + unit" where
  "validate_storage_target mg m =
     (let expected = mg_compatibility mg (gm_generation_id m) in
      if expected = [] then Inr ()
      else case dict_get (gm_validation m) ''storage_compatibility'' of
        JObj actual \<Rightarrow> if same_mapping actual expected then Inr () else Inl ValueError
      | _ \<Rightarrow> Inl ValueError)"

text \<open>The files and the memory of one manager.\<close>

record generations =
  gs_active :: "dict option"
  gs_markers :: "string \<rightharpoonup> dict"
  gs_tombstones :: "string \<rightharpoonup> dict"
  gs_records :: "string \<rightharpoonup> dict"
  gs_references :: "string \<rightharpoonup> nat"
  gs_retiring :: "string set"
  gs_cache :: "generation_manifest option"
  gs_cache_loaded :: bool

definition no_generations :: generations where
  "no_generations =
     \<lparr>gs_active = None, gs_markers = Map.empty, gs_tombstones = Map.empty, gs_records = Map.empty,
      gs_references = Map.empty, gs_retiring = {}, gs_cache = None, gs_cache_loaded = False\<rparr>"

text \<open>
  Every file is written the same way: to a temporary file, which is synced and then replaces the
  file by \<open>os.replace\<close>, after which the directory is synced. It may raise before the replacement, when nothing
  has changed yet, or after it, when the new file is in place already.
\<close>

datatype write_fault = Written | Unwritten | Unsynced

fun replace_file :: "write_fault \<Rightarrow> (generations \<Rightarrow> generations) \<Rightarrow> generations \<Rightarrow> (exc + unit) \<times> generations" where
  "replace_file Written change s = (Inr (), change s)"
| "replace_file Unwritten change s = (Inl OSError, s)"
| "replace_file Unsynced change s = (Inl OSError, change s)"

section \<open>Markers, allocation, the active generation\<close>

definition mark_incompatible ::
  "write_fault \<Rightarrow> string \<Rightarrow> string \<Rightarrow> string \<Rightarrow> generations \<Rightarrow> (exc + unit) \<times> generations" where
  "mark_incompatible f gid reason provenance s =
     (if strip reason = [] then (Inl ValueError, s)
      else case safe_generation_id gid of
        Inl x \<Rightarrow> (Inl x, s)
      | Inr _ \<Rightarrow>
          (case replace_file f (\<lambda>s. s\<lparr>gs_markers := (gs_markers s)(gid \<mapsto>
                  [(''schema_version'', JStr ''1''), (''generation_id'', JStr gid), (''compatible'', JBool False),
                   (''reason'', JStr reason), (''provenance'', JStr provenance)])\<rparr>) s of
             (Inl x, s1) \<Rightarrow> (Inl x, s1)
           | (Inr _, s1) \<Rightarrow>
               (Inr (),
                if gs_cache s1 \<noteq> None \<and> gm_generation_id (the (gs_cache s1)) = gid
                then s1\<lparr>gs_cache := None, gs_cache_loaded := False\<rparr> else s1)))"

definition incompatibility :: "string \<Rightarrow> generations \<Rightarrow> exc + dict option" where
  "incompatibility gid s =
     rbind (safe_generation_id gid) (\<lambda>_.
     case gs_markers s gid of
       None \<Rightarrow> Inr None
     | Some payload \<Rightarrow>
         if dict_get payload ''compatible'' = JBool False then Inr (Some payload) else Inl ValueError)"

definition write_generation_record ::
  "write_fault \<Rightarrow> manager \<Rightarrow> generation_manifest \<Rightarrow> generations \<Rightarrow> (exc + unit) \<times> generations" where
  "write_generation_record f mg m s =
     (case generation_root mg m of
        Inl x \<Rightarrow> (Inl x, s)
      | Inr _ \<Rightarrow> replace_file f (\<lambda>s. s\<lparr>gs_records := (gs_records s)(gm_generation_id m \<mapsto> gm_to_dict m)\<rparr>) s)"

text \<open>\<open>uuid\<close> is the text \<open>uuid.uuid4().hex\<close> gives, \<open>now\<close> the time.\<close>

definition allocate ::
  "write_fault \<Rightarrow> manager \<Rightarrow> string \<Rightarrow> string \<Rightarrow> string \<Rightarrow> string option \<Rightarrow> generations \<Rightarrow> (exc + generation_manifest) \<times> generations" where
  "allocate f mg now uuid revision gid s =
     (case safe_generation_id (case gid of None \<Rightarrow> uuid | Some g \<Rightarrow> g) of
        Inl x \<Rightarrow> (Inl x, s)
      | Inr g \<Rightarrow>
          let dir = generations_root mg @ ''/'' @ g; compat = mg_compatibility mg g;
              m = \<lparr>gm_generation_id = g, gm_target = mg_target mg, gm_source_revision = revision,
                   gm_graph_path = dir @ ''/graph/data.rdb'', gm_vector_path = dir @ ''/vector'', gm_state = GenBuilding,
                   gm_created_at = now, gm_validated_at = JNull, gm_published_at = JNull, gm_retired_at = JNull,
                   gm_validation = (if compat = [] then [] else [(''storage_compatibility'', JObj compat)]),
                   gm_schema_version = 1\<rparr>
          in case write_generation_record f mg m s of (Inl x, s') \<Rightarrow> (Inl x, s') | (Inr _, s') \<Rightarrow> (Inr m, s'))"

definition load_active :: "manager \<Rightarrow> generations \<Rightarrow> (exc + generation_manifest option) \<times> generations" where
  "load_active mg s =
     (if gs_cache_loaded s then (Inr (gs_cache s), s)
      else case gs_active s of
        None \<Rightarrow> (Inr None, s\<lparr>gs_cache := None, gs_cache_loaded := True\<rparr>)
      | Some d \<Rightarrow>
          (case rbind (gm_from_dict d) (\<lambda>m.
                if gm_target m \<noteq> mg_target mg \<or> gm_state m \<noteq> GenPublished then Inl ValueError
                else
                  rbind (validate_storage_target mg m) (\<lambda>_.
                  rbind (validate_paths mg m) (\<lambda>_.
                  rbind (incompatibility (gm_generation_id m) s) (\<lambda>marker.
                  if marker \<noteq> None then Inl ValueError else Inr m)))) of
             Inl x \<Rightarrow> (Inl x, s)
           | Inr m \<Rightarrow> (Inr (Some m), s\<lparr>gs_cache := Some m, gs_cache_loaded := True\<rparr>)))"

definition recover :: "manager \<Rightarrow> generations \<Rightarrow> (exc + generation_manifest option) \<times> generations" where
  "recover mg s = load_active mg (s\<lparr>gs_cache := None, gs_cache_loaded := False\<rparr>)"

section \<open>Publication\<close>

text \<open>
  Up to the first look at the tombstones, without a lock. The callback may change the validation
  of the manifest; it returns what it leaves there.
\<close>

definition publish_candidate ::
  "manager \<Rightarrow> string \<Rightarrow> (generation_manifest \<Rightarrow> exc + dict) \<Rightarrow> generation_manifest \<Rightarrow> generations \<Rightarrow> exc + generation_manifest" where
  "publish_candidate mg now validate m s =
     (if gm_target m \<noteq> mg_target mg then Inl ValueError
      else
        rbind (validate_storage_target mg m) (\<lambda>_.
        rbind (validate_paths mg m) (\<lambda>_.
        rbind (incompatibility (gm_generation_id m) s) (\<lambda>marker.
        if marker \<noteq> None then Inl ValueError
        else
          rbind (validate m) (\<lambda>v.
          rbind (validate_storage_target mg (m\<lparr>gm_validation := v\<rparr>)) (\<lambda>_.
          let compat = mg_compatibility mg (gm_generation_id m);
              published = m\<lparr>gm_state := GenPublished, gm_validated_at := json_or (gm_validated_at m) (JStr now),
                gm_published_at := JStr now,
                gm_validation := (if compat = [] then v else dict_set ''storage_compatibility'' (JObj compat) v)\<rparr>
          in rbind (validate_storage_target mg published) (\<lambda>_. Inr published)))))))"

definition check_unretired :: "generation_manifest \<Rightarrow> generations \<Rightarrow> exc + unit" where
  "check_unretired m s =
     rbind (safe_generation_id (gm_generation_id m)) (\<lambda>gid. if gs_tombstones s gid \<noteq> None then Inl ValueError else Inr ())"

text \<open>The checks and the swap of the active manifest under the publication lock.\<close>

definition publish_checks :: "manager \<Rightarrow> generation_manifest \<Rightarrow> generations \<Rightarrow> exc + unit" where
  "publish_checks mg m s =
     rbind (validate_storage_target mg m) (\<lambda>_.
     rbind (validate_paths mg m) (\<lambda>_.
     if gm_generation_id m \<in> gs_retiring s then Inl ValueError
     else
       rbind (check_unretired m s) (\<lambda>_.
       if gs_records s (gm_generation_id m) = None then Inl ValueError
       else
         rbind (incompatibility (gm_generation_id m) s) (\<lambda>marker.
         if marker \<noteq> None then Inl ValueError else Inr ()))))"

definition write_active_manifest_unlocked :: "write_fault \<Rightarrow> generation_manifest \<Rightarrow> generations \<Rightarrow> (exc + unit) \<times> generations" where
  "write_active_manifest_unlocked f m s = replace_file f (\<lambda>s. s\<lparr>gs_active := Some (gm_to_dict m)\<rparr>) s"

definition publish_swap ::
  "write_fault \<Rightarrow> manager \<Rightarrow> generation_manifest \<Rightarrow> generations \<Rightarrow> (exc + generation_manifest) \<times> generations" where
  "publish_swap f mg m s =
     (case publish_checks mg m s of
        Inl x \<Rightarrow> (Inl x, s)
      | Inr _ \<Rightarrow>
          (case write_active_manifest_unlocked f m s of
             (Inl x, s') \<Rightarrow> (Inl x, s')
           | (Inr _, s') \<Rightarrow> (Inr m, s'\<lparr>gs_cache := Some m, gs_cache_loaded := True\<rparr>)))"

text \<open>The whole of \<open>publish\<close> when no other thread interferes; it writes two files, the record and the active manifest.\<close>

definition publish_generation ::
  "write_fault \<times> write_fault \<Rightarrow> manager \<Rightarrow> string \<Rightarrow> (generation_manifest \<Rightarrow> exc + dict) \<Rightarrow> generation_manifest \<Rightarrow> generations \<Rightarrow>
   (exc + generation_manifest) \<times> generations" where
  "publish_generation fs mg now validate m s =
     (case rbind (publish_candidate mg now validate m s) (\<lambda>p. rbind (check_unretired p s) (\<lambda>_. Inr p)) of
        Inl x \<Rightarrow> (Inl x, s)
      | Inr p \<Rightarrow>
          (case write_generation_record (fst fs) mg p s of
             (Inl x, s') \<Rightarrow> (Inl x, s')
           | (Inr _, s') \<Rightarrow> publish_swap (snd fs) mg p s'))"

section \<open>Readers and retirement\<close>

definition references :: "generations \<Rightarrow> string \<Rightarrow> nat" where
  "references s gid = (case gs_references s gid of None \<Rightarrow> 0 | Some n \<Rightarrow> n)"

definition pin_active :: "manager \<Rightarrow> generations \<Rightarrow> (exc + generation_manifest) \<times> generations" where
  "pin_active mg s =
     (case load_active mg s of
        (Inl x, s') \<Rightarrow> (Inl x, s')
      | (Inr None, s') \<Rightarrow> (Inl RuntimeError, s')
      | (Inr (Some m), s') \<Rightarrow>
          (Inr m, s'\<lparr>gs_references := (gs_references s')(gm_generation_id m \<mapsto> references s' (gm_generation_id m) + 1)\<rparr>))"

definition unpin :: "generation_manifest \<Rightarrow> generations \<Rightarrow> generations" where
  "unpin m s =
     (let gid = gm_generation_id m; current = references s gid in
      if current \<le> 1 then s\<lparr>gs_references := (gs_references s)(gid := None)\<rparr>
      else s\<lparr>gs_references := (gs_references s)(gid \<mapsto> current - 1)\<rparr>)"

definition write_retired_tombstone :: "write_fault \<Rightarrow> string \<Rightarrow> string \<Rightarrow> generations \<Rightarrow> (exc + unit) \<times> generations" where
  "write_retired_tombstone f now gid s = replace_file f (\<lambda>s. s\<lparr>gs_tombstones := (gs_tombstones s)(gid \<mapsto>
     [(''schema_version'', JInt 1), (''generation_id'', JStr gid), (''retired_at'', JStr now)])\<rparr>) s"

text \<open>Retirement up to the end of its first critical section: true if the removal may begin.\<close>

definition retire_begin ::
  "write_fault \<Rightarrow> manager \<Rightarrow> string \<Rightarrow> generation_manifest \<Rightarrow> generations \<Rightarrow> (exc + bool) \<times> generations" where
  "retire_begin f mg now m s =
     (let gid = gm_generation_id m in
      case validate_paths mg m of
        Inl x \<Rightarrow> (Inl x, s)
      | Inr _ \<Rightarrow>
          (case load_active mg s of
             (Inl x, s') \<Rightarrow> (Inl x, s')
           | (Inr active, s') \<Rightarrow>
               if active \<noteq> None \<and> gm_generation_id (the active) = gid then (Inr False, s')
               else if references s' gid \<noteq> 0 then (Inr False, s')
               else if gid \<in> gs_retiring s' then (Inr False, s')
               else
                 (case write_retired_tombstone f now gid s' of
                    (Inl x, s'') \<Rightarrow> (Inl x, s'')
                  | (Inr _, s'') \<Rightarrow> (Inr True, s''\<lparr>gs_retiring := insert gid (gs_retiring s'')\<rparr>))))"

definition remove_tree :: "generation_manifest \<Rightarrow> generations \<Rightarrow> generations" where
  "remove_tree m s = s\<lparr>gs_records := (gs_records s)(gm_generation_id m := None)\<rparr>"

definition retire_end :: "generation_manifest \<Rightarrow> generations \<Rightarrow> generations" where
  "retire_end m s = s\<lparr>gs_retiring := gs_retiring s - {gm_generation_id m}\<rparr>"

definition retire :: "write_fault \<Rightarrow> manager \<Rightarrow> string \<Rightarrow> generation_manifest \<Rightarrow> generations \<Rightarrow> (exc + bool) \<times> generations" where
  "retire f mg now m s =
     (case retire_begin f mg now m s of
        (Inr True, s') \<Rightarrow> (Inr True, retire_end m (remove_tree m s'))
      | r \<Rightarrow> r)"


section \<open>The threads\<close>

text \<open>
  What the threads are in the middle of: a publication before its first look at the tombstones,
  before its record is written and before its swap; a retirement before its removal and before its
  end; a reader between pin and unpin.
\<close>

datatype task =
    Checking generation_manifest
  | Recording generation_manifest
  | Swapping generation_manifest
  | Removing generation_manifest
  | Finishing generation_manifest
  | Reading generation_manifest

fun reads :: "string \<Rightarrow> task \<Rightarrow> bool" where
  "reads g (Reading m) \<longleftrightarrow> gm_generation_id m = g"
| "reads g _ \<longleftrightarrow> False"

fun retires :: "string \<Rightarrow> task \<Rightarrow> bool" where
  "retires g (Removing m) \<longleftrightarrow> gm_generation_id m = g"
| "retires g (Finishing m) \<longleftrightarrow> gm_generation_id m = g"
| "retires g _ \<longleftrightarrow> False"

fun publishes :: "task \<Rightarrow> generation_manifest option" where
  "publishes (Checking p) = Some p"
| "publishes (Recording p) = Some p"
| "publishes (Swapping p) = Some p"
| "publishes _ = None"

type_synonym threads = "generations \<times> task multiset"

text \<open>A new process finds the files and an empty memory.\<close>

definition restart :: "generations \<Rightarrow> generations" where
  "restart s = s\<lparr>gs_references := Map.empty, gs_retiring := {}, gs_cache := None, gs_cache_loaded := False\<rparr>"

inductive gstep :: "manager \<Rightarrow> threads \<Rightarrow> threads \<Rightarrow> bool" for mg where
  publish_starts: "publish_candidate mg now validate m s = Inr p \<Longrightarrow> gstep mg (s, T) (s, add_mset (Checking p) T)"
| publish_checked: "check_unretired p s = Inr () \<Longrightarrow> gstep mg (s, add_mset (Checking p) T) (s, add_mset (Recording p) T)"
| publish_recorded: "write_generation_record f mg p s = (Inr (), s') \<Longrightarrow>
    gstep mg (s, add_mset (Recording p) T) (s', add_mset (Swapping p) T)"
| publish_unrecorded: "write_generation_record f mg p s = (Inl x, s') \<Longrightarrow> gstep mg (s, add_mset (Recording p) T) (s', T)"
| publish_swapped: "publish_swap f mg p s = (r, s') \<Longrightarrow> gstep mg (s, add_mset (Swapping p) T) (s', T)"
| publish_raises: "publishes t = Some p \<Longrightarrow> gstep mg (s, add_mset t T) (s, T)"
| allocated: "allocate f mg now uuid revision gid s = (r, s') \<Longrightarrow> gstep mg (s, T) (s', T)"
| marked: "mark_incompatible f gid reason provenance s = (r, s') \<Longrightarrow> gstep mg (s, T) (s', T)"
| loaded: "load_active mg s = (r, s') \<Longrightarrow> gstep mg (s, T) (s', T)"
| recovered: "recover mg s = (r, s') \<Longrightarrow> gstep mg (s, T) (s', T)"
| pinned: "pin_active mg s = (Inr m, s') \<Longrightarrow> gstep mg (s, T) (s', add_mset (Reading m) T)"
| pin_refused: "pin_active mg s = (Inl x, s') \<Longrightarrow> gstep mg (s, T) (s', T)"
| unpinned: "gstep mg (s, add_mset (Reading m) T) (unpin m s, T)"
| retire_refused: "retire_begin f mg now m s = (r, s') \<Longrightarrow> r \<noteq> Inr True \<Longrightarrow> gstep mg (s, T) (s', T)"
| retire_begun: "retire_begin f mg now m s = (Inr True, s') \<Longrightarrow> gstep mg (s, T) (s', add_mset (Removing m) T)"
| retire_removed: "gstep mg (s, add_mset (Removing m) T) (remove_tree m s, add_mset (Finishing m) T)"
| retire_raises: "gstep mg (s, add_mset (Removing m) T) (s, add_mset (Finishing m) T)"
| retire_ended: "gstep mg (s, add_mset (Finishing m) T) (retire_end m s, T)"
| crashed: "gstep mg (s, T) (restart s, {#})"

text \<open>
  A publication that raises after \<open>os.replace\<close> leaves a cache that differs from the file. The manager does not notice:
  it would retire the generation the file names. The gateway calls \<open>recover\<close> after every publication that
  raised, which makes the two agree again. What the manager guarantees is proved for
  runs that keep to this: no tombstone is written while cache and file disagree. All other steps,
  readers, publications, markers, loads and crashes, may come at any time.
\<close>

definition coherent :: "generations \<Rightarrow> bool" where
  "coherent s \<longleftrightarrow> (gs_cache_loaded s \<longrightarrow> gs_active s = map_option gm_to_dict (gs_cache s))"

definition reconciled_step :: "manager \<Rightarrow> threads \<Rightarrow> threads \<Rightarrow> bool" where
  "reconciled_step mg st st' \<longleftrightarrow> gstep mg st st' \<and> (coherent (fst st) \<or> gs_tombstones (fst st') = gs_tombstones (fst st))"

interpretation gsys: transition_system "(no_generations, {#})" "reconciled_step mg" for mg .

section \<open>Manifests and their dictionaries\<close>

lemma generation_state_of_value: "generation_state_of (generation_state_value st) = Inr st"
  by (cases st) (simp_all add: generation_state_of_def generation_states_def)

lemma generation_state_value_inject [simp]: "generation_state_value a = generation_state_value b \<longleftrightarrow> a = b"
  by (metis generation_state_of_value sum.inject(2))

lemma target_to_dict_inject [simp]: "target_to_dict a = target_to_dict b \<longleftrightarrow> a = b"
  by (cases a; cases b) (auto simp: target_to_dict_def)

lemma gm_to_dict_inject [simp]: "gm_to_dict a = gm_to_dict b \<longleftrightarrow> a = b"
  by (cases a; cases b) (auto simp: gm_to_dict_def)

lemma target_from_to_dict [simp]: "target_from_dict (target_to_dict t) = Inr t"
  by (cases t) (auto simp: target_from_dict_def target_to_dict_def dict_get_def)

lemma gm_from_to_dict:
  "gm_from_dict (gm_to_dict m) = (if gm_schema_version m = 1 then Inr m else Inl ValueError)"
  by (cases m) (simp add: gm_from_dict_def gm_to_dict_def dict_get_def dict_get_default_def text_item_def
      dict_item_def generation_state_of_value mapping_or_empty_def py_int_def py_str_def json_truthy_def)

section \<open>A sample\<close>

definition sample_target :: physical_target_key where
  "sample_target = \<lparr>pt_instance_id = ''i'', pt_owner_id = ''o'', pt_graph_path = ''/g'', pt_vector_path = ''/v''\<rparr>"

end
