(* ===== verification/Store_Lifecycle.thy ===== *)
theory Store_Lifecycle
  imports Store_Generation
begin

text \<open>
  What the threads of one generation manager cannot do to each other: the invariant of the files,
  the cache, the reference counts and the tasks under every reconciled step, writes that raise before or
  after the replacement and crashes included, and the properties that follow. A generation is
  never removed under a reader, the active manifest always names a generation that can be served, and
  retirement is final. Without the reconciliation they do not hold: after a publication that raised once
  the manifest was replaced, the manager retires the generation the file names.
\<close>

section \<open>What the operations do\<close>

text \<open>Loading the active generation touches the cache only; what it returns is what it caches.\<close>

definition same_files :: "generations \<Rightarrow> generations \<Rightarrow> bool" where
  "same_files s t \<longleftrightarrow> gs_active t = gs_active s \<and> gs_markers t = gs_markers s \<and> gs_tombstones t = gs_tombstones s
     \<and> gs_records t = gs_records s"

lemma load_active_effect:
  assumes "load_active mg s = (r, s')"
  shows "same_files s s'" "gs_references s' = gs_references s" "gs_retiring s' = gs_retiring s"
    and "r = Inr x \<Longrightarrow> gs_cache_loaded s' \<and> gs_cache s' = x"
    and "r = Inl e \<Longrightarrow> s' = s"
  using assms by (auto simp: load_active_def same_files_def split: if_splits option.splits sum.splits)

lemma load_active_fresh:
  assumes "load_active mg s = (Inr (Some m), s')" "\<not> gs_cache_loaded s"
  obtains d where "gs_active s = Some d" "gm_from_dict d = Inr m" "gs_markers s (gm_generation_id m) = None"
  using assms by (auto simp: load_active_def incompatibility_def rbind_def split: if_splits option.splits sum.splits)

lemma load_active_none:
  assumes "load_active mg s = (Inr None, s')" "\<not> gs_cache_loaded s"
  shows "gs_active s = None"
  using assms by (auto simp: load_active_def split: if_splits option.splits sum.splits)

lemma validate_paths_safe:
  assumes "validate_paths mg m = Inr u"
  shows "safe_generation_id (gm_generation_id m) = Inr (gm_generation_id m)"
  using assms
  by (auto simp: validate_paths_def generation_root_def safe_generation_id_def rbind_def split: sum.splits list.splits if_splits)

lemma load_active_exact:
  assumes "\<not> gs_cache_loaded s" "gs_active s = Some (gm_to_dict m)" "gm_schema_version m = 1"
    "gm_target m = mg_target mg" "gm_state m = GenPublished" "validate_storage_target mg m = Inr ()" "validate_paths mg m = Inr ()"
  shows "fst (load_active mg s) = (if gs_markers s (gm_generation_id m) = None then Inr (Some m) else Inl ValueError)"
  using assms validate_paths_safe[OF assms(7)]
  by (auto simp: load_active_def gm_from_to_dict incompatibility_def rbind_def split: option.splits)

section \<open>The invariant\<close>

text \<open>A generation that may be served: published for this target, in place, and not retired.\<close>

definition serviceable :: "manager \<Rightarrow> generation_manifest \<Rightarrow> generations \<Rightarrow> bool" where
  "serviceable mg m s \<longleftrightarrow>
     gm_target m = mg_target mg \<and> gm_state m = GenPublished \<and> validate_storage_target mg m = Inr () \<and>
     validate_paths mg m = Inr () \<and> gs_records s (gm_generation_id m) \<noteq> None \<and> gs_tombstones s (gm_generation_id m) = None"

definition active_ok :: "manager \<Rightarrow> generations \<Rightarrow> bool" where
  "active_ok mg s \<longleftrightarrow> (\<forall>d. gs_active s = Some d \<longrightarrow> (\<exists>m. d = gm_to_dict m \<and> serviceable mg m s))"

definition cached_ok :: "manager \<Rightarrow> generations \<Rightarrow> bool" where
  "cached_ok mg s \<longleftrightarrow> (\<forall>m. gs_cache_loaded s \<and> gs_cache s = Some m \<longrightarrow> serviceable mg m s)"

definition manager_ok :: "manager \<Rightarrow> generations \<Rightarrow> bool" where
  "manager_ok mg s \<longleftrightarrow> active_ok mg s \<and> cached_ok mg s \<and> gs_retiring s \<subseteq> dom (gs_tombstones s)"

text \<open>The same for a manager nobody has disturbed: the cache agrees with the file and is not marked.\<close>

definition cache_ok :: "generations \<Rightarrow> bool" where
  "cache_ok s \<longleftrightarrow> (gs_cache_loaded s \<longrightarrow>
     gs_active s = map_option gm_to_dict (gs_cache s) \<and> (\<forall>m. gs_cache s = Some m \<longrightarrow> gs_markers s (gm_generation_id m) = None))"

definition store_ok :: "manager \<Rightarrow> generations \<Rightarrow> bool" where
  "store_ok mg s \<longleftrightarrow> active_ok mg s \<and> cache_ok s \<and> gs_retiring s \<subseteq> dom (gs_tombstones s)"

fun task_ok :: "manager \<Rightarrow> generations \<Rightarrow> task \<Rightarrow> bool" where
  "task_ok mg s (Reading m) \<longleftrightarrow> serviceable mg m s"
| "task_ok mg s (Removing m) \<longleftrightarrow> gs_tombstones s (gm_generation_id m) \<noteq> None"
| "task_ok mg s (Finishing m) \<longleftrightarrow> gs_tombstones s (gm_generation_id m) \<noteq> None"
| "task_ok mg s (Checking p) \<longleftrightarrow> gm_target p = mg_target mg \<and> gm_state p = GenPublished"
| "task_ok mg s (Recording p) \<longleftrightarrow> gm_target p = mg_target mg \<and> gm_state p = GenPublished"
| "task_ok mg s (Swapping p) \<longleftrightarrow> gm_target p = mg_target mg \<and> gm_state p = GenPublished"

definition counts_ok :: "threads \<Rightarrow> bool" where
  "counts_ok st \<longleftrightarrow> (\<forall>g. references (fst st) g = size (filter_mset (reads g) (snd st)) \<and>
     size (filter_mset (retires g) (snd st)) = (if g \<in> gs_retiring (fst st) then 1 else 0))"

definition ginv :: "manager \<Rightarrow> threads \<Rightarrow> bool" where
  "ginv mg st \<longleftrightarrow> manager_ok mg (fst st) \<and> counts_ok st \<and> (\<forall>t \<in># snd st. task_ok mg (fst st) t)"

lemma store_okE:
  assumes "store_ok mg s" "load_active mg s = (r, s')"
  shows "store_ok mg s'"
    and "r = Inr (Some m) \<Longrightarrow> gs_active s = Some (gm_to_dict m) \<and> serviceable mg m s \<and> gs_markers s (gm_generation_id m) = None"
    and "r = Inr None \<Longrightarrow> gs_active s = None"
proof -
  show some: "gs_active s = Some (gm_to_dict m) \<and> serviceable mg m s \<and> gs_markers s (gm_generation_id m) = None"
    if "r = Inr (Some m)" for m
  proof (cases "gs_cache_loaded s")
    case True
    then have "gs_cache s = Some m" using assms(2) that by (auto simp: load_active_def)
    then show ?thesis using assms(1) True by (auto simp: store_ok_def active_ok_def cache_ok_def)
  next
    case False
    then obtain d where d: "gs_active s = Some d" "gm_from_dict d = Inr m" "gs_markers s (gm_generation_id m) = None"
      using assms(2) load_active_fresh unfolding \<open>r = Inr (Some m)\<close> by blast
    obtain m' where "d = gm_to_dict m'" "serviceable mg m' s"
      using assms(1) d(1) by (auto simp: store_ok_def active_ok_def)
    then show ?thesis using d by (auto simp: gm_from_to_dict split: if_splits)
  qed
  show none: "gs_active s = None" if "r = Inr None"
  proof (cases "gs_cache_loaded s")
    case True
    then show ?thesis using assms that by (auto simp: load_active_def store_ok_def cache_ok_def)
  next
    case False
    then show ?thesis using assms(2) that load_active_none by blast
  qed
  show "store_ok mg s'"
  proof (cases r)
    case (Inl e)
    then show ?thesis using assms load_active_effect(5) by blast
  next
    case (Inr x)
    have "cache_ok s'"
      using load_active_effect(1,4)[OF assms(2)] Inr some none
      by (cases x) (auto simp: cache_ok_def same_files_def)
    then show ?thesis
      using assms(1) load_active_effect(1,3)[OF assms(2)]
      by (auto simp: store_ok_def active_ok_def serviceable_def same_files_def)
  qed
qed

lemma manager_okE:
  assumes "manager_ok mg s" "load_active mg s = (r, s')"
  shows "manager_ok mg s'"
    and "r = Inr (Some m) \<Longrightarrow> serviceable mg m s"
    and "r = Inr x \<Longrightarrow> coherent s \<Longrightarrow> gs_active s = map_option gm_to_dict x"
proof -
  have fresh: "gs_active s = map_option gm_to_dict x \<and> (\<forall>m. x = Some m \<longrightarrow> serviceable mg m s)" if "r = Inr x" "\<not> gs_cache_loaded s" for x
  proof (cases x)
    case None
    then show ?thesis using load_active_none[of mg s s'] assms(2) that by simp
  next
    case (Some m)
    have "load_active mg s = (Inr (Some m), s')" using assms(2) that(1) Some by simp
    then obtain d where d: "gs_active s = Some d" "gm_from_dict d = Inr m"
      using load_active_fresh \<open>\<not> gs_cache_loaded s\<close> by blast
    obtain m' where "d = gm_to_dict m'" "serviceable mg m' s" using assms(1) d(1) by (auto simp: manager_ok_def active_ok_def)
    then show ?thesis using d Some by (auto simp: gm_from_to_dict split: if_splits)
  qed
  have old: "r = Inr (gs_cache s) \<and> s' = s" if "gs_cache_loaded s" using assms(2) that by (auto simp: load_active_def)
  show some: "serviceable mg m s" if "r = Inr (Some m)" for m
    using fresh[of "Some m"] old that assms(1) by (cases "gs_cache_loaded s") (auto simp: manager_ok_def cached_ok_def)
  show "gs_active s = map_option gm_to_dict x" if "r = Inr x" "coherent s" for x
    using fresh[of x] old that by (cases "gs_cache_loaded s") (auto simp: coherent_def)
  have "cached_ok mg s'"
  proof (cases r)
    case (Inl e)
    then show ?thesis using assms load_active_effect(5) by (metis manager_ok_def)
  next
    case (Inr x)
    then show ?thesis using some load_active_effect(1,4)[OF assms(2)] by (auto simp: cached_ok_def serviceable_def same_files_def)
  qed
  then show "manager_ok mg s'"
    using assms(1) load_active_effect(1,3)[OF assms(2)]
    by (auto simp: manager_ok_def active_ok_def serviceable_def same_files_def)
qed

text \<open>
  What a step of one thread may do to the files without disturbing the tasks of the others: records
  are kept except for retired ids, and tombstones are kept and not put on an id that is read.
\<close>

lemma task_ok_mono:
  assumes "task_ok mg s t"
    and "\<And>g. gs_tombstones s g \<noteq> None \<Longrightarrow> gs_tombstones s' g \<noteq> None"
    and "\<And>m. t = Reading m \<Longrightarrow> serviceable mg m s \<Longrightarrow> serviceable mg m s'"
  shows "task_ok mg s' t"
  using assms by (cases t) auto

lemma serviceable_mono:
  assumes "serviceable mg m s" "gs_records s' (gm_generation_id m) \<noteq> None" "gs_tombstones s' (gm_generation_id m) = None"
  shows "serviceable mg m s'"
  using assms by (simp add: serviceable_def)

lemma serviceable_records:
  assumes "serviceable mg m s"
  shows "gs_records s (gm_generation_id m) \<noteq> None" "gs_tombstones s (gm_generation_id m) = None"
  using assms by (simp_all add: serviceable_def)

lemma references_read:
  assumes "counts_ok (s, T)" "Reading m \<in># T"
  shows "references s (gm_generation_id m) \<noteq> 0"
proof -
  have "Reading m \<in># filter_mset (reads (gm_generation_id m)) T" using assms(2) by simp
  then show ?thesis using assms(1) by (auto simp: counts_ok_def)
qed

text \<open>What the writes do when they get as far as replacing their file.\<close>

definition activated :: "generation_manifest \<Rightarrow> generations \<Rightarrow> generations" where
  "activated m s = s\<lparr>gs_active := Some (gm_to_dict m), gs_cache := Some m, gs_cache_loaded := True\<rparr>"

definition tombstoned :: "string \<Rightarrow> string \<Rightarrow> generations \<Rightarrow> generations" where
  "tombstoned now gid s = s\<lparr>gs_tombstones := (gs_tombstones s)(gid \<mapsto>
     [(''schema_version'', JInt 1), (''generation_id'', JStr gid), (''retired_at'', JStr now)])\<rparr>"

lemma replace_file_effect:
  assumes "replace_file f change s = (r, s')"
  shows "r = Inr () \<and> s' = change s \<or> r = Inl OSError \<and> (s' = s \<or> s' = change s)"
  using assms by (cases f) auto

lemma write_record_effect:
  assumes "write_generation_record f mg m s = (r, s')"
  shows "s' = s \<or> s' = s\<lparr>gs_records := (gs_records s)(gm_generation_id m \<mapsto> gm_to_dict m)\<rparr>"
    "r = Inr () \<Longrightarrow> s' = s\<lparr>gs_records := (gs_records s)(gm_generation_id m \<mapsto> gm_to_dict m)\<rparr>"
  using assms by (auto simp: write_generation_record_def dest: replace_file_effect split: sum.splits)

lemma allocate_effect:
  assumes "allocate f mg now uuid revision gid s = (r, s')"
  shows "s' = s \<or> (\<exists>g d. s' = s\<lparr>gs_records := (gs_records s)(g \<mapsto> d)\<rparr>)"
  using assms by (auto simp: allocate_def Let_def dest!: write_record_effect(1) split: sum.splits prod.splits)

lemma mark_incompatible_outcome:
  assumes "mark_incompatible f gid reason provenance s = (r, s')"
  shows "s' = s \<or> (\<exists>d. s' = s\<lparr>gs_markers := (gs_markers s)(gid \<mapsto> d)\<rparr> \<or>
     s' = s\<lparr>gs_markers := (gs_markers s)(gid \<mapsto> d), gs_cache := None, gs_cache_loaded := False\<rparr> \<and>
     (\<exists>m. gs_cache s = Some m \<and> gm_generation_id m = gid))"
proof -
  obtain d where d: "s' = s \<or> (\<exists>r1 s1. replace_file f (\<lambda>s. s\<lparr>gs_markers := (gs_markers s)(gid \<mapsto> d)\<rparr>) s = (r1, s1) \<and>
      (s' = s1 \<or> s' = s1\<lparr>gs_cache := None, gs_cache_loaded := False\<rparr> \<and> r1 = Inr () \<and> (\<exists>m. gs_cache s1 = Some m \<and> gm_generation_id m = gid)))"
    using assms by (auto simp: mark_incompatible_def split: if_splits sum.splits prod.splits)
  show ?thesis
    using d by (cases f) auto
qed

text \<open>A marker that is written without an error takes its generation out of the cache.\<close>

lemma mark_incompatible_effect:
  assumes "mark_incompatible f gid reason provenance s = (r, s')"
  shows "gs_active s' = gs_active s" "gs_tombstones s' = gs_tombstones s" "gs_records s' = gs_records s"
    "gs_references s' = gs_references s" "gs_retiring s' = gs_retiring s"
    "dom (gs_markers s) \<subseteq> dom (gs_markers s')"
    "r = Inr () \<Longrightarrow> gs_markers s' gid \<noteq> None \<and> (\<forall>m. gs_cache s' = Some m \<longrightarrow> gm_generation_id m \<noteq> gid)"
    "gs_cache s' = gs_cache s \<and> gs_cache_loaded s' = gs_cache_loaded s \<or> \<not> gs_cache_loaded s'"
  using assms
  by (auto simp: mark_incompatible_def dest!: replace_file_effect split: if_splits sum.splits prod.splits)

lemma publish_swap_effect:
  assumes "publish_swap f mg p s = (r, s')"
  shows "s' = s \<and> (\<exists>x. r = Inl x) \<or>
     (r = Inr p \<and> s' = activated p s \<or> r = Inl OSError \<and> s' = s\<lparr>gs_active := Some (gm_to_dict p)\<rparr>)
     \<and> validate_storage_target mg p = Inr () \<and> validate_paths mg p = Inr ()
     \<and> gm_generation_id p \<notin> gs_retiring s \<and> gs_tombstones s (gm_generation_id p) = None
     \<and> gs_records s (gm_generation_id p) \<noteq> None \<and> gs_markers s (gm_generation_id p) = None"
proof (cases "publish_checks mg p s")
  case (Inl x)
  then show ?thesis using assms by (auto simp: publish_swap_def)
next
  case (Inr u)
  then have "validate_storage_target mg p = Inr () \<and> validate_paths mg p = Inr ()
     \<and> gm_generation_id p \<notin> gs_retiring s \<and> gs_tombstones s (gm_generation_id p) = None
     \<and> gs_records s (gm_generation_id p) \<noteq> None \<and> gs_markers s (gm_generation_id p) = None"
    by (auto simp: publish_checks_def check_unretired_def incompatibility_def safe_generation_id_def rbind_def
        split: sum.splits if_splits option.splits list.splits)
  then show ?thesis using assms Inr
    by (auto simp: publish_swap_def write_active_manifest_unlocked_def activated_def dest!: replace_file_effect split: sum.splits prod.splits)
qed

lemma retire_begin_effect:
  assumes "retire_begin f mg now m s = (r, s')"
  shows "r \<noteq> Inr True \<and> (s' = s \<or> (\<exists>x. load_active mg s = (x, s'))) \<or>
    (\<exists>x s1. load_active mg s = (Inr x, s1)
       \<and> (r = Inr True \<and> s' = (tombstoned now (gm_generation_id m) s1)\<lparr>gs_retiring := insert (gm_generation_id m) (gs_retiring s1)\<rparr>
          \<or> r \<noteq> Inr True \<and> s' = tombstoned now (gm_generation_id m) s1)
       \<and> (\<forall>a. x = Some a \<longrightarrow> gm_generation_id a \<noteq> gm_generation_id m)
       \<and> references s1 (gm_generation_id m) = 0 \<and> gm_generation_id m \<notin> gs_retiring s1)"
proof -
  have w: "r' = Inr () \<and> t' = tombstoned now (gm_generation_id m) t \<or> r' = Inl OSError \<and> (t' = t \<or> t' = tombstoned now (gm_generation_id m) t)"
    if "write_retired_tombstone f now (gm_generation_id m) t = (r', t')" for r' t t'
    using replace_file_effect[OF that[unfolded write_retired_tombstone_def]] by (simp add: tombstoned_def)
  show ?thesis using assms
    by (auto simp: retire_begin_def Let_def tombstoned_def dest!: w split: sum.splits prod.splits if_splits)
qed

lemma retire_begin_cases:
  assumes "retire_begin f mg now m s = (r, s')"
  obtains (quiet) "r \<noteq> Inr True" "s' = s \<or> (\<exists>x. load_active mg s = (x, s'))"
  | (writes) x s1 where "load_active mg s = (Inr x, s1)"
    "s' = (if r = Inr True then (tombstoned now (gm_generation_id m) s1)\<lparr>gs_retiring := insert (gm_generation_id m) (gs_retiring s1)\<rparr>
           else tombstoned now (gm_generation_id m) s1)"
    "\<forall>a. x = Some a \<longrightarrow> gm_generation_id a \<noteq> gm_generation_id m" "references s1 (gm_generation_id m) = 0"
    "gm_generation_id m \<notin> gs_retiring s1"
  using retire_begin_effect[OF assms] by fastforce

lemma retire_begin_referenced:
  assumes "references s (gm_generation_id m) \<noteq> 0"
  shows "fst (retire_begin f mg now m s) \<noteq> Inr True \<and> gs_tombstones (snd (retire_begin f mg now m s)) = gs_tombstones s"
proof -
  obtain r s' where e: "retire_begin f mg now m s = (r, s')" by fastforce
  then show ?thesis
  proof (cases rule: retire_begin_cases)
    case quiet
    then show ?thesis using e load_active_effect(1) by (fastforce simp: same_files_def)
  next
    case (writes x s1)
    then show ?thesis using assms load_active_effect(2)[OF writes(1)] by (simp add: references_def)
  qed
qed

lemma publish_candidate_published:
  assumes "publish_candidate mg now validate m s = Inr p"
  shows "gm_target p = mg_target mg" "gm_state p = GenPublished" "gm_generation_id p = gm_generation_id m"
    "gm_schema_version p = gm_schema_version m" "validate_storage_target mg p = Inr ()"
  using assms by (auto simp: publish_candidate_def rbind_def Let_def split: sum.splits if_splits)

lemma publish_tombstoned:
  assumes "gs_tombstones s (gm_generation_id p) \<noteq> None"
  shows "\<exists>x. publish_generation fs mg now validate p s = (Inl x, s)"
proof (cases "publish_candidate mg now validate p s")
  case (Inl x)
  then show ?thesis by (simp add: publish_generation_def)
next
  case (Inr q)
  then have "\<exists>x. check_unretired q s = Inl x"
    using publish_candidate_published(3)[OF Inr] assms
    by (auto simp: check_unretired_def safe_generation_id_def rbind_def split: list.splits)
  then show ?thesis using Inr by (auto simp: publish_generation_def)
qed

lemma references_unpin:
  "references (unpin m s) g = (if g = gm_generation_id m then references s g - 1 else references s g)"
  by (auto simp: unpin_def references_def Let_def split: option.splits)

lemma unpin_effect:
  "gs_active (unpin m s) = gs_active s" "gs_tombstones (unpin m s) = gs_tombstones s" "gs_records (unpin m s) = gs_records s"
  "gs_markers (unpin m s) = gs_markers s" "gs_cache (unpin m s) = gs_cache s" "gs_cache_loaded (unpin m s) = gs_cache_loaded s"
  "gs_retiring (unpin m s) = gs_retiring s"
  by (simp_all add: unpin_def Let_def)

lemma ginv_quiet:
  assumes "ginv mg (s, T)" "manager_ok mg s'" "gs_references s' = gs_references s" "gs_retiring s' = gs_retiring s"
    "gs_tombstones s' = gs_tombstones s" "dom (gs_records s) \<subseteq> dom (gs_records s')"
  shows "ginv mg (s', T)"
proof -
  have "task_ok mg s' t" if "task_ok mg s t" for t
    using that assms(5,6) by (cases t) (auto simp: serviceable_def domIff)
  then show ?thesis using assms(1-4) by (auto simp: ginv_def counts_ok_def references_def)
qed

lemma ginv_publisher:
  assumes "publishes t = Some p"
  shows "ginv mg (s, add_mset t T) \<longleftrightarrow> ginv mg (s, T) \<and> task_ok mg s t"
  using assms by (cases t) (auto simp: ginv_def counts_ok_def)

lemma active_ok_mono:
  assumes "active_ok mg s" "gs_active s' = gs_active s"
    and "\<And>m. gs_active s = Some (gm_to_dict m) \<Longrightarrow> serviceable mg m s \<Longrightarrow> serviceable mg m s'"
  shows "active_ok mg s'"
  using assms unfolding active_ok_def by metis

lemma cached_ok_mono:
  assumes "cached_ok mg s" "gs_cache_loaded s' \<longrightarrow> gs_cache_loaded s \<and> gs_cache s' = gs_cache s"
    and "\<And>m. gs_cache s = Some m \<Longrightarrow> gs_cache_loaded s \<Longrightarrow> serviceable mg m s \<Longrightarrow> serviceable mg m s'"
  shows "cached_ok mg s'"
  using assms unfolding cached_ok_def by metis

lemma manager_ok_records:
  assumes "manager_ok mg s"
  shows "manager_ok mg (s\<lparr>gs_records := (gs_records s)(g \<mapsto> d)\<rparr>)"
proof -
  let ?s = "s\<lparr>gs_records := (gs_records s)(g \<mapsto> d)\<rparr>"
  have sv: "serviceable mg m ?s" if "serviceable mg m s" for m using that by (auto simp: serviceable_def)
  have "active_ok mg ?s" by (rule active_ok_mono[of mg s]) (use assms sv in \<open>auto simp: manager_ok_def\<close>)
  moreover have "cached_ok mg ?s" by (rule cached_ok_mono[of mg s]) (use assms sv in \<open>auto simp: manager_ok_def\<close>)
  ultimately show ?thesis using assms by (simp add: manager_ok_def)
qed

lemma manager_ok_uncached:
  assumes "manager_ok mg s"
  shows "manager_ok mg (s\<lparr>gs_cache := None, gs_cache_loaded := False\<rparr>)"
  using assms by (auto simp: manager_ok_def active_ok_def cached_ok_def serviceable_def)

lemma store_ok_manager:
  assumes "store_ok mg s"
  shows "manager_ok mg s" "coherent s"
  using assms by (auto simp: store_ok_def manager_ok_def cache_ok_def cached_ok_def active_ok_def coherent_def)

lemma store_okI:
  assumes "manager_ok mg s" "cache_ok s"
  shows "store_ok mg s"
  using assms by (auto simp: store_ok_def manager_ok_def)

lemma ginv_write_record:
  assumes "ginv mg (s, T)"
  shows "ginv mg (s\<lparr>gs_records := (gs_records s)(g \<mapsto> d)\<rparr>, T)"
  by (rule ginv_quiet[OF assms]) (use assms in \<open>auto simp: ginv_def manager_ok_records\<close>)

lemma ginv_load:
  assumes "ginv mg (s, T)" "load_active mg s = (r, s')"
  shows "ginv mg (s', T)"
  by (rule ginv_quiet[OF assms(1)])
    (use assms load_active_effect(1-3)[OF assms(2)] manager_okE(1) in \<open>auto simp: ginv_def same_files_def\<close>)

lemma ginv_recover:
  assumes "ginv mg (s, T)" "recover mg s = (r, s')"
  shows "ginv mg (s', T)"
proof -
  have "ginv mg (s\<lparr>gs_cache := None, gs_cache_loaded := False\<rparr>, T)"
    by (rule ginv_quiet[OF assms(1)]) (use assms(1) manager_ok_uncached in \<open>auto simp: ginv_def\<close>)
  then show ?thesis using assms(2) ginv_load unfolding recover_def by blast
qed

lemma ginv_mark:
  assumes "ginv mg (s, T)" "mark_incompatible f gid reason provenance s = (r, s')"
  shows "ginv mg (s', T)"
proof (rule ginv_quiet[OF assms(1)])
  note e = mark_incompatible_effect[OF assms(2)]
  have sv: "serviceable mg m s' \<longleftrightarrow> serviceable mg m s" for m by (simp add: serviceable_def e(2,3))
  show "manager_ok mg s'"
    using assms(1) e(8) by (auto simp: ginv_def manager_ok_def active_ok_def cached_ok_def sv e(1-5))
qed (use mark_incompatible_effect[OF assms(2)] in auto)

text \<open>A swap keeps the files in order, also when it raises after replacing the manifest.\<close>

lemma manager_ok_swap:
  assumes "manager_ok mg s" "gm_target p = mg_target mg" "gm_state p = GenPublished" "publish_swap f mg p s = (r, s')"
  shows "manager_ok mg s'"
  using publish_swap_effect[OF assms(4)] assms(1-3)
  by (auto simp: manager_ok_def active_ok_def cached_ok_def serviceable_def activated_def)

lemma ginv_swap:
  assumes "ginv mg (s, add_mset (Swapping p) T)" "publish_swap f mg p s = (r, s')"
  shows "ginv mg (s', T)"
proof -
  have i: "ginv mg (s, T)" and p: "gm_target p = mg_target mg" "gm_state p = GenPublished"
    using assms(1) ginv_publisher[of "Swapping p" p] by auto
  then have "manager_ok mg s'" using manager_ok_swap[OF _ p assms(2)] by (simp add: ginv_def)
  then show ?thesis
    by (rule ginv_quiet[OF i]) (use publish_swap_effect[OF assms(2)] in \<open>auto simp: activated_def\<close>)
qed

lemma manager_ok_publish:
  assumes "manager_ok mg s" "publish_generation fs mg now validate m s = (r, s')"
  shows "manager_ok mg s'"
proof (cases "publish_candidate mg now validate m s")
  case (Inl x)
  then show ?thesis using assms by (simp add: publish_generation_def)
next
  case (Inr p)
  have "manager_ok mg s1" if "write_generation_record f mg p s = (x, s1)" for f x s1
    using write_record_effect(1)[OF that] assms(1) manager_ok_records by auto
  then show ?thesis
    using assms Inr manager_ok_swap[OF _ publish_candidate_published(1,2)[OF Inr]]
    by (fastforce simp: publish_generation_def rbind_def split: sum.splits prod.splits)
qed

lemma pin_active_effect:
  assumes "pin_active mg s = (Inr m, s')"
  obtains s1 where "load_active mg s = (Inr (Some m), s1)"
    "s' = s1\<lparr>gs_references := (gs_references s1)(gm_generation_id m \<mapsto> references s1 (gm_generation_id m) + 1)\<rparr>"
  using assms by (auto simp: pin_active_def split: sum.splits prod.splits option.splits)

lemma ginv_pin:
  assumes "ginv mg (s, T)" "pin_active mg s = (Inr m, s')"
  shows "ginv mg (s', add_mset (Reading m) T)"
proof -
  obtain s1 where l: "load_active mg s = (Inr (Some m), s1)"
    and s': "s' = s1\<lparr>gs_references := (gs_references s1)(gm_generation_id m \<mapsto> references s1 (gm_generation_id m) + 1)\<rparr>"
    using pin_active_effect[OF assms(2)] by metis
  have i: "ginv mg (s1, T)" using ginv_load[OF assms(1) l] .
  have m: "serviceable mg m s1"
    using manager_okE(2)[of mg s "Inr (Some m)" s1 m] l assms(1) load_active_effect(1)[OF l]
    by (simp add: ginv_def serviceable_def same_files_def)
  have t: "task_ok mg s' t \<longleftrightarrow> task_ok mg s1 t" for t by (cases t) (auto simp: s' serviceable_def)
  have r: "references s' g = references s1 g + (if g = gm_generation_id m then 1 else 0)" for g
    by (simp add: s' references_def)
  then have "counts_ok (s', add_mset (Reading m) T)"
    using i by (auto simp: ginv_def counts_ok_def) (simp_all add: s')
  moreover have "manager_ok mg s'"
    using i by (auto simp: ginv_def s' manager_ok_def active_ok_def cached_ok_def serviceable_def)
  ultimately show ?thesis using i m t by (auto simp: ginv_def s' serviceable_def)
qed

lemma ginv_unpin:
  assumes "ginv mg (s, add_mset (Reading m) T)"
  shows "ginv mg (unpin m s, T)"
proof -
  have t: "task_ok mg (unpin m s) t \<longleftrightarrow> task_ok mg s t" for t by (cases t) (auto simp: unpin_effect serviceable_def)
  have "references s g = size (filter_mset (reads g) (add_mset (Reading m) T))" for g
    using assms by (simp add: ginv_def counts_ok_def)
  then have "references (unpin m s) g = size (filter_mset (reads g) T)" for g
    by (simp add: references_unpin)
  then have "counts_ok (unpin m s, T)"
    using assms by (simp add: ginv_def counts_ok_def unpin_effect)
  moreover have "manager_ok mg (unpin m s)"
    using assms by (auto simp: ginv_def manager_ok_def active_ok_def cached_ok_def serviceable_def unpin_effect)
  ultimately show ?thesis using assms t by (auto simp: ginv_def)
qed

lemma ginv_tombstone:
  assumes "ginv mg (s, T)" "references s g = 0"
    and "gs_tombstones s g = None \<Longrightarrow> (\<forall>m. gs_active s = Some (gm_to_dict m) \<longrightarrow> gm_generation_id m \<noteq> g)
      \<and> (\<forall>m. gs_cache_loaded s \<and> gs_cache s = Some m \<longrightarrow> gm_generation_id m \<noteq> g)"
  shows "ginv mg (tombstoned now g s, T)"
proof -
  let ?s = "tombstoned now g s"
  have "references s (gm_generation_id a) \<noteq> 0" if "Reading a \<in># T" for a
    using references_read that assms(1) by (auto simp: ginv_def)
  then have read: "gm_generation_id a \<noteq> g" if "Reading a \<in># T" for a using assms(2) that by metis
  have sv: "serviceable mg m ?s" if "serviceable mg m s" "gm_generation_id m \<noteq> g" for m
    using that by (simp add: serviceable_def tombstoned_def)
  have "task_ok mg ?s t" if "t \<in># T" for t
    using assms(1) that read sv by (cases t) (auto simp: ginv_def tombstoned_def)
  moreover have keep: "serviceable mg m ?s" if "serviceable mg m s" "gs_active s = Some (gm_to_dict m) \<or> gs_cache_loaded s \<and> gs_cache s = Some m" for m
    using that assms(3) sv serviceable_records(2) by metis
  moreover have "active_ok mg ?s"
    by (rule active_ok_mono[of mg s]) (use assms(1) keep in \<open>auto simp: ginv_def manager_ok_def tombstoned_def\<close>)
  moreover have "cached_ok mg ?s"
    by (rule cached_ok_mono[of mg s]) (use assms(1) keep in \<open>auto simp: ginv_def manager_ok_def tombstoned_def\<close>)
  ultimately show ?thesis
    using assms(1) by (auto simp: ginv_def manager_ok_def counts_ok_def references_def tombstoned_def)
qed

lemma ginv_start_removal:
  assumes "ginv mg (s, T)" "gs_tombstones s (gm_generation_id m) \<noteq> None" "gm_generation_id m \<notin> gs_retiring s"
  shows "ginv mg (s\<lparr>gs_retiring := insert (gm_generation_id m) (gs_retiring s)\<rparr>, add_mset (Removing m) T)"
proof -
  let ?s = "s\<lparr>gs_retiring := insert (gm_generation_id m) (gs_retiring s)\<rparr>"
  have t: "task_ok mg ?s t \<longleftrightarrow> task_ok mg s t" for t by (cases t) (auto simp: serviceable_def)
  have n: "size (filter_mset (retires g) T) = (if g \<in> gs_retiring s then 1 else 0)" for g
    using assms(1) by (simp add: ginv_def counts_ok_def)
  then have "size (filter_mset (retires g) (add_mset (Removing m) T)) = (if g \<in> gs_retiring ?s then 1 else 0)" for g
    using assms(3) by (auto simp del: size_eq_0_iff_empty)
  then have "counts_ok (?s, add_mset (Removing m) T)"
    using assms(1) by (auto simp: ginv_def counts_ok_def references_def simp del: size_eq_0_iff_empty)
  moreover have "manager_ok mg ?s"
    using assms(1,2) by (auto simp: ginv_def manager_ok_def active_ok_def cached_ok_def serviceable_def)
  ultimately show ?thesis using assms(1,2) t by (auto simp: ginv_def)
qed

text \<open>The reconciliation is used here and only here: the generation the file names must be the one in the cache.\<close>

lemma ginv_retire:
  assumes "ginv mg (s, T)" "retire_begin f mg now m s = (r, s')" "coherent s \<or> gs_tombstones s' = gs_tombstones s"
  shows "ginv mg (s', if r = Inr True then add_mset (Removing m) T else T)"
  using assms(2)
proof (cases rule: retire_begin_cases)
  case quiet
  then show ?thesis using assms(1) ginv_load by auto
next
  case (writes x s1)
  let ?g = "gm_generation_id m"
  note l = writes(1) and s' = writes(2) and x = writes(3) and n = writes(4,5)
  note e = load_active_effect[OF l]
  have i: "ginv mg (s1, T)" using ginv_load[OF assms(1) l] .
  have "(\<forall>m. gs_active s1 = Some (gm_to_dict m) \<longrightarrow> gm_generation_id m \<noteq> ?g)
      \<and> (\<forall>m. gs_cache_loaded s1 \<and> gs_cache s1 = Some m \<longrightarrow> gm_generation_id m \<noteq> ?g)" if "gs_tombstones s1 ?g = None"
  proof -
    have "gs_tombstones s' \<noteq> gs_tombstones s" using that e(1) by (auto simp: s' tombstoned_def same_files_def dest!: fun_cong[of _ _ ?g])
    then have "gs_active s1 = map_option gm_to_dict x"
      using manager_okE(3)[of mg s "Inr x" s1 x] l assms(1,3) e(1) by (simp add: ginv_def same_files_def)
    then show ?thesis using x e(4)[of x] by auto
  qed
  then have "ginv mg (tombstoned now ?g s1, T)" by (rule ginv_tombstone[OF i n(1)])
  moreover from this have "ginv mg ((tombstoned now ?g s1)\<lparr>gs_retiring := insert ?g (gs_retiring (tombstoned now ?g s1))\<rparr>, add_mset (Removing m) T)"
    by (rule ginv_start_removal) (use n(2) in \<open>simp_all add: tombstoned_def\<close>)
  ultimately show ?thesis by (auto simp: s' tombstoned_def)
qed

lemma ginv_retire_raises:
  assumes "ginv mg (s, add_mset (Removing m) T)"
  shows "ginv mg (s, add_mset (Finishing m) T)"
proof -
  have "size (filter_mset (P g) (add_mset (Removing m) T)) = size (filter_mset (P g) (add_mset (Finishing m) T))"
    if "P = reads \<or> P = retires" for P g
    using that by auto
  then have "counts_ok (s, add_mset (Finishing m) T)"
    using assms unfolding ginv_def counts_ok_def fst_conv snd_conv by metis
  then show ?thesis using assms by (simp add: ginv_def)
qed

lemma ginv_remove:
  assumes "ginv mg (s, add_mset (Removing m) T)"
  shows "ginv mg (remove_tree m s, add_mset (Finishing m) T)"
proof -
  let ?s = "remove_tree m s"
  have g: "gs_tombstones s (gm_generation_id m) \<noteq> None" using assms by (simp add: ginv_def)
  have sv: "serviceable mg a ?s" if "serviceable mg a s" for a
    by (rule serviceable_mono[OF that]) (use that g in \<open>auto simp: serviceable_def remove_tree_def\<close>)
  have "task_ok mg ?s t" if "task_ok mg s t" for t
    using that sv by (cases t) (auto simp: remove_tree_def)
  moreover have "active_ok mg ?s"
    by (rule active_ok_mono[of mg s]) (use assms sv in \<open>auto simp: ginv_def manager_ok_def remove_tree_def\<close>)
  moreover have "cached_ok mg ?s"
    by (rule cached_ok_mono[of mg s]) (use assms sv in \<open>auto simp: ginv_def manager_ok_def remove_tree_def\<close>)
  moreover have "counts_ok (?s, add_mset (Removing m) T)"
    using assms by (simp add: ginv_def counts_ok_def references_def remove_tree_def)
  ultimately have "ginv mg (?s, add_mset (Removing m) T)"
    using assms by (auto simp: ginv_def manager_ok_def remove_tree_def)
  then show ?thesis by (rule ginv_retire_raises)
qed

lemma ginv_retire_end:
  assumes "ginv mg (s, add_mset (Finishing m) T)"
  shows "ginv mg (retire_end m s, T)"
proof -
  let ?s = "retire_end m s"
  have t: "task_ok mg ?s t \<longleftrightarrow> task_ok mg s t" for t by (cases t) (auto simp: retire_end_def serviceable_def)
  have n: "size (filter_mset (retires g) (add_mset (Finishing m) T)) = (if g \<in> gs_retiring s then 1 else 0)" for g
    using assms by (simp add: ginv_def counts_ok_def)
  have "size (filter_mset (retires g) T) = (if g \<in> gs_retiring ?s then 1 else 0)" for g
    using n[of g] by (auto simp: retire_end_def split: if_splits)
  then have "counts_ok (?s, T)"
    using assms by (simp add: ginv_def counts_ok_def references_def retire_end_def)
  moreover have "manager_ok mg ?s"
    using assms by (auto simp: ginv_def manager_ok_def active_ok_def cached_ok_def serviceable_def retire_end_def)
  ultimately show ?thesis using assms t by (auto simp: ginv_def)
qed

lemma ginv_crash:
  assumes "ginv mg (s, T)"
  shows "ginv mg (restart s, {#})"
  using assms
  by (auto simp: ginv_def manager_ok_def active_ok_def cached_ok_def serviceable_def restart_def counts_ok_def references_def)

lemma pin_refused_effect:
  assumes "pin_active mg s = (Inl x, s')"
  obtains r where "load_active mg s = (r, s')"
  using assms by (auto simp: pin_active_def split: sum.splits prod.splits option.splits)

lemma ginv_gstep:
  assumes "gstep mg st st'" "ginv mg st" "coherent (fst st) \<or> gs_tombstones (fst st') = gs_tombstones (fst st)"
  shows "ginv mg st'"
  using assms
proof (induction rule: gstep.induct)
  case (publish_starts now validate m s p T)
  then show ?case using publish_candidate_published by (simp add: ginv_publisher[of _ p])
next
  case (publish_recorded f p s s' T)
  then have "ginv mg (s, T)" and p: "gm_target p = mg_target mg" "gm_state p = GenPublished"
    by (simp_all add: ginv_publisher[of _ p])
  then have "ginv mg (s', T)" using write_record_effect(1)[OF publish_recorded(1)] ginv_write_record by metis
  then show ?case using p by (simp add: ginv_publisher[of _ p])
next
  case (publish_unrecorded f p s x s' T)
  then have "ginv mg (s, T)" by (simp add: ginv_publisher[of _ p])
  then show ?case using write_record_effect(1)[OF publish_unrecorded(1)] ginv_write_record by metis
next
  case (allocated f now uuid revision gid s r s' T)
  then show ?case using allocate_effect[OF allocated(1)] ginv_write_record by metis
next
  case (pin_refused s x s' T)
  then show ?case using pin_refused_effect ginv_load by metis
next
  case (retire_refused f now m s r s' T)
  then show ?case using ginv_retire[OF _ retire_refused(1)] by simp
next
  case (retire_begun f now m s s' T)
  then show ?case using ginv_retire[OF _ retire_begun(1)] by simp
next
  case (publish_checked p s T)
  then show ?case by (simp add: ginv_publisher[of _ p])
next
  case (publish_raises t p s T)
  then show ?case by (simp add: ginv_publisher[of _ p])
qed (erule ginv_swap ginv_mark ginv_load ginv_recover ginv_pin ginv_unpin
      ginv_remove ginv_retire_raises ginv_retire_end ginv_crash; assumption)+

lemma ginv_step: "reconciled_step mg st st' \<Longrightarrow> ginv mg st \<Longrightarrow> ginv mg st'"
  unfolding reconciled_step_def by (blast intro: ginv_gstep)

lemma ginv_initial: "ginv mg (no_generations, {#})"
  by (simp add: ginv_def manager_ok_def active_ok_def cached_ok_def counts_ok_def references_def no_generations_def)

lemma reach_ginv:
  assumes "gsys.reach mg st"
  shows "ginv mg st"
  by (rule gsys.reach_invariant[OF assms]) (use ginv_initial ginv_step in blast)+

section \<open>What lasts\<close>

text \<open>Tombstones and markers are never taken back, not even by a crash.\<close>

lemma files_mono_load:
  assumes "load_active mg s = (r, s')"
  shows "gs_tombstones s' = gs_tombstones s" "gs_markers s' = gs_markers s"
  using load_active_effect(1)[OF assms] by (simp_all add: same_files_def)

lemma files_mono_begin:
  assumes "retire_begin f mg now m s = (r, s')"
  shows "dom (gs_tombstones s) \<subseteq> dom (gs_tombstones s') \<and> gs_markers s' = gs_markers s"
  using assms by (cases rule: retire_begin_cases) (auto simp: files_mono_load tombstoned_def)

lemma files_mono_step:
  assumes "gstep mg st st'"
  shows "dom (gs_tombstones (fst st)) \<subseteq> dom (gs_tombstones (fst st')) \<and> dom (gs_markers (fst st)) \<subseteq> dom (gs_markers (fst st'))"
  using assms
proof (induction rule: gstep.induct)
  case (publish_recorded f p s s' T)
  then show ?case using write_record_effect(1)[OF publish_recorded] by auto
next
  case (publish_unrecorded f p s x s' T)
  then show ?case using write_record_effect(1)[OF publish_unrecorded] by auto
next
  case (publish_swapped f p s r s' T)
  then show ?case using publish_swap_effect[OF publish_swapped] by (auto simp: activated_def)
next
  case (allocated f now uuid revision gid s r s' T)
  then show ?case using allocate_effect[OF allocated] by auto
next
  case (marked f gid reason provenance s r s' T)
  then show ?case using mark_incompatible_effect(2,6)[OF marked] by simp
next
  case (loaded s r s' T)
  then show ?case by (simp add: files_mono_load)
next
  case (recovered s r s' T)
  then show ?case unfolding recover_def by (auto dest: files_mono_load)
next
  case (pinned s m s' T)
  then show ?case by (auto elim!: pin_active_effect dest: files_mono_load)
next
  case (pin_refused s x s' T)
  then show ?case by (auto elim!: pin_refused_effect dest: files_mono_load)
next
  case (retire_refused f now m s r s' T)
  then show ?case using files_mono_begin[OF retire_refused(1)] by simp
next
  case (retire_begun f now m s s' T)
  then show ?case using files_mono_begin[OF retire_begun] by simp
qed (simp_all add: unpin_effect remove_tree_def retire_end_def restart_def)

lemma files_mono:
  assumes "(reconciled_step mg)\<^sup>*\<^sup>* st st'"
  shows "dom (gs_tombstones (fst st)) \<subseteq> dom (gs_tombstones (fst st'))"
  using assms
proof (induction rule: rtranclp_induct)
  case (step y z)
  then show ?case using files_mono_step[of mg y z] by (auto simp: reconciled_step_def)
qed simp

section \<open>A sample\<close>

text \<open>A store under \<open>/s\<close> whose paths are as they read, with no topology requirement.\<close>

definition sample_manager :: manager where
  "sample_manager = \<lparr>mg_root = ''/s'', mg_target = sample_target, mg_compatibility = (\<lambda>_. []), mg_symlink = (\<lambda>_. False),
     mg_resolve = (\<lambda>p. p)\<rparr>"

definition sample_generation :: "string \<Rightarrow> generation_state \<Rightarrow> generation_manifest" where
  "sample_generation g st = \<lparr>gm_generation_id = g, gm_target = sample_target, gm_source_revision = ''r1'',
     gm_graph_path = ''/s/generations/'' @ g @ ''/graph/data.rdb'', gm_vector_path = ''/s/generations/'' @ g @ ''/vector'',
     gm_state = st, gm_created_at = ''t'', gm_validated_at = (if st = GenPublished then JStr ''t'' else JNull),
     gm_published_at = (if st = GenPublished then JStr ''t'' else JNull), gm_retired_at = JNull, gm_validation = [], gm_schema_version = 1\<rparr>"

lemmas sample_defs = sample_manager_def sample_generation_def generation_root_def generations_root_def validate_paths_def
  validate_storage_target_def safe_generation_id_def ascii_alnum_def word_char_def word_start_def is_digit_def Let_def
  incompatibility_def check_unretired_def startswith_def

text \<open>Generation \<open>g\<close> after its allocation, and after its publication.\<close>

definition sample_allocated :: "string \<Rightarrow> generations \<Rightarrow> generations" where
  "sample_allocated g s = s\<lparr>gs_records := (gs_records s)(g \<mapsto> gm_to_dict (sample_generation g GenBuilding))\<rparr>"

definition sample_published :: "string \<Rightarrow> generations \<Rightarrow> generations" where
  "sample_published g s = activated (sample_generation g GenPublished)
     (s\<lparr>gs_records := (gs_records s)(g \<mapsto> gm_to_dict (sample_generation g GenPublished))\<rparr>)"

lemma sample_allocate:
  assumes "g \<in> {''a'', ''b''}"
  shows "allocate Written sample_manager ''t'' ''u'' ''r1'' (Some g) s = (Inr (sample_generation g GenBuilding), sample_allocated g s)"
  using assms by (auto simp: allocate_def write_generation_record_def sample_allocated_def sample_defs)

lemma publish_result:
  assumes "publish_generation fs mg now validate m s = (Inr p, s')"
  shows "gs_active s' = Some (gm_to_dict p)" "gs_records s' (gm_generation_id p) = Some (gm_to_dict p)"
    "load_active mg s' = (Inr (Some p), s')" "gs_markers s' (gm_generation_id p) = None" "validate_paths mg p = Inr ()"
    "publish_candidate mg now validate m s = Inr p" "gm_generation_id p = gm_generation_id m"
proof -
  obtain q where c: "publish_candidate mg now validate m s = Inr q"
    using assms by (cases "publish_candidate mg now validate m s") (auto simp: publish_generation_def)
  then obtain s1 where w: "write_generation_record (fst fs) mg q s = (Inr (), s1)" "publish_swap (snd fs) mg q s1 = (Inr p, s')"
    using assms by (auto simp: publish_generation_def rbind_def split: sum.splits prod.splits)
  note e = publish_swap_effect[OF w(2)]
  then show "gs_active s' = Some (gm_to_dict p)" "load_active mg s' = (Inr (Some p), s')"
    "gs_markers s' (gm_generation_id p) = None" "validate_paths mg p = Inr ()" "publish_candidate mg now validate m s = Inr p"
    "gm_generation_id p = gm_generation_id m"
    using c publish_candidate_published(3)[OF c] by (auto simp: activated_def load_active_def)
  show "gs_records s' (gm_generation_id p) = Some (gm_to_dict p)"
    using write_record_effect(2)[OF w(1)] e by (auto simp: activated_def)
qed

lemma sample_safe: "g \<in> {''a'', ''b''} \<Longrightarrow> safe_generation_id g = Inr g"
  by (auto simp: sample_defs)

lemma sample_paths:
  assumes "g \<in> {''a'', ''b''}"
  shows "validate_paths sample_manager (sample_generation g st) = Inr ()"
  using assms by (auto simp: sample_defs)

lemma reach_quiet:
  assumes "gsys.reach mg st" "gstep mg st st'" "gs_tombstones (fst st') = gs_tombstones (fst st)"
  shows "gsys.reach mg st'"
  using gsys.reach_step[OF assms(1)] assms(2,3) by (simp add: reconciled_step_def)

lemma sample_publish:
  assumes "g \<in> {''a'', ''b''}" "gsys.reach sample_manager (s, T)" "gs_tombstones s g = None" "gs_markers s g = None" "g \<notin> gs_retiring s"
  shows "gsys.reach sample_manager (sample_published g (sample_allocated g s), T)"
proof -
  let ?s = "sample_allocated g s" let ?p = "sample_generation g GenPublished"
  let ?s' = "?s\<lparr>gs_records := (gs_records ?s)(g \<mapsto> gm_to_dict ?p)\<rparr>"
  have id: "gm_generation_id (sample_generation g st) = g" "gm_target (sample_generation g st) = sample_target" for st
    by (simp_all add: sample_generation_def)
  have tgt: "validate_storage_target sample_manager m = Inr ()" for m
    by (simp add: validate_storage_target_def sample_manager_def)
  have mk: "incompatibility g ?s = Inr None" "incompatibility g ?s' = Inr None"
    using assms(1,4) by (auto simp: incompatibility_def sample_safe sample_allocated_def)
  have un: "check_unretired ?p ?s = Inr ()" "check_unretired ?p ?s' = Inr ()"
    using assms(1,3) by (auto simp: check_unretired_def id sample_safe sample_allocated_def)
  have p: "publish_candidate sample_manager ''t'' (\<lambda>_. Inr []) (sample_generation g GenBuilding) ?s = Inr ?p"
    using assms(1) mk
    by (simp add: publish_candidate_def id tgt sample_paths)
      (auto simp: sample_generation_def sample_manager_def Let_def json_or_def json_truthy_def)
  have w: "write_generation_record Written sample_manager ?p ?s = (Inr (), ?s')"
    using sample_paths[OF assms(1), of GenPublished] id
    by (auto simp: write_generation_record_def validate_paths_def rbind_def split: sum.splits)
  have sw: "publish_swap Written sample_manager ?p ?s' = (Inr ?p, sample_published g ?s)"
    using assms(1,5) un mk
    by (simp add: publish_swap_def write_active_manifest_unlocked_def activated_def publish_checks_def tgt sample_paths id sample_published_def)
      (simp add: sample_allocated_def)
  have "gsys.reach sample_manager (?s, T)"
    by (rule reach_quiet[OF assms(2) gstep.allocated[OF sample_allocate[OF assms(1)]]]) (simp add: sample_allocated_def)
  then have "gsys.reach sample_manager (?s, add_mset (Checking ?p) T)"
    using reach_quiet gstep.publish_starts[OF p] by fastforce
  then have "gsys.reach sample_manager (?s, add_mset (Recording ?p) T)"
    using reach_quiet gstep.publish_checked[OF un(1)] by fastforce
  then have "gsys.reach sample_manager (?s', add_mset (Swapping ?p) T)"
    by (rule reach_quiet[OF _ gstep.publish_recorded[OF w]]) simp
  then show ?thesis
    by (rule reach_quiet[OF _ gstep.publish_swapped[OF sw]]) (simp add: sample_published_def activated_def)
qed

definition sample_one :: generations where
  "sample_one = sample_published ''a'' (sample_allocated ''a'' no_generations)"

definition sample_two :: generations where
  "sample_two = sample_published ''b'' (sample_allocated ''b'' sample_one)"

lemmas sample_store_defs = sample_two_def sample_one_def sample_published_def sample_allocated_def no_generations_def
  activated_def

lemma sample_reach: "gsys.reach sample_manager (sample_one, {#})" "gsys.reach sample_manager (sample_two, {#})"
proof -
  show one: "gsys.reach sample_manager (sample_one, {#})"
    unfolding sample_one_def by (rule sample_publish[OF _ gsys.reach_initial]) (auto simp: no_generations_def)
  show "gsys.reach sample_manager (sample_two, {#})"
    unfolding sample_two_def by (rule sample_publish[OF _ one]) (auto simp: sample_store_defs)
qed

lemma sample_pin:
  "pin_active sample_manager sample_one =
     (Inr (sample_generation ''a'' GenPublished), sample_one\<lparr>gs_references := [''a'' \<mapsto> 1]\<rparr>)"
  by (simp add: pin_active_def load_active_def references_def sample_store_defs sample_generation_def)

lemma sample_retire:
  "retire_begin Written sample_manager ''t'' (sample_generation ''a'' GenPublished) sample_two =
     (Inr True, (tombstoned ''t'' ''a'' sample_two)\<lparr>gs_retiring := {''a''}\<rparr>)"
  using sample_paths[of "''a''" GenPublished]
  by (simp add: retire_begin_def load_active_def references_def Let_def write_retired_tombstone_def tombstoned_def sample_store_defs)
    (simp add: sample_generation_def)

section \<open>Properties\<close>

text \<open>
  C10. A generation is never removed under a reader: while a reader has it pinned it is published for
  this target, its files are there, it is not retired, no thread is removing it, and retiring it is
  refused, whatever the other threads did before, file writes that raised and crashes included. The
  runs are those in which no tombstone is written while the cache disagrees with the active manifest,
  that is, between a publication that raised after replacing the manifest and the next \<open>recover\<close>.
\<close>

theorem reader_keeps_generation:
  assumes "gsys.reach mg (s, T)" "Reading m \<in># T"
  shows "serviceable mg m s \<and> references s (gm_generation_id m) \<noteq> 0 \<and> (\<forall>t \<in># T. \<not> retires (gm_generation_id m) t)
    \<and> (gm_generation_id m' = gm_generation_id m \<longrightarrow>
        fst (retire_begin f mg now m' s) \<noteq> Inr True \<and> gs_tombstones (snd (retire_begin f mg now m' s)) = gs_tombstones s)"
proof -
  let ?g = "gm_generation_id m"
  have i: "ginv mg (s, T)" using reach_ginv[OF assms(1)] .
  have sv: "serviceable mg m s" using i assms(2) by (auto simp: ginv_def)
  have r: "references s ?g \<noteq> 0" using i assms(2) references_read by (auto simp: ginv_def)
  have "?g \<notin> gs_retiring s" using i sv by (auto simp: ginv_def manager_ok_def serviceable_def)
  then have "size (filter_mset (retires ?g) T) = 0" using i by (simp add: ginv_def counts_ok_def)
  then have n: "\<not> retires ?g t" if "t \<in># T" for t using that by auto
  have "fst (retire_begin f mg now m' s) \<noteq> Inr True \<and> gs_tombstones (snd (retire_begin f mg now m' s)) = gs_tombstones s"
    if "gm_generation_id m' = ?g" using retire_begin_referenced r that by metis
  then show ?thesis using sv r n by (intro conjI) auto
qed

theorem reader_keeps_generation_witness:
  "serviceable sample_manager (sample_generation ''a'' GenPublished) (sample_one\<lparr>gs_references := [''a'' \<mapsto> 1]\<rparr>) \<and>
   fst (retire_begin Written sample_manager ''t'' (sample_generation ''a'' GenBuilding) (sample_one\<lparr>gs_references := [''a'' \<mapsto> 1]\<rparr>)) \<noteq> Inr True"
proof -
  have "gsys.reach sample_manager (sample_one\<lparr>gs_references := [''a'' \<mapsto> 1]\<rparr>, {#Reading (sample_generation ''a'' GenPublished)#})"
    using reach_quiet[OF sample_reach(1) gstep.pinned[OF sample_pin]] by simp
  from reader_keeps_generation[OF this, of _ "sample_generation ''a'' GenBuilding" Written "''t''"] show ?thesis
    by (simp add: sample_generation_def)
qed

text \<open>
  C11. The active manifest always describes a published generation of this target whose files are in
  place and which is not retired, also right after a publication that raised once the manifest was
  replaced, as long as no tombstone is written while the cache disagrees with it. If it has schema
  version 1, a restart or \<open>recover\<close> loads exactly that generation, or raises if it is marked incompatible;
  so does \<open>load_active\<close> when the cache agrees and the generation is not marked. Whatever \<open>load_active\<close>
  returns in any of these runs can be served.
\<close>

theorem active_generation_valid:
  assumes "gsys.reach mg (s, T)" "gs_active s = Some d"
  shows "(\<exists>m. d = gm_to_dict m \<and> serviceable mg m s \<and>
      (gm_schema_version m = 1 \<longrightarrow>
        fst (load_active mg (restart s)) = (if gs_markers s (gm_generation_id m) = None then Inr (Some m) else Inl ValueError) \<and>
        fst (recover mg s) = fst (load_active mg (restart s)) \<and>
        (coherent s \<and> gs_markers s (gm_generation_id m) = None \<longrightarrow> fst (load_active mg s) = Inr (Some m)))) \<and>
    (\<forall>m. fst (load_active mg s) = Inr (Some m) \<longrightarrow> serviceable mg m s)"
proof -
  have i: "manager_ok mg s" using reach_ginv[OF assms(1)] by (simp add: ginv_def)
  then obtain m where m: "d = gm_to_dict m" "serviceable mg m s"
    using assms(2) by (auto simp: manager_ok_def active_ok_def)
  have fresh: "fst (load_active mg t) = (if gs_markers s (gm_generation_id m) = None then Inr (Some m) else Inl ValueError)"
    if "gm_schema_version m = 1" "\<not> gs_cache_loaded t" "same_files s t" for t
    using load_active_exact[of t m mg] that assms(2) m by (simp add: same_files_def serviceable_def)
  have "fst (load_active mg s) = Inr (Some m)"
    if "gm_schema_version m = 1" "coherent s" "gs_markers s (gm_generation_id m) = None"
  proof (cases "gs_cache_loaded s")
    case True
    then have "gs_cache s = Some m" using that(2) m(1) assms(2) by (cases "gs_cache s") (auto simp: coherent_def)
    then show ?thesis using True by (simp add: load_active_def)
  next
    case False
    then show ?thesis using fresh[of s] that by (simp add: same_files_def)
  qed
  moreover have "fst (load_active mg (restart s)) = (if gs_markers s (gm_generation_id m) = None then Inr (Some m) else Inl ValueError) \<and>
      fst (recover mg s) = fst (load_active mg (restart s))" if "gm_schema_version m = 1"
    using fresh[OF that, of "restart s"] fresh[OF that, of "s\<lparr>gs_cache := None, gs_cache_loaded := False\<rparr>"]
    by (simp add: restart_def same_files_def recover_def)
  ultimately show ?thesis using m manager_okE(2)[OF i] by (metis prod.collapse)
qed

theorem active_generation_valid_witness:
  "serviceable sample_manager (sample_generation ''a'' GenPublished) sample_one \<and>
   fst (load_active sample_manager (restart sample_one)) = Inr (Some (sample_generation ''a'' GenPublished))"
proof -
  have "gs_active sample_one = Some (gm_to_dict (sample_generation ''a'' GenPublished))" "gs_markers sample_one = Map.empty"
    by (simp_all add: sample_store_defs)
  then show ?thesis using active_generation_valid[OF sample_reach(1), of "gm_to_dict (sample_generation ''a'' GenPublished)"]
    by (auto simp: sample_generation_def)
qed

text \<open>
  C12. Retirement is final: from the moment its tombstone is written, through any steps of any
  threads, writes that raise and crashes, a generation is never what the active manifest names or what is
  loaded, no reader has it, and publishing it again raises and changes nothing. The runs are
  those in which no tombstone is written while the cache disagrees with the active manifest.
\<close>

theorem retirement_final:
  assumes "gsys.reach mg (s, T)" "gs_tombstones s g \<noteq> None" "(reconciled_step mg)\<^sup>*\<^sup>* (s, T) (s', T')"
  shows "gs_tombstones s' g \<noteq> None \<and> (\<forall>m. gs_active s' = Some (gm_to_dict m) \<longrightarrow> gm_generation_id m \<noteq> g) \<and>
    (\<forall>m. fst (load_active mg s') = Inr (Some m) \<longrightarrow> gm_generation_id m \<noteq> g) \<and>
    (\<forall>m. Reading m \<in># T' \<longrightarrow> gm_generation_id m \<noteq> g) \<and>
    (gm_generation_id p = g \<longrightarrow> (\<exists>x. publish_generation fs mg now validate p s' = (Inl x, s')))"
proof -
  have t: "gs_tombstones s' g \<noteq> None" using files_mono[OF assms(3)] assms(2) by (auto simp: subset_iff domIff)
  have i: "ginv mg (s', T')" using assms(1,3) gsys.reach_rtranclp reach_ginv by blast
  have "gm_generation_id m \<noteq> g" if "serviceable mg m s'" for m using that t by (auto simp: serviceable_def)
  moreover have "serviceable mg m s'" if "gs_active s' = Some (gm_to_dict m)" for m
    using i that by (auto simp: ginv_def manager_ok_def active_ok_def)
  moreover have "serviceable mg m s'" if "fst (load_active mg s') = Inr (Some m)" for m
    using manager_okE(2)[of mg s' _ "snd (load_active mg s')" m] i that by (auto simp: ginv_def) (metis prod.collapse)
  moreover have "serviceable mg m s'" if "Reading m \<in># T'" for m using i that by (auto simp: ginv_def)
  moreover have "\<exists>x. publish_generation fs mg now validate p s' = (Inl x, s')" if "gm_generation_id p = g"
    using publish_tombstoned t that by blast
  ultimately show ?thesis using t by blast
qed

theorem retirement_final_witness:
  "\<exists>s. gsys.reach sample_manager (s, {#Removing (sample_generation ''a'' GenPublished)#}) \<and>
     (\<exists>x. publish_generation (Written, Written) sample_manager ''t'' (\<lambda>_. Inr []) (sample_generation ''a'' GenBuilding) (restart s) = (Inl x, restart s))"
proof -
  let ?s = "(tombstoned ''t'' ''a'' sample_two)\<lparr>gs_retiring := {''a''}\<rparr>"
  let ?T = "{#Removing (sample_generation ''a'' GenPublished)#}"
  have "coherent sample_two" by (simp add: coherent_def sample_store_defs)
  then have "reconciled_step sample_manager (sample_two, {#}) (?s, ?T)"
    using gstep.retire_begun[OF sample_retire] by (simp add: reconciled_step_def)
  then have r: "gsys.reach sample_manager (?s, ?T)" using sample_reach(2) gsys.reach_step by blast
  have "reconciled_step sample_manager (?s, ?T) (restart ?s, {#})"
    using gstep.crashed[of sample_manager ?s ?T] by (simp add: reconciled_step_def restart_def)
  then have "(reconciled_step sample_manager)\<^sup>*\<^sup>* (?s, ?T) (restart ?s, {#})" by blast
  moreover have "gs_tombstones ?s ''a'' \<noteq> None" by (simp add: tombstoned_def)
  moreover have "gm_generation_id (sample_generation ''a'' GenBuilding) = ''a''" by (simp add: sample_generation_def)
  ultimately show ?thesis
    using retirement_final[OF r, of "''a''" "restart ?s" "{#}" "sample_generation ''a'' GenBuilding" "(Written, Written)"] r
    by blast
qed

text \<open>
  A generation marked incompatible without an error is never handed to a reader again, and is never
  what \<open>load_active\<close> returns, whatever happens after the marker was written; this needs no
  reconciliation. (If writing the marker raises after its replacement, the cache keeps the generation until
  it is reloaded.)
\<close>

definition fenced :: "string \<Rightarrow> generations \<Rightarrow> bool" where
  "fenced g s \<longleftrightarrow> gs_markers s g \<noteq> None \<and> (\<forall>m. gs_cache_loaded s \<and> gs_cache s = Some m \<longrightarrow> gm_generation_id m \<noteq> g)"

lemma fenced_keeps:
  assumes "fenced g s" "dom (gs_markers s) \<subseteq> dom (gs_markers s')" "gs_cache_loaded s' \<longrightarrow> gs_cache_loaded s \<and> gs_cache s' = gs_cache s"
  shows "fenced g s'"
  using assms by (auto simp: fenced_def subset_iff domIff)

lemma fenced_load:
  assumes "fenced g s" "load_active mg s = (r, s')"
  shows "fenced g s'" "r = Inr (Some m) \<Longrightarrow> gm_generation_id m \<noteq> g"
proof -
  show some: "gm_generation_id m \<noteq> g" if "r = Inr (Some m)" for m
  proof (cases "gs_cache_loaded s")
    case True
    then show ?thesis using assms that by (auto simp: load_active_def fenced_def)
  next
    case False
    have "load_active mg s = (Inr (Some m), s')" using assms(2) that by simp
    then have "gs_markers s (gm_generation_id m) = None" using False by (rule load_active_fresh)
    then show ?thesis using assms(1) by (auto simp: fenced_def)
  qed
  have "gs_markers s' = gs_markers s" using load_active_effect(1)[OF assms(2)] by (simp add: same_files_def)
  then show "fenced g s'"
    using some load_active_effect(4,5)[OF assms(2)] assms(1) by (cases r) (auto simp: fenced_def)
qed

lemma fenced_begin:
  assumes "fenced g s" "retire_begin f mg now m s = (r, s')"
  shows "fenced g s'"
  using assms(2)
proof (cases rule: retire_begin_cases)
  case quiet
  then show ?thesis using assms(1) fenced_load(1) by blast
next
  case (writes x s1)
  have "fenced g s1" using fenced_load(1)[OF assms(1) writes(1)] .
  then show ?thesis by (simp add: writes(2) fenced_def tombstoned_def)
qed

lemma fenced_step:
  assumes "gstep mg st st'" "fenced g (fst st)"
  shows "fenced g (fst st')"
  using assms
proof (induction rule: gstep.induct)
  case (publish_recorded f p s s' T)
  then show ?case using write_record_effect(1)[OF publish_recorded(1)] by (auto simp: fenced_def)
next
  case (publish_unrecorded f p s x s' T)
  then show ?case using write_record_effect(1)[OF publish_unrecorded(1)] by (auto simp: fenced_def)
next
  case (publish_swapped f p s r s' T)
  then show ?case using publish_swap_effect[OF publish_swapped(1)] by (auto simp: fenced_def activated_def)
next
  case (allocated f now uuid revision gid s r s' T)
  then show ?case using allocate_effect[OF allocated(1)] by (auto simp: fenced_def)
next
  case (marked f gid reason provenance s r s' T)
  then show ?case using mark_incompatible_effect(6,8)[OF marked(1)] by (auto intro: fenced_keeps)
next
  case (loaded s r s' T)
  then show ?case using fenced_load(1) by simp
next
  case (recovered s r s' T)
  have "fenced g (s\<lparr>gs_cache := None, gs_cache_loaded := False\<rparr>)" using recovered(2) by (simp add: fenced_def)
  then show ?case using recovered(1) fenced_load(1) by (simp add: recover_def)
next
  case (pinned s m s' T)
  then obtain s1 where l: "load_active mg s = (Inr (Some m), s1)"
    and s': "s' = s1\<lparr>gs_references := (gs_references s1)(gm_generation_id m \<mapsto> references s1 (gm_generation_id m) + 1)\<rparr>"
    by (metis pin_active_effect)
  have "fenced g s1" using fenced_load(1)[OF _ l] pinned(2) by simp
  then show ?case by (simp add: s' fenced_def)
next
  case (pin_refused s x s' T)
  then show ?case using pin_refused_effect fenced_load(1) by (metis fst_conv)
next
  case (retire_refused f now m s r s' T)
  then show ?case using fenced_begin by simp
next
  case (retire_begun f now m s s' T)
  then show ?case using fenced_begin by simp
qed (simp_all add: fenced_def unpin_effect remove_tree_def retire_end_def restart_def)

theorem marked_never_served:
  assumes "mark_incompatible f g reason provenance s = (Inr (), s1)" "(gstep mg)\<^sup>*\<^sup>* (s1, T) (s2, T2)"
  shows "(\<forall>m. fst (pin_active mg s2) = Inr m \<longrightarrow> gm_generation_id m \<noteq> g) \<and>
    (\<forall>m. fst (load_active mg s2) = Inr (Some m) \<longrightarrow> gm_generation_id m \<noteq> g)"
proof -
  have "fenced g (fst (s1, T))" using mark_incompatible_effect(7)[OF assms(1)] by (simp add: fenced_def)
  with assms(2) have "fenced g (fst (s2, T2))" by (induction rule: rtranclp_induct) (use fenced_step in blast)+
  then have load: "gm_generation_id m \<noteq> g" if "load_active mg s2 = (Inr (Some m), s3)" for m s3
    using fenced_load(2) that by simp
  have "gm_generation_id m \<noteq> g" if "pin_active mg s2 = (Inr m, s3)" for m s3
    using that by (rule pin_active_effect) (rule load)
  then show ?thesis using load by (metis prod.collapse)
qed

text \<open>
  A publication that nobody interferes with makes the generation the one that is loaded, in this
  process and after a restart, or it raises and leaves the cache as it was; the file, too, unless it raised after
  replacing it.
\<close>

theorem publish_outcome:
  assumes "publish_generation fs mg now validate m s = (r, s')"
  shows "(\<exists>x. r = Inl x \<and> gs_cache s' = gs_cache s \<and> gs_cache_loaded s' = gs_cache_loaded s \<and>
       (gs_active s' = gs_active s \<or> x = OSError \<and> (\<exists>p. publish_candidate mg now validate m s = Inr p \<and> gs_active s' = Some (gm_to_dict p)))) \<or>
    (\<exists>p. r = Inr p \<and> gm_generation_id p = gm_generation_id m \<and> gm_state p = GenPublished \<and> gs_active s' = Some (gm_to_dict p) \<and>
       gs_records s' (gm_generation_id m) = Some (gm_to_dict p) \<and> load_active mg s' = (Inr (Some p), s') \<and>
       (gm_schema_version m = 1 \<longrightarrow> fst (load_active mg (restart s')) = Inr (Some p)))"
proof (cases r)
  case (Inl x)
  then show ?thesis
    using assms by (auto simp: publish_generation_def activated_def rbind_def dest!: write_record_effect(1) publish_swap_effect
        split: sum.splits prod.splits)
next
  case (Inr p)
  note e = publish_result[OF assms[unfolded Inr]]
  note c = publish_candidate_published[OF e(6)]
  have "fst (load_active mg (restart s')) = Inr (Some p)" if "gm_schema_version m = 1"
    using load_active_exact[of "restart s'" p mg] c e that by (simp add: restart_def)
  then show ?thesis using Inr c e by auto
qed

section \<open>Retiring without reconciliation\<close>

text \<open>
  The discipline is needed. Let the cache hold another generation when publishing \<open>p\<close> raises after the
  active manifest was replaced. \<open>retire\<close>, which only asks the cache, then accepts \<open>p\<close>, writes its tombstone and
  removes its files, and the next process loads \<open>p\<close> as the active generation.
\<close>

theorem unreconciled_retirement:
  assumes "publish_swap Unsynced mg p s = (Inl OSError, s1)" "gs_active s1 = Some (gm_to_dict p)"
    "gs_cache_loaded s" "gs_cache s = Some a" "gm_generation_id a \<noteq> gm_generation_id p" "gs_active s = Some (gm_to_dict a)"
    "references s (gm_generation_id p) = 0"
    "gm_schema_version p = 1" "gm_target p = mg_target mg" "gm_state p = GenPublished"
  shows "\<exists>s2. retire Written mg now p s1 = (Inr True, s2) \<and> gs_tombstones s2 (gm_generation_id p) \<noteq> None \<and>
    gs_records s2 (gm_generation_id p) = None \<and> fst (load_active mg (restart s2)) = Inr (Some p)"
proof -
  let ?g = "gm_generation_id p"
  have "gm_to_dict a \<noteq> gm_to_dict p" using assms(5) by auto
  then have "s1 \<noteq> s" using assms(2,6) by auto
  then have s1: "s1 = s\<lparr>gs_active := Some (gm_to_dict p)\<rparr>" "validate_storage_target mg p = Inr ()" "validate_paths mg p = Inr ()"
    "?g \<notin> gs_retiring s" "gs_markers s ?g = None"
    using publish_swap_effect[OF assms(1)] by auto
  let ?s2 = "retire_end p (remove_tree p ((tombstoned now ?g s1)\<lparr>gs_retiring := insert ?g (gs_retiring s1)\<rparr>))"
  have "retire Written mg now p s1 = (Inr True, ?s2)"
    using assms(3-5,7) s1 by (simp add: retire_def retire_begin_def load_active_def references_def write_retired_tombstone_def tombstoned_def Let_def)
  moreover have "fst (load_active mg (restart ?s2)) = Inr (Some p)"
    using load_active_exact[of "restart ?s2" p mg] assms(8-10) s1
    by (simp add: restart_def retire_end_def remove_tree_def tombstoned_def)
  ultimately show ?thesis by (auto simp: retire_end_def remove_tree_def tombstoned_def)
qed

end
