(* ===== verification/Store_Refinement.thy ===== *)
theory Store_Refinement
  imports Store_Lifecycle
begin

text \<open>
  What a generation manager promises, without its files, cache, locks and threads: the generation the
  store is committed to, the one that is being served, the retired ones and the generations that are
  being read. The detailed steps of \<open>Store_Generation\<close> implement it, each by at most one of the
  abstract steps.
\<close>

section \<open>Refinement of step relations\<close>

locale step_refinement =
  fixes creach :: "'s \<Rightarrow> bool" and cstep :: "'s \<Rightarrow> 's \<Rightarrow> bool" and view :: "'s \<Rightarrow> 'a" and astep :: "'a \<Rightarrow> 'a \<Rightarrow> bool"
  assumes closed: "creach s \<Longrightarrow> cstep s t \<Longrightarrow> creach t"
    and simulates: "creach s \<Longrightarrow> cstep s t \<Longrightarrow> astep\<^sup>=\<^sup>= (view s) (view t)"
begin

lemma runs:
  assumes "cstep\<^sup>*\<^sup>* s t" "creach s"
  shows "creach t \<and> astep\<^sup>*\<^sup>* (view s) (view t)"
  using assms
proof (induction rule: rtranclp_induct)
  case (step t u)
  have "astep\<^sup>=\<^sup>= (view t) (view u)" using simulates step by blast
  then have "astep\<^sup>*\<^sup>* (view t) (view u)" by auto
  then show ?case using step closed by (meson rtranclp_trans)
qed simp

lemma transfers:
  assumes "cstep\<^sup>*\<^sup>* s t" "creach s" "P (view s)" "\<And>a b. P a \<Longrightarrow> astep a b \<Longrightarrow> P b"
  shows "P (view t)"
proof -
  have "astep\<^sup>*\<^sup>* (view s) (view t)" using runs assms(1,2) by blast
  then show ?thesis using assms(3) by (induction rule: rtranclp_induct) (use assms(4) in blast)+
qed

end

section \<open>The specification\<close>

record lifecycle =
  lc_built :: "string set"
  lc_marked :: "string set"
  lc_retired :: "string set"
  lc_committed :: "string option"
  lc_served :: "string option"
  lc_readers :: "string multiset"

text \<open>
  A publication commits the store to a generation that is built, not retired and not marked, and serves
  it; if it fails late, it commits the store only. Serving follows the commitment again at the next
  reload. A generation is retired when it is neither committed, nor served, nor read, and only
  what is retired is removed.
\<close>

inductive lifecycle_step :: "lifecycle \<Rightarrow> lifecycle \<Rightarrow> bool" where
  lc_build: "lifecycle_step a (a\<lparr>lc_built := insert g (lc_built a)\<rparr>)"
| lc_publish: "g \<in> lc_built a \<Longrightarrow> g \<notin> lc_retired a \<Longrightarrow> g \<notin> lc_marked a \<Longrightarrow>
    lifecycle_step a (a\<lparr>lc_committed := Some g, lc_served := Some g\<rparr>)"
| lc_publish_late: "g \<in> lc_built a \<Longrightarrow> g \<notin> lc_retired a \<Longrightarrow> g \<notin> lc_marked a \<Longrightarrow>
    lifecycle_step a (a\<lparr>lc_committed := Some g\<rparr>)"
| lc_mark: "lifecycle_step a (a\<lparr>lc_marked := insert g (lc_marked a)\<rparr>)"
| lc_fence: "lc_served a = Some g \<Longrightarrow> lifecycle_step a (a\<lparr>lc_marked := insert g (lc_marked a), lc_served := lc_committed a\<rparr>)"
| lc_reload: "lifecycle_step a (a\<lparr>lc_served := lc_committed a\<rparr>)"
| lc_read: "lc_served a = Some g \<Longrightarrow> lifecycle_step a (a\<lparr>lc_readers := add_mset g (lc_readers a)\<rparr>)"
| lc_release: "lc_readers a = add_mset g R \<Longrightarrow> lifecycle_step a (a\<lparr>lc_readers := R\<rparr>)"
| lc_retire: "lc_committed a \<noteq> Some g \<Longrightarrow> lc_served a \<noteq> Some g \<Longrightarrow> g \<notin># lc_readers a \<Longrightarrow>
    lifecycle_step a (a\<lparr>lc_retired := insert g (lc_retired a)\<rparr>)"
| lc_remove: "g \<in> lc_retired a \<Longrightarrow> lifecycle_step a (a\<lparr>lc_built := lc_built a - {g}\<rparr>)"
| lc_crash: "lifecycle_step a (a\<lparr>lc_served := lc_committed a, lc_readers := {#}\<rparr>)"

definition lifecycle_safe :: "lifecycle \<Rightarrow> bool" where
  "lifecycle_safe a \<longleftrightarrow> (\<forall>g. lc_committed a = Some g \<or> lc_served a = Some g \<or> g \<in># lc_readers a \<longrightarrow>
     g \<in> lc_built a \<and> g \<notin> lc_retired a)"

lemma lifecycle_safe_step:
  assumes "lifecycle_step a b" "lifecycle_safe a"
  shows "lifecycle_safe b"
  using assms by (induction rule: lifecycle_step.induct) (auto simp: lifecycle_safe_def)

section \<open>The implementation\<close>

text \<open>What the files and the memory of a manager and its threads mean: an unloaded cache serves what the file names.\<close>

fun reader_id :: "task \<Rightarrow> string option" where
  "reader_id (Reading m) = Some (gm_generation_id m)"
| "reader_id _ = None"

definition named_generation :: "dict \<Rightarrow> string" where
  "named_generation d = py_str (dict_get d ''generation_id'')"

definition lifecycle_of :: "threads \<Rightarrow> lifecycle" where
  "lifecycle_of st =
     (let s = fst st; committed = map_option named_generation (gs_active s) in
      \<lparr>lc_built = dom (gs_records s), lc_marked = dom (gs_markers s), lc_retired = dom (gs_tombstones s),
       lc_committed = committed,
       lc_served = (if gs_cache_loaded s then map_option gm_generation_id (gs_cache s) else committed),
       lc_readers = image_mset (\<lambda>t. the (reader_id t)) (filter_mset (\<lambda>t. reader_id t \<noteq> None) (snd st))\<rparr>)"

lemma named_to_dict [simp]: "named_generation (gm_to_dict m) = gm_generation_id m"
  by (simp add: named_generation_def gm_to_dict_def dict_get_def py_str_def)

lemma named_from_dict:
  assumes "manager_ok mg s" "gs_active s = Some d" "gm_from_dict d = Inr m"
  shows "named_generation d = gm_generation_id m"
  using assms by (auto simp: manager_ok_def active_ok_def gm_from_to_dict split: if_splits)

text \<open>Loading changes nothing a client sees.\<close>

lemma lifecycle_load:
  assumes "manager_ok mg s" "load_active mg s = (r, s')"
  shows "lifecycle_of (s', T) = lifecycle_of (s, T)"
    "r = Inr (Some m) \<Longrightarrow> lc_served (lifecycle_of (s, T)) = Some (gm_generation_id m)"
proof -
  have "lifecycle_of (s', T) = lifecycle_of (s, T) \<and> (\<forall>m. r = Inr (Some m) \<longrightarrow> lc_served (lifecycle_of (s, T)) = Some (gm_generation_id m))"
    using assms named_from_dict[OF assms(1)]
    by (auto simp: load_active_def lifecycle_of_def rbind_def Let_def split: if_splits option.splits sum.splits)
  then show "lifecycle_of (s', T) = lifecycle_of (s, T)"
    "r = Inr (Some m) \<Longrightarrow> lc_served (lifecycle_of (s, T)) = Some (gm_generation_id m)" by auto
qed

lemma lifecycle_recover:
  assumes "manager_ok mg s" "recover mg s = (r, s')"
  shows "lifecycle_of (s', T) = (lifecycle_of (s, T))\<lparr>lc_served := lc_committed (lifecycle_of (s, T))\<rparr>"
proof -
  let ?s = "s\<lparr>gs_cache := None, gs_cache_loaded := False\<rparr>"
  have "lifecycle_of (s', T) = lifecycle_of (?s, T)"
    using lifecycle_load(1)[OF manager_ok_uncached[OF assms(1)]] assms(2) by (simp add: recover_def)
  then show ?thesis by (simp add: lifecycle_of_def Let_def)
qed

lemma lifecycle_mark:
  assumes "mark_incompatible f gid reason provenance s = (r, s')"
  shows "lifecycle_step\<^sup>=\<^sup>= (lifecycle_of (s, T)) (lifecycle_of (s', T))"
proof -
  let ?a = "lifecycle_of (s, T)"
  consider "s' = s" | d where "s' = s\<lparr>gs_markers := (gs_markers s)(gid \<mapsto> d)\<rparr>"
    | d m where "s' = s\<lparr>gs_markers := (gs_markers s)(gid \<mapsto> d), gs_cache := None, gs_cache_loaded := False\<rparr>"
      "gs_cache s = Some m" "gm_generation_id m = gid"
    using mark_incompatible_outcome[OF assms] by blast
  then have "s' = s \<or> lifecycle_of (s', T) = ?a\<lparr>lc_marked := insert gid (lc_marked ?a)\<rparr> \<or>
      lc_served ?a = Some gid \<and> lifecycle_of (s', T) = ?a\<lparr>lc_marked := insert gid (lc_marked ?a), lc_served := lc_committed ?a\<rparr>"
    by cases (auto simp: lifecycle_of_def Let_def)
  then show ?thesis using lc_mark lc_fence by (metis sup2CI)
qed

lemma lifecycle_record: "lifecycle_step (lifecycle_of (s, T)) (lifecycle_of (s\<lparr>gs_records := (gs_records s)(g \<mapsto> d)\<rparr>, T))"
proof -
  have "lifecycle_of (s\<lparr>gs_records := (gs_records s)(g \<mapsto> d)\<rparr>, T) = (lifecycle_of (s, T))\<lparr>lc_built := insert g (lc_built (lifecycle_of (s, T)))\<rparr>"
    by (simp add: lifecycle_of_def Let_def)
  then show ?thesis using lc_build by metis
qed

lemma lifecycle_remove:
  assumes "gs_tombstones s (gm_generation_id m) \<noteq> None"
  shows "lifecycle_step (lifecycle_of (s, T)) (lifecycle_of (remove_tree m s, T))"
proof -
  let ?a = "lifecycle_of (s, T)"
  have "lifecycle_of (remove_tree m s, T) = ?a\<lparr>lc_built := lc_built ?a - {gm_generation_id m}\<rparr>"
    by (simp add: lifecycle_of_def remove_tree_def Let_def)
  moreover have "gm_generation_id m \<in> lc_retired ?a" using assms by (auto simp: lifecycle_of_def Let_def)
  ultimately show ?thesis using lc_remove by metis
qed

text \<open>Tasks other than readers are not seen.\<close>

lemma lifecycle_task [simp]: "reader_id t = None \<Longrightarrow> lifecycle_of (s, add_mset t T) = lifecycle_of (s, T)"
  by (simp add: lifecycle_of_def Let_def)

lemma publisher_unseen: "publishes t = Some p \<Longrightarrow> reader_id t = None"
  by (cases t) auto

lemma lifecycle_swap:
  assumes "publish_swap f mg p s = (r, s')"
  shows "lifecycle_step\<^sup>=\<^sup>= (lifecycle_of (s, T)) (lifecycle_of (s', T))"
proof (cases "s' = s")
  case False
  let ?a = "lifecycle_of (s, T)" and ?g = "gm_generation_id p"
  have g: "?g \<in> lc_built ?a" "?g \<notin> lc_retired ?a" "?g \<notin> lc_marked ?a" and s': "s' = activated p s \<or> s' = s\<lparr>gs_active := Some (gm_to_dict p)\<rparr>"
    using publish_swap_effect[OF assms] False by (auto simp: lifecycle_of_def Let_def)
  have "lifecycle_of (s', T) = ?a\<lparr>lc_committed := Some ?g, lc_served := Some ?g\<rparr> \<or> lifecycle_of (s', T) = ?a\<lparr>lc_committed := Some ?g\<rparr>"
    using s' by (auto simp: lifecycle_of_def activated_def Let_def)
  then show ?thesis using lc_publish[OF g] lc_publish_late[OF g] by auto
qed simp

text \<open>Reference counts and the cache are what the implementation asks; they stand for the readers and what is served.\<close>

lemma referenced_reader:
  assumes "counts_ok (s, T)" "g \<in># lc_readers (lifecycle_of (s, T))"
  shows "references s g \<noteq> 0"
proof -
  obtain t where "t \<in># T" "reader_id t = Some g" using assms(2) by (auto simp: lifecycle_of_def Let_def)
  then obtain m where "Reading m \<in># T" "gm_generation_id m = g" by (cases t) auto
  then show ?thesis using references_read[OF assms(1)] by blast
qed

lemma lifecycle_tombstone:
  assumes "ginv mg (s, T)" "load_active mg s = (Inr x, s1)" "\<forall>a. x = Some a \<longrightarrow> gm_generation_id a \<noteq> g" "references s1 g = 0"
    "coherent s \<or> g \<in> dom (gs_tombstones s)" "gs_active s' = gs_active s1" "gs_cache s' = gs_cache s1" "gs_cache_loaded s' = gs_cache_loaded s1"
    "gs_tombstones s' = (gs_tombstones s1)(g \<mapsto> d)" "gs_records s' = gs_records s1" "gs_markers s' = gs_markers s1"
  shows "lifecycle_step\<^sup>=\<^sup>= (lifecycle_of (s, T)) (lifecycle_of (s', T))"
proof -
  let ?a = "lifecycle_of (s, T)"
  have i: "manager_ok mg s" "counts_ok (s, T)" using assms(1) by (simp_all add: ginv_def)
  have "lifecycle_of (s', T) = (lifecycle_of (s1, T))\<lparr>lc_retired := insert g (lc_retired (lifecycle_of (s1, T)))\<rparr>"
    using assms(6-11) by (simp add: lifecycle_of_def Let_def)
  then have s': "lifecycle_of (s', T) = ?a\<lparr>lc_retired := insert g (lc_retired ?a)\<rparr>" using lifecycle_load(1)[OF i(1) assms(2)] by simp
  show ?thesis
  proof (cases "g \<in> lc_retired ?a")
    case True
    then have "lifecycle_of (s', T) = ?a" using s' by (simp add: insert_absorb)
    then show ?thesis by simp
  next
    case False
    then have c: "coherent s" using assms(5) by (simp add: lifecycle_of_def Let_def)
    then have "lc_committed ?a = map_option gm_generation_id x"
      using manager_okE(3)[OF i(1) assms(2)] by (simp add: lifecycle_of_def Let_def option.map_comp o_def)
    moreover have "lc_served ?a = map_option gm_generation_id x"
      using lifecycle_load(1)[OF i(1) assms(2), of T] load_active_effect(4)[OF assms(2)] by (auto simp: lifecycle_of_def Let_def)
    moreover have "g \<notin># lc_readers ?a"
      using referenced_reader[OF i(2), of g] assms(4) load_active_effect(2)[OF assms(2)] by (auto simp: references_def)
    ultimately have "lifecycle_step ?a (?a\<lparr>lc_retired := insert g (lc_retired ?a)\<rparr>)"
      using assms(3) by (intro lc_retire) auto
    then show ?thesis using s' by simp
  qed
qed

lemma lifecycle_begin:
  assumes "ginv mg (s, T)" "retire_begin f mg now m s = (r, s')" "coherent s \<or> gs_tombstones s' = gs_tombstones s"
  shows "lifecycle_step\<^sup>=\<^sup>= (lifecycle_of (s, T)) (lifecycle_of (s', T))"
  using assms(2)
proof (cases rule: retire_begin_cases)
  case quiet
  then show ?thesis using lifecycle_load(1) assms(1) by (auto simp: ginv_def)
next
  case (writes x s1)
  then have "gm_generation_id m \<in> dom (gs_tombstones s')" by (simp add: tombstoned_def)
  then show ?thesis
    by (intro lifecycle_tombstone[OF assms(1) writes(1,3,4)]) (use assms(3) writes(2) in \<open>auto simp: tombstoned_def\<close>)
qed

lemma lifecycle_pin:
  assumes "manager_ok mg s" "pin_active mg s = (Inr m, s')"
  shows "lifecycle_step (lifecycle_of (s, T)) (lifecycle_of (s', add_mset (Reading m) T))"
proof -
  let ?a = "lifecycle_of (s, T)"
  obtain s1 where l: "load_active mg s = (Inr (Some m), s1)"
    and s': "s' = s1\<lparr>gs_references := (gs_references s1)(gm_generation_id m \<mapsto> references s1 (gm_generation_id m) + 1)\<rparr>"
    by (rule pin_active_effect[OF assms(2)])
  note e = lifecycle_load[OF assms(1) l]
  have "lifecycle_of (s', add_mset (Reading m) T) =
      (lifecycle_of (s1, T))\<lparr>lc_readers := add_mset (gm_generation_id m) (lc_readers (lifecycle_of (s1, T)))\<rparr>"
    by (simp add: s' lifecycle_of_def Let_def)
  then have "lifecycle_of (s', add_mset (Reading m) T) = ?a\<lparr>lc_readers := add_mset (gm_generation_id m) (lc_readers ?a)\<rparr>"
    using e(1) by simp
  then show ?thesis using lc_read e(2) by metis
qed

lemma lifecycle_unpin: "lifecycle_step (lifecycle_of (s, add_mset (Reading m) T)) (lifecycle_of (unpin m s, T))"
proof -
  let ?a = "lifecycle_of (s, add_mset (Reading m) T)"
  have "lc_readers ?a = add_mset (gm_generation_id m) (lc_readers (lifecycle_of (s, T)))" by (simp add: lifecycle_of_def Let_def)
  from lc_release[OF this] have "lifecycle_step ?a (?a\<lparr>lc_readers := lc_readers (lifecycle_of (s, T))\<rparr>)" .
  moreover have "lifecycle_of (unpin m s, T) = ?a\<lparr>lc_readers := lc_readers (lifecycle_of (s, T))\<rparr>"
    by (simp add: lifecycle_of_def unpin_effect Let_def)
  ultimately show ?thesis by simp
qed

lemma lifecycle_crash: "lifecycle_step (lifecycle_of (s, T)) (lifecycle_of (restart s, {#}))"
proof -
  have "lifecycle_of (restart s, {#}) = (lifecycle_of (s, T))\<lparr>lc_served := lc_committed (lifecycle_of (s, T)), lc_readers := {#}\<rparr>"
    by (simp add: lifecycle_of_def restart_def Let_def)
  then show ?thesis using lc_crash by metis
qed

lemma lifecycle_gstep:
  assumes "gstep mg st st'" "ginv mg st" "coherent (fst st) \<or> gs_tombstones (fst st') = gs_tombstones (fst st)"
  shows "lifecycle_step\<^sup>=\<^sup>= (lifecycle_of st) (lifecycle_of st')"
  using assms
proof (induction rule: gstep.induct)
  case (publish_recorded f p s s' T)
  then show ?case using write_record_effect(1)[OF publish_recorded(1)] lifecycle_record by auto
next
  case (publish_unrecorded f p s x s' T)
  then show ?case using write_record_effect(1)[OF publish_unrecorded(1)] lifecycle_record by auto
next
  case (publish_swapped f p s r s' T)
  then show ?case using lifecycle_swap[OF publish_swapped(1)] by simp
next
  case (publish_raises t p s T)
  then show ?case by (simp add: publisher_unseen)
next
  case (allocated f now uuid revision gid s r s' T)
  then show ?case using allocate_effect[OF allocated(1)] lifecycle_record by auto
next
  case (marked f gid reason provenance s r s' T)
  then show ?case using lifecycle_mark by blast
next
  case (loaded s r s' T)
  then show ?case using lifecycle_load(1)[OF _ loaded(1)] by (simp add: ginv_def)
next
  case (recovered s r s' T)
  then show ?case using lifecycle_recover[OF _ recovered(1), of T] lc_reload[of "lifecycle_of (s, T)"] by (simp add: ginv_def)
next
  case (pinned s m s' T)
  then show ?case using lifecycle_pin[OF _ pinned(1)] by (simp add: ginv_def)
next
  case (pin_refused s x s' T)
  then show ?case using lifecycle_load(1)[of mg s _ s' T] by (auto simp: ginv_def elim!: pin_refused_effect)
next
  case (retire_refused f now m s r s' T)
  then show ?case using lifecycle_begin[OF _ retire_refused(1)] by simp
next
  case (retire_begun f now m s s' T)
  then show ?case using lifecycle_begin[OF _ retire_begun(1)] by simp
next
  case (unpinned s m T)
  show ?case using lifecycle_unpin by blast
next
  case (retire_removed s m T)
  then show ?case using lifecycle_remove[of s m] by (simp add: ginv_def)
next
  case (crashed s T)
  show ?case using lifecycle_crash by blast
next
  case (retire_ended s m T)
  show ?case by (simp add: lifecycle_of_def retire_end_def Let_def)
qed simp_all

lemma gsys_run:
  assumes "gsys.reach mg st"
  shows "(reconciled_step mg)\<^sup>*\<^sup>* (no_generations, {#}) st"
  using assms by (induction rule: gsys.reach.induct) (simp_all add: rtranclp.rtrancl_into_rtrancl)

interpretation lifecycle: step_refinement "gsys.reach mg" "reconciled_step mg" lifecycle_of lifecycle_step for mg
proof
  show "gsys.reach mg t" if "gsys.reach mg s" "reconciled_step mg s t" for s t using gsys.reach_step that by blast
  show "lifecycle_step\<^sup>=\<^sup>= (lifecycle_of s) (lifecycle_of t)" if "gsys.reach mg s" "reconciled_step mg s t" for s t
    using lifecycle_gstep[of mg s t] reach_ginv that by (auto simp: reconciled_step_def)
qed

section \<open>Properties\<close>

text \<open>
  C4. The generation manager implements its specification. Every step of its threads that is reachable
  when no tombstone is written while the cache disagrees with the active manifest (file writes that raise before or after
  their replacement, and crashes, included) is at most one step of the abstract life cycle (build, publish,
  publish late, mark, reload, read, release, retire, remove or crash) under the guards these have. So in
  such runs a generation that is committed, served or read is in place and not retired.
\<close>

theorem manager_refines_lifecycle:
  assumes "gsys.reach mg st" "reconciled_step mg st st'"
  shows "lifecycle_step\<^sup>=\<^sup>= (lifecycle_of st) (lifecycle_of st') \<and> lifecycle_safe (lifecycle_of st')"
proof
  show "lifecycle_step\<^sup>=\<^sup>= (lifecycle_of st) (lifecycle_of st')" by (rule lifecycle.simulates[OF assms])
  have "lifecycle_safe (lifecycle_of (no_generations, {#}))" by (simp add: lifecycle_safe_def lifecycle_of_def no_generations_def)
  moreover have "(reconciled_step mg)\<^sup>*\<^sup>* (no_generations, {#}) st'"
    using gsys.reach_step[OF assms] by (rule gsys_run)
  ultimately show "lifecycle_safe (lifecycle_of st')"
    using lifecycle.transfers[OF _ gsys.reach_initial] lifecycle_safe_step by blast
qed

theorem manager_refines_lifecycle_witness:
  "lifecycle_step\<^sup>=\<^sup>=
     \<lparr>lc_built = {''a'', ''b''}, lc_marked = {}, lc_retired = {}, lc_committed = Some ''b'', lc_served = Some ''b'', lc_readers = {#}\<rparr>
     \<lparr>lc_built = {''a'', ''b''}, lc_marked = {}, lc_retired = {''a''}, lc_committed = Some ''b'', lc_served = Some ''b'', lc_readers = {#}\<rparr>"
proof -
  let ?s = "(tombstoned ''t'' ''a'' sample_two)\<lparr>gs_retiring := {''a''}\<rparr>"
  have "coherent sample_two" by (simp add: coherent_def sample_store_defs)
  then have "reconciled_step sample_manager (sample_two, {#}) (?s, {#Removing (sample_generation ''a'' GenPublished)#})"
    using gstep.retire_begun[OF sample_retire] by (simp add: reconciled_step_def)
  from manager_refines_lifecycle[OF sample_reach(2) this] show ?thesis
    by (simp add: lifecycle_of_def sample_store_defs tombstoned_def sample_generation_def insert_commute)
qed

end
