(* ===== verification/Store_Admission.thy ===== *)
theory Store_Admission
  imports Journal_Operation "HOL-Library.Multiset"
begin

text \<open>
  \<open>cortex_harness/storage/admission.py\<close>: the bounded lanes through which every access to an embedded
  store goes. The tasks of a lane run on one event loop and change its counters only under its
  lock, which nobody holds across an \<open>await\<close>; so what a task does between two suspensions is one step.
  A request is named by the number of bytes it was admitted with. Which waiting request the semaphore
  wakes, when a deadline passes or a task is cancelled and how an operation ends is left open. The
  two waiting-time statistics are not kept.
\<close>

section \<open>Limits\<close>

datatype gateway_error_code =
    Overloaded
  | IngestionAlreadyRunning
  | StoreMaintenance
  | RequestTooLarge
  | StaleGeneration
  | DeadlineExceeded
  | RequestCancelled

text \<open>What the owner of a store raises: its own stable errors, or an exception of Python.\<close>

datatype store_error = StoreGatewayError gateway_error_code | StoreRaised exc

record lane_limits =
  ll_concurrency :: int
  ll_max_queue_items :: int
  ll_max_queue_bytes :: int

definition lane_limits_init :: "lane_limits \<Rightarrow> exc + lane_limits" where
  "lane_limits_init l =
     (if ll_concurrency l < 1 then Inl ValueError
      else if ll_max_queue_items l < 0 \<or> ll_max_queue_bytes l < 0 then Inl ValueError
      else Inr l)"

section \<open>The lane\<close>

record lane =
  ln_permits :: int
  ln_queued_items :: int
  ln_queued_bytes :: int
  ln_active :: int
  ln_accepted :: int
  ln_completed :: int
  ln_rejected :: int
  ln_timed_out :: int
  ln_cancelled :: int
  ln_idle :: bool

definition lane_init :: "lane_limits \<Rightarrow> lane" where
  "lane_init l =
     \<lparr>ln_permits = ll_concurrency l, ln_queued_items = 0, ln_queued_bytes = 0, ln_active = 0, ln_accepted = 0, ln_completed = 0,
      ln_rejected = 0, ln_timed_out = 0, ln_cancelled = 0, ln_idle = True\<rparr>"

text \<open>\<open>run\<close> up to the semaphore.\<close>

definition lane_admit :: "lane_limits \<Rightarrow> int \<Rightarrow> lane \<Rightarrow> (store_error + unit) \<times> lane" where
  "lane_admit l estimated s =
     (if estimated < 0 then (Inl (StoreRaised ValueError), s)
      else if ln_queued_items s \<ge> ll_max_queue_items l \<or> ln_queued_bytes s + estimated > ll_max_queue_bytes l
      then (Inl (StoreGatewayError Overloaded), s\<lparr>ln_rejected := ln_rejected s + 1\<rparr>)
      else (Inr (), s\<lparr>ln_queued_items := ln_queued_items s + 1, ln_queued_bytes := ln_queued_bytes s + estimated,
                      ln_accepted := ln_accepted s + 1, ln_idle := False\<rparr>))"

definition lane_start :: "int \<Rightarrow> lane \<Rightarrow> lane" where
  "lane_start estimated s =
     s\<lparr>ln_permits := ln_permits s - 1, ln_queued_items := ln_queued_items s - 1,
       ln_queued_bytes := ln_queued_bytes s - estimated, ln_active := ln_active s + 1\<rparr>"

text \<open>The two arms of the final block: with the semaphore acquired, and without.\<close>

definition set_idle :: "lane \<Rightarrow> lane" where
  "set_idle s = (if ln_active s = 0 \<and> ln_queued_items s = 0 then s\<lparr>ln_idle := True\<rparr> else s)"

definition lane_release :: "lane \<Rightarrow> lane" where
  "lane_release s = (let s' = set_idle (s\<lparr>ln_active := ln_active s - 1\<rparr>) in s'\<lparr>ln_permits := ln_permits s' + 1\<rparr>)"

definition lane_leave_queue :: "int \<Rightarrow> lane \<Rightarrow> lane" where
  "lane_leave_queue estimated s =
     set_idle (s\<lparr>ln_queued_items := ln_queued_items s - 1, ln_queued_bytes := ln_queued_bytes s - estimated\<rparr>)"

datatype 'a outcome = Returned 'a | Cancelled | Failed store_error

definition lane_finish :: "'a outcome \<Rightarrow> lane \<Rightarrow> lane" where
  "lane_finish r s =
     lane_release (case r of
       Returned _ \<Rightarrow> s\<lparr>ln_completed := ln_completed s + 1\<rparr>
     | Cancelled \<Rightarrow> s\<lparr>ln_cancelled := ln_cancelled s + 1\<rparr>
     | Failed _ \<Rightarrow> s)"

definition lane_time_out :: "int \<Rightarrow> lane \<Rightarrow> lane" where
  "lane_time_out estimated s = lane_leave_queue estimated (s\<lparr>ln_timed_out := ln_timed_out s + 1\<rparr>)"

text \<open>A lane with the requests that wait in it and those that run.\<close>

record lane_run =
  lr_lane :: lane
  lr_waiting :: "int multiset"
  lr_running :: "int multiset"

definition lane_run_init :: "lane_limits \<Rightarrow> lane_run" where
  "lane_run_init l = \<lparr>lr_lane = lane_init l, lr_waiting = {#}, lr_running = {#}\<rparr>"

inductive lstep :: "lane_limits \<Rightarrow> lane_run \<Rightarrow> lane_run \<Rightarrow> bool" for l where
  admitted: "lane_admit l b s = (Inr (), s') \<Longrightarrow> lstep l \<lparr>lr_lane = s, lr_waiting = Q, lr_running = R\<rparr>
    \<lparr>lr_lane = s', lr_waiting = add_mset b Q, lr_running = R\<rparr>"
| refused: "lane_admit l b s = (Inl e, s') \<Longrightarrow> lstep l \<lparr>lr_lane = s, lr_waiting = Q, lr_running = R\<rparr>
    \<lparr>lr_lane = s', lr_waiting = Q, lr_running = R\<rparr>"
| started: "0 < ln_permits s \<Longrightarrow> lstep l \<lparr>lr_lane = s, lr_waiting = add_mset b Q, lr_running = R\<rparr>
    \<lparr>lr_lane = lane_start b s, lr_waiting = Q, lr_running = add_mset b R\<rparr>"
| timed_out: "lstep l \<lparr>lr_lane = s, lr_waiting = add_mset b Q, lr_running = R\<rparr>
    \<lparr>lr_lane = lane_time_out b s, lr_waiting = Q, lr_running = R\<rparr>"
| abandoned: "lstep l \<lparr>lr_lane = s, lr_waiting = add_mset b Q, lr_running = R\<rparr>
    \<lparr>lr_lane = lane_leave_queue b s, lr_waiting = Q, lr_running = R\<rparr>"
| finished: "lstep l \<lparr>lr_lane = s, lr_waiting = Q, lr_running = add_mset b R\<rparr>
    \<lparr>lr_lane = lane_finish (r :: unit outcome) s, lr_waiting = Q, lr_running = R\<rparr>"

interpretation lsys: transition_system "lane_run_init l" "lstep l" for l .

section \<open>The invariant\<close>

definition lane_ok :: "lane_limits \<Rightarrow> lane_run \<Rightarrow> bool" where
  "lane_ok l x \<longleftrightarrow> (let s = lr_lane x in
     ln_queued_items s = int (size (lr_waiting x)) \<and> ln_queued_bytes s = sum_mset (lr_waiting x) \<and>
     ln_active s = int (size (lr_running x)) \<and> ln_permits s + ln_active s = ll_concurrency l \<and> 0 \<le> ln_permits s \<and>
     (\<forall>b \<in># lr_waiting x + lr_running x. 0 \<le> b) \<and>
     ln_queued_items s \<le> ll_max_queue_items l \<and> ln_queued_bytes s \<le> ll_max_queue_bytes l \<and>
     (ln_idle s \<longleftrightarrow> lr_waiting x = {#} \<and> lr_running x = {#}) \<and>
     0 \<le> ln_completed s \<and> 0 \<le> ln_timed_out s \<and> 0 \<le> ln_cancelled s \<and> 0 \<le> ln_rejected s \<and>
     ln_completed s + ln_timed_out s + ln_cancelled s + ln_queued_items s + ln_active s \<le> ln_accepted s)"

lemma set_idle_other [simp]:
  "ln_permits (set_idle s) = ln_permits s" "ln_queued_items (set_idle s) = ln_queued_items s"
  "ln_queued_bytes (set_idle s) = ln_queued_bytes s" "ln_active (set_idle s) = ln_active s"
  "ln_accepted (set_idle s) = ln_accepted s" "ln_completed (set_idle s) = ln_completed s"
  "ln_rejected (set_idle s) = ln_rejected s" "ln_timed_out (set_idle s) = ln_timed_out s"
  "ln_cancelled (set_idle s) = ln_cancelled s"
  "ln_idle (set_idle s) \<longleftrightarrow> ln_idle s \<or> ln_active s = 0 \<and> ln_queued_items s = 0"
  by (auto simp: set_idle_def)

lemma lane_ok_step:
  assumes "lstep l x y" "lane_ok l x"
  shows "lane_ok l y"
  using assms
proof (induction rule: lstep.induct)
  case (admitted b s s' Q R)
  then show ?case by (auto simp: lane_admit_def lane_ok_def Let_def split: if_splits)
next
  case (refused b s e s' Q R)
  then show ?case by (auto simp: lane_admit_def lane_ok_def Let_def split: if_splits)
next
  case (started s b Q R)
  then show ?case by (auto simp: lane_start_def lane_ok_def Let_def)
next
  case (timed_out s b Q R)
  then show ?case by (auto simp: lane_time_out_def lane_leave_queue_def lane_ok_def Let_def)
next
  case (abandoned s b Q R)
  then show ?case by (auto simp: lane_leave_queue_def lane_ok_def Let_def)
next
  case (finished s Q b R r)
  then show ?case by (auto simp: lane_finish_def lane_release_def lane_ok_def Let_def split: outcome.splits)
qed

lemma lane_ok_initial:
  assumes "lane_limits_init l = Inr l"
  shows "lane_ok l (lane_run_init l)"
  using assms by (simp add: lane_ok_def lane_run_init_def lane_init_def lane_limits_init_def split: if_splits)

lemma reach_lane_ok:
  assumes "lsys.reach l x" "lane_limits_init l = Inr l"
  shows "lane_ok l x"
  by (rule lsys.reach_invariant[OF assms(1)]) (use lane_ok_initial[OF assms(2)] lane_ok_step in blast)+

section \<open>Properties\<close>

definition sample_limits :: lane_limits where
  "sample_limits = \<lparr>ll_concurrency = 1, ll_max_queue_items = 2, ll_max_queue_bytes = 100\<rparr>"

definition sample_lane :: lane_run where
  "sample_lane = \<lparr>lr_lane = lane_start 60 (snd (lane_admit sample_limits 60 (lane_init sample_limits))), lr_waiting = {#}, lr_running = {#60#}\<rparr>"

lemma sample_lane_reach: "lsys.reach sample_limits sample_lane"
proof -
  let ?s = "snd (lane_admit sample_limits 60 (lane_init sample_limits))"
  have a: "lane_admit sample_limits 60 (lane_init sample_limits) = (Inr (), ?s)"
    by (simp add: lane_admit_def lane_init_def sample_limits_def)
  have "lsys.reach sample_limits \<lparr>lr_lane = lane_init sample_limits, lr_waiting = {#}, lr_running = {#}\<rparr>"
    using lsys.reach_initial[of sample_limits] by (simp add: lane_run_init_def)
  from lsys.reach_step[OF this lstep.admitted[OF a]]
  have "lsys.reach sample_limits \<lparr>lr_lane = ?s, lr_waiting = {#60#}, lr_running = {#}\<rparr>" by simp
  moreover have "0 < ln_permits ?s" by (simp add: lane_admit_def lane_init_def sample_limits_def)
  ultimately show ?thesis using lsys.reach_step lstep.started unfolding sample_lane_def by fastforce
qed

text \<open>
  C18. Whatever the tasks of a lane do, its counters are exact: no more than the configured number of
  requests run, the waiting requests and their bytes stay within the queue limits, a waiting request
  can start exactly when a permit is free, and the lane counts as idle, which is what closing the
  store waits for, exactly when nothing waits and nothing runs. The permits are those of the semaphore
  plus the one a woken waiter has been promised but not yet taken.
\<close>

theorem lane_accounting:
  assumes "lane_limits_init l = Inr l" "lsys.reach l x"
  shows "int (size (lr_running x)) = ln_active (lr_lane x) \<and> ln_active (lr_lane x) \<le> ll_concurrency l \<and>
    int (size (lr_waiting x)) = ln_queued_items (lr_lane x) \<and> ln_queued_items (lr_lane x) \<le> ll_max_queue_items l \<and>
    sum_mset (lr_waiting x) = ln_queued_bytes (lr_lane x) \<and> ln_queued_bytes (lr_lane x) \<le> ll_max_queue_bytes l \<and>
    (0 < ln_permits (lr_lane x) \<longleftrightarrow> ln_active (lr_lane x) < ll_concurrency l) \<and>
    (ln_idle (lr_lane x) \<longleftrightarrow> lr_waiting x = {#} \<and> lr_running x = {#}) \<and>
    ln_completed (lr_lane x) + ln_timed_out (lr_lane x) + ln_cancelled (lr_lane x) \<le>
      ln_accepted (lr_lane x) - int (size (lr_waiting x)) - int (size (lr_running x))"
  using reach_lane_ok[OF assms(2,1)] by (auto simp: lane_ok_def Let_def)

theorem lane_accounting_witness:
  "ln_active (lr_lane sample_lane) = 1 \<and> \<not> ln_idle (lr_lane sample_lane) \<and> \<not> 0 < ln_permits (lr_lane sample_lane)"
proof -
  have "lane_limits_init sample_limits = Inr sample_limits" by (simp add: lane_limits_init_def sample_limits_def)
  from lane_accounting[OF this sample_lane_reach] show ?thesis by (simp add: sample_lane_def sample_limits_def)
qed

end
