(* ===== verification/Store_Jobs.thy ===== *)
theory Store_Jobs
  imports Store_Generation Store_Admission "HOL-Library.AList"
begin

text \<open>
  The ingestion jobs of \<open>cortex_harness/storage/gateway.py\<close>. Jobs are kept in memory, in the order
  they were submitted, and written to \<open>ingestion-jobs.json\<close> as a whole after every change. The coroutines
  run on one event loop: what an operation does under the job lock is one step, and so are the
  snapshot a writer of the file takes and the replacement of the file, between which other
  operations may run; only one writer is between the two. The lane or the disk may refuse the
  write. A crash loses the memory and a snapshot that was not written.
\<close>

section \<open>Jobs\<close>

datatype job_state =
    JobQueued
  | JobPreparing
  | JobWriting
  | JobValidating
  | JobPublishing
  | JobCompleted
  | JobFailed
  | JobCancelled
  | JobAmbiguous
  | JobSuperseded

fun job_state_value :: "job_state \<Rightarrow> string" where
  "job_state_value JobQueued = ''QUEUED''"
| "job_state_value JobPreparing = ''PREPARING''"
| "job_state_value JobWriting = ''WRITING''"
| "job_state_value JobValidating = ''VALIDATING''"
| "job_state_value JobPublishing = ''PUBLISHING''"
| "job_state_value JobCompleted = ''COMPLETED''"
| "job_state_value JobFailed = ''FAILED''"
| "job_state_value JobCancelled = ''CANCELLED''"
| "job_state_value JobAmbiguous = ''AMBIGUOUS''"
| "job_state_value JobSuperseded = ''SUPERSEDED''"

definition job_states :: "job_state list" where
  "job_states = [JobQueued, JobPreparing, JobWriting, JobValidating, JobPublishing, JobCompleted, JobFailed, JobCancelled,
     JobAmbiguous, JobSuperseded]"

definition job_state_of :: "string \<Rightarrow> exc + job_state" where
  "job_state_of v = (case List.find (\<lambda>st. job_state_value st = v) job_states of None \<Rightarrow> Inl ValueError | Some st \<Rightarrow> Inr st)"

definition terminal :: "job_state \<Rightarrow> bool" where
  "terminal st \<longleftrightarrow> st \<in> {JobCompleted, JobFailed, JobCancelled, JobAmbiguous, JobSuperseded}"

fun job_transitions :: "job_state \<Rightarrow> job_state set" where
  "job_transitions JobQueued = {JobPreparing, JobWriting, JobCancelled, JobFailed, JobSuperseded}"
| "job_transitions JobPreparing = {JobWriting, JobCancelled, JobFailed, JobSuperseded}"
| "job_transitions JobWriting = {JobValidating, JobCancelled, JobFailed, JobAmbiguous}"
| "job_transitions JobValidating = {JobPublishing, JobCancelled, JobFailed, JobAmbiguous}"
| "job_transitions JobPublishing = {JobCompleted, JobFailed, JobAmbiguous}"
| "job_transitions _ = {}"

record ingestion_job =
  ij_job_id :: string
  ij_target :: physical_target_key
  ij_idempotency_key :: string
  ij_source_revision :: string
  ij_state :: job_state
  ij_submitted_at :: string
  ij_updated_at :: string
  ij_queue_position :: "int option"
  ij_generation_id :: "string option"
  ij_detail :: dict
  ij_cancel_requested_at :: "string option"

text \<open>\<open>with_state\<close>: the changes may be to any field, but the target, the state and the time are set last.\<close>

definition with_state :: "string \<Rightarrow> job_state \<Rightarrow> (ingestion_job \<Rightarrow> ingestion_job) \<Rightarrow> ingestion_job \<Rightarrow> ingestion_job" where
  "with_state now st changes j = (changes j)\<lparr>ij_target := ij_target j, ij_state := st, ij_updated_at := now\<rparr>"

definition opt_int :: "int option \<Rightarrow> json" where
  "opt_int v = (case v of None \<Rightarrow> JNull | Some i \<Rightarrow> JInt i)"

definition opt_text :: "string option \<Rightarrow> json" where
  "opt_text v = (case v of None \<Rightarrow> JNull | Some s \<Rightarrow> JStr s)"

definition job_to_dict :: "ingestion_job \<Rightarrow> dict" where
  "job_to_dict j =
     [(''job_id'', JStr (ij_job_id j)), (''target'', JObj (target_to_dict (ij_target j))),
      (''idempotency_key'', JStr (ij_idempotency_key j)), (''source_revision'', JStr (ij_source_revision j)),
      (''state'', JStr (job_state_value (ij_state j))), (''submitted_at'', JStr (ij_submitted_at j)),
      (''updated_at'', JStr (ij_updated_at j)), (''queue_position'', opt_int (ij_queue_position j)),
      (''generation_id'', opt_text (ij_generation_id j)), (''detail'', JObj (ij_detail j)),
      (''cancel_requested_at'', opt_text (ij_cancel_requested_at j))]"

definition opt_text_of :: "json \<Rightarrow> string option" where
  "opt_text_of v = (if v = JNull then None else Some (py_str v))"

definition job_from_dict :: "dict \<Rightarrow> exc + ingestion_job" where
  "job_from_dict d =
     (case dict_get d ''target'' of
        JObj td \<Rightarrow>
          rbind (text_item d ''job_id'') (\<lambda>i.
          rbind (target_from_dict td) (\<lambda>target.
          rbind (text_item d ''idempotency_key'') (\<lambda>key.
          rbind (text_item d ''source_revision'') (\<lambda>revision.
          rbind (job_state_of (py_str (dict_get_default d ''state'' (JStr ''QUEUED'')))) (\<lambda>state.
          rbind (text_item d ''submitted_at'') (\<lambda>submitted.
          rbind (text_item d ''updated_at'') (\<lambda>updated.
          rbind (if dict_get d ''queue_position'' = JNull then Inr None
                 else rbind (py_int (dict_get d ''queue_position'')) (\<lambda>q. Inr (Some q))) (\<lambda>position.
          rbind (mapping_or_empty (dict_get d ''detail'')) (\<lambda>detail.
          Inr \<lparr>ij_job_id = i, ij_target = target, ij_idempotency_key = key, ij_source_revision = revision, ij_state = state,
            ij_submitted_at = submitted, ij_updated_at = updated, ij_queue_position = position,
            ij_generation_id = opt_text_of (dict_get d ''generation_id''), ij_detail = detail,
            ij_cancel_requested_at = opt_text_of (dict_get d ''cancel_requested_at'')\<rparr>)))))))))
      | _ \<Rightarrow> Inl ValueError)"

section \<open>The owner\<close>

text \<open>\<open>PhysicalTargetKey.value\<close>.\<close>

definition target_value :: "physical_target_key \<Rightarrow> string" where
  "target_value t = pt_instance_id t @ ''|'' @ pt_owner_id t @ ''|'' @ pt_graph_path t @ ''|'' @ pt_vector_path t"

type_synonym job_table = "(string \<times> ingestion_job) list"

record job_owner =
  jo_jobs :: job_table
  jo_keys :: "string \<times> string \<rightharpoonup> string"
  jo_accepting :: bool
  jo_snapshot :: "dict option"
  jo_file :: "dict option"

definition no_jobs :: job_owner where
  "no_jobs = \<lparr>jo_jobs = [], jo_keys = Map.empty, jo_accepting = False, jo_snapshot = None, jo_file = None\<rparr>"

definition active_jobs :: "job_table \<Rightarrow> ingestion_job list" where
  "active_jobs js = filter (\<lambda>j. \<not> terminal (ij_state j)) (map snd js)"

definition queued_bytes :: "ingestion_job list \<Rightarrow> exc + int" where
  "queued_bytes js = rbind (rmap (\<lambda>j. py_int (dict_get_default (ij_detail j) ''estimated_bytes'' (JInt 0))) js) (\<lambda>ns. Inr (sum_list ns))"

text \<open>\<open>submit_ingest\<close> under the job lock: the job, and whether it is new and has to be written.\<close>

definition admit_ingest ::
  "physical_target_key \<Rightarrow> lane_limits \<Rightarrow> string \<Rightarrow> string \<Rightarrow> string \<Rightarrow> string \<Rightarrow> int \<Rightarrow> job_owner \<Rightarrow>
   (store_error + (ingestion_job \<times> bool)) \<times> job_owner" where
  "admit_ingest target limits now uuid ikey revision estimated s =
     (if strip ikey = [] \<or> strip revision = [] then (Inl (StoreRaised ValueError), s)
      else if estimated < 0 then (Inl (StoreRaised ValueError), s)
      else if \<not> jo_accepting s then (Inl (StoreGatewayError StoreMaintenance), s)
      else
        let key = (target_value target, ikey) in
        case jo_keys s key of
          Some i \<Rightarrow>
            (case map_of (jo_jobs s) i of
               None \<Rightarrow> (Inl (StoreRaised KeyError), s)
             | Some j \<Rightarrow>
                 if ij_source_revision j \<noteq> revision then (Inl (StoreGatewayError IngestionAlreadyRunning), s)
                 else (Inr (j, False), s))
        | None \<Rightarrow>
            (case queued_bytes (active_jobs (jo_jobs s)) of
               Inl x \<Rightarrow> (Inl (StoreRaised x), s)
             | Inr n \<Rightarrow>
                 if int (length (active_jobs (jo_jobs s))) \<ge> ll_max_queue_items limits \<or> n + estimated > ll_max_queue_bytes limits
                 then (Inl (StoreGatewayError Overloaded), s)
                 else
                   let j = \<lparr>ij_job_id = uuid, ij_target = target, ij_idempotency_key = ikey, ij_source_revision = revision,
                         ij_state = JobQueued, ij_submitted_at = now, ij_updated_at = now,
                         ij_queue_position = Some (int (length (filter (\<lambda>v. ij_state (snd v) = JobQueued) (jo_jobs s)))),
                         ij_generation_id = None, ij_detail = [(''estimated_bytes'', JInt estimated)],
                         ij_cancel_requested_at = None\<rparr>
                   in (Inr (j, True), s\<lparr>jo_jobs := AList.update uuid j (jo_jobs s), jo_keys := (jo_keys s)(key \<mapsto> uuid)\<rparr>)))"

text \<open>\<open>update_job\<close> under the job lock. Details are JSON values here, so they can always be serialised.\<close>

definition update_locked ::
  "string \<Rightarrow> string \<Rightarrow> job_state \<Rightarrow> (ingestion_job \<Rightarrow> ingestion_job) \<Rightarrow> job_owner \<Rightarrow> (store_error + ingestion_job) \<times> job_owner" where
  "update_locked now i st changes s =
     (if \<not> jo_accepting s then (Inl (StoreGatewayError StoreMaintenance), s)
      else case map_of (jo_jobs s) i of
        None \<Rightarrow> (Inl (StoreRaised KeyError), s)
      | Some j \<Rightarrow>
          if terminal (ij_state j) \<and> st \<noteq> ij_state j then (Inl (StoreRaised ValueError), s)
          else if st \<noteq> ij_state j \<and> st \<notin> job_transitions (ij_state j) then (Inl (StoreRaised ValueError), s)
          else
            let updated = with_state now st changes j
            in (Inr updated, s\<lparr>jo_jobs := AList.update i updated (jo_jobs s)\<rparr>))"

text \<open>\<open>cancel_ingest\<close> under the job lock: the job, and whether it was changed.\<close>

definition cancel_locked :: "string \<Rightarrow> string \<Rightarrow> job_owner \<Rightarrow> (store_error + (ingestion_job option \<times> bool)) \<times> job_owner" where
  "cancel_locked now i s =
     (if \<not> jo_accepting s then (Inl (StoreGatewayError StoreMaintenance), s)
      else case map_of (jo_jobs s) i of
        None \<Rightarrow> (Inr (None, False), s)
      | Some j \<Rightarrow>
          if terminal (ij_state j) then (Inr (Some j, False), s)
          else
            let requested = (case ij_cancel_requested_at j of Some t \<Rightarrow> if t = [] then now else t | None \<Rightarrow> now);
                updated =
                  (if ij_state j \<in> {JobQueued, JobPreparing}
                   then with_state now JobCancelled (\<lambda>x. x\<lparr>ij_cancel_requested_at := Some requested, ij_queue_position := None\<rparr>) j
                   else with_state now (ij_state j) (\<lambda>x. x\<lparr>ij_cancel_requested_at := Some requested\<rparr>) j)
            in (Inr (Some updated, True), s\<lparr>jo_jobs := AList.update i updated (jo_jobs s)\<rparr>))"

section \<open>The job file\<close>

definition jobs_payload :: "physical_target_key \<Rightarrow> job_table \<Rightarrow> dict" where
  "jobs_payload target js =
     [(''schema_version'', JInt 1), (''target'', JStr (target_value target)),
      (''jobs'', JArr (map (\<lambda>v. JObj (job_to_dict (snd v))) js))]"

text \<open>\<open>_persist_jobs\<close>: the snapshot, and \<open>_write_jobs_file\<close>; a write that is refused drops the snapshot.\<close>

definition take_snapshot :: "physical_target_key \<Rightarrow> job_owner \<Rightarrow> job_owner" where
  "take_snapshot target s = s\<lparr>jo_snapshot := Some (jobs_payload target (jo_jobs s))\<rparr>"

definition write_snapshot :: "job_owner \<Rightarrow> job_owner" where
  "write_snapshot s = s\<lparr>jo_file := jo_snapshot s, jo_snapshot := None\<rparr>"

definition drop_snapshot :: "job_owner \<Rightarrow> job_owner" where
  "drop_snapshot s = s\<lparr>jo_snapshot := None\<rparr>"

definition persist_jobs :: "physical_target_key \<Rightarrow> store_error option \<Rightarrow> job_owner \<Rightarrow> (store_error + unit) \<times> job_owner" where
  "persist_jobs target refusal s =
     (case refusal of
        None \<Rightarrow> (Inr (), write_snapshot (take_snapshot target s))
      | Some e \<Rightarrow> (Inl e, drop_snapshot (take_snapshot target s)))"

text \<open>The whole operations when nothing else runs on the loop.\<close>

definition submit_ingest ::
  "physical_target_key \<Rightarrow> lane_limits \<Rightarrow> store_error option \<Rightarrow> string \<Rightarrow> string \<Rightarrow> string \<Rightarrow> string \<Rightarrow> int \<Rightarrow> job_owner \<Rightarrow>
   (store_error + ingestion_job) \<times> job_owner" where
  "submit_ingest target limits refusal now uuid ikey revision estimated s =
     (case admit_ingest target limits now uuid ikey revision estimated s of
        (Inl e, s') \<Rightarrow> (Inl e, s')
      | (Inr (j, False), s') \<Rightarrow> (Inr j, s')
      | (Inr (j, True), s') \<Rightarrow>
          (case persist_jobs target refusal s' of (Inl e, t) \<Rightarrow> (Inl e, t) | (Inr _, t) \<Rightarrow> (Inr j, t)))"

definition update_job ::
  "physical_target_key \<Rightarrow> store_error option \<Rightarrow> string \<Rightarrow> string \<Rightarrow> job_state \<Rightarrow> (ingestion_job \<Rightarrow> ingestion_job) \<Rightarrow> job_owner \<Rightarrow>
   (store_error + ingestion_job) \<times> job_owner" where
  "update_job target refusal now i st changes s =
     (case update_locked now i st changes s of
        (Inl e, s') \<Rightarrow> (Inl e, s')
      | (Inr j, s') \<Rightarrow>
          (case persist_jobs target refusal s' of (Inl e, t) \<Rightarrow> (Inl e, t) | (Inr _, t) \<Rightarrow> (Inr j, t)))"

definition cancel_ingest ::
  "physical_target_key \<Rightarrow> store_error option \<Rightarrow> string \<Rightarrow> string \<Rightarrow> job_owner \<Rightarrow>
   (store_error + ingestion_job option) \<times> job_owner" where
  "cancel_ingest target refusal now i s =
     (case cancel_locked now i s of
        (Inl e, s') \<Rightarrow> (Inl e, s')
      | (Inr (j, False), s') \<Rightarrow> (Inr j, s')
      | (Inr (j, True), s') \<Rightarrow>
          (case persist_jobs target refusal s' of (Inl e, t) \<Rightarrow> (Inl e, t) | (Inr _, t) \<Rightarrow> (Inr j, t)))"

text \<open>
  \<open>_load_jobs\<close> and \<open>_read_jobs_file\<close>: the jobs of the file, then what becomes of each of them, given the
  generation that is active after recovery.
\<close>

definition read_jobs :: "physical_target_key \<Rightarrow> dict \<Rightarrow> exc + ingestion_job list" where
  "read_jobs target payload =
     (case dict_get payload ''jobs'' of
        JArr items \<Rightarrow>
          if dict_get payload ''schema_version'' \<noteq> JInt 1 \<or> dict_get payload ''target'' \<noteq> JStr (target_value target) then Inl ValueError
          else rmap (\<lambda>item. case item of
                 JObj d \<Rightarrow> rbind (job_from_dict d) (\<lambda>j. if ij_target j \<noteq> target then Inl ValueError else Inr j)
               | _ \<Rightarrow> Inl OtherException) items
      | _ \<Rightarrow> Inl ValueError)"

definition note_recovery :: "string \<Rightarrow> ingestion_job \<Rightarrow> ingestion_job" where
  "note_recovery note j = j\<lparr>ij_detail := dict_set ''recovery'' (JStr note) (ij_detail j)\<rparr>"

definition recover_job :: "string \<Rightarrow> generation_manifest option \<Rightarrow> ingestion_job \<Rightarrow> ingestion_job" where
  "recover_job now active j =
     (if ij_state j = JobPreparing then with_state now JobQueued (note_recovery ''preparation_requeued_after_restart'') j
      else if ij_state j = JobPublishing then
        (case active of
           Some a \<Rightarrow>
             if ij_generation_id j = Some (gm_generation_id a) \<and> ij_source_revision j = gm_source_revision a
             then with_state now JobCompleted (\<lambda>x. (note_recovery ''publication_reconciled'' x)\<lparr>ij_queue_position := None\<rparr>) j
             else with_state now JobAmbiguous (note_recovery ''publication_not_selected_by_active_manifest'') j
         | None \<Rightarrow> with_state now JobAmbiguous (note_recovery ''publication_not_selected_by_active_manifest'') j)
      else if ij_state j \<in> {JobWriting, JobValidating}
      then with_state now JobAmbiguous (note_recovery ''owner_restarted_during_store_operation'') j
      else j)"

definition load_jobs ::
  "physical_target_key \<Rightarrow> string \<Rightarrow> generation_manifest option \<Rightarrow> job_owner \<Rightarrow> (exc + unit) \<times> job_owner" where
  "load_jobs target now active s =
     (case jo_file s of
        None \<Rightarrow> (Inr (), s)
      | Some payload \<Rightarrow>
          (case read_jobs target payload of
             Inl x \<Rightarrow> (Inl x, s)
           | Inr js \<Rightarrow>
               let recovered = map (recover_job now active) js in
               (Inr (), s\<lparr>jo_jobs := fold (\<lambda>j t. AList.update (ij_job_id j) j t) recovered [],
                         jo_keys := fold (\<lambda>j m. m((target_value target, ij_idempotency_key j) \<mapsto> ij_job_id j)) recovered Map.empty\<rparr>)))"

text \<open>A new owner finds the file, recovers its jobs and takes new ones.\<close>

definition restart_owner :: "physical_target_key \<Rightarrow> string \<Rightarrow> generation_manifest option \<Rightarrow> job_owner \<Rightarrow> (exc + unit) \<times> job_owner" where
  "restart_owner target now active s =
     (case load_jobs target now active (no_jobs\<lparr>jo_file := jo_file s\<rparr>) of
        (Inl x, t) \<Rightarrow> (Inl x, t)
      | (Inr _, t) \<Rightarrow> (Inr (), t\<lparr>jo_accepting := True\<rparr>))"

definition begin_drain :: "job_owner \<Rightarrow> job_owner" where
  "begin_drain s = s\<lparr>jo_accepting := False\<rparr>"

text \<open>
  Any interleaving of the operations, the writers of the file and crashes. New ids are fresh, and
  the changes of \<open>update_job\<close> are to the fields that do not identify the job.
\<close>

definition keeps_identity :: "(ingestion_job \<Rightarrow> ingestion_job) \<Rightarrow> bool" where
  "keeps_identity f \<longleftrightarrow> (\<forall>j. ij_job_id (f j) = ij_job_id j \<and> ij_idempotency_key (f j) = ij_idempotency_key j \<and>
     ij_source_revision (f j) = ij_source_revision j)"

inductive ostep :: "physical_target_key \<Rightarrow> lane_limits \<Rightarrow> job_owner \<Rightarrow> job_owner \<Rightarrow> bool" for target limits where
  submitted: "admit_ingest target limits now uuid ikey revision estimated s = (r, t) \<Longrightarrow> uuid \<notin> fst ` set (jo_jobs s) \<Longrightarrow>
    ostep target limits s t"
| updated: "update_locked now i st changes s = (r, t) \<Longrightarrow> keeps_identity changes \<Longrightarrow> ostep target limits s t"
| cancelled: "cancel_locked now i s = (r, t) \<Longrightarrow> ostep target limits s t"
| snapshot_taken: "jo_snapshot s = None \<Longrightarrow> ostep target limits s (take_snapshot target s)"
| snapshot_written: "jo_snapshot s = Some d \<Longrightarrow> ostep target limits s (write_snapshot s)"
| snapshot_refused: "ostep target limits s (drop_snapshot s)"
| draining: "ostep target limits s (begin_drain s)"
| restarted: "restart_owner target now active s = (r, t) \<Longrightarrow> ostep target limits s t"

interpretation osys: transition_system no_jobs "ostep target limits" for target limits .

section \<open>The file\<close>

lemma job_state_of_value: "job_state_of (job_state_value st) = Inr st"
  by (cases st) (simp_all add: job_state_of_def job_states_def)

lemma opt_text_of_text [simp]: "opt_text_of (opt_text v) = v"
  by (cases v) (simp_all add: opt_text_of_def opt_text_def py_str_def)

lemma job_from_to_dict: "job_from_dict (job_to_dict j) = Inr j"
  by (cases j; cases "ij_queue_position j") (simp_all add: job_from_dict_def job_to_dict_def dict_get_def dict_get_default_def text_item_def
      dict_item_def job_state_of_value mapping_or_empty_def py_int_def py_str_def json_truthy_def opt_int_def)

lemma rmap_Inr:
  assumes "\<And>x. x \<in> set xs \<Longrightarrow> f x = Inr (g x)"
  shows "rmap f xs = Inr (map g xs)"
  using assms by (induction xs) auto

lemma read_jobs_payload:
  assumes "\<forall>v \<in> set js. ij_target (snd v) = target"
  shows "read_jobs target (jobs_payload target js) = Inr (map snd js)"
proof -
  let ?f = "\<lambda>item. case item of
     JObj d \<Rightarrow> rbind (job_from_dict d) (\<lambda>j. if ij_target j \<noteq> target then Inl ValueError else Inr j)
   | _ \<Rightarrow> Inl OtherException"
  have "rmap ?f (map (\<lambda>v. JObj (job_to_dict (snd v))) js) = Inr (map snd js)"
    using assms by (induction js) (auto simp: job_from_to_dict)
  then show ?thesis by (simp add: read_jobs_def jobs_payload_def dict_get_def)
qed

section \<open>Tables\<close>

text \<open>What a later version of a job keeps of an earlier one.\<close>

definition touched :: "job_state \<Rightarrow> bool" where
  "touched st \<longleftrightarrow> st \<noteq> JobQueued \<and> st \<noteq> JobPreparing"

definition job_le :: "ingestion_job \<Rightarrow> ingestion_job \<Rightarrow> bool" where
  "job_le j j' \<longleftrightarrow> ij_job_id j' = ij_job_id j \<and> ij_target j' = ij_target j \<and> ij_idempotency_key j' = ij_idempotency_key j \<and>
     ij_source_revision j' = ij_source_revision j \<and> (terminal (ij_state j) \<longrightarrow> ij_state j' = ij_state j) \<and>
     (touched (ij_state j) \<longrightarrow> touched (ij_state j'))"

lemma job_le_refl [simp]: "job_le j j"
  by (simp add: job_le_def)

lemma job_le_trans: "job_le a b \<Longrightarrow> job_le b c \<Longrightarrow> job_le a c"
  by (auto simp: job_le_def)

definition table_le :: "job_table \<Rightarrow> job_table \<Rightarrow> bool" where
  "table_le a b \<longleftrightarrow> (\<forall>i j. map_of a i = Some j \<longrightarrow> (\<exists>j'. map_of b i = Some j' \<and> job_le j j'))"

lemma table_le_refl [simp]: "table_le a a"
  by (simp add: table_le_def)

lemma table_le_trans: "table_le a b \<Longrightarrow> table_le b c \<Longrightarrow> table_le a c"
  unfolding table_le_def using job_le_trans by metis

definition table_ok :: "physical_target_key \<Rightarrow> lane_limits \<Rightarrow> job_table \<Rightarrow> bool" where
  "table_ok target limits js \<longleftrightarrow>
     map fst js = map (ij_job_id \<circ> snd) js \<and> distinct (map fst js) \<and> distinct (map (ij_idempotency_key \<circ> snd) js) \<and>
     (\<forall>v \<in> set js. ij_target (snd v) = target) \<and> int (length (active_jobs js)) \<le> max 0 (ll_max_queue_items limits)"

lemma update_new:
  assumes "i \<notin> fst ` set js"
  shows "AList.update i j js = js @ [(i, j)]"
  using assms by (induction js) auto

lemma update_old:
  assumes "distinct (map fst js)" "i \<in> fst ` set js"
  shows "AList.update i j js = map (\<lambda>v. if fst v = i then (i, j) else v) js"
  using assms
proof (induction js)
  case (Cons v js)
  show ?case
  proof (cases "fst v = i")
    case True
    then have "map (\<lambda>v. if fst v = i then (i, j) else v) js = js"
      using Cons.prems(1) by (intro map_idI) (auto simp: image_iff)
    then show ?thesis using True by (cases v) auto
  next
    case False
    then show ?thesis using Cons by (cases v) auto
  qed
qed simp

lemma active_jobs_map:
  assumes "\<And>v. v \<in> set js \<Longrightarrow> terminal (ij_state (snd v)) \<Longrightarrow> terminal (ij_state (snd (f v)))"
  shows "length (active_jobs (map f js)) \<le> length (active_jobs js)"
  using assms by (induction js) (auto simp: active_jobs_def)

text \<open>A table in which every job is replaced by a later version of itself, or one of them is.\<close>

lemma table_ok_map:
  assumes "table_ok target limits js" "\<And>v. v \<in> set js \<Longrightarrow> fst (f v) = fst v \<and> job_le (snd v) (snd (f v))"
  shows "table_ok target limits (map f js)" "table_le js (map f js)"
proof -
  have n: "length (active_jobs (map f js)) \<le> length (active_jobs js)"
    by (rule active_jobs_map) (use assms(2) in \<open>auto simp: job_le_def\<close>)
  have e: "map fst (map f js) = map fst js" "map (ij_job_id \<circ> snd) (map f js) = map (ij_job_id \<circ> snd) js"
    "map (ij_idempotency_key \<circ> snd) (map f js) = map (ij_idempotency_key \<circ> snd) js"
    using assms(2) by (auto simp: job_le_def)
  have "\<forall>v \<in> set (map f js). ij_target (snd v) = target"
    using assms by (auto simp: table_ok_def job_le_def)
  then show "table_ok target limits (map f js)" using assms(1) n unfolding table_ok_def e by simp
  show "table_le js (map f js)"
    unfolding table_le_def
  proof (intro allI impI)
    fix i j assume m: "map_of js i = Some j"
    then have "fst (f (i, j)) = i" "job_le j (snd (f (i, j)))" using assms(2)[OF map_of_SomeD[OF m]] by simp_all
    moreover have "distinct (map fst (map f js))" using assms(1) unfolding e by (simp add: table_ok_def)
    moreover have "f (i, j) \<in> set (map f js)" using map_of_SomeD[OF m] by simp
    ultimately show "\<exists>j'. map_of (map f js) i = Some j' \<and> job_le j j'"
      using map_of_is_SomeI[of "map f js" i "snd (f (i, j))"] by (metis prod.collapse)
  qed
qed

lemma table_ok_replace:
  assumes "table_ok target limits js" "map_of js i = Some j" "job_le j j'"
  shows "table_ok target limits (AList.update i j' js)" "table_le js (AList.update i j' js)"
proof -
  let ?f = "\<lambda>v. if fst v = i then (i, j') else v"
  have d: "distinct (map fst js)" using assms(1) by (simp add: table_ok_def)
  have "snd v = j" if "v \<in> set js" "fst v = i" for v
    using that assms(2) map_of_is_SomeI[OF d, of "fst v" "snd v"] by auto
  then have f: "fst (?f v) = fst v \<and> job_le (snd v) (snd (?f v))" if "v \<in> set js" for v
    using assms(3) that by auto
  have "AList.update i j' js = map ?f js" using update_old[OF d] map_of_SomeD[OF assms(2)] by force
  then show "table_ok target limits (AList.update i j' js)" "table_le js (AList.update i j' js)"
    using table_ok_map[OF assms(1), of ?f, OF f] by simp_all
qed

section \<open>Recovery\<close>

lemma recover_job_le: "job_le j (recover_job now active j)"
  by (auto simp: recover_job_def job_le_def with_state_def note_recovery_def terminal_def touched_def split: option.splits)

lemma recover_job_state:
  "terminal (ij_state (recover_job now active j)) \<or> ij_state (recover_job now active j) = JobQueued"
  by (cases "ij_state j") (auto simp: recover_job_def with_state_def terminal_def split: option.splits)

text \<open>What recovery may make of a job of the file.\<close>

definition recovered_from :: "generation_manifest option \<Rightarrow> ingestion_job \<Rightarrow> ingestion_job \<Rightarrow> bool" where
  "recovered_from active j j' \<longleftrightarrow> job_le j j' \<and> (terminal (ij_state j) \<longrightarrow> j' = j) \<and>
     (ij_state j' = JobQueued \<or> terminal (ij_state j')) \<and> (ij_state j' = JobQueued \<longrightarrow> \<not> touched (ij_state j)) \<and>
     (ij_state j' = JobCompleted \<longrightarrow> ij_state j = JobCompleted \<or> ij_state j = JobPublishing \<and>
        (\<exists>a. active = Some a \<and> ij_generation_id j = Some (gm_generation_id a) \<and> ij_source_revision j = gm_source_revision a))"

lemma recover_job_sound: "recovered_from active j (recover_job now active j)"
proof -
  have "(terminal (ij_state j) \<longrightarrow> recover_job now active j = j) \<and>
     (ij_state (recover_job now active j) = JobQueued \<longrightarrow> \<not> touched (ij_state j)) \<and>
     (ij_state (recover_job now active j) = JobCompleted \<longrightarrow> ij_state j = JobCompleted \<or> ij_state j = JobPublishing \<and>
       (\<exists>a. active = Some a \<and> ij_generation_id j = Some (gm_generation_id a) \<and> ij_source_revision j = gm_source_revision a))"
    by (cases "ij_state j") (auto simp: recover_job_def with_state_def terminal_def touched_def split: option.splits if_splits)
  then show ?thesis using recover_job_le[of j now active] recover_job_state[of now active j] by (auto simp: recovered_from_def)
qed

definition recovered_table :: "string \<Rightarrow> generation_manifest option \<Rightarrow> job_table \<Rightarrow> job_table" where
  "recovered_table now active js = map (\<lambda>v. (fst v, recover_job now active (snd v))) js"

lemma recovered_lookup: "map_of (recovered_table now active js) i = map_option (recover_job now active) (map_of js i)"
  by (induction js) (auto simp: recovered_table_def)

lemma fold_update_table:
  assumes "distinct (map fst acc @ map ij_job_id xs)"
  shows "fold (\<lambda>j t. AList.update (ij_job_id j) j t) xs acc = acc @ map (\<lambda>j. (ij_job_id j, j)) xs"
  using assms by (induction xs arbitrary: acc) (auto simp: update_new)

lemma fold_keys:
  assumes "distinct (map ij_idempotency_key xs)"
  shows "fold (\<lambda>j m. m((tv, ij_idempotency_key j) \<mapsto> ij_job_id j)) xs m k =
    (if fst k = tv then (case map_of (map (\<lambda>j. (ij_idempotency_key j, ij_job_id j)) xs) (snd k) of None \<Rightarrow> m k | Some i \<Rightarrow> Some i) else m k)"
  using assms
proof (induction xs arbitrary: m)
  case (Cons j xs)
  have "map_of (map (\<lambda>j. (ij_idempotency_key j, ij_job_id j)) xs) (ij_idempotency_key j) = None"
    using Cons.prems by (auto simp: map_of_eq_None_iff)
  then show ?case using Cons by (cases k) (auto split: option.splits)
qed simp

definition job_keys_ok :: "physical_target_key \<Rightarrow> job_table \<Rightarrow> (string \<times> string \<rightharpoonup> string) \<Rightarrow> bool" where
  "job_keys_ok target js keys \<longleftrightarrow> (\<forall>k i. keys k = Some i \<longleftrightarrow>
     fst k = target_value target \<and> (\<exists>j. map_of js i = Some j \<and> ij_idempotency_key j = snd k))"

lemma table_okD:
  assumes "table_ok target limits js" "map_of js i = Some j"
  shows "ij_job_id j = i" "ij_target j = target"
proof -
  have v: "(i, j) \<in> set js" using assms(2) by (rule map_of_SomeD)
  then have "fst (i, j) = (ij_job_id \<circ> snd) (i, j)" using assms(1) unfolding table_ok_def map_eq_conv by blast
  then show "ij_job_id j = i" by simp
  show "ij_target j = target" using v assms(1) by (auto simp: table_ok_def)
qed

lemma table_ok_as_map:
  assumes "table_ok target limits js"
  shows "js = map (\<lambda>j. (ij_job_id j, j)) (map snd js)"
proof -
  have "v = (ij_job_id (snd v), snd v)" if "v \<in> set js" for v
    using assms that unfolding table_ok_def map_eq_conv by (cases v) auto
  then show ?thesis by (auto simp: map_idI[symmetric])
qed

lemma table_ok_recovered:
  assumes "table_ok target limits js"
  shows "table_ok target limits (recovered_table now active js)" "table_le js (recovered_table now active js)"
  unfolding recovered_table_def by (rule table_ok_map[OF assms]; simp add: recover_job_le)+

lemma keys_unique:
  assumes "table_ok target limits js"
  shows "map_of (map (\<lambda>j. (ij_idempotency_key j, ij_job_id j)) (map snd js)) k = Some i \<longleftrightarrow>
    (\<exists>j. map_of js i = Some j \<and> ij_idempotency_key j = k)"
proof -
  have d: "distinct (map fst (map (\<lambda>j. (ij_idempotency_key j, ij_job_id j)) (map snd js)))"
    using assms by (simp add: table_ok_def comp_def)
  have "(k, i) \<in> set (map (\<lambda>j. (ij_idempotency_key j, ij_job_id j)) (map snd js)) \<longleftrightarrow>
    (\<exists>j. (i, j) \<in> set js \<and> ij_idempotency_key j = k)"
  proof -
    have "fst v = ij_job_id (snd v)" if "v \<in> set js" for v
      using assms that unfolding table_ok_def map_eq_conv by auto
    then show ?thesis by force
  qed
  then show ?thesis using map_of_eq_Some_iff[OF d] assms by (simp add: table_ok_def)
qed

lemma load_jobs_exact:
  assumes "table_ok target limits js" "jo_file s = Some (jobs_payload target js)"
  obtains keys where "load_jobs target now active s = (Inr (), s\<lparr>jo_jobs := recovered_table now active js, jo_keys := keys\<rparr>)"
    "job_keys_ok target (recovered_table now active js) keys"
proof -
  let ?r = "recovered_table now active js"
  have ok: "table_ok target limits ?r" by (rule table_ok_recovered(1)[OF assms(1)])
  have snd: "map (recover_job now active) (map snd js) = map snd ?r" by (simp add: recovered_table_def)
  have "distinct (map fst [] @ map ij_job_id (map snd ?r))"
    using ok unfolding table_ok_def by (metis append_Nil list.map(1) map_map)
  then have t: "fold (\<lambda>j t. AList.update (ij_job_id j) j t) (map snd ?r) [] = ?r"
    using table_ok_as_map[OF ok] fold_update_table[of "[]" "map snd ?r"] by (simp only: append_Nil list.map)
  let ?k = "fold (\<lambda>j m. m((target_value target, ij_idempotency_key j) \<mapsto> ij_job_id j)) (map snd ?r) Map.empty"
  have d: "distinct (map ij_idempotency_key (map snd ?r))" using ok by (simp add: table_ok_def comp_def)
  have "job_keys_ok target ?r ?k"
    unfolding job_keys_ok_def fold_keys[OF d] keys_unique[OF ok, symmetric] by (auto split: option.splits)
  moreover have "load_jobs target now active s = (Inr (), s\<lparr>jo_jobs := ?r, jo_keys := ?k\<rparr>)"
    using assms read_jobs_payload[of js target]
    by (simp add: load_jobs_def table_ok_def snd t Let_def del: map_map)
  ultimately show ?thesis using that by blast
qed

section \<open>The invariant\<close>

text \<open>The file is at most as new as a snapshot in flight, and that at most as new as the memory.\<close>

definition jchain ::
  "physical_target_key \<Rightarrow> lane_limits \<Rightarrow> job_owner \<Rightarrow> job_table option \<Rightarrow> job_table option \<Rightarrow> bool" where
  "jchain target limits s F S \<longleftrightarrow>
     table_ok target limits (jo_jobs s) \<and> job_keys_ok target (jo_jobs s) (jo_keys s) \<and>
     jo_file s = map_option (jobs_payload target) F \<and> jo_snapshot s = map_option (jobs_payload target) S \<and>
     (\<forall>a. F = Some a \<or> S = Some a \<longrightarrow> table_ok target limits a \<and> table_le a (jo_jobs s)) \<and>
     (\<forall>a b. F = Some a \<longrightarrow> S = Some b \<longrightarrow> table_le a b)"

definition file_le :: "job_table option \<Rightarrow> job_table option \<Rightarrow> bool" where
  "file_le F F' \<longleftrightarrow> (\<forall>a. F = Some a \<longrightarrow> (\<exists>b. F' = Some b \<and> table_le a b))"

lemma file_le_refl [simp]: "file_le F F"
  by (auto simp: file_le_def)


lemma jchain_memory:
  assumes "jchain target limits s F S" "table_ok target limits (jo_jobs t)" "table_le (jo_jobs s) (jo_jobs t)"
    "job_keys_ok target (jo_jobs t) (jo_keys t)" "jo_file t = jo_file s" "jo_snapshot t = jo_snapshot s"
  shows "jchain target limits t F S"
  using assms table_le_trans unfolding jchain_def by metis

lemma job_keys_replace:
  assumes "job_keys_ok target js keys" "map_of js i = Some j" "job_le j j'"
  shows "job_keys_ok target (AList.update i j' js) keys"
proof -
  have "(\<exists>x. map_of (AList.update i j' js) h = Some x \<and> ij_idempotency_key x = k) \<longleftrightarrow>
    (\<exists>x. map_of js h = Some x \<and> ij_idempotency_key x = k)" for h k
    using assms(2,3) by (auto simp: update_conv' job_le_def)
  then show ?thesis using assms(1) unfolding job_keys_ok_def by simp
qed

lemma jchain_replace:
  assumes "jchain target limits s F S" "map_of (jo_jobs s) i = Some j" "job_le j j'"
  shows "jchain target limits (s\<lparr>jo_jobs := AList.update i j' (jo_jobs s)\<rparr>) F S"
proof -
  have "table_ok target limits (jo_jobs s)" "job_keys_ok target (jo_jobs s) (jo_keys s)" using assms(1) by (simp_all add: jchain_def)
  then show ?thesis
    using table_ok_replace[OF _ assms(2,3)] job_keys_replace[OF _ assms(2,3)] by (intro jchain_memory[OF assms(1)]) simp_all
qed

lemma terminal_touched: "terminal st \<Longrightarrow> touched st"
  by (auto simp: terminal_def touched_def)

lemma transition_touched: "st' \<in> job_transitions st \<Longrightarrow> touched st \<Longrightarrow> touched st'"
  by (cases st) (auto simp: touched_def)

lemma with_state_le:
  assumes "keeps_identity changes" "terminal (ij_state j) \<Longrightarrow> st = ij_state j" "touched (ij_state j) \<Longrightarrow> touched st"
  shows "job_le j (with_state now st changes j)"
  using assms by (auto simp: job_le_def with_state_def keeps_identity_def)

text \<open>\<open>s\<close> with the job of one id replaced by a later version, or as it was.\<close>

definition advanced :: "string \<Rightarrow> job_owner \<Rightarrow> job_owner \<Rightarrow> bool" where
  "advanced i s t \<longleftrightarrow> t = s \<or> (\<exists>j j'. map_of (jo_jobs s) i = Some j \<and> job_le j j' \<and> t = s\<lparr>jo_jobs := AList.update i j' (jo_jobs s)\<rparr>)"

lemma advancedI: "map_of (jo_jobs s) i = Some j \<Longrightarrow> job_le j j' \<Longrightarrow> advanced i s (s\<lparr>jo_jobs := AList.update i j' (jo_jobs s)\<rparr>)"
  by (auto simp: advanced_def)

lemma advanced_refl [simp]: "advanced i s s"
  by (simp add: advanced_def)

lemma update_locked_advances:
  assumes "update_locked now i st changes s = (r, t)" "keeps_identity changes"
  shows "advanced i s t"
proof (cases "map_of (jo_jobs s) i")
  case (Some j)
  have "job_le j (with_state now st changes j)" if "terminal (ij_state j) \<longrightarrow> st = ij_state j" "st \<noteq> ij_state j \<longrightarrow> st \<in> job_transitions (ij_state j)"
    using that transition_touched with_state_le[OF assms(2)] by metis
  then show ?thesis using assms(1) Some advancedI[OF Some]
    by (auto simp: update_locked_def Let_def split: if_splits)
qed (use assms(1) in \<open>auto simp: update_locked_def split: if_splits\<close>)

lemma cancel_locked_advances:
  assumes "cancel_locked now i s = (r, t)"
  shows "advanced i s t"
proof (cases "map_of (jo_jobs s) i")
  case (Some j)
  have "job_le j (with_state now st changes j)"
    if "keeps_identity changes" "\<not> terminal (ij_state j)" "st = ij_state j \<or> ij_state j \<in> {JobQueued, JobPreparing}" for st changes
    using that by (intro with_state_le) (auto simp: touched_def)
  then have "job_le j (with_state now JobCancelled (\<lambda>x. x\<lparr>ij_cancel_requested_at := q, ij_queue_position := None\<rparr>) j)"
    if "\<not> terminal (ij_state j)" "ij_state j \<in> {JobQueued, JobPreparing}" for q
    using that by (simp add: keeps_identity_def)
  moreover have "job_le j (with_state now (ij_state j) (\<lambda>x. x\<lparr>ij_cancel_requested_at := q\<rparr>) j)" for q
    by (rule with_state_le) (simp_all add: keeps_identity_def)
  ultimately show ?thesis using assms Some advancedI[OF Some]
    by (auto simp: cancel_locked_def Let_def split: if_splits)
qed (use assms in \<open>auto simp: cancel_locked_def split: if_splits\<close>)

lemma jchain_advanced:
  assumes "jchain target limits s F S" "advanced i s t"
  shows "jchain target limits t F S"
  using assms jchain_replace unfolding advanced_def by metis

lemma admit_ingest_effect:
  assumes "admit_ingest target limits now uuid ikey revision estimated s = (r, t)"
  shows "t = s \<or> (\<exists>j. r = Inr (j, True) \<and> ij_job_id j = uuid \<and> ij_target j = target \<and> ij_idempotency_key j = ikey \<and>
     jo_keys s (target_value target, ikey) = None \<and> int (length (active_jobs (jo_jobs s))) < ll_max_queue_items limits \<and>
     t = s\<lparr>jo_jobs := AList.update uuid j (jo_jobs s), jo_keys := (jo_keys s)((target_value target, ikey) \<mapsto> uuid)\<rparr>)"
  using assms by (auto simp: admit_ingest_def Let_def split: if_splits option.splits sum.splits)

lemma jchain_submit:
  assumes "jchain target limits s F S" "admit_ingest target limits now uuid ikey revision estimated s = (r, t)"
    "uuid \<notin> fst ` set (jo_jobs s)"
  shows "jchain target limits t F S"
proof (cases "t = s")
  case False
  let ?js = "jo_jobs s"
  obtain j where j: "ij_job_id j = uuid" "ij_target j = target" "ij_idempotency_key j = ikey"
    "jo_keys s (target_value target, ikey) = None" "int (length (active_jobs ?js)) < ll_max_queue_items limits"
    and t: "t = s\<lparr>jo_jobs := ?js @ [(uuid, j)], jo_keys := (jo_keys s)((target_value target, ikey) \<mapsto> uuid)\<rparr>"
    using admit_ingest_effect[OF assms(2)] False update_new[OF assms(3)] by auto
  have ok: "table_ok target limits ?js" "job_keys_ok target ?js (jo_keys s)" using assms(1) by (simp_all add: jchain_def)
  have new: "map_of ?js uuid = None" using assms(3) by (simp add: map_of_eq_None_iff)
  have other: "ij_idempotency_key x \<noteq> ikey" if "map_of ?js i = Some x" for i x
    using ok(2) j(4) that unfolding job_keys_ok_def by (metis fst_conv option.distinct(1) snd_conv)
  have "map_of ?js (fst v) = Some (snd v)" if "v \<in> set ?js" for v
    using ok(1) that by (cases v) (simp add: table_ok_def)
  with other have fresh: "ikey \<notin> (ij_idempotency_key \<circ> snd) ` set ?js" by force
  have "length (active_jobs (?js @ [(uuid, j)])) \<le> Suc (length (active_jobs ?js))" by (simp add: active_jobs_def)
  then have "table_ok target limits (jo_jobs t)"
    using ok(1) j assms(3) fresh unfolding table_ok_def t by auto
  moreover have "table_le ?js (jo_jobs t)" by (auto simp: table_le_def t map_add_def)
  moreover have "job_keys_ok target (jo_jobs t) (jo_keys t)"
    using ok(2) new j(3) other unfolding job_keys_ok_def t by (auto simp: map_add_def split: option.splits)
  ultimately show ?thesis by (intro jchain_memory[OF assms(1)]) (simp_all add: t)
qed (use assms(1) in simp)

lemma jchainD:
  assumes "jchain target limits s F S"
  shows "F = Some a \<Longrightarrow> table_ok target limits a" "F = Some a \<Longrightarrow> table_le a (jo_jobs s)"
    "table_ok target limits (jo_jobs s)" "job_keys_ok target (jo_jobs s) (jo_keys s)"
  using assms by (simp_all add: jchain_def)

lemma restart_exact:
  assumes "jchain target limits s F S" "restart_owner target now active s = (r, t)"
  shows "r = Inr () \<and> jo_accepting t \<and> jo_file t = jo_file s \<and> jo_snapshot t = None \<and>
    jo_jobs t = recovered_table now active (case F of None \<Rightarrow> [] | Some a \<Rightarrow> a) \<and> job_keys_ok target (jo_jobs t) (jo_keys t)"
proof (cases F)
  case None
  then show ?thesis using assms
    by (auto simp: jchain_def restart_owner_def load_jobs_def no_jobs_def recovered_table_def job_keys_ok_def)
next
  case (Some a)
  then have a: "table_ok target limits a" "jo_file (no_jobs\<lparr>jo_file := jo_file s\<rparr>) = Some (jobs_payload target a)"
    using assms(1) by (auto simp: jchain_def)
  obtain keys where "load_jobs target now active (no_jobs\<lparr>jo_file := jo_file s\<rparr>) =
      (Inr (), no_jobs\<lparr>jo_file := jo_file s\<rparr>\<lparr>jo_jobs := recovered_table now active a, jo_keys := keys\<rparr>)"
    "job_keys_ok target (recovered_table now active a) keys"
    by (rule load_jobs_exact[OF a])
  then show ?thesis using assms(2) Some by (auto simp: restart_owner_def no_jobs_def)
qed

lemma jchain_restart:
  assumes "jchain target limits s F S" "restart_owner target now active s = (r, t)"
  shows "jchain target limits t F None"
proof -
  note e = restart_exact[OF assms]
  have empty: "table_ok target limits (recovered_table now active [])" by (simp add: table_ok_def recovered_table_def active_jobs_def)
  have "table_ok target limits (recovered_table now active a) \<and> table_le a (recovered_table now active a)" if "F = Some a" for a
    using table_ok_recovered[of target limits a] jchainD[OF assms(1)] that by blast
  then show ?thesis using assms(1) e empty by (auto simp: jchain_def split: option.splits)
qed

lemma jchain_step:
  assumes "ostep target limits s t" "jchain target limits s F S"
  shows "\<exists>F' S'. jchain target limits t F' S' \<and> file_le F F'"
  using assms
proof (induction rule: ostep.induct)
  case (submitted now uuid ikey revision estimated s r t)
  then show ?case using jchain_submit file_le_refl by blast
next
  case (updated now i st changes s r t)
  then show ?case using jchain_advanced update_locked_advances file_le_refl by blast
next
  case (cancelled now i s r t)
  then show ?case using jchain_advanced cancel_locked_advances file_le_refl by blast
next
  case (snapshot_taken s)
  then have "jchain target limits (take_snapshot target s) F (Some (jo_jobs s))" by (auto simp: jchain_def take_snapshot_def)
  then show ?case using file_le_refl by blast
next
  case (snapshot_written s d)
  then have "jchain target limits (write_snapshot s) S None" "file_le F S"
    by (cases S; auto simp: jchain_def write_snapshot_def file_le_def)+
  then show ?case by blast
next
  case (snapshot_refused s)
  then have "jchain target limits (drop_snapshot s) F None" by (auto simp: jchain_def drop_snapshot_def)
  then show ?case using file_le_refl by blast
next
  case (draining s)
  then have "jchain target limits (begin_drain s) F S" by (simp add: jchain_def begin_drain_def)
  then show ?case using file_le_refl by blast
next
  case (restarted now active s r t)
  then show ?case using jchain_restart file_le_refl by blast
qed

lemma jchain_initial: "jchain target limits no_jobs None None"
  by (simp add: jchain_def no_jobs_def table_ok_def job_keys_ok_def active_jobs_def)

lemma reach_jchain:
  assumes "osys.reach target limits s"
  shows "\<exists>F S. jchain target limits s F S"
  by (rule osys.reach_invariant[OF assms]) (use jchain_initial jchain_step in blast)+




section \<open>The operations as steps\<close>

lemma persist_steps:
  assumes "jo_snapshot s = None"
  shows "(ostep target limits)\<^sup>*\<^sup>* s (snd (persist_jobs target refusal s))"
proof -
  have "ostep target limits s (take_snapshot target s)" using assms by (rule ostep.snapshot_taken)
  moreover have "ostep target limits (take_snapshot target s) (snd (persist_jobs target refusal s))"
    by (cases refusal)
      (auto simp: persist_jobs_def take_snapshot_def intro: ostep.snapshot_written[where d = "jobs_payload target (jo_jobs s)"] ostep.snapshot_refused)
  ultimately show ?thesis by (meson converse_rtranclp_into_rtranclp r_into_rtranclp)
qed

lemma submit_ingest_steps:
  assumes "jo_snapshot s = None" "uuid \<notin> fst ` set (jo_jobs s)"
  shows "(ostep target limits)\<^sup>*\<^sup>* s (snd (submit_ingest target limits refusal now uuid ikey revision estimated s))"
proof -
  obtain r t where a: "admit_ingest target limits now uuid ikey revision estimated s = (r, t)" by fastforce
  have st: "ostep target limits s t" using a assms(2) by (rule ostep.submitted)
  have "jo_snapshot t = None" using admit_ingest_effect[OF a] assms(1) by auto
  then have "(ostep target limits)\<^sup>*\<^sup>* s (snd (persist_jobs target refusal t))"
    using st persist_steps by (meson converse_rtranclp_into_rtranclp)
  then show ?thesis using a r_into_rtranclp[of "ostep target limits", OF st]
    by (auto simp: submit_ingest_def split: sum.splits prod.splits bool.splits)
qed

lemma update_job_steps:
  assumes "jo_snapshot s = None" "keeps_identity changes"
  shows "(ostep target limits)\<^sup>*\<^sup>* s (snd (update_job target refusal now i st changes s))"
proof -
  obtain r t where a: "update_locked now i st changes s = (r, t)" by fastforce
  have st: "ostep target limits s t" using a assms(2) by (rule ostep.updated)
  have "jo_snapshot t = None" using update_locked_advances[OF a assms(2)] assms(1) by (auto simp: advanced_def)
  then have "(ostep target limits)\<^sup>*\<^sup>* s (snd (persist_jobs target refusal t))"
    using st persist_steps by (meson converse_rtranclp_into_rtranclp)
  then show ?thesis using a r_into_rtranclp[of "ostep target limits", OF st]
    by (auto simp: update_job_def split: sum.splits prod.splits)
qed

section \<open>A sample\<close>

definition sample_ready :: job_owner where
  "sample_ready = no_jobs\<lparr>jo_accepting := True\<rparr>"

definition sample_submitted :: job_owner where
  "sample_submitted = snd (submit_ingest sample_target sample_limits None ''t'' ''u1'' ''k'' ''r1'' 10 sample_ready)"

definition sample_writing :: job_owner where
  "sample_writing = snd (update_job sample_target None ''t'' ''u1'' JobWriting (\<lambda>x. x) sample_submitted)"

lemma sample_owner_reach:
  "osys.reach sample_target sample_limits sample_ready" "osys.reach sample_target sample_limits sample_submitted"
  "osys.reach sample_target sample_limits sample_writing"
proof -
  have "restart_owner sample_target ''t'' None no_jobs = (Inr (), sample_ready)"
    by (simp add: restart_owner_def load_jobs_def no_jobs_def sample_ready_def)
  then show r: "osys.reach sample_target sample_limits sample_ready"
    using osys.reach_initial osys.reach_step ostep.restarted by blast
  have s: "jo_snapshot sample_ready = None" "''u1'' \<notin> fst ` set (jo_jobs sample_ready)"
    by (simp_all add: sample_ready_def no_jobs_def)
  show t: "osys.reach sample_target sample_limits sample_submitted"
    unfolding sample_submitted_def by (rule osys.reach_rtranclp[OF submit_ingest_steps[OF s] r])
  have u: "jo_snapshot sample_submitted = None" by code_simp
  show "osys.reach sample_target sample_limits sample_writing"
    unfolding sample_writing_def by (rule osys.reach_rtranclp[OF update_job_steps[OF u] t]) (simp add: keeps_identity_def)
qed

section \<open>Properties\<close>



text \<open>
  C16. A new owner always accepts the file an earlier one left and recovers every job of it: a job
  is queued afterwards only if the file had it queued or in preparation, before any write to the store; a
  job that was writing, validating or publishing has ended, as completed only if the active
  generation is the one it was publishing, of the same source revision; ended jobs are as they were.
\<close>

theorem recovery_sound:
  assumes "osys.reach target limits s" "restart_owner target now active s = (r, t)"
  shows "r = Inr () \<and> jo_accepting t \<and>
    (\<forall>i j'. map_of (jo_jobs t) i = Some j' \<longrightarrow>
      (\<exists>d js j. jo_file s = Some d \<and> read_jobs target d = Inr js \<and> j \<in> set js \<and> ij_job_id j = i \<and> recovered_from active j j'))"
proof -
  obtain F S where c: "jchain target limits s F S" using reach_jchain[OF assms(1)] by blast
  note e = restart_exact[OF c assms(2)]
  have "\<exists>d js j. jo_file s = Some d \<and> read_jobs target d = Inr js \<and> j \<in> set js \<and> ij_job_id j = i \<and> j' = recover_job now active j"
    if m: "map_of (jo_jobs t) i = Some j'" for i j'
  proof -
    obtain a where a: "F = Some a" using e m by (cases F) (auto simp: recovered_table_def)
    then have d: "jo_file s = Some (jobs_payload target a)" using c by (simp add: jchain_def)
    have ok: "table_ok target limits a" using jchainD(1)[OF c a] .
    obtain j where j: "map_of a i = Some j" "j' = recover_job now active j"
      using m e a recovered_lookup[of now active a i] by (auto simp: map_option_case split: option.splits)
    have "read_jobs target (jobs_payload target a) = Inr (map snd a)" using ok read_jobs_payload by (simp add: table_ok_def)
    moreover have "j \<in> set (map snd a)" using map_of_SomeD[OF j(1)] by force
    ultimately show ?thesis using d j(2) table_okD(1)[OF ok j(1)] by blast
  qed
  then show ?thesis using e recover_job_sound by metis
qed

theorem recovery_sound_witness:
  "\<exists>j j'. map_of (jo_jobs sample_writing) ''u1'' = Some j \<and> ij_state j = JobWriting \<and>
     map_of (jo_jobs (snd (restart_owner sample_target ''t'' None sample_writing))) ''u1'' = Some j' \<and> recovered_from None j j'"
proof -
  let ?r = "restart_owner sample_target ''t'' None sample_writing" and ?d = "the (jo_file sample_writing)"
  let ?j = "snd (hd (jo_jobs sample_writing))"
  have f: "jo_file sample_writing = Some ?d" "read_jobs sample_target ?d = Inr [?j]" "ij_state ?j = JobWriting"
    "map_of (jo_jobs sample_writing) ''u1'' = Some ?j" "map_of (jo_jobs (snd ?r)) ''u1'' \<noteq> None" by code_simp+
  then obtain j' where j': "map_of (jo_jobs (snd ?r)) ''u1'' = Some j'" by auto
  have "?r = (fst ?r, snd ?r)" by simp
  from recovery_sound[OF sample_owner_reach(3) this] j' obtain d js j where
    "jo_file sample_writing = Some d" "read_jobs sample_target d = Inr js" "j \<in> set js" "recovered_from None j j'" by blast
  moreover from this f(1,2) have "js = [?j]" by (metis option.inject sum.inject(2))
  ultimately have "recovered_from None ?j j'" by simp
  then show ?thesis using f j' by blast
qed

text \<open>
  C17. An idempotency key names one job: submitting a key that has a job returns that job and changes
  nothing if the source revision is the same, and raises and changes nothing if it is another one. The
  owner accepts jobs, and updates do not touch the identity of a job.
\<close>

theorem submission_idempotent:
  assumes "osys.reach target limits s" "map_of (jo_jobs s) i = Some j" "jo_accepting s" "strip (ij_idempotency_key j) \<noteq> []"
    "strip revision \<noteq> []" "0 \<le> estimated"
  shows "submit_ingest target limits refusal now uuid (ij_idempotency_key j) revision estimated s =
      (if revision = ij_source_revision j then Inr j else Inl (StoreGatewayError IngestionAlreadyRunning), s) \<and>
    (\<forall>i' j'. map_of (jo_jobs s) i' = Some j' \<and> ij_idempotency_key j' = ij_idempotency_key j \<longrightarrow> i' = i)"
proof -
  obtain F S where c: "jchain target limits s F S" using reach_jchain[OF assms(1)] by blast
  have k: "jo_keys s (target_value target, ij_idempotency_key j) = Some i'"
    if "map_of (jo_jobs s) i' = Some j'" "ij_idempotency_key j' = ij_idempotency_key j" for i' j'
    using jchainD(4)[OF c] that unfolding job_keys_ok_def by auto
  have "submit_ingest target limits refusal now uuid (ij_idempotency_key j) revision estimated s =
      (if revision = ij_source_revision j then Inr j else Inl (StoreGatewayError IngestionAlreadyRunning), s)"
    using k[OF assms(2) refl] assms(2-6) by (simp add: submit_ingest_def admit_ingest_def)
  then show ?thesis using k[OF assms(2) refl] k by fastforce
qed

theorem submission_idempotent_witness:
  "fst (submit_ingest sample_target sample_limits None ''t'' ''u2'' ''k'' ''r1'' 99 sample_writing) = Inr (snd (hd (jo_jobs sample_writing))) \<and>
   fst (submit_ingest sample_target sample_limits None ''t'' ''u2'' ''k'' ''r2'' 1 sample_writing) =
     Inl (StoreGatewayError IngestionAlreadyRunning)"
proof -
  let ?j = "snd (hd (jo_jobs sample_writing))"
  have f: "map_of (jo_jobs sample_writing) ''u1'' = Some ?j" "jo_accepting sample_writing" "ij_idempotency_key ?j = ''k''"
    "ij_source_revision ?j = ''r1''" by code_simp+
  have k: "strip (ij_idempotency_key ?j) \<noteq> []" unfolding f(3) by code_simp
  have r: "strip ''r1'' \<noteq> []" "strip ''r2'' \<noteq> []" by code_simp+
  show ?thesis
    using submission_idempotent[OF sample_owner_reach(3) f(1,2) k r(1), of 99 None "''t''" "''u2''"]
      submission_idempotent[OF sample_owner_reach(3) f(1,2) k r(2), of 1 None "''t''" "''u2''"] f(3,4) by simp
qed

text \<open>
  The number of jobs that have not ended never exceeds the queue limit of the write lane, over
  any sequence of operations and restarts.
\<close>

theorem active_jobs_bounded:
  assumes "lane_limits_init limits = Inr limits" "osys.reach target limits s"
  shows "int (length (active_jobs (jo_jobs s))) \<le> ll_max_queue_items limits"
proof -
  obtain F S where "jchain target limits s F S" using reach_jchain[OF assms(2)] by blast
  then show ?thesis using assms(1) by (auto simp: jchain_def table_ok_def lane_limits_init_def split: if_splits)
qed

theorem active_jobs_bounded_witness:
  "int (length (active_jobs (jo_jobs sample_writing))) \<le> 2 \<and> length (active_jobs (jo_jobs sample_writing)) = 1"
proof -
  have "lane_limits_init sample_limits = Inr sample_limits" by (simp add: lane_limits_init_def sample_limits_def)
  from active_jobs_bounded[OF this sample_owner_reach(3)] have "int (length (active_jobs (jo_jobs sample_writing))) \<le> 2"
    by (simp add: sample_limits_def)
  moreover have "length (active_jobs (jo_jobs sample_writing)) = 1" by code_simp
  ultimately show ?thesis by simp
qed

text \<open>
  C20. A submission whose job file cannot be written raises, and the job is registered all the same:
  the file does not have it, yet submitting the same key and revision again reports success without
  writing anything, so that a crash then loses a job its owner was told is queued.
\<close>

theorem refused_submission_registered:
  assumes "admit_ingest target limits now uuid ikey revision estimated s = (Inr (j, True), s')"
    "submit_ingest target limits (Some e) now uuid ikey revision estimated s = (r, t)"
  shows "r = Inl e \<and> jo_file t = jo_file s \<and> map_of (jo_jobs t) uuid = Some j \<and>
    submit_ingest target limits None now' uuid' ikey revision estimated' t = (if estimated' < 0 then Inl (StoreRaised ValueError) else Inr j, t)"
proof -
  have t: "r = Inl e" "t = s'\<lparr>jo_snapshot := None\<rparr>"
    using assms by (auto simp: submit_ingest_def persist_jobs_def drop_snapshot_def take_snapshot_def)
  have g: "ij_source_revision j = revision" "jo_accepting s'" "strip ikey \<noteq> []" "strip revision \<noteq> []"
    "map_of (jo_jobs s') uuid = Some j" "jo_keys s' (target_value target, ikey) = Some uuid" "jo_file s' = jo_file s"
    using assms(1) by (auto simp: admit_ingest_def Let_def update_conv' split: if_splits option.splits sum.splits)
  show ?thesis unfolding t using g by (simp add: submit_ingest_def admit_ingest_def)
qed

theorem refused_submission_registered_witness:
  "\<exists>j t. submit_ingest sample_target sample_limits (Some (StoreGatewayError Overloaded)) ''t'' ''u1'' ''k'' ''r1'' 10 sample_ready =
       (Inl (StoreGatewayError Overloaded), t) \<and> jo_file t = None \<and>
     submit_ingest sample_target sample_limits None ''t'' ''u2'' ''k'' ''r1'' 10 t = (Inr j, t)"
proof -
  let ?a = "admit_ingest sample_target sample_limits ''t'' ''u1'' ''k'' ''r1'' 10 sample_ready"
  let ?s = "submit_ingest sample_target sample_limits (Some (StoreGatewayError Overloaded)) ''t'' ''u1'' ''k'' ''r1'' 10 sample_ready"
  have "case fst ?a of Inr (j, b) \<Rightarrow> b | Inl _ \<Rightarrow> False" by code_simp
  then obtain j where a: "?a = (Inr (j, True), snd ?a)" by (cases ?a) (auto split: sum.splits)
  have "?s = (fst ?s, snd ?s)" by simp
  note p = refused_submission_registered[OF a this, of "''t''" "''u2''" 10]
  have "jo_file sample_ready = None" by (simp add: sample_ready_def no_jobs_def)
  then have "?s = (Inl (StoreGatewayError Overloaded), snd ?s)" "jo_file (snd ?s) = None"
    "submit_ingest sample_target sample_limits None ''t'' ''u2'' ''k'' ''r1'' 10 (snd ?s) = (Inr j, snd ?s)"
    using p by (auto simp: prod_eq_iff)
  then show ?thesis by blast
qed

end
