(* ===== verification/Store_Gateway.thy ===== *)
theory Store_Gateway
  imports Journal_Artifacts Store_Refinement Store_Jobs
begin

text \<open>
  \<open>StoreGateway\<close> of \<open>cortex_harness/storage/gateway.py\<close>: the one owner of a physical target. It holds the
  leases of the graph and the vector store, runs queries on the pinned active generation, publishes,
  probes readiness, and keeps its leases until nothing uses the store any more. The operations are
  functions of the state of the gateway; how a lane admits a call, how a store operation, a probe
  or the closing of a resource ends, whether the process can take a lease and whether a cancellation
  arrives are arguments. The processes that compete for the leases are a step relation.
\<close>

section \<open>The gateway\<close>

datatype owner_lifecycle =
  OwnerStarting | OwnerRecovering | OwnerWarming | OwnerReady | OwnerDraining | OwnerStopped

text \<open>The times of probes are not kept. \<open>gw_running\<close>: the executors exist.\<close>

record gateway =
  gw_lifecycle :: owner_lifecycle
  gw_leases :: "string list"
  gw_running :: bool
  gw_active :: "generation_manifest option"
  gw_probe_generation :: "string option"
  gw_probe_error :: "string option"
  gw_store :: generations
  gw_jobs :: job_owner

text \<open>The two probes are configured together or not at all; a probe returns or raises.\<close>

type_synonym probes = "((generation_manifest \<Rightarrow> exc + unit) \<times> (generation_manifest \<Rightarrow> exc + unit)) option"

definition run_readiness_probes :: "probes \<Rightarrow> generation_manifest \<Rightarrow> exc + unit" where
  "run_readiness_probes ps m = (case ps of None \<Rightarrow> Inr () | Some (graph, vector) \<Rightarrow> rbind (graph m) (\<lambda>_. vector m))"

record freshness =
  fr_served_generation :: string
  fr_source_revision :: string
  fr_last_committed_at :: json
  fr_ingestion_state :: "job_state option"

definition gateway_begin_drain :: "gateway \<Rightarrow> gateway" where
  "gateway_begin_drain g =
     (if gw_lifecycle g = OwnerStopped then g
      else g\<lparr>gw_lifecycle := OwnerDraining, gw_jobs := begin_drain (gw_jobs g)\<rparr>)"

text \<open>
  \<open>query\<close>: \<open>admission\<close> is the refusal of the lane if there is one, \<open>late\<close> whether the deadline passed while
  the operation ran. The pin is released on every way out.
\<close>

definition active_ingestion :: "job_table \<Rightarrow> job_state option" where
  "active_ingestion js = map_option ij_state (List.find (\<lambda>j. \<not> terminal (ij_state j)) (map snd js))"

definition query ::
  "manager \<Rightarrow> store_error option \<Rightarrow> bool \<Rightarrow> string \<Rightarrow> (generation_manifest \<Rightarrow> exc + 'a) \<Rightarrow> gateway \<Rightarrow>
   (store_error + ('a \<times> freshness)) \<times> gateway" where
  "query mg admission late lane operation g =
     (if gw_lifecycle g \<noteq> OwnerReady then (Inl (StoreGatewayError StoreMaintenance), g)
      else if lane \<notin> {''graph'', ''vector'', ''control''} then (Inl (StoreRaised ValueError), g)
      else case admission of
        Some e \<Rightarrow> (Inl e, g)
      | None \<Rightarrow>
          (case pin_active mg (gw_store g) of
             (Inl RuntimeError, s) \<Rightarrow> (Inl (StoreGatewayError StoreMaintenance), g\<lparr>gw_store := s\<rparr>)
           | (Inl x, s) \<Rightarrow> (Inl (StoreRaised x), g\<lparr>gw_store := s\<rparr>)
           | (Inr m, s) \<Rightarrow>
               (case operation m of
                  Inl x \<Rightarrow> Inl (StoreRaised x)
                | Inr v \<Rightarrow>
                    if late then Inl (StoreGatewayError DeadlineExceeded)
                    else Inr (v, \<lparr>fr_served_generation = gm_generation_id m, fr_source_revision = gm_source_revision m,
                           fr_last_committed_at = gm_published_at m, fr_ingestion_state = active_ingestion (jo_jobs (gw_jobs g))\<rparr>),
                g\<lparr>gw_store := unpin m s\<rparr>)))"

text \<open>
  How the call of \<open>write\<close> goes: it may be refused, cancelled before the store operation begins, or cancelled
  while it runs, in which case the operation ends first and its own outcome is dropped.
\<close>

datatype disturbance = Undisturbed | Refused store_error | CancelledBefore | CancelledDuring

datatype publish_failure = PublishFailed store_error | PublishCancelled

definition validate_candidate :: "probes \<Rightarrow> (generation_manifest \<Rightarrow> exc + dict) \<Rightarrow> generation_manifest \<Rightarrow> exc + dict" where
  "validate_candidate ps validate m =
     rbind (validate m) (\<lambda>v. rbind (run_readiness_probes ps (m\<lparr>gm_validation := v\<rparr>)) (\<lambda>_. Inr v))"

definition publish_write ::
  "disturbance \<Rightarrow> write_fault \<times> write_fault \<Rightarrow> manager \<Rightarrow> string \<Rightarrow> (generation_manifest \<Rightarrow> exc + dict) \<Rightarrow> generation_manifest \<Rightarrow> gateway \<Rightarrow>
   (publish_failure + generation_manifest) \<times> generations" where
  "publish_write d fs mg now validate m g =
     (let s = gw_store g; (r, s') = publish_generation fs mg now validate m s in
      if gw_lifecycle g \<noteq> OwnerReady then (Inl (PublishFailed (StoreGatewayError StoreMaintenance)), s)
      else case d of
        Refused e \<Rightarrow> (Inl (PublishFailed e), s)
      | CancelledBefore \<Rightarrow> (Inl PublishCancelled, s)
      | CancelledDuring \<Rightarrow> (Inl PublishCancelled, s')
      | Undisturbed \<Rightarrow> (case r of Inl x \<Rightarrow> Inl (PublishFailed (StoreRaised x)) | Inr p \<Rightarrow> Inr p, s'))"

text \<open>The name of the exception is recorded; which one it was is not distinguished here.\<close>

definition gateway_publish ::
  "probes \<Rightarrow> disturbance \<Rightarrow> write_fault \<times> write_fault \<Rightarrow> manager \<Rightarrow> string \<Rightarrow> (generation_manifest \<Rightarrow> exc + dict) \<Rightarrow> generation_manifest \<Rightarrow> gateway \<Rightarrow>
   (publish_failure + generation_manifest) \<times> gateway" where
  "gateway_publish ps d fs mg now validate m g =
     (case publish_write d fs mg now (validate_candidate ps validate) m g of
        (Inr p, s) \<Rightarrow>
          let g1 = g\<lparr>gw_store := s, gw_active := Some p\<rparr> in
          (Inr p, if ps \<noteq> None then g1\<lparr>gw_probe_generation := Some (gm_generation_id p), gw_probe_error := None\<rparr> else g1)
      | (Inl e, s) \<Rightarrow>
          (Inl e,
           if \<not> gw_running g
           then g\<lparr>gw_store := s, gw_active := None, gw_probe_generation := None, gw_probe_error := Some ''PublicationReconciliationError''\<rparr>
           else case recover mg s of
             (Inl x, s') \<Rightarrow>
               g\<lparr>gw_store := s', gw_active := None, gw_probe_generation := None, gw_probe_error := Some ''PublicationReconciliationError''\<rparr>
           | (Inr active, s') \<Rightarrow>
               let g1 = g\<lparr>gw_store := s', gw_active := active\<rparr> in
               if active \<noteq> None \<and> gm_generation_id (the active) = gm_generation_id m \<and> ps \<noteq> None
               then (if e = PublishCancelled
                     then g1\<lparr>gw_probe_generation := Some (gm_generation_id m), gw_probe_error := None\<rparr>
                     else g1\<lparr>gw_probe_generation := None, gw_probe_error := Some ''PublicationError''\<rparr>)
               else g1))"

definition refresh_readiness :: "probes \<Rightarrow> manager \<Rightarrow> store_error option \<Rightarrow> bool \<Rightarrow> gateway \<Rightarrow> gateway" where
  "refresh_readiness ps mg admission late g =
     (case query mg admission late ''control'' (run_readiness_probes ps) g of
        (Inl e, g') \<Rightarrow> g'\<lparr>gw_probe_generation := None, gw_probe_error := Some ''ProbeError''\<rparr>
      | (Inr (_, fr), g') \<Rightarrow> g'\<lparr>gw_probe_generation := Some (fr_served_generation fr), gw_probe_error := None\<rparr>)"

text \<open>\<open>ready\<close> of \<open>health\<close>.\<close>

definition health_ready :: "probes \<Rightarrow> gateway \<Rightarrow> bool" where
  "health_ready ps g \<longleftrightarrow>
     gw_lifecycle g = OwnerReady \<and> ps \<noteq> None \<and>
     (case gw_active g of None \<Rightarrow> False | Some a \<Rightarrow> gw_probe_generation g = Some (gm_generation_id a)) \<and> gw_probe_error g = None"

section \<open>Starting and closing\<close>


definition new_gateway :: "generations \<Rightarrow> job_owner \<Rightarrow> gateway" where
  "new_gateway s js =
     \<lparr>gw_lifecycle = OwnerStarting, gw_leases = [], gw_running = False, gw_active = None, gw_probe_generation = None,
      gw_probe_error = None, gw_store = s, gw_jobs = js\<rparr>"

text \<open>The end of a failed start and of \<open>close\<close>: a resource that cannot be closed keeps the leases.\<close>

definition release_owner :: "bool \<Rightarrow> gateway \<Rightarrow> gateway" where
  "release_owner resource_error g =
     (if resource_error then g\<lparr>gw_lifecycle := OwnerDraining\<rparr>
      else g\<lparr>gw_running := False, gw_leases := [], gw_lifecycle := OwnerStopped\<rparr>)"

text \<open>\<open>start\<close> once both leases are taken.\<close>

definition start_owned ::
  "probes \<Rightarrow> physical_target_key \<Rightarrow> manager \<Rightarrow> string \<Rightarrow> store_error option \<Rightarrow> store_error option \<Rightarrow> bool \<Rightarrow> bool \<Rightarrow> gateway \<Rightarrow>
   (store_error + unit) \<times> gateway" where
  "start_owned ps target mg now refusal admission late resource_error g =
     (let failed = (\<lambda>e h. (Inl e, release_owner resource_error (gateway_begin_drain h)));
          g1 = g\<lparr>gw_running := True, gw_lifecycle := OwnerRecovering\<rparr> in
      case recover mg (gw_store g1) of
        (Inl x, s) \<Rightarrow> failed (StoreRaised x) (g1\<lparr>gw_store := s\<rparr>)
      | (Inr active, s) \<Rightarrow>
          let g2 = g1\<lparr>gw_store := s, gw_active := active\<rparr> in
          (case load_jobs target now active (gw_jobs g2) of
             (Inl x, js) \<Rightarrow> failed (StoreRaised x) (g2\<lparr>gw_jobs := js\<rparr>)
           | (Inr _, js) \<Rightarrow>
               (case (if jo_file js = None then (Inr (), js) else persist_jobs target refusal js) of
                  (Inl e, js') \<Rightarrow> failed e (g2\<lparr>gw_jobs := js'\<rparr>)
                | (Inr _, js') \<Rightarrow>
                    let g3 = g2\<lparr>gw_jobs := js'\<lparr>jo_accepting := True\<rparr>, gw_lifecycle := OwnerReady\<rparr>
                    in (Inr (), if active \<noteq> None \<and> ps \<noteq> None then refresh_readiness ps mg admission late g3 else g3))))"

text \<open>
  \<open>close\<close> with a positive timeout: \<open>idle\<close> says whether every lane got idle in time. A refused write of the
  job file is reported after the leases are released.
\<close>

definition gateway_close :: "physical_target_key \<Rightarrow> bool \<Rightarrow> store_error option \<Rightarrow> bool \<Rightarrow> gateway \<Rightarrow> (store_error + unit) \<times> gateway" where
  "gateway_close target idle refusal resource_error g =
     (if gw_lifecycle g = OwnerStopped then (Inr (), g)
      else
        let g1 = gateway_begin_drain g in
        if \<not> idle then (Inl (StoreGatewayError DeadlineExceeded), g1)
        else
          let (p, js) = (if gw_running g1 then persist_jobs target refusal (gw_jobs g1) else (Inr (), gw_jobs g1));
              g2 = release_owner resource_error (g1\<lparr>gw_jobs := js\<rparr>)
          in (if resource_error then Inl (StoreRaised OtherException) else p, g2))"

section \<open>What the operations keep\<close>

lemma query_keeps:
  assumes "query mg admission late lane operation g = (r, g')"
  shows "gw_lifecycle g' = gw_lifecycle g" "gw_leases g' = gw_leases g" "gw_active g' = gw_active g"
    "gw_probe_generation g' = gw_probe_generation g" "gw_probe_error g' = gw_probe_error g"
  using assms
  by (auto simp: query_def split: if_splits option.splits prod.splits sum.splits exc.splits)



lemma recover_fresh:
  assumes "active_ok mg s" "gs_retiring s \<subseteq> dom (gs_tombstones s)" "recover mg s = (r, s')"
  shows "store_ok mg s'" "r = Inr a \<Longrightarrow> gs_active s' = map_option gm_to_dict a \<and> gs_cache_loaded s' \<and> gs_cache s' = a"
proof -
  let ?s = "s\<lparr>gs_cache := None, gs_cache_loaded := False\<rparr>"
  have "active_ok mg ?s" by (rule active_ok_mono[OF assms(1)]) (auto simp: serviceable_def)
  then have ok: "store_ok mg ?s" using assms(2) by (simp add: store_ok_def cache_ok_def)
  have l: "load_active mg ?s = (r, s')" using assms(3) by (simp add: recover_def)
  show "store_ok mg s'" by (rule store_okE(1)[OF ok l])
  show "gs_active s' = map_option gm_to_dict a \<and> gs_cache_loaded s' \<and> gs_cache s' = a" if "r = Inr a"
    using store_okE(2,3)[OF ok l] load_active_effect(1,4)[OF l] that by (cases a) (auto simp: same_files_def)
qed

lemma store_ok_publish:
  assumes "store_ok mg s" "publish_generation fs mg now validate m s = (Inr p, s')"
  shows "store_ok mg s'"
proof (rule store_okI)
  show "manager_ok mg s'" using manager_ok_publish[OF store_ok_manager(1)[OF assms(1)] assms(2)] .
  have "gs_cache s' = Some p \<and> gs_cache_loaded s' \<or> \<not> gs_cache_loaded s'"
    using load_active_effect(4)[OF publish_result(3)[OF assms(2)]] by simp
  then show "cache_ok s'" using publish_result(1,4)[OF assms(2)] by (auto simp: cache_ok_def)
qed

lemma publish_write_files:
  assumes "store_ok mg (gw_store g)" "publish_write d fs mg now validate m g = (r, s)"
  shows "active_ok mg s" "gs_retiring s \<subseteq> dom (gs_tombstones s)"
    "r = Inr p \<Longrightarrow> publish_generation fs mg now validate m (gw_store g) = (Inr p, s)"
proof -
  have ok: "manager_ok mg (gw_store g)" using store_ok_manager(1)[OF assms(1)] .
  have "s = gw_store g \<or> (\<exists>x. publish_generation fs mg now validate m (gw_store g) = (x, s))"
    using assms(2) by (auto simp: publish_write_def Let_def split: prod.splits if_splits disturbance.splits sum.splits)
  then have "manager_ok mg s" using ok manager_ok_publish by blast
  then show "active_ok mg s" "gs_retiring s \<subseteq> dom (gs_tombstones s)" by (simp_all add: manager_ok_def)
  show "r = Inr p \<Longrightarrow> publish_generation fs mg now validate m (gw_store g) = (Inr p, s)"
    using assms(2) by (auto simp: publish_write_def Let_def split: prod.splits if_splits disturbance.splits sum.splits)
qed

section \<open>Publication through the gateway\<close>

text \<open>
  C13. However a publication ends (refused, invalid, failed after the manifest was already replaced,
  or cancelled) the gateway and the manager afterwards agree with the file: the manager's cache is
  sound again, and the generation the gateway takes for active, if any, is the one the active
  manifest names and readers will get. A publication that returns is the active one. When the
  reconciliation itself fails, the gateway takes no generation for active.
\<close>

theorem publish_reconciled:
  assumes "store_ok mg (gw_store g)" "gw_running g" "gateway_publish ps d fs mg now validate m g = (r, g')"
  shows "store_ok mg (gw_store g') \<and>
    (\<forall>a. gw_active g' = Some a \<longrightarrow> gs_active (gw_store g') = Some (gm_to_dict a) \<and> load_active mg (gw_store g') = (Inr (Some a), gw_store g')) \<and>
    (\<forall>p. r = Inr p \<longrightarrow> gw_active g' = Some p \<and> gm_generation_id p = gm_generation_id m)"
proof -
  let ?v = "validate_candidate ps validate"
  obtain x s where w: "publish_write d fs mg now ?v m g = (x, s)" by fastforce
  note f = publish_write_files[OF assms(1) w]
  show ?thesis
  proof (cases x)
    case (Inr p)
    then have p: "publish_generation fs mg now ?v m (gw_store g) = (Inr p, s)" using f(3) by blast
    have ok: "store_ok mg s" using store_ok_publish[OF assms(1) p] .
    have "gs_active s = Some (gm_to_dict p)" "load_active mg s = (Inr (Some p), s)" "gm_generation_id p = gm_generation_id m"
      using publish_result[OF p] by auto
    moreover have "r = Inr p" "gw_active g' = Some p" "gw_store g' = s"
      using assms(3) w Inr by (auto simp: gateway_publish_def Let_def split: if_splits)
    ultimately show ?thesis using ok by simp
  next
    case (Inl e)
    obtain y s' where y: "recover mg s = (y, s')" by fastforce
    note c = recover_fresh[OF f(1,2) y]
    have r: "r = Inl e" "gw_store g' = s'" "gw_active g' = (case y of Inl _ \<Rightarrow> None | Inr a \<Rightarrow> a)"
      using assms(2,3) w Inl y by (auto simp: gateway_publish_def Let_def split: if_splits sum.splits)
    have "gs_active s' = Some (gm_to_dict a) \<and> load_active mg s' = (Inr (Some a), s')" if "gw_active g' = Some a" for a
      using c(2)[of "Some a"] r(3) that by (auto simp: load_active_def split: sum.splits)
    then show ?thesis using c(1) r by auto
  qed
qed

definition sample_gateway :: gateway where
  "sample_gateway = (new_gateway (sample_allocated ''a'' no_generations) sample_ready)\<lparr>gw_lifecycle := OwnerReady, gw_running := True,
     gw_leases := [''/g'', ''/v'']\<rparr>"

lemma sample_gateway_store: "store_ok sample_manager (gw_store sample_gateway)"
  by (simp add: sample_gateway_def new_gateway_def sample_allocated_def no_generations_def store_ok_def active_ok_def cache_ok_def)

theorem publish_reconciled_witness:
  "\<exists>g' a. gateway_publish None Undisturbed (Written, Unsynced) sample_manager ''t'' (\<lambda>_. Inr []) (sample_generation ''a'' GenBuilding) sample_gateway =
      (Inl (PublishFailed (StoreRaised OSError)), g') \<and> gw_active g' = Some a \<and> gs_active (gw_store g') = Some (gm_to_dict a) \<and>
     store_ok sample_manager (gw_store g')"
proof -
  let ?r = "gateway_publish None Undisturbed (Written, Unsynced) sample_manager ''t'' (\<lambda>_. Inr []) (sample_generation ''a'' GenBuilding) sample_gateway"
  have run: "gw_running sample_gateway" by (simp add: sample_gateway_def)
  have "fst ?r = Inl (PublishFailed (StoreRaised OSError))" by code_simp
  moreover have "gw_active (snd ?r) = Some (sample_generation ''a'' GenPublished)" by code_simp
  moreover have "?r = (fst ?r, snd ?r)" by simp
  ultimately show ?thesis using publish_reconciled[OF sample_gateway_store run, of None Undisturbed "(Written, Unsynced)" "''t''" "\<lambda>_. Inr []"]
    by metis
qed

section \<open>Readiness\<close>

text \<open>The life of one gateway whose publications are not cancelled.\<close>

inductive gwstep :: "probes \<Rightarrow> physical_target_key \<Rightarrow> manager \<Rightarrow> gateway \<Rightarrow> gateway \<Rightarrow> bool" for ps target mg where
  gw_started: "start_owned ps target mg now refusal admission late resource_error g = (r, g') \<Longrightarrow>
    gw_lifecycle g = OwnerStarting \<Longrightarrow> gwstep ps target mg g g'"
| gw_queried: "query mg admission late lane (operation :: generation_manifest \<Rightarrow> exc + nat) g = (r, g') \<Longrightarrow> gwstep ps target mg g g'"
| gw_published: "gateway_publish ps d fs mg now validate m g = (r, g') \<Longrightarrow> d \<noteq> CancelledBefore \<Longrightarrow> d \<noteq> CancelledDuring \<Longrightarrow>
    gwstep ps target mg g g'"
| gw_refreshed: "gwstep ps target mg g (refresh_readiness ps mg admission late g)"
| gw_store_changed: "gwstep ps target mg g (g\<lparr>gw_store := s\<rparr>)"
| gw_jobs_changed: "gwstep ps target mg g (g\<lparr>gw_jobs := js\<rparr>)"
| gw_draining: "gwstep ps target mg g (gateway_begin_drain g)"
| gw_closed: "gateway_close target idle refusal resource_error g = (r, g') \<Longrightarrow> gwstep ps target mg g g'"

interpretation gwsys: transition_system "new_gateway s js" "gwstep ps target mg" for s js ps target mg .

definition probed :: "probes \<Rightarrow> gateway \<Rightarrow> bool" where
  "probed ps g \<longleftrightarrow> (\<forall>i. gw_probe_error g = None \<and> gw_probe_generation g = Some i \<longrightarrow>
     (\<exists>m. gm_generation_id m = i \<and> run_readiness_probes ps m = Inr ()))"

lemma probed_keeps:
  assumes "probed ps g" "gw_probe_generation g' = gw_probe_generation g" "gw_probe_error g' = gw_probe_error g"
  shows "probed ps g'"
  using assms by (simp add: probed_def)

lemma probed_refresh: "probed ps (refresh_readiness ps mg admission late g)"
proof -
  obtain r g' where q: "query mg admission late ''control'' (run_readiness_probes ps) g = (r, g')" by fastforce
  show ?thesis
  proof (cases r)
    case (Inl e)
    then show ?thesis using q by (simp add: refresh_readiness_def probed_def)
  next
    case (Inr v)
    then have "\<exists>m. fr_served_generation (snd v) = gm_generation_id m \<and> run_readiness_probes ps m = Inr ()"
      using q by (auto simp: query_def split: if_splits option.splits prod.splits sum.splits exc.splits)
    then show ?thesis using q Inr by (cases v) (auto simp: refresh_readiness_def probed_def)
  qed
qed

lemma publish_candidate_probed:
  assumes "publish_candidate mg now (validate_candidate ps validate) m s = Inr p"
  shows "\<exists>x. gm_generation_id x = gm_generation_id p \<and> run_readiness_probes ps x = Inr ()"
proof -
  obtain v where "run_readiness_probes ps (m\<lparr>gm_validation := v\<rparr>) = Inr ()"
    using assms by (auto simp: publish_candidate_def validate_candidate_def rbind_def split: sum.splits if_splits)
  moreover have "gm_generation_id (m\<lparr>gm_validation := v\<rparr>) = gm_generation_id p"
    using publish_candidate_published(3)[OF assms] by simp
  ultimately show ?thesis by blast
qed

lemma publish_write_result:
  assumes "publish_write d fs mg now validate m g = (Inr p, s)"
  shows "publish_generation fs mg now validate m (gw_store g) = (Inr p, s)"
  using assms by (auto simp: publish_write_def Let_def split: prod.splits if_splits disturbance.splits sum.splits)

lemma probed_publish:
  assumes "probed ps g" "gateway_publish ps d fs mg now validate m g = (r, g')" "d \<noteq> CancelledBefore" "d \<noteq> CancelledDuring"
  shows "probed ps g'"
proof -
  let ?v = "validate_candidate ps validate"
  obtain x s where w: "publish_write d fs mg now ?v m g = (x, s)" by fastforce
  show ?thesis
  proof (cases x)
    case (Inr p)
    have "\<exists>y. gm_generation_id y = gm_generation_id p \<and> run_readiness_probes ps y = Inr ()"
      by (rule publish_candidate_probed[OF publish_result(6)[OF publish_write_result]]) (use w Inr in simp)
    then show ?thesis using assms(1,2) w Inr by (auto simp: gateway_publish_def probed_def Let_def split: if_splits)
  next
    case (Inl e)
    have "e \<noteq> PublishCancelled"
      using w assms(3,4) Inl by (auto simp: publish_write_def Let_def split: prod.splits if_splits disturbance.splits sum.splits)
    then show ?thesis using assms(1,2) w Inl
      by (auto simp: gateway_publish_def probed_def Let_def split: if_splits prod.splits sum.splits)
  qed
qed

lemma drain_keeps:
  "gw_probe_generation (gateway_begin_drain g) = gw_probe_generation g" "gw_probe_error (gateway_begin_drain g) = gw_probe_error g"
  by (simp_all add: gateway_begin_drain_def)

lemma release_keeps:
  "gw_probe_generation (release_owner b g) = gw_probe_generation g" "gw_probe_error (release_owner b g) = gw_probe_error g"
  by (simp_all add: release_owner_def)

lemma close_keeps:
  assumes "gateway_close target idle refusal resource_error g = (r, g')"
  shows "gw_probe_generation g' = gw_probe_generation g" "gw_probe_error g' = gw_probe_error g"
  using assms by (auto simp: gateway_close_def Let_def drain_keeps release_keeps split: prod.splits if_splits)

lemma probed_start:
  assumes "probed ps g" "start_owned ps target mg now refusal admission late resource_error g = (r, g')"
  shows "probed ps g'"
proof -
  have "gw_probe_generation g' = gw_probe_generation g \<and> gw_probe_error g' = gw_probe_error g \<or>
    (\<exists>h. g' = refresh_readiness ps mg admission late h)"
    using assms(2) unfolding start_owned_def Let_def
    by (auto simp: drain_keeps release_keeps split: prod.splits sum.splits if_splits)
  then show ?thesis using assms(1) probed_keeps probed_refresh by metis
qed

lemma probed_step:
  assumes "gwstep ps target mg g g'" "probed ps g"
  shows "probed ps g'"
  using assms
proof (induction rule: gwstep.induct)
  case (gw_started now refusal admission late resource_error g r g')
  then show ?case using probed_start[OF _ gw_started(1)] by blast
next
  case (gw_queried admission late lane operation g r g')
  then show ?case using probed_keeps[OF _ query_keeps(4,5)[OF gw_queried(1)]] by blast
next
  case (gw_published d fs now validate m g r g')
  then show ?case using probed_publish[OF _ gw_published(1-3)] by blast
next
  case (gw_closed idle refusal resource_error g r g')
  then show ?case using probed_keeps[OF _ close_keeps[OF gw_closed(1)]] by blast
next
  case (gw_refreshed g admission late)
  show ?case by (rule probed_refresh)
qed (simp_all add: drain_keeps probed_def)

text \<open>
  C19. A gateway that reports itself ready is open for queries and both readiness probes have succeeded
  on the very generation it serves, as long as no publication was cancelled and readiness is refreshed
  with the probes the gateway was given.
\<close>

theorem ready_means_probed:
  assumes "gwsys.reach s js ps target mg g" "health_ready ps g"
  shows "gw_lifecycle g = OwnerReady \<and> (\<exists>graph vector a m. ps = Some (graph, vector) \<and> gw_active g = Some a \<and>
    gm_generation_id m = gm_generation_id a \<and> graph m = Inr () \<and> vector m = Inr ())"
proof -
  have "probed ps g"
    by (rule gwsys.reach_invariant[OF assms(1)]) (simp add: probed_def new_gateway_def, rule probed_step)
  then obtain a m where "gw_active g = Some a" "gm_generation_id m = gm_generation_id a" "run_readiness_probes ps m = Inr ()"
    using assms(2) by (auto simp: probed_def health_ready_def split: option.splits)
  moreover obtain graph vector where ps: "ps = Some (graph, vector)" using assms(2) by (auto simp: health_ready_def)
  moreover have "graph m = Inr () \<and> vector m = Inr ()"
    using calculation by (simp add: run_readiness_probes_def rbind_def split: sum.splits)
  ultimately show ?thesis using assms(2) unfolding health_ready_def by metis
qed

theorem ready_means_probed_witness:
  "\<exists>g a. health_ready (Some (\<lambda>_. Inr (), \<lambda>_. Inr ())) g \<and> gw_lifecycle g = OwnerReady \<and> gw_active g = Some a \<and>
     gm_generation_id a = ''a''"
proof -
  let ?ps = "Some (\<lambda>_. Inr (), \<lambda>_. Inr ()) :: probes" and ?g0 = "new_gateway (restart sample_one) no_jobs"
  let ?r = "start_owned ?ps sample_target sample_manager ''t'' None None False False ?g0"
  have "gwsys.reach (restart sample_one) no_jobs ?ps sample_target sample_manager (snd ?r)"
    by (rule gwsys.reach_step[OF gwsys.reach_initial gwstep.gw_started]) (auto simp: new_gateway_def intro: prod.collapse[symmetric])
  moreover have h: "health_ready ?ps (snd ?r)" by code_simp
  ultimately have "gw_lifecycle (snd ?r) = OwnerReady" using ready_means_probed by blast
  moreover have "gw_active (snd ?r) = Some (sample_generation ''a'' GenPublished)" by code_simp
  ultimately show ?thesis using h by (intro exI[of _ "snd ?r"]) (auto simp: sample_generation_def)
qed

text \<open>
  C21. The exception: a cancelled publication of the generation that is already active makes the gateway
  report itself ready for it, whatever the probes say of it and even if it never ran them.
\<close>

theorem cancelled_publish_claims_ready:
  assumes "gw_lifecycle g = OwnerReady" "gw_running g" "recover mg (gw_store g) = (Inr (Some a), s')" "gm_generation_id a = gm_generation_id m"
    "gateway_publish (Some ps) CancelledBefore fs mg now validate m g = (r, g')"
  shows "r = Inl PublishCancelled \<and> health_ready (Some ps) g'"
  using assms by (auto simp: gateway_publish_def publish_write_def health_ready_def Let_def split: prod.splits)

theorem cancelled_publish_claims_ready_witness:
  "health_ready (Some (\<lambda>_. Inl OSError, \<lambda>_. Inl OSError))
     (snd (gateway_publish (Some (\<lambda>_. Inl OSError, \<lambda>_. Inl OSError)) CancelledBefore (Written, Written) sample_manager ''t'' (\<lambda>_. Inr [])
       (sample_generation ''a'' GenPublished) (sample_gateway\<lparr>gw_store := sample_one\<rparr>)))"
proof -
  let ?g = "sample_gateway\<lparr>gw_store := sample_one\<rparr>" and ?ps = "(\<lambda>_. Inl OSError, \<lambda>_. Inl OSError)"
  let ?r = "gateway_publish (Some ?ps) CancelledBefore (Written, Written) sample_manager ''t'' (\<lambda>_. Inr []) (sample_generation ''a'' GenPublished) ?g"
  have c: "recover sample_manager (gw_store ?g) = (Inr (Some (sample_generation ''a'' GenPublished)), snd (recover sample_manager (gw_store ?g)))"
    by (rule prod_eqI) (simp_all only: fst_conv snd_conv, code_simp)
  have g: "gw_lifecycle ?g = OwnerReady" "gw_running ?g" by (simp_all add: sample_gateway_def)
  show ?thesis using cancelled_publish_claims_ready[OF g c refl prod.collapse[symmetric]] by blast
qed

section \<open>Exclusive ownership\<close>


























end
