(* ===== verification/Spec2Isabelle.thy ===== *)
theory Spec2Isabelle
  imports Journal_Delivery Schema_Preflight Store_Gateway
begin

text \<open>
  A verification of two parts of CortexHarness: the durable graph-write path, and the owner of an
  embedded graph and vector store.

  \<^bold>\<open>The write path.\<close> Analyzers turn source code into
  rows of graph nodes and edges; the code under \<open>src/code-tiny/tools/graph\<close> makes the way of these
  rows into a graph database durable, ordered and repeatable: every batch of rows is first written
  to a content-addressed payload file and to a SQLite journal, is executed under a fenced lease,
  leaves a receipt in the graph, and is acknowledged only against that receipt or an exact count.

  \<^bold>\<open>The parts and how they interact.\<close> A parent process chooses the identity of a run and hands it to
  an analyzer process through environment variables (\<open>journal/config.py\<close>). There the language writer
  drives a \<open>GraphWriteJournalRuntime\<close> (\<open>journal/runtime.py\<close>): it opens the run, stores payloads
  (\<open>journal/artifacts.py\<close>), enqueues batches with their barriers, claims them, and settles the tickets
  it gets. What a batch does is a descriptor (\<open>journal/operation.py\<close>), from which only trusted Cypher
  is compiled (\<open>journal/executor.py\<close>, \<open>journal/reconcile.py\<close>, \<open>writer/query_contract.py\<close>). Every
  driver call passes the write guard (\<open>journal/guard.py\<close>), which refuses mutations outside a journaled
  operation and stamps the others with a receipt. After a crash a \<open>GraphWriteJournalConsumer\<close>
  (\<open>journal/consumer.py\<close>) drains the run from what is on disk. All of them share \<open>SQLiteJournal\<close>
  (\<open>journal/sqlite_store.py\<close>). The schema the graph must have is a manifest checked by a preflight
  (\<open>schema/manifest.py\<close>, \<open>schema/preflight.py\<close>), and project scoping of rows and queries is
  \<open>tools/common/project_scope.py\<close>.

  The embedded store (\<open>src/cortex_harness/storage\<close>) is owned by one process, its \<open>StoreGateway\<close>
  (\<open>gateway.py\<close>), which holds the leases of both stores. Every access goes through a bounded lane
  (\<open>admission.py\<close>). The data live in generations (\<open>generation.py\<close>): one is built aside, published by
  swapping the active manifest, pinned by readers, and retired when nobody reads it. Ingestion jobs
  are kept in memory and in a file from which the next owner recovers. Manifests, jobs and errors are
  the types of \<open>contracts.py\<close>.

  \<^bold>\<open>Theories and sources.\<close>
  \<^item> \<open>Journal_Prelude\<close>: results with exceptions, transactions, rows of tables, text, and the locale
    \<open>transition_system\<close>. \<open>Canonical_Json\<close>: JSON values, the canonical encoder and the parser.
  \<^item> \<open>Journal_Models\<close> (\<open>models.py\<close>, \<open>identity.py\<close>, \<open>retry.py\<close>), \<open>Journal_Operation\<close> (\<open>operation.py\<close>),
    \<open>Journal_Manifest\<close> (the manifest candidates of \<open>sqlite_store.py\<close>), \<open>Journal_Artifacts\<close>
    (\<open>artifacts.py\<close>).
  \<^item> \<open>Journal_Store\<close>, \<open>Journal_Lease\<close>, \<open>Journal_Audit\<close>: the producing, consuming and auditing halves of
    \<open>SQLiteJournal\<close>; a journal is a record of its tables, an operation a function from the observed
    environment and a journal to a result and a journal, composed inside one transaction as the code
    does it. \<open>Journal_System\<close> collects them as the operations of a transition system.
  \<^item> \<open>Journal_Invariant\<close>, \<open>Journal_Preservation\<close>, \<open>Journal_Evolution\<close>, \<open>Journal_Safety\<close>,
    \<open>Journal_Conservation\<close>: the invariants of every reachable journal, how one operation may change a
    row, and what follows: fences and leases, no blind replay, barriers, finality, one active run,
    conservation of rows. \<open>Journal_Samples\<close> is a concrete run the witnesses are evaluated on.
  \<^item> \<open>Journal_World\<close>: programs that make several journal calls, as state transformers with exceptions;
    the locales \<open>world_relation\<close> and \<open>journal_client\<close> give every such program what the journal
    guarantees. \<open>Journal_Config\<close>, \<open>Journal_Runtime\<close>, \<open>Journal_Consumer\<close> are the programs;
    \<open>Journal_Delivery\<close> puts consumer, guard, compilers and journal together against a graph driver.
  \<^item> \<open>Query_Contract\<close>, \<open>Journal_Compile\<close>, \<open>Journal_Guard\<close>: from descriptors and rows to guarded Cypher.
    \<open>Graph_Schema\<close>, \<open>Schema_Preflight\<close>, \<open>Project_Scope\<close>: the schema manifest, its preflight, and scoping.

  \<^item> \<open>Store_Generation\<close> (\<open>generation.py\<close>, \<open>contracts.py\<close>): the files and the memory of a generation
    manager, its operations, and its threads as a step relation in which what happens under the
    publication lock is one step and every file write may raise before or after it has replaced its file;
    \<open>Store_Lifecycle\<close>: the invariant of that relation and what follows; \<open>Store_Refinement\<close>: the abstract life
    cycle of generations, a locale for refinements of step relations, and the manager as an instance.
  \<^item> \<open>Store_Admission\<close> (\<open>admission.py\<close>): a lane, its counters and the requests in it. \<open>Store_Jobs\<close> (the jobs
    of \<open>gateway.py\<close>): the job table, the file, snapshots in flight, restarts. \<open>Store_Gateway\<close> (the rest of
    \<open>gateway.py\<close>): queries, publication, readiness, starting and closing, and the processes that compete
    for the leases.

  \<^bold>\<open>What the lemmas show.\<close> For the journal: every operation by anyone but the owner of a live lease is
  refused without effect; a batch whose outcome is unknown is not executed again unless its owner has
  decided so; dependencies are done before dependents are claimed; outcomes are final and enqueued
  work is never lost or altered short of a purge; run states, barriers and row manifests account
  exactly for the batches. For the compilers and the guard: compiled text consists of trusted words
  and checked identifiers, and every accepted mutation carries the receipt of its job. For the
  runtime: its sessions lose no work, its tickets grant what they say, an edge batch waits for the most
  recent node batches that wrote its endpoints.
  For the consumer: draining terminates, is complete, and under the receipt contract of the graph
  acknowledges a batch only when the graph has its receipt and leaves it executable only when the
  graph does not. For the rest: round trips of JSON, descriptors, payloads and configuration, bounds of
  retry delays, what the preflight has verified when it returns, and the agreement of the scope checks.
  For the embedded store: the manager implements an abstract life cycle of generations; no generation
  is removed under a reader, the active manifest names a generation that can be served, and retirement is
  final, in every run in which no tombstone is written while the manager's cache disagrees with the
  active manifest, which is the case between a publication that raised after replacing the manifest and the next
  \<open>recover\<close> (\<open>unreconciled_retirement\<close> shows what happens otherwise); a publication through the gateway that
  fails anywhere leaves file, manager and gateway in agreement; lanes count exactly; what the job file says
  of a job is never taken back, work that may have touched the store is never queued again, and a key
  names one job; two processes never serve the same store; and when readiness is what it says.

  \<^bold>\<open>Conventions.\<close> Text is the list of its UTF-8 bytes; \<open>strip\<close>, \<open>casefold\<close>, \<open>upper\<close> and the regular
  expressions are those of ASCII text. A float is its text. Timestamps are microseconds. SHA-256 is an
  argument, the same for the life of a journal; where an identity must be injective, the absence of a
  collision on the two inputs is a hypothesis. Clock, free space and tokens are arbitrary at every
  call. Constraint violations of the database are errors of the operation that causes them. Node and
  edge manifests are one table with a kind. The columns that only describe (paths of the database,
  event details) are left out. The graph driver, the operating system's view of paths and the
  schema inspection are arguments; what is assumed of the driver is stated by three named
  definitions of \<open>Journal_Delivery\<close>, which a concrete driver satisfies. In the store theories a JSON file
  is the object it encodes, and a file that is written is replaced as a whole or not at all; a call may
  raise before or after the replacement. A write of the job file that raises after it is, for the state, the same
  as one that succeeds. A crash is the end of the process, not of the operating system: replaced files stay
  replaced. Starting a gateway is one step, readiness is refreshed with the configured probes, updates keep the
  identity fields of a job, and the permits of a lane count the one a woken waiter has been promised.
  Waiting times and probe times are left out.

  \<^bold>\<open>Fuel.\<close> The JSON parser has fuel twice the length of its input plus one, and the round trip shows
  that this is enough. The polling loop of the preflight has fuel and is shown to end once the clock
  has passed its deadline. The drain loop has fuel and is shown to end when the fuel exceeds the work
  left in the journal: three for a leased, two for an ambiguous and one for a waiting batch. The store
  theories have no loops.

  \<^bold>\<open>Not modelled.\<close> Opening, migrating and inspecting the SQLite file, file modes, mounts and fsync:
  effects of SQLite and the operating system. Graph and vector drivers, MCP servers and the command
  line: input and output. Of the embedded store: its configuration, migration and clients, the disk
  space check, the registry of gateways, the handles of opened resources beyond whether closing them
  fails, and the construction from a storage factory. The language analyzers work on third-party syntax trees. Linking, document
  ingestion, topology detection and the sync orchestration are not part of this development.
\<close>

end
